(* ===== verification/Prelude.thy ===== *)
theory Prelude
  imports Main "HOL-Library.Word"
begin

text \<open>
  Shared vocabulary of the development: the machine types of the kernel
  (\<^verbatim>\<open>src/kernel/include/stdlib/types.h\<close>, compiled for AArch64), the flat byte memory the C
  code reads and writes, the error codes of \<^verbatim>\<open>err.h\<close>, the faults that stand for the
  undefined behaviour the code can run into, and the generic lemmas on words and address ranges
  that the component theories use.
\<close>

unbundle bit_operations_syntax

section \<open>Machine types\<close>

type_synonym u8 = "8 word"
type_synonym u16 = "16 word"
type_synonym u32 = "32 word"
type_synonym u64 = "64 word"

text \<open>Addresses are 64-bit; \<^verbatim>\<open>char\<close> is unsigned in the AArch64 ABI.\<close>

type_synonym addr = "64 word"
type_synonym mem = "addr \<Rightarrow> u8"

abbreviation NULL :: addr where "NULL \<equiv> 0"

text \<open>\<open>at a i\<close> is the C expression \<^verbatim>\<open>&a[i]\<close> for a byte pointer \<open>a\<close>.\<close>

abbreviation at :: "addr \<Rightarrow> nat \<Rightarrow> addr" where "at a i \<equiv> a + of_nat i"

text \<open>Reduction of an \<^verbatim>\<open>unsigned long\<close> sum, and the value of \<^verbatim>\<open>-1\<close> in that
  type.\<close>

definition wrap64 :: "nat \<Rightarrow> nat" where "wrap64 n = n mod 2 ^ 64"

definition ULONG_MAX :: nat where "ULONG_MAX = 2 ^ 64 - 1"

text \<open>Assignment to an \<^verbatim>\<open>int\<close> object: the value modulo \<open>2 ^ 32\<close>, read as two's
  complement.\<close>

definition int32 :: "int \<Rightarrow> int" where "int32 k = sint (word_of_int k :: u32)"

text \<open>Division of signed integers truncates towards zero.\<close>

definition cdiv :: "int \<Rightarrow> int \<Rightarrow> int" where "cdiv a b = sgn a * sgn b * (\<bar>a\<bar> div \<bar>b\<bar>)"

text \<open>Faults: what the code does where C leaves the behaviour undefined.\<close>

datatype fault = NullDeref | OutOfBounds

type_synonym 'a result = "fault + 'a"

definition bindR :: "'a result \<Rightarrow> ('a \<Rightarrow> 'b result) \<Rightarrow> 'b result" where
  "bindR r f = (case r of Inl e \<Rightarrow> Inl e | Inr x \<Rightarrow> f x)"

lemma bindR_simps [simp]: "bindR (Inl e) f = Inl e" "bindR (Inr x) f = f x"
  by (simp_all add: bindR_def)

lemma bindR_eq_Inr: "bindR r f = Inr y \<longleftrightarrow> (\<exists>x. r = Inr x \<and> f x = Inr y)"
  by (cases r) simp_all

text \<open>A result is taken apart inside a \<^theory_text>\<open>partial_function\<close>.\<close>

lemma case_sum_mono [partial_function_mono]:
  assumes "\<And>a. mono_option (\<lambda>f. F f a)" and "\<And>a. mono_option (\<lambda>f. G f a)"
  shows "mono_option (\<lambda>f. case w of Inl a \<Rightarrow> F f a | Inr a \<Rightarrow> G f a)"
  using assms by (cases w) simp_all

section \<open>Error codes\<close>

text \<open>The codes of \<^verbatim>\<open>err.h\<close> that the modelled code returns.\<close>

definition E_NOERR :: int where "E_NOERR = 0x0000"
definition E_NOSTART :: int where "E_NOSTART = 0x0010"
definition E_NOMEM :: int where "E_NOMEM = 0x0014"
definition E_NOHEAP :: int where "E_NOHEAP = 0x0015"
definition E_NOPAGE :: int where "E_NOPAGE = 0x0016"

lemmas err_codes = E_NOERR_def E_NOSTART_def E_NOMEM_def E_NOHEAP_def E_NOPAGE_def

section \<open>Collections\<close>

named_theorems mem_simps \<open>reading memory after a write\<close>
named_theorems bit_laws \<open>laws of the bitmap macros\<close>

section \<open>Words and addresses\<close>

lemma of_nat_eq_iff_small:
  assumes "i < 2 ^ LENGTH('a)" and "j < 2 ^ LENGTH('a)"
  shows "(of_nat i :: 'a::len word) = of_nat j \<longleftrightarrow> i = j"
  using assms by (simp add: word_of_nat_eq_iff take_bit_nat_eq_self)

lemma word64_of_nat_inject [simp]:
  assumes "i < 2 ^ 64" and "j < 2 ^ 64"
  shows "(of_nat i :: addr) = of_nat j \<longleftrightarrow> i = j"
  using assms of_nat_eq_iff_small [where 'a = 64, of i j] by simp

lemma at_at [simp]: "at (at a i) j = at a (i + j)"
  by (simp add: add.assoc)

lemma wrap64_id [simp]: "n < 2 ^ 64 \<Longrightarrow> wrap64 n = n"
  by (simp add: wrap64_def)

lemma int32_id [simp]: "- (2 ^ 31) \<le> k \<Longrightarrow> k < 2 ^ 31 \<Longrightarrow> int32 k = k"
  unfolding int32_def by (simp only: signed_of_int) (simp add: signed_take_bit_int_eq_self)

lemma cdiv_nonneg [simp]: "0 \<le> a \<Longrightarrow> 0 \<le> b \<Longrightarrow> cdiv a b = a div b"
  by (auto simp: cdiv_def sgn_if)

lemma unat_u32_lt: "unat (w :: u32) < 2 ^ 32"
  using unsigned_less [of w, where 'a = nat] by simp

lemma unat_at:
  assumes "unat a + i < 2 ^ 64"
  shows "unat (at a i) = unat a + i"
proof -
  from assms have "unat (of_nat i :: addr) = i"
    by (simp add: unat_of_nat)
  with assms show ?thesis
    by (simp add: unat_word_ariths)
qed

text \<open>Splitting off the first index of an interval, for loops that count up.\<close>

lemma all_from_Suc:
  "i < n \<Longrightarrow> (\<forall>k. i \<le> k \<and> k < n \<longrightarrow> P k) \<longleftrightarrow> P i \<and> (\<forall>k. Suc i \<le> k \<and> k < n \<longrightarrow> P k)"
  by (metis Suc_le_eq le_eq_less_or_eq)

section \<open>Address ranges\<close>

text \<open>The bytes \<open>a, a+1, \<dots>, a+n-1\<close>.\<close>

definition block :: "addr \<Rightarrow> nat \<Rightarrow> addr set" where
  "block a n = (\<lambda>i. at a i) ` {..<n}"

definition bytes :: "mem \<Rightarrow> addr \<Rightarrow> nat \<Rightarrow> u8 list" where
  "bytes m a n = map (\<lambda>i. m (at a i)) [0..<n]"

lemma length_bytes [simp]: "length (bytes m a n) = n"
  by (simp add: bytes_def)

lemma nth_bytes [simp]: "i < n \<Longrightarrow> bytes m a n ! i = m (at a i)"
  by (simp add: bytes_def)

lemma block_0 [simp]: "block a 0 = {}"
  by (simp add: block_def)

lemma at_in_block [intro]: "i < n \<Longrightarrow> at a i \<in> block a n"
  by (auto simp: block_def)

lemma in_blockE:
  assumes "x \<in> block a n"
  obtains i where "i < n" and "x = at a i"
  using assms by (auto simp: block_def)

lemma bytes_eqI:
  assumes "\<And>i. i < n \<Longrightarrow> m (at a i) = m' (at b i)"
  shows "bytes m a n = bytes m' b n"
  using assms by (auto intro: nth_equalityI)

lemma block_no_wrap:
  assumes "unat a + n \<le> 2 ^ 64"
  shows "x \<in> block a n \<longleftrightarrow> unat a \<le> unat x \<and> unat x < unat a + n"
proof
  assume "x \<in> block a n"
  then obtain i where i: "i < n" "x = at a i" by (rule in_blockE)
  with assms have "unat x = unat a + i" by (simp add: unat_at)
  with i show "unat a \<le> unat x \<and> unat x < unat a + n" by simp
next
  assume x: "unat a \<le> unat x \<and> unat x < unat a + n"
  define i where "i = unat x - unat a"
  with x have "i < n" by linarith
  have "unat a + i < 2 ^ 64" using x assms i_def by simp
  then have "unat (at a i) = unat x" using x by (simp add: unat_at i_def)
  then have "x = at a i" by (simp only: word_unat_eq_iff)
  with \<open>i < n\<close> show "x \<in> block a n" by (auto simp: block_def)
qed

end
