(* ===== verification/Bits.thy ===== *)
theory Bits
  imports Prelude
begin

text \<open>
  The bit-level helpers of the standard library: the bitmap macros of
  \<^verbatim>\<open>include/stdlib/bitmap.h\<close> (used by the physical page map and by the message queue),
  the bit-reversal table and functions of \<^verbatim>\<open>bitrev.c\<close> and \<^verbatim>\<open>bitrev.h\<close>, and
  \<^verbatim>\<open>ilog2\<close> of \<^verbatim>\<open>extra.h\<close>. The locale \<open>bitset\<close> is the contract a
  bitmap gives its clients; it is interpreted on the macros at both word sizes the kernel uses.
\<close>

section \<open>Bitmap macros\<close>

text \<open>
  The macros index an array of machine words by \<^verbatim>\<open>n/32\<close> and use the \<^verbatim>\<open>int\<close>
  mask \<^verbatim>\<open>1 << (n & 31)\<close>, which is sign-extended when the array elements are
  \<^verbatim>\<open>unsigned long\<close>. The array is the memory behind the pointer, a function of the index.
\<close>

definition bit_mask :: "nat \<Rightarrow> 'w::len word" where
  "bit_mask n = scast (push_bit (n mod 32) (1 :: 32 word))"

definition bm_set :: "(nat \<Rightarrow> 'w::len word) \<Rightarrow> nat \<Rightarrow> (nat \<Rightarrow> 'w word)" where
  "bm_set words n = words(n div 32 := words (n div 32) OR bit_mask n)"

definition bm_clear :: "(nat \<Rightarrow> 'w::len word) \<Rightarrow> nat \<Rightarrow> (nat \<Rightarrow> 'w word)" where
  "bm_clear words n = words(n div 32 := words (n div 32) AND NOT (bit_mask n))"

definition bm_get :: "(nat \<Rightarrow> 'w::len word) \<Rightarrow> nat \<Rightarrow> 'w word" where
  "bm_get words n = words (n div 32) AND bit_mask n"

text \<open>The macro's value in a condition.\<close>

definition bm_test :: "(nat \<Rightarrow> 'w::len word) \<Rightarrow> nat \<Rightarrow> bool" where
  "bm_test words n \<longleftrightarrow> bm_get words n \<noteq> 0"

section \<open>Bit reversal\<close>

definition byte_rev_table :: "u8 list" where
  "byte_rev_table = [
   0x00, 0x80, 0x40, 0xc0, 0x20, 0xa0, 0x60, 0xe0,
   0x10, 0x90, 0x50, 0xd0, 0x30, 0xb0, 0x70, 0xf0,
   0x08, 0x88, 0x48, 0xc8, 0x28, 0xa8, 0x68, 0xe8,
   0x18, 0x98, 0x58, 0xd8, 0x38, 0xb8, 0x78, 0xf8,
   0x04, 0x84, 0x44, 0xc4, 0x24, 0xa4, 0x64, 0xe4,
   0x14, 0x94, 0x54, 0xd4, 0x34, 0xb4, 0x74, 0xf4,
   0x0c, 0x8c, 0x4c, 0xcc, 0x2c, 0xac, 0x6c, 0xec,
   0x1c, 0x9c, 0x5c, 0xdc, 0x3c, 0xbc, 0x7c, 0xfc,
   0x02, 0x82, 0x42, 0xc2, 0x22, 0xa2, 0x62, 0xe2,
   0x12, 0x92, 0x52, 0xd2, 0x32, 0xb2, 0x72, 0xf2,
   0x0a, 0x8a, 0x4a, 0xca, 0x2a, 0xaa, 0x6a, 0xea,
   0x1a, 0x9a, 0x5a, 0xda, 0x3a, 0xba, 0x7a, 0xfa,
   0x06, 0x86, 0x46, 0xc6, 0x26, 0xa6, 0x66, 0xe6,
   0x16, 0x96, 0x56, 0xd6, 0x36, 0xb6, 0x76, 0xf6,
   0x0e, 0x8e, 0x4e, 0xce, 0x2e, 0xae, 0x6e, 0xee,
   0x1e, 0x9e, 0x5e, 0xde, 0x3e, 0xbe, 0x7e, 0xfe,
   0x01, 0x81, 0x41, 0xc1, 0x21, 0xa1, 0x61, 0xe1,
   0x11, 0x91, 0x51, 0xd1, 0x31, 0xb1, 0x71, 0xf1,
   0x09, 0x89, 0x49, 0xc9, 0x29, 0xa9, 0x69, 0xe9,
   0x19, 0x99, 0x59, 0xd9, 0x39, 0xb9, 0x79, 0xf9,
   0x05, 0x85, 0x45, 0xc5, 0x25, 0xa5, 0x65, 0xe5,
   0x15, 0x95, 0x55, 0xd5, 0x35, 0xb5, 0x75, 0xf5,
   0x0d, 0x8d, 0x4d, 0xcd, 0x2d, 0xad, 0x6d, 0xed,
   0x1d, 0x9d, 0x5d, 0xdd, 0x3d, 0xbd, 0x7d, 0xfd,
   0x03, 0x83, 0x43, 0xc3, 0x23, 0xa3, 0x63, 0xe3,
   0x13, 0x93, 0x53, 0xd3, 0x33, 0xb3, 0x73, 0xf3,
   0x0b, 0x8b, 0x4b, 0xcb, 0x2b, 0xab, 0x6b, 0xeb,
   0x1b, 0x9b, 0x5b, 0xdb, 0x3b, 0xbb, 0x7b, 0xfb,
   0x07, 0x87, 0x47, 0xc7, 0x27, 0xa7, 0x67, 0xe7,
   0x17, 0x97, 0x57, 0xd7, 0x37, 0xb7, 0x77, 0xf7,
   0x0f, 0x8f, 0x4f, 0xcf, 0x2f, 0xaf, 0x6f, 0xef,
   0x1f, 0x9f, 0x5f, 0xdf, 0x3f, 0xbf, 0x7f, 0xff]"

definition bitrev8 :: "u8 \<Rightarrow> u8" where
  "bitrev8 byte = byte_rev_table ! unat byte"

definition bitrev16 :: "u16 \<Rightarrow> u16" where
  "bitrev16 x = push_bit 8 (ucast (bitrev8 (ucast (x AND 0xff)))) OR ucast (bitrev8 (ucast (drop_bit 8 x)))"

definition bitrev32 :: "u32 \<Rightarrow> u32" where
  "bitrev32 x = push_bit 16 (ucast (bitrev16 (ucast (x AND 0xffff)))) OR ucast (bitrev16 (ucast (drop_bit 16 x)))"

text \<open>The macros used when the argument is a compile-time constant.\<close>

definition constant_bitrev32 :: "u32 \<Rightarrow> u32" where
  "constant_bitrev32 x =
     (let x = drop_bit 16 x OR push_bit 16 x;
          x = drop_bit 8 (x AND 0xFF00FF00) OR push_bit 8 (x AND 0x00FF00FF);
          x = drop_bit 4 (x AND 0xF0F0F0F0) OR push_bit 4 (x AND 0x0F0F0F0F);
          x = drop_bit 2 (x AND 0xCCCCCCCC) OR push_bit 2 (x AND 0x33333333);
          x = drop_bit 1 (x AND 0xAAAAAAAA) OR push_bit 1 (x AND 0x55555555)
      in x)"

definition constant_bitrev16 :: "u16 \<Rightarrow> u16" where
  "constant_bitrev16 x =
     (let x = drop_bit 8 x OR push_bit 8 x;
          x = drop_bit 4 (x AND 0xF0F0) OR push_bit 4 (x AND 0x0F0F);
          x = drop_bit 2 (x AND 0xCCCC) OR push_bit 2 (x AND 0x3333);
          x = drop_bit 1 (x AND 0xAAAA) OR push_bit 1 (x AND 0x5555)
      in x)"

definition constant_bitrev8 :: "u8 \<Rightarrow> u8" where
  "constant_bitrev8 x =
     (let x = drop_bit 4 x OR push_bit 4 x;
          x = drop_bit 2 (x AND 0xCC) OR push_bit 2 (x AND 0x33);
          x = drop_bit 1 (x AND 0xAA) OR push_bit 1 (x AND 0x55)
      in x)"

section \<open>Integer logarithm\<close>

text \<open>
  \<^verbatim>\<open>while ((1UL << l) < v) l++;\<close> A shift by 64 or more is undefined in C: the loop
  then has no value, \<open>None\<close>.
\<close>

function ilog2_loop :: "u64 \<Rightarrow> nat \<Rightarrow> nat option" where
  "ilog2_loop v l =
     (if 64 \<le> l then None
      else if push_bit l (1 :: u64) < v then ilog2_loop v (l + 1) else Some l)"
  by pat_completeness auto
termination
  by (relation "measure (\<lambda>(v, l). 64 - l)") auto

definition ilog2 :: "u64 \<Rightarrow> nat option" where
  "ilog2 v = ilog2_loop v 0"

section \<open>The contract of a bitmap\<close>

text \<open>
  What a client of a bitmap relies on: setting and clearing a bit changes that bit and no other.
  The client lemmas are about the loops that mark or release a run of bits.
\<close>

locale bitset =
  fixes set_b :: "'m \<Rightarrow> nat \<Rightarrow> 'm"
    and clr_b :: "'m \<Rightarrow> nat \<Rightarrow> 'm"
    and get_b :: "'m \<Rightarrow> nat \<Rightarrow> bool"
  assumes get_set: "get_b (set_b m i) j \<longleftrightarrow> i = j \<or> get_b m j"
    and get_clr: "get_b (clr_b m i) j \<longleftrightarrow> i \<noteq> j \<and> get_b m j"
begin

lemma get_fold_set:
  "get_b (fold (\<lambda>i m. set_b m (f i)) xs m) j \<longleftrightarrow> j \<in> f ` set xs \<or> get_b m j"
  by (induction xs arbitrary: m) (auto simp: get_set)

lemma get_fold_clr:
  "get_b (fold (\<lambda>i m. clr_b m (f i)) xs m) j \<longleftrightarrow> j \<notin> f ` set xs \<and> get_b m j"
  by (induction xs arbitrary: m) (auto simp: get_clr)

lemma clr_after_set:
  assumes "\<not> get_b m i"
  shows "get_b (clr_b (set_b m i) i) j \<longleftrightarrow> get_b m j"
  using assms by (auto simp: get_set get_clr)

end

section \<open>The macros satisfy the contract\<close>

lemma bit_bit_mask:
  assumes "32 \<le> LENGTH('w::len)"
  shows "bit (bit_mask n :: 'w word) k \<longleftrightarrow> k < LENGTH('w) \<and> min 31 k = n mod 32"
  using assms by (auto simp: bit_mask_def bit_simps)

lemma bm_test_iff:
  assumes "32 \<le> LENGTH('w::len)"
  shows "bm_test (words :: nat \<Rightarrow> 'w word) n \<longleftrightarrow>
    (\<exists>k < LENGTH('w). min 31 k = n mod 32 \<and> bit (words (n div 32)) k)"
  unfolding bm_test_def bm_get_def
  by (auto simp: bit_eq_iff bit_and_iff bit_bit_mask [OF assms])

lemma div_mod_32_eq: "n div 32 = m div 32 \<Longrightarrow> n mod 32 = m mod 32 \<Longrightarrow> n = (m :: nat)"
  by (metis div_mult_mod_eq)

lemma bm_test_set:
  assumes "32 \<le> LENGTH('w::len)"
  shows "bm_test (bm_set (words :: nat \<Rightarrow> 'w word) i) j \<longleftrightarrow> i = j \<or> bm_test words j"
proof -
  have "\<exists>k < LENGTH('w). min 31 k = j mod 32"
    using assms by (intro exI [of _ "j mod 32"]) (auto simp: min_def intro: less_le_trans [of _ 32])
  then show ?thesis
    by (auto simp: bm_test_iff [OF assms] bm_set_def bit_or_iff bit_bit_mask [OF assms]
        dest: div_mod_32_eq)
qed

lemma bm_test_clear:
  assumes "32 \<le> LENGTH('w::len)"
  shows "bm_test (bm_clear (words :: nat \<Rightarrow> 'w word) i) j \<longleftrightarrow> i \<noteq> j \<and> bm_test words j"
  by (auto simp: bm_test_iff [OF assms] bm_clear_def bit_and_iff bit_not_iff bit_bit_mask [OF assms]
      dest: div_mod_32_eq)

interpretation bm32: bitset "bm_set :: (nat \<Rightarrow> u32) \<Rightarrow> nat \<Rightarrow> (nat \<Rightarrow> u32)" bm_clear bm_test
  by unfold_locales (auto simp: bm_test_set bm_test_clear)

interpretation bm64: bitset "bm_set :: (nat \<Rightarrow> u64) \<Rightarrow> nat \<Rightarrow> (nat \<Rightarrow> u64)" bm_clear bm_test
  by unfold_locales (auto simp: bm_test_set bm_test_clear)

section \<open>Bit reversal is correct\<close>

lemma ball_bytes:
  assumes "list_all (\<lambda>n. P (word_of_nat n)) [0..<256]"
  shows "P (b :: u8)"
proof -
  from assms have all: "\<And>n. n < 256 \<Longrightarrow> P (word_of_nat n)" by (simp add: list_all_iff)
  have "unat b < 256" using unsigned_less [of b, where 'a = nat] by simp
  then have "P (word_of_nat (unat b))" by (rule all)
  then show ?thesis by simp
qed

lemma bitrev8_all:
  "list_all (\<lambda>n. list_all (\<lambda>i. bit (bitrev8 (word_of_nat n)) i = bit (word_of_nat n :: u8) (7 - i)) [0..<8]) [0..<256]"
  unfolding bitrev8_def byte_rev_table_def by code_simp

lemma bit_bitrev8: "i < 8 \<Longrightarrow> bit (bitrev8 b) i \<longleftrightarrow> bit b (7 - i)"
  using ball_bytes [OF bitrev8_all, of b] by (simp add: list_all_iff)

lemma mask_bytes: "(255 :: 'a::len word) = mask 8" "(65535 :: 'a word) = mask 16"
  by (simp_all add: mask_eq_exp_minus_1)

lemma bit_bitrev16: "i < 16 \<Longrightarrow> bit (bitrev16 x) i \<longleftrightarrow> bit x (15 - i)"
  by (cases "i < 8") (auto simp: bitrev16_def bit_simps bit_bitrev8 mask_bytes dest: bit_imp_le_length)

lemma bit_bitrev32: "i < 32 \<Longrightarrow> bit (bitrev32 x) i \<longleftrightarrow> bit x (31 - i)"
  by (cases "i < 16") (auto simp: bitrev32_def bit_simps bit_bitrev16 mask_bytes dest: bit_imp_le_length)

lemma all_less_32:
  "(\<forall>i < 32. P (i :: nat)) \<longleftrightarrow>
   P 0 \<and> P 1 \<and> P 2 \<and> P 3 \<and> P 4 \<and> P 5 \<and> P 6 \<and> P 7 \<and> P 8
   \<and> P 9 \<and> P 10 \<and> P 11 \<and> P 12 \<and> P 13 \<and> P 14 \<and> P 15 \<and> P 16
   \<and> P 17 \<and> P 18 \<and> P 19 \<and> P 20 \<and> P 21 \<and> P 22 \<and> P 23 \<and> P 24
   \<and> P 25 \<and> P 26 \<and> P 27 \<and> P 28 \<and> P 29 \<and> P 30 \<and> P 31"
  by (simp add: numeral_eq_Suc All_less_Suc conj_ac)

lemmas bit_step = bit_or_iff bit_and_iff bit_push_bit_iff bit_drop_bit_eq comp_def possible_bit_def

lemma bit_constant_bitrev32: "\<forall>i < 32. bit (constant_bitrev32 x) i \<longleftrightarrow> bit x (31 - i)"
  unfolding all_less_32 constant_bitrev32_def Let_def
  by (simp only: bit_step) (auto dest: bit_imp_le_length)

lemma bit_constant_bitrev16:
  "\<forall>i < 32. i < 16 \<longrightarrow> (bit (constant_bitrev16 x) i \<longleftrightarrow> bit x (15 - i))"
  unfolding all_less_32 constant_bitrev16_def Let_def
  by (simp only: bit_step) (auto dest: bit_imp_le_length)

lemma bit_constant_bitrev8:
  "\<forall>i < 32. i < 8 \<longrightarrow> (bit (constant_bitrev8 x) i \<longleftrightarrow> bit x (7 - i))"
  unfolding all_less_32 constant_bitrev8_def Let_def
  by (simp only: bit_step) (auto dest: bit_imp_le_length)

lemma bitrev16_eq_constant: "bitrev16 x = constant_bitrev16 x"
  using bit_constant_bitrev16 [of x] by (intro bit_word_eqI) (simp add: bit_bitrev16)

lemma bitrev8_eq_constant: "bitrev8 x = constant_bitrev8 x"
  using bit_constant_bitrev8 [of x] by (intro bit_word_eqI) (simp add: bit_bitrev8)

lemma bitrev32_eq_constant: "bitrev32 x = constant_bitrev32 x"
  using bit_constant_bitrev32 [of x] by (intro bit_word_eqI) (simp add: bit_bitrev32)

text \<open>
  the table-driven \<^verbatim>\<open>bitrev32\<close> computes the same word as the macro used on
  compile-time constants, and it is an involution: applied twice it gives the argument back.
\<close>

theorem bitrev32_reverses:
  "bitrev32 x = constant_bitrev32 x \<and> bitrev32 (bitrev32 x) = x"
proof
  show "bitrev32 x = constant_bitrev32 x" by (rule bitrev32_eq_constant)
  show "bitrev32 (bitrev32 x) = x" by (rule bit_word_eqI) (simp add: bit_bitrev32)
qed

section \<open>The integer logarithm\<close>

declare ilog2_loop.simps [simp del]

lemma unat_shift_1: "l < 64 \<Longrightarrow> unat (2 ^ l :: u64) = 2 ^ l"
  using unsigned_push_bit_eq [of l "1 :: u64", where 'a = nat] by (simp add: take_bit_nat_eq_self)

lemma ilog2_loop_None: "2 ^ 63 < unat v \<Longrightarrow> ilog2_loop v l = None"
proof (induction v l rule: ilog2_loop.induct)
  case (1 v l)
  show ?case
  proof (cases "64 \<le> l")
    case False
    then have "unat (push_bit l (1 :: u64)) = 2 ^ l" by (simp add: unat_shift_1)
    also have "\<dots> \<le> 2 ^ 63" using False by (intro power_increasing) auto
    finally have "push_bit l (1 :: u64) < v" using "1.prems" by (simp add: word_less_nat_alt)
    with False "1" show ?thesis by (simp add: ilog2_loop.simps [of v l])
  qed (simp add: ilog2_loop.simps [of v l])
qed

lemma ilog2_loop_Some:
  assumes "unat v \<le> 2 ^ 63" and "l \<le> 63" and "0 < l \<Longrightarrow> 2 ^ (l - 1) < unat v"
  shows "\<exists>r \<le> 63. ilog2_loop v l = Some r \<and> unat v \<le> 2 ^ r \<and> (0 < r \<longrightarrow> 2 ^ (r - 1) < unat v)"
  using assms
proof (induction v l rule: ilog2_loop.induct)
  case (1 v l)
  have p: "unat (2 ^ l :: u64) = 2 ^ l"
    using "1.prems"(2) by (simp add: unat_shift_1)
  show ?case
  proof (cases "push_bit l (1 :: u64) < v")
    case True
    then have less: "2 ^ l < unat v" by (simp add: word_less_nat_alt p)
    with "1.prems"(1) have "(2 :: nat) ^ l < 2 ^ 63" by linarith
    then have "l < 63" by (rule power_less_imp_less_exp [rotated]) simp
    then show ?thesis
      using "1.IH" True less "1.prems" by (simp add: ilog2_loop.simps [of v l])
  next
    case False
    then have "unat v \<le> 2 ^ l" by (simp add: word_less_nat_alt p)
    with False "1.prems" show ?thesis by (simp add: ilog2_loop.simps [of v l])
  qed
qed

lemma ilog2_ceiling:
  assumes "unat v \<le> 2 ^ 63"
  shows "\<exists>l \<le> 63. ilog2 v = Some l \<and> unat v \<le> 2 ^ l \<and> (0 < l \<longrightarrow> 2 ^ (l - 1) < unat v)"
  using ilog2_loop_Some [OF assms, of 0] by (simp add: ilog2_def)

lemma ilog2_undefined: "2 ^ 63 < unat v \<Longrightarrow> ilog2 v = None"
  by (simp add: ilog2_def ilog2_loop_None)

end
