(* ===== verification/Mem_Ops.thy ===== *)
theory Mem_Ops
  imports Prelude
begin

text \<open>
  The raw memory routines of \<^verbatim>\<open>stdlib/string.c\<close> and \<^verbatim>\<open>stdlib/memset.c\<close> over the
  flat byte memory. The kernel's \<^verbatim>\<open>size_t\<close> is 32 bits wide
  (\<^verbatim>\<open>types.h\<close>), so a length is a \<open>u32\<close> and the overlap test of
  \<^verbatim>\<open>memmove\<close> compares a 64-bit difference with a 32-bit product. Each routine returns the
  new memory and the pointer the C function returns.
\<close>

section \<open>The routines\<close>

text \<open>One byte assignment \<^verbatim>\<open>d[i] = s[i]\<close>.\<close>

definition copy_byte :: "addr \<Rightarrow> addr \<Rightarrow> nat \<Rightarrow> mem \<Rightarrow> mem" where
  "copy_byte d s i m = m(at d i := m (at s i))"

definition memcpy :: "mem \<Rightarrow> addr \<Rightarrow> addr \<Rightarrow> u32 \<Rightarrow> mem \<times> addr" where
  "memcpy m dest src n =
     (if dest = NULL then (m, NULL)
      else (fold (copy_byte dest src) [0..<unat n] m, dest))"

text \<open>The overlap test \<^verbatim>\<open>(uintptr_t)s-(uintptr_t)d-n <= -2*n\<close>.\<close>

definition memmove_far :: "addr \<Rightarrow> addr \<Rightarrow> u32 \<Rightarrow> bool" where
  "memmove_far d s n \<longleftrightarrow> s - d - ucast n \<le> ucast (- 2 * n)"

definition memmove :: "mem \<Rightarrow> addr \<Rightarrow> addr \<Rightarrow> u32 \<Rightarrow> mem \<times> addr" where
  "memmove m d s n =
     (if d = s then (m, d)
      else if memmove_far d s n then memcpy m d s n
      else if d < s then (fold (copy_byte d s) [0..<unat n] m, d)
      else (fold (copy_byte d s) (rev [0..<unat n]) m, d))"

definition memset :: "mem \<Rightarrow> addr \<Rightarrow> u8 \<Rightarrow> u32 \<Rightarrow> mem \<times> addr" where
  "memset m dest val n = (fold (\<lambda>i m. m(at dest i := val)) [0..<unat n] m, dest)"

text \<open>\<^verbatim>\<open>while (1)\<close> with the exit \<^verbatim>\<open>i == n\<close>; the result is the difference of the first
  two bytes that differ.\<close>

function memcmp_loop :: "mem \<Rightarrow> addr \<Rightarrow> addr \<Rightarrow> nat \<Rightarrow> nat \<Rightarrow> int" where
  "memcmp_loop m s1 s2 n i =
     (if n \<le> i then 0
      else (let r = uint (m (at s1 i)) - uint (m (at s2 i))
            in if r \<noteq> 0 then r else memcmp_loop m s1 s2 n (Suc i)))"
  by pat_completeness auto
termination
  by (relation "measure (\<lambda>(m, s1, s2, n, i). n - i)") auto

definition memcmp :: "mem \<Rightarrow> addr \<Rightarrow> addr \<Rightarrow> u32 \<Rightarrow> int" where
  "memcmp m s1 s2 n = memcmp_loop m s1 s2 (unat n) 0"

declare memcmp_loop.simps [simp del]

section \<open>Copying\<close>

text \<open>
  A run of byte copies moves the source to the destination when no byte is read after it was
  overwritten.
\<close>

lemma fold_copy_byte:
  assumes "distinct xs" and "\<forall>i \<in> set xs. i < 2 ^ 64"
    and "sorted_wrt (\<lambda>i j. at s j \<noteq> at d i) xs"
  shows "(\<forall>i \<in> set xs. fold (copy_byte d s) xs m (at d i) = m (at s i)) \<and>
    (\<forall>x. x \<notin> at d ` set xs \<longrightarrow> fold (copy_byte d s) xs m x = m x)"
  using assms
proof (induction xs arbitrary: m)
  case (Cons x xs)
  let ?m = "copy_byte d s x m"
  have IH: "(\<forall>i \<in> set xs. fold (copy_byte d s) xs ?m (at d i) = ?m (at s i)) \<and>
      (\<forall>y. y \<notin> at d ` set xs \<longrightarrow> fold (copy_byte d s) xs ?m y = ?m y)"
    using Cons.prems by (intro Cons.IH) auto
  have "at d x \<notin> at d ` set xs"
    using Cons.prems(1,2) by (auto dest!: of_nat_eq_iff_small [THEN iffD1, rotated 2])
  then have "fold (copy_byte d s) xs ?m (at d x) = m (at s x)"
    using IH by (simp add: copy_byte_def)
  moreover have "\<forall>i \<in> set xs. fold (copy_byte d s) xs ?m (at d i) = m (at s i)"
    using IH Cons.prems(3) by (simp add: copy_byte_def)
  moreover have "\<forall>y. y \<notin> at d ` set (x # xs) \<longrightarrow> fold (copy_byte d s) xs ?m y = m y"
    using IH by (simp add: copy_byte_def)
  ultimately show ?case by simp
qed simp

lemma fold_copy_up:
  assumes "unat s + n \<le> 2 ^ 64" and "unat d + n \<le> 2 ^ 64" and "d < s \<or> block d n \<inter> block s n = {}"
    and "n \<le> 2 ^ 32" and m': "m' = fold (copy_byte d s) [0..<n] m"
  shows "bytes m' d n = bytes m s n \<and> (\<forall>x. x \<notin> block d n \<longrightarrow> m' x = m x)"
proof -
  have later: "at s j \<noteq> at d i" if "i < j" "j < n" for i j
  proof (cases "d < s")
    case True
    then have "unat (at d i) < unat (at s j)"
      using that assms(1,2) by (simp add: unat_at word_less_nat_alt)
    then show ?thesis by auto
  next
    case False
    then have "at s j \<in> block s n" "at d i \<in> block d n" "block d n \<inter> block s n = {}"
      using assms(3) that by auto
    then show ?thesis by auto
  qed
  have "sorted_wrt (\<lambda>i j. at s j \<noteq> at d i) [0..<n]"
    unfolding sorted_wrt_iff_nth_less using later by simp
  then show ?thesis
    using fold_copy_byte [of "[0..<n]" s d m] assms(4)
    by (auto simp: m' block_def atLeast0LessThan intro!: nth_equalityI)
qed

lemma fold_copy_down:
  assumes "unat s + n \<le> 2 ^ 64" and "unat d + n \<le> 2 ^ 64" and "s < d" and "n \<le> 2 ^ 32"
    and m': "m' = fold (copy_byte d s) (rev [0..<n]) m"
  shows "bytes m' d n = bytes m s n \<and> (\<forall>x. x \<notin> block d n \<longrightarrow> m' x = m x)"
proof -
  have later: "at s i \<noteq> at d j" if "i < j" "j < n" for i j
  proof -
    have "unat (at s i) < unat (at d j)"
      using that assms(1-3) by (simp add: unat_at word_less_nat_alt)
    then show ?thesis by auto
  qed
  have "sorted_wrt (\<lambda>j i. at s j \<noteq> at d i) [0..<n]"
    unfolding sorted_wrt_iff_nth_less using later by simp
  then have "sorted_wrt (\<lambda>i j. at s j \<noteq> at d i) (rev [0..<n])"
    by (simp only: sorted_wrt_rev)
  then show ?thesis
    using fold_copy_byte [of "rev [0..<n]" s d m] assms(4)
    by (auto simp: m' block_def atLeast0LessThan intro!: nth_equalityI)
qed

lemma memcpy_disjoint:
  assumes "unat src + unat n \<le> 2 ^ 64" and "unat dest + unat n \<le> 2 ^ 64" and "dest \<noteq> NULL"
    and "block dest (unat n) \<inter> block src (unat n) = {}" and "memcpy m dest src n = (m', p)"
  shows "p = dest \<and> bytes m' dest (unat n) = bytes m src (unat n) \<and>
    (\<forall>x. x \<notin> block dest (unat n) \<longrightarrow> m' x = m x)"
proof -
  have "m' = fold (copy_byte dest src) [0..<unat n] m" "p = dest"
    using assms(3,5) by (auto simp: memcpy_def)
  with fold_copy_up [OF assms(1,2)] assms(4) unat_u32_lt [of n] show ?thesis by auto
qed

lemma unat_ucast_up: "unat (ucast (n :: u32) :: u64) = unat n"
  by (simp add: unsigned_ucast_eq take_bit_nat_eq_self less_trans [OF unat_u32_lt])

text \<open>
  The overlap test of \<^verbatim>\<open>memmove\<close> never sends overlapping ranges to
  \<^verbatim>\<open>memcpy\<close>, although its right-hand side is only 32 bits wide.
\<close>

lemma memmove_test_disjoint:
  assumes "unat s + unat n \<le> 2 ^ 64" and "unat d + unat n \<le> 2 ^ 64"
    and "memmove_far d s n"
  shows "block d (unat n) \<inter> block s (unat n) = {}"
proof -
  have "unat (s - d - ucast n) \<le> unat (- 2 * n)"
    using assms(3) unat_ucast_up [of "- 2 * n"] by (simp only: memmove_far_def word_le_nat_alt)
  then have "unat (s - d - ucast n) < 2 ^ 32"
    using unat_u32_lt [of "- 2 * n"] by linarith
  then have "unat s < unat d \<Longrightarrow> unat s + unat n \<le> unat d"
    and "unat d \<le> unat s \<Longrightarrow> unat d + unat n \<le> unat s"
    using assms(1,2) unat_u32_lt [of n] 
    by (auto simp: unat_sub_if' unat_ucast_up split: if_splits)
  then show ?thesis
    using assms(1,2) by (fastforce simp: block_no_wrap)
qed

text \<open>
  C10: \<^verbatim>\<open>memmove\<close> copies \<open>n\<close> bytes from \<open>s\<close> to \<open>d\<close> for every pair of
  ranges that do not wrap around the address space, overlapping or not: the destination
  holds what the source held before the call, every other byte is unchanged, and the result
  is the destination pointer.
\<close>

theorem memmove_correct:
  assumes "unat s + unat n \<le> 2 ^ 64" and "unat d + unat n \<le> 2 ^ 64" and "d \<noteq> NULL"
    and "memmove m d s n = (m', p)"
  shows "p = d \<and> bytes m' d (unat n) = bytes m s (unat n) \<and>
    (\<forall>x. x \<notin> block d (unat n) \<longrightarrow> m' x = m x)"
proof -
  note small = less_imp_le [OF unat_u32_lt [of n]]
  consider "d = s" | "d \<noteq> s" "memmove_far d s n"
    | "d < s" "d \<noteq> s" "\<not> memmove_far d s n"
    | "s < d" "d \<noteq> s" "\<not> d < s" "\<not> memmove_far d s n"
    by (metis linorder_less_linear order_less_asym)
  then show ?thesis
  proof cases
    case 1
    then show ?thesis using assms(4) by (auto simp: memmove_def)
  next
    case 2
    then show ?thesis
      using assms memcpy_disjoint [OF assms(1-3)] memmove_test_disjoint [OF assms(1,2)]
      by (simp add: memmove_def)
  next
    case 3
    then show ?thesis
      using assms(4) fold_copy_up [OF assms(1,2) _ small] by (auto simp: memmove_def)
  next
    case 4
    then show ?thesis
      using assms(4) fold_copy_down [OF assms(1,2) _ small] by (auto simp: memmove_def)
  qed
qed

theorem memmove_correct_witness:
  "bytes (fst (memmove (\<lambda>a. ucast a) 4097 4096 3)) 4097 3 = bytes (\<lambda>a. ucast a) 4096 3"
  using memmove_correct [of 4096 3 4097 "\<lambda>a. ucast a"
      "fst (memmove (\<lambda>a. ucast a) 4097 4096 3)" "snd (memmove (\<lambda>a. ucast a) 4097 4096 3)"]
  by simp

section \<open>Filling and comparing\<close>

lemma fold_set_byte:
  "fold (\<lambda>i m. m(at d i := v)) xs m x = (if x \<in> at d ` set xs then v else m x)"
  by (induction xs arbitrary: m) auto

lemma memset_apply [mem_simps]:
  "fst (memset m d v n) x = (if x \<in> block d (unat n) then v else m x)"
  by (simp add: memset_def fold_set_byte block_def atLeast0LessThan)

lemma memcmp_loop_0_iff:
  "memcmp_loop m s1 s2 n i = 0 \<longleftrightarrow> (\<forall>k. i \<le> k \<and> k < n \<longrightarrow> m (at s1 k) = m (at s2 k))"
proof (induction m s1 s2 n i rule: memcmp_loop.induct)
  case (1 m s1 s2 n i)
  then show ?case
    by (cases "n \<le> i") (simp_all add: memcmp_loop.simps [of m s1 s2 n i] Let_def
        all_from_Suc word_uint_eq_iff)
qed

lemma memcmp_eq_0_iff: "memcmp m s1 s2 n = 0 \<longleftrightarrow> bytes m s1 (unat n) = bytes m s2 (unat n)"
  by (auto simp: memcmp_def memcmp_loop_0_iff list_eq_iff_nth_eq)

end
