(* ===== verification/Page_Reserve.thy ===== *)
theory Page_Reserve
  imports Bits Mem_Ops
begin

text \<open>
  The physical page allocator, \<^verbatim>\<open>kernel/src/memory/hardware_reserve.c\<close>: a bitmap
  \<^verbatim>\<open>MEMORY_MAP\<close> of 4096-byte chunks, the first 16 MB for the kernel and the rest for user
  regions. The global variables of the file are the fields of the record \<open>phys\<close>; the
  memory the routines clear is its field \<open>pmem\<close>. Loop counters are natural numbers; where
  the C arithmetic is modulo a power of two the modulus is written out.
\<close>

section \<open>State and operations\<close>

record phys =
  MEMORY_TOTAL :: u64
  MEMORY_MAP :: "nat \<Rightarrow> u64"
  MAX_CHUNK :: u32
  MEM_OFFSET :: u64
  pmem :: mem

definition MAX_MEMORY :: u64 where "MAX_MEMORY = 1024 * 1024 * 1024"
definition KERNEL_RESERVED :: nat where "KERNEL_RESERVED = 16 * 1024 * 1024"
definition CHUNK_SIZE :: nat where "CHUNK_SIZE = 4096"
definition MEM_K :: u32 where "MEM_K = 0"
definition MEM_U :: u32 where "MEM_U = 1"

lemmas phys_consts = MAX_MEMORY_def KERNEL_RESERVED_def CHUNK_SIZE_def MEM_K_def MEM_U_def

definition mem_init :: "phys \<Rightarrow> u64 \<Rightarrow> u64 \<Rightarrow> int \<times> phys" where
  "mem_init s memory_total memory_kernel =
     (if memory_total > MEMORY_TOTAL s then (- E_NOMEM, s)
      else if unat memory_kernel > KERNEL_RESERVED then (- E_NOMEM, s)
      else
        (let n = unat memory_kernel div CHUNK_SIZE;
             map0 = fold (\<lambda>i m. m(i := 0)) [0..<n] (MEMORY_MAP s);
             map1 = fold (\<lambda>i m. bm_set m i) [0..<n] map0
         in (0, s\<lparr>MAX_CHUNK := of_nat (unat memory_total div CHUNK_SIZE), MEMORY_MAP := map1\<rparr>)))"

definition memory_init :: "phys \<Rightarrow> u64 \<Rightarrow> phys" where
  "memory_init s mem_kernel =
     (let s = s\<lparr>MEMORY_TOTAL := MAX_MEMORY\<rparr> in snd (mem_init s (MEMORY_TOTAL s) mem_kernel))"

text \<open>
  The inner loop of \<^verbatim>\<open>find_free\<close>: the value of \<open>j\<close> when it stops, at the first used
  chunk of the run starting at \<open>i\<close> or at \<open>n\<close>.
\<close>

function free_run :: "(nat \<Rightarrow> u64) \<Rightarrow> nat \<Rightarrow> nat \<Rightarrow> nat \<Rightarrow> nat" where
  "free_run mp n i j =
     (if j < n then if bm_test mp (wrap64 (i + j)) then j else free_run mp n i (Suc j) else j)"
  by pat_completeness auto
termination
  by (relation "measure (\<lambda>(mp, n, i, j). n - j)") auto

text \<open>The two tests of the outer loop for chunk \<open>i\<close>.\<close>

definition free_run_fits :: "(nat \<Rightarrow> u64) \<Rightarrow> nat \<Rightarrow> nat \<Rightarrow> nat \<Rightarrow> bool" where
  "free_run_fits mp n i stop \<longleftrightarrow>
     \<not> bm_test mp i \<and> (let j = free_run mp n i 0 in j = n \<and> wrap64 (i + j) < stop)"

text \<open>The outer loop; \<^verbatim>\<open>return -1\<close> is the largest \<^verbatim>\<open>unsigned long\<close>.\<close>

function find_free_from :: "(nat \<Rightarrow> u64) \<Rightarrow> nat \<Rightarrow> nat \<Rightarrow> nat \<Rightarrow> nat" where
  "find_free_from mp n i stop =
     (if i < stop then
        if free_run_fits mp n i stop then i else find_free_from mp n (Suc i) stop
      else ULONG_MAX)"
  by pat_completeness auto
termination
  by (relation "measure (\<lambda>(mp, n, i, stop). stop - i)") auto

text \<open>\<open>n_chunks\<close> is an \<^verbatim>\<open>int\<close>; compared with \<^verbatim>\<open>unsigned long\<close> it is
  sign-extended.\<close>

definition find_free :: "(nat \<Rightarrow> u64) \<Rightarrow> u32 \<Rightarrow> nat \<Rightarrow> nat \<Rightarrow> nat" where
  "find_free mp n_chunks start stop = find_free_from mp (unat (scast n_chunks :: u64)) start stop"

definition sum_free :: "phys \<Rightarrow> int" where
  "sum_free s =
     (let total_free = length (filter (\<lambda>i. \<not> bm_test (MEMORY_MAP s) i) [0..<unat (MAX_CHUNK s)])
      in sint (of_nat total_free * of_nat CHUNK_SIZE :: u32))"

definition mem_total :: "phys \<Rightarrow> u32" where
  "mem_total s = ucast (MEMORY_TOTAL s)"

text \<open>
  \<^verbatim>\<open>reserve\<close>. The variable \<^verbatim>\<open>first_chunk\<close> is unsigned, so its test
  \<^verbatim>\<open>first_chunk < 0\<close> is written here as the unsigned comparison it is.
\<close>

definition reserve :: "phys \<Rightarrow> u32 \<Rightarrow> u32 \<Rightarrow> u64 \<times> phys" where
  "reserve s n_chunks type =
     (let n_chunks = (if n_chunks = 0 then 1 else n_chunks)
      in if type \<noteq> MEM_K \<and> type \<noteq> MEM_U then (0, s)
         else
           (let start = (if type = MEM_K then 0 else KERNEL_RESERVED div CHUNK_SIZE);
                stop = (if type = MEM_K then KERNEL_RESERVED div CHUNK_SIZE else unat (MAX_CHUNK s));
                first_chunk = (of_nat (find_free (MEMORY_MAP s) n_chunks start stop) :: u64)
            in if first_chunk < 0 then (0, s)
               else
                 (let mp = fold (\<lambda>i m. bm_set m (unat (first_chunk + of_nat i)))
                             [0..<unat n_chunks] (MEMORY_MAP s);
                      base = first_chunk * of_nat CHUNK_SIZE + MEM_OFFSET s;
                      pm = fst (memset (pmem s) base 0 (n_chunks * of_nat CHUNK_SIZE))
                  in (base, s\<lparr>MEMORY_MAP := mp, pmem := pm\<rparr>))))"

text \<open>
  \<^verbatim>\<open>relinquish\<close>: \<^verbatim>\<open>first_chunk\<close> is computed in 32-bit signed arithmetic. The index of a
  negative chunk is divided towards zero and masked: the chunks from -31 to -1 are bits of word 0, smaller ones lie in
  front of the map.
\<close>

definition map_bit :: "int \<Rightarrow> nat" where
  "map_bit chunk = nat (if chunk < 0 then chunk + 32 else chunk)"

definition relinquish :: "phys \<Rightarrow> u64 \<Rightarrow> u32 \<Rightarrow> (int \<times> phys) result" where
  "relinquish s start n_chunks =
     (let d = sint (ucast (start - MEM_OFFSET s) :: u32);
          first_chunk = (if d < 0 then - ((- d) div int CHUNK_SIZE) else d div int CHUNK_SIZE);
          pm = fst (memset (pmem s) start 0x56 (n_chunks * of_nat CHUNK_SIZE))
      in if first_chunk \<le> - 32 \<and> 0 < n_chunks then Inl OutOfBounds
         else Inr (0, s\<lparr>pmem := pm,
                       MEMORY_MAP := fold (\<lambda>i m. bm_clear m (map_bit (first_chunk + int i)))
                         [0..<unat n_chunks] (MEMORY_MAP s)\<rparr>))"

declare free_run.simps [simp del] find_free_from.simps [simp del]

section \<open>Searching for a run\<close>

abbreviation used :: "phys \<Rightarrow> nat \<Rightarrow> bool" where
  "used s c \<equiv> bm_test (MEMORY_MAP s) c"

text \<open>A run of \<open>n\<close> free chunks at \<open>i\<close> that ends before the last chunk.\<close>

definition run_at :: "(nat \<Rightarrow> u64) \<Rightarrow> nat \<Rightarrow> nat \<Rightarrow> nat \<Rightarrow> bool" where
  "run_at mp n stop i \<longleftrightarrow> i + n < stop \<and> (\<forall>k < n. \<not> bm_test mp (i + k))"

lemma free_run_eq_n_iff:
  assumes "i + n < 2 ^ 64" and "j \<le> n"
  shows "free_run mp n i j = n \<longleftrightarrow> (\<forall>k. j \<le> k \<and> k < n \<longrightarrow> \<not> bm_test mp (i + k))"
  using assms
proof (induction mp n i j rule: free_run.induct)
  case (1 mp n i j)
  show ?case
  proof (cases "j < n")
    case True
    with "1.prems" have "wrap64 (i + j) = i + j" by simp
    with True "1" show ?thesis
      by (auto simp: free_run.simps [of mp n i j] all_from_Suc)
  next
    case False
    then have "free_run mp n i j = j" by (simp add: free_run.simps [of mp n i j])
    with False "1.prems" show ?thesis by auto
  qed
qed

lemma find_free_test:
  assumes "0 < n" and "stop + n < 2 ^ 64" and "i < stop"
  shows "free_run_fits mp n i stop \<longleftrightarrow> run_at mp n stop i"
  using assms free_run_eq_n_iff [of i n 0 mp] by (auto simp: free_run_fits_def run_at_def Let_def)

lemma find_free_from_correct:
  assumes "0 < n" and "stop + n < 2 ^ 64"
  shows "(find_free_from mp n i stop = ULONG_MAX \<and> (\<forall>k \<ge> i. \<not> run_at mp n stop k)) \<or>
    (i \<le> find_free_from mp n i stop \<and> run_at mp n stop (find_free_from mp n i stop) \<and>
     (\<forall>k. i \<le> k \<and> k < find_free_from mp n i stop \<longrightarrow> \<not> run_at mp n stop k))"
  using assms
proof (induction mp n i stop rule: find_free_from.induct)
  case (1 mp n i stop)
  show ?case
  proof (cases "i < stop")
    case True
    note test = find_free_test [OF "1.prems" True]
    show ?thesis
    proof (cases "run_at mp n stop i")
      case True
      then have "find_free_from mp n i stop = i"
        using \<open>i < stop\<close> test by (simp add: find_free_from.simps [of mp n i stop])
      with True show ?thesis by auto
    next
      case False
      then have eq: "find_free_from mp n i stop = find_free_from mp n (Suc i) stop"
        using \<open>i < stop\<close> test by (simp add: find_free_from.simps [of mp n i stop])
      have "i \<le> k \<longleftrightarrow> i = k \<or> Suc i \<le> k" for k by auto
      with "1.IH" [OF True] False "1.prems" test show ?thesis unfolding eq by (metis Suc_leD)
    qed
  next
    case False
    then show ?thesis by (auto simp: find_free_from.simps [of mp n i stop] run_at_def)
  qed
qed

section \<open>Reservations\<close>


lemma unat_scast_small:
  assumes "unat (n :: u32) < 2 ^ 31"
  shows "unat (scast n :: u64) = unat n"
proof -
  from assms have "\<not> bit (unat n) 31" by (simp add: bit_iff_odd)
  then have 31: "\<not> bit n 31" by (simp add: bit_unsigned_iff)
  have "bit (scast n :: u64) k = bit (ucast n :: u64) k" if "k < 64" for k
    using 31 that by (cases "k \<le> 31") (auto simp: bit_simps min_def dest: bit_imp_le_length)
  then have "scast n = (ucast n :: u64)"
    by (intro bit_word_eqI) simp
  then show ?thesis by (simp add: unat_ucast_up)
qed

definition chunk_lo :: "u32 \<Rightarrow> nat" where
  "chunk_lo type = (if type = MEM_K then 0 else KERNEL_RESERVED div CHUNK_SIZE)"

definition chunk_hi :: "phys \<Rightarrow> u32 \<Rightarrow> nat" where
  "chunk_hi s type = (if type = MEM_K then KERNEL_RESERVED div CHUNK_SIZE else unat (MAX_CHUNK s))"

lemma chunk_hi_user: "chunk_hi s MEM_U = unat (MAX_CHUNK s)"
  by (simp add: chunk_hi_def MEM_U_def MEM_K_def)

lemma chunk_hi_lt: "chunk_hi s type < 2 ^ 32"
  using unat_u32_lt [of "MAX_CHUNK s"] by (simp add: chunk_hi_def phys_consts)

text \<open>The chunk the search of a reservation returns, \<open>ULONG_MAX\<close> when it finds none.\<close>

definition first_chunk :: "phys \<Rightarrow> u32 \<Rightarrow> u32 \<Rightarrow> nat" where
  "first_chunk s n type = find_free (MEMORY_MAP s) n (chunk_lo type) (chunk_hi s type)"

definition run_exists :: "phys \<Rightarrow> u32 \<Rightarrow> u32 \<Rightarrow> bool" where
  "run_exists s n type \<longleftrightarrow> (\<exists>c \<ge> chunk_lo type. run_at (MEMORY_MAP s) (unat n) (chunk_hi s type) c)"

lemma first_chunk_found:
  assumes "n \<noteq> 0" and "unat n < 2 ^ 31" and "run_exists s n type"
  shows "chunk_lo type \<le> first_chunk s n type \<and>
    run_at (MEMORY_MAP s) (unat n) (chunk_hi s type) (first_chunk s n type) \<and>
    (\<forall>k. chunk_lo type \<le> k \<and> k < first_chunk s n type \<longrightarrow>
      \<not> run_at (MEMORY_MAP s) (unat n) (chunk_hi s type) k)"
proof -
  have "0 < unat n" using assms(1) by (simp add: unat_gt_0)
  moreover have "chunk_hi s type + unat n < 2 ^ 64"
    using chunk_hi_lt [of s type] assms(2) by simp
  ultimately show ?thesis
    using find_free_from_correct [of "unat n" "chunk_hi s type" "MEMORY_MAP s" "chunk_lo type"] assms(3)
    unfolding first_chunk_def find_free_def unat_scast_small [OF assms(2)] run_exists_def by blast
qed

lemma first_chunk_none:
  assumes "n \<noteq> 0" and "unat n < 2 ^ 31" and "\<not> run_exists s n type"
  shows "first_chunk s n type = ULONG_MAX"
proof -
  have "0 < unat n" using assms(1) by (simp add: unat_gt_0)
  moreover have "chunk_hi s type + unat n < 2 ^ 64"
    using chunk_hi_lt [of s type] assms(2) by simp
  ultimately show ?thesis
    using find_free_from_correct [of "unat n" "chunk_hi s type" "MEMORY_MAP s" "chunk_lo type"] assms(3)
    unfolding first_chunk_def find_free_def unat_scast_small [OF assms(2)] run_exists_def by blast
qed

lemma reserve_unfold:
  assumes "n \<noteq> 0" and "type = MEM_K \<or> type = MEM_U"
  shows "reserve s n type =
    (let c = (of_nat (first_chunk s n type) :: u64); base = c * 4096 + MEM_OFFSET s
     in (base, s\<lparr>MEMORY_MAP := fold (\<lambda>i m. bm_set m (unat (c + of_nat i))) [0..<unat n] (MEMORY_MAP s),
                  pmem := fst (memset (pmem s) base 0 (n * 4096))\<rparr>))"
  using assms by (auto simp: reserve_def first_chunk_def chunk_lo_def chunk_hi_def Let_def CHUNK_SIZE_def)

lemma reserve_marks:
  assumes "n \<noteq> 0" and "unat n < 2 ^ 31" and "type = MEM_K \<or> type = MEM_U" and "run_exists s n type"
  shows "used (snd (reserve s n type)) j \<longleftrightarrow>
    used s j \<or> first_chunk s n type \<le> j \<and> j < first_chunk s n type + unat n"
proof -
  let ?c = "first_chunk s n type"
  have "?c + unat n < 2 ^ 32"
    using first_chunk_found [OF assms(1,2,4)] chunk_hi_lt [of s type] by (auto simp: run_at_def)
  then have idx: "unat ((of_nat ?c :: u64) + of_nat i) = ?c + i" if "i < unat n" for i
    using that by (subst unat_at) (simp_all add: unat_of_nat)
  have "j \<in> (\<lambda>i. unat ((of_nat ?c :: u64) + of_nat i)) ` set [0..<unat n] \<longleftrightarrow> ?c \<le> j \<and> j < ?c + unat n"
    using idx by (force simp: image_iff intro: exI [of _ "j - ?c"])
  then show ?thesis
    by (auto simp: reserve_unfold [OF assms(1,3)] Let_def bm64.get_fold_set)
qed

lemma reserve_run:
  assumes "n \<noteq> 0" and "unat n < 2 ^ 20" and "type = MEM_K \<or> type = MEM_U" and "run_exists s n type"
    and "reserve s n type = (base, s')"
    and "c = first_chunk s n type"
  shows "chunk_lo type \<le> c \<and> base = of_nat c * 4096 + MEM_OFFSET s \<and> c + unat n < chunk_hi s type \<and>
    (\<forall>j. c \<le> j \<and> j < c + unat n \<longrightarrow> \<not> used s j) \<and>
    (\<forall>j. used s' j \<longleftrightarrow> used s j \<or> c \<le> j \<and> j < c + unat n) \<and>
    (\<forall>x. pmem s' x = (if x \<in> block base (unat n * 4096) then 0 else pmem s x))"
proof -
  have small: "unat n < 2 ^ 31" using assms(2) by simp
  have bytes: "unat (n * 4096) = unat n * 4096"
    using assms(2) by (simp add: unat_word_ariths)
  have run: "chunk_lo type \<le> first_chunk s n type"
    "run_at (MEMORY_MAP s) (unat n) (chunk_hi s type) (first_chunk s n type)"
    using first_chunk_found [OF assms(1) small assms(4)] by auto
  have "\<not> used s j" if "first_chunk s n type \<le> j \<and> j < first_chunk s n type + unat n" for j
    using run(2) that unfolding run_at_def by (metis le_add_diff_inverse add_less_cancel_left)
  moreover have "base = of_nat (first_chunk s n type) * 4096 + MEM_OFFSET s"
    "pmem s' = fst (memset (pmem s) base 0 (n * 4096))"
    using assms(5) by (auto simp: reserve_unfold [OF assms(1,3)] Let_def)
  moreover have "used s' j \<longleftrightarrow> used s j \<or> first_chunk s n type \<le> j \<and> j < first_chunk s n type + unat n" for j
    using reserve_marks [OF assms(1) small assms(3,4), of j] assms(5) by simp
  ultimately show ?thesis
    using run by (auto simp: assms(6) memset_apply bytes run_at_def)
qed

text \<open>
  C8: a reservation takes the first run of \<open>n\<close> free chunks of its zone: no earlier chunk of the
  zone starts such a run, the chunks it takes were free, exactly they become used, the
  result is their address, and their memory, and no other, is cleared.
\<close>

theorem reserve_takes_first_run:
  assumes "n \<noteq> 0" and "unat n < 2 ^ 20" and "type = MEM_K \<or> type = MEM_U" and "run_exists s n type"
    and "reserve s n type = (base, s')"
  shows "\<exists>c \<ge> chunk_lo type. (\<forall>k. chunk_lo type \<le> k \<and> k < c \<longrightarrow>
      \<not> run_at (MEMORY_MAP s) (unat n) (chunk_hi s type) k) \<and>
    base = of_nat c * 4096 + MEM_OFFSET s \<and> c + unat n < chunk_hi s type \<and>
    (\<forall>j. c \<le> j \<and> j < c + unat n \<longrightarrow> \<not> used s j) \<and>
    (\<forall>j. used s' j \<longleftrightarrow> used s j \<or> c \<le> j \<and> j < c + unat n) \<and>
    (\<forall>x. pmem s' x = (if x \<in> block base (unat n * 4096) then 0 else pmem s x))"
  using reserve_run [OF assms refl] first_chunk_found [OF assms(1) _ assms(4)] assms(2)
  by (intro exI [of _ "first_chunk s n type"]) auto

definition boot_phys :: phys where
  "boot_phys = \<lparr>MEMORY_TOTAL = 0, MEMORY_MAP = (\<lambda>_. 0), MAX_CHUNK = 262144, MEM_OFFSET = 0, pmem = (\<lambda>_. 0)\<rparr>"

lemma bm_test_zero: "\<not> bm_test (\<lambda>_. 0) i"
  by (simp add: bm_test_def bm_get_def)

lemma boot_run_exists: "unat n < 2 ^ 20 \<Longrightarrow> n < 0x1000 \<Longrightarrow> run_exists boot_phys n MEM_U"
  by (auto simp: run_exists_def run_at_def boot_phys_def bm_test_zero chunk_lo_def chunk_hi_def phys_consts
      word_less_nat_alt intro!: exI [of _ 4096])

theorem reserve_takes_first_run_witness:
  "\<exists>c \<ge> chunk_lo MEM_U. fst (reserve boot_phys 2 MEM_U) = of_nat c * 4096 + MEM_OFFSET boot_phys"
  using reserve_takes_first_run [of 2 MEM_U boot_phys "fst (reserve boot_phys 2 MEM_U)"
      "snd (reserve boot_phys 2 MEM_U)"] boot_run_exists [of 2] by auto

text \<open>
  a reservation that finds no run is not reported. The unsigned \<^verbatim>\<open>first_chunk < 0\<close> never
  holds, so the call returns the address of chunk number \<open>-1\<close> instead of 0, and of the
  \<open>n\<close> chunk numbers it marks, which wrap around to 0, the first \<open>n - 1\<close> chunks of the
  kernel zone become used.
\<close>

theorem reserve_failure_unreported:
  assumes "n \<noteq> 0" and "unat n < 2 ^ 31" and "type = MEM_K \<or> type = MEM_U" and "\<not> run_exists s n type"
  shows "fst (reserve s n type) = MEM_OFFSET s - 4096 \<and> (\<forall>j < unat n - 1. used (snd (reserve s n type)) j)"
proof
  have c: "of_nat (first_chunk s n type) = (- 1 :: u64)"
    unfolding first_chunk_none [OF assms(1,2,4)] ULONG_MAX_def by simp
  show "fst (reserve s n type) = MEM_OFFSET s - 4096"
    by (simp add: reserve_unfold [OF assms(1,3)] Let_def c)
  show "\<forall>j < unat n - 1. used (snd (reserve s n type)) j"
  proof (intro allI impI)
    fix j assume j: "j < unat n - 1"
    then have "unat ((- 1 :: u64) + of_nat (Suc j)) = j"
      using assms(2) by (simp add: unat_of_nat)
    then have "j \<in> (\<lambda>i. unat ((- 1 :: u64) + of_nat i)) ` set [0..<unat n]"
      using j by (intro image_eqI [of _ _ "Suc j"]) auto
    then show "used (snd (reserve s n type)) j"
      by (simp add: reserve_unfold [OF assms(1,3)] Let_def c bm64.get_fold_set)
  qed
qed

theorem reserve_failure_unreported_witness:
  "fst (reserve (boot_phys\<lparr>MAX_CHUNK := 4096\<rparr>) 2 MEM_U) = - 4096"
proof -
  have "\<not> run_exists (boot_phys\<lparr>MAX_CHUNK := 4096\<rparr>) 2 MEM_U"
    by (auto simp: run_exists_def run_at_def chunk_lo_def chunk_hi_def phys_consts)
  then show ?thesis
    using reserve_failure_unreported [of 2 MEM_U "boot_phys\<lparr>MAX_CHUNK := 4096\<rparr>"]
    by (simp add: boot_phys_def)
qed

section \<open>Releasing\<close>

lemma sint_ucast_small:
  assumes "k < 2 ^ 31"
  shows "sint (ucast (of_nat k :: u64) :: u32) = int k"
proof -
  have "ucast (of_nat k :: u64) = (of_nat k :: u32)"
    using assms by (simp only: unsigned_of_nat) (simp add: take_bit_nat_eq_self)
  moreover have "sint (of_nat k :: u32) = int k"
    using assms by (simp only: signed_of_nat) (simp add: signed_take_bit_int_eq_self)
  ultimately show ?thesis by simp
qed

lemma relinquish_clears:
  assumes "start = of_nat c * 4096 + MEM_OFFSET s" and "c < 2 ^ 19"
  shows "\<exists>s'. relinquish s start n = Inr (0, s') \<and> MEM_OFFSET s' = MEM_OFFSET s \<and> MAX_CHUNK s' = MAX_CHUNK s \<and>
    (\<forall>j. used s' j \<longleftrightarrow> used s j \<and> \<not> (c \<le> j \<and> j < c + unat n))"
proof -
  have "start - MEM_OFFSET s = of_nat (c * 4096)" "c * 4096 < 2 ^ 31"
    using assms by simp_all
  then have d: "sint (ucast (start - MEM_OFFSET s) :: u32) = int (c * 4096)"
    by (simp only: sint_ucast_small)
  have "(\<lambda>i. c + i) ` {0..<k} = {c..<c + k}" for k
    by (simp add: image_add_atLeastLessThan' add.commute)
  then show ?thesis
    unfolding relinquish_def d Let_def CHUNK_SIZE_def map_bit_def by (auto simp: bm64.get_fold_clr nat_add_distrib)
qed

text \<open>
  releasing the run a reservation returned gives the page map back its old contents: a chunk is
  used afterwards exactly when it was used before the reservation.
\<close>

theorem relinquish_undoes_reserve:
  assumes "n \<noteq> 0" and "unat n < 2 ^ 20" and "type = MEM_K \<or> type = MEM_U" and "run_exists s n type"
    and "chunk_hi s type \<le> 2 ^ 19" and "reserve s n type = (base, s')"
  shows "\<exists>s''. relinquish s' base n = Inr (0, s'') \<and> (\<forall>j. used s'' j \<longleftrightarrow> used s j)"
proof -
  obtain c where c: "base = of_nat c * 4096 + MEM_OFFSET s" "c + unat n < chunk_hi s type"
      "\<And>j. c \<le> j \<and> j < c + unat n \<Longrightarrow> \<not> used s j"
      "\<And>j. used s' j \<longleftrightarrow> used s j \<or> c \<le> j \<and> j < c + unat n"
    using reserve_run [OF assms(1-4,6) refl] by blast
  have "MEM_OFFSET s' = MEM_OFFSET s"
    using assms(6) by (auto simp: reserve_unfold [OF assms(1,3)] Let_def)
  then show ?thesis
    using relinquish_clears [of base c s' n] c assms(5) by auto
qed

theorem relinquish_undoes_reserve_witness:
  "\<exists>s''. relinquish (snd (reserve boot_phys 2 MEM_U)) (fst (reserve boot_phys 2 MEM_U)) 2 = Inr (0, s'') \<and>
    (\<forall>j. used s'' j \<longleftrightarrow> used boot_phys j)"
  using relinquish_undoes_reserve [of 2 MEM_U boot_phys "fst (reserve boot_phys 2 MEM_U)"
      "snd (reserve boot_phys 2 MEM_U)"] boot_run_exists [of 2]
  by (simp add: chunk_hi_def boot_phys_def phys_consts)

section \<open>Accounting\<close>

definition free_chunks :: "phys \<Rightarrow> nat" where
  "free_chunks s = card {j. j < unat (MAX_CHUNK s) \<and> \<not> used s j}"

lemma sum_free_eq:
  assumes "MAX_CHUNK s < 0x80000"
  shows "sum_free s = int (4096 * free_chunks s)"
proof -
  let ?free = "filter (\<lambda>i. \<not> used s i) [0..<unat (MAX_CHUNK s)]"
  have "set ?free = {j. j < unat (MAX_CHUNK s) \<and> \<not> used s j}" by auto
  then have len: "length ?free = free_chunks s"
    unfolding free_chunks_def by (metis distinct_card distinct_filter distinct_upt)
  moreover have "length ?free \<le> unat (MAX_CHUNK s)"
    by (metis length_filter_le length_upt diff_zero)
  ultimately have "free_chunks s \<le> unat (MAX_CHUNK s)" by simp
  then have "free_chunks s * 4096 < 2 ^ 31"
    using assms by (simp add: word_less_nat_alt)
  then have "sint (of_nat (free_chunks s * 4096) :: u32) = int (free_chunks s * 4096)"
    by (simp only: signed_of_nat) (simp add: signed_take_bit_int_eq_self)
  then show ?thesis
    by (simp add: sum_free_def len CHUNK_SIZE_def mult.commute)
qed

text \<open>
  \<^verbatim>\<open>sum_free\<close> reports 4096 bytes less for every chunk a user reservation takes.
\<close>

theorem reserve_reduces_sum_free:
  assumes "n \<noteq> 0" and "unat n < 2 ^ 20" and "run_exists s n MEM_U" and "MAX_CHUNK s < 0x80000"
    and "reserve s n MEM_U = (base, s')"
  shows "sum_free s' = sum_free s - 4096 * int (unat n)"
proof -
  obtain c where c: "c + unat n < chunk_hi s MEM_U" "\<And>j. c \<le> j \<and> j < c + unat n \<Longrightarrow> \<not> used s j"
      "\<And>j. used s' j \<longleftrightarrow> used s j \<or> c \<le> j \<and> j < c + unat n"
    using reserve_run [OF assms(1,2) _ assms(3,5) refl] by blast
  let ?F = "{j. j < unat (MAX_CHUNK s) \<and> \<not> used s j}" and ?R = "{c..<c + unat n}"
  have M: "MAX_CHUNK s' = MAX_CHUNK s"
    using assms(5) by (auto simp: reserve_unfold [OF assms(1)] Let_def)
  have sub: "?R \<subseteq> ?F" using c(1,2) by (auto simp: chunk_hi_user)
  have "{j. j < unat (MAX_CHUNK s') \<and> \<not> used s' j} = ?F - ?R"
    unfolding M c(3) by auto
  then have "free_chunks s' = free_chunks s - unat n"
    unfolding free_chunks_def using sub by (simp add: card_Diff_subset)
  moreover have "unat n \<le> free_chunks s"
    unfolding free_chunks_def using card_mono [OF _ sub] by simp
  ultimately have "int (4096 * free_chunks s') = int (4096 * free_chunks s) - 4096 * int (unat n)"
    by simp
  then show ?thesis
    using assms(4) M by (simp only: sum_free_eq)
qed

theorem reserve_reduces_sum_free_witness:
  "sum_free (snd (reserve boot_phys 2 MEM_U)) = sum_free boot_phys - 8192"
  using reserve_reduces_sum_free [of 2 boot_phys "fst (reserve boot_phys 2 MEM_U)"
      "snd (reserve boot_phys 2 MEM_U)"] boot_run_exists [of 2]
  by (simp add: boot_phys_def)

section \<open>Initialisation\<close>

lemma fold_zero: "fold (\<lambda>i m. m(i := 0)) xs m k = (if k \<in> set xs then 0 else m k)"
  by (induction xs arbitrary: m) auto

text \<open>
  after \<^verbatim>\<open>memory_init\<close> on the zeroed map of a fresh kernel image, exactly the chunks the
  kernel occupies are used and the map covers 1 GB.
\<close>

theorem memory_init_marks_kernel:
  assumes "unat mem_kernel \<le> KERNEL_RESERVED" and "MEMORY_MAP s = (\<lambda>_. 0)"
  shows "(\<forall>j. used (memory_init s mem_kernel) j \<longleftrightarrow> j < unat mem_kernel div 4096) \<and>
    MAX_CHUNK (memory_init s mem_kernel) = 262144"
proof -
  have zero: "fold (\<lambda>i m. m(i := 0)) [0..<unat mem_kernel div 4096] (MEMORY_MAP s) = (\<lambda>_. 0)"
    by (rule ext) (simp add: fold_zero assms(2))
  show ?thesis
    using assms(1) bm64.get_fold_set [of "\<lambda>i. i" "[0..<unat mem_kernel div 4096]" "\<lambda>_. 0"]
    by (simp add: memory_init_def mem_init_def Let_def CHUNK_SIZE_def zero bm_test_zero MAX_MEMORY_def)
qed

theorem memory_init_marks_kernel_witness:
  "MAX_CHUNK (memory_init boot_phys 0x80000) = 262144 \<and> used (memory_init boot_phys 0x80000) 127"
  using memory_init_marks_kernel [of "0x80000" boot_phys]
  by (simp add: boot_phys_def KERNEL_RESERVED_def)

section \<open>The contract of a page source\<close>

text \<open>
  What the heap relies on: a reservation returns bytes nobody holds, and they are held afterwards.
  Hence the regions of successive reservations never overlap.
\<close>

locale page_source =
  fixes take_pages :: "'s \<Rightarrow> u32 \<Rightarrow> addr \<times> 's"
    and avail :: "'s \<Rightarrow> u32 \<Rightarrow> bool"
    and held :: "'s \<Rightarrow> addr set"
  assumes fresh: "avail s n \<Longrightarrow> take_pages s n = (a, s') \<Longrightarrow> block a (unat n * 4096) \<inter> held s = {}"
    and grows: "avail s n \<Longrightarrow> take_pages s n = (a, s') \<Longrightarrow> held s' = held s \<union> block a (unat n * 4096)"
begin

lemma two_reservations_disjoint:
  assumes "avail s n" and "take_pages s n = (a, s1)" and "avail s1 k" and "take_pages s1 k = (b, s2)"
  shows "block a (unat n * 4096) \<inter> block b (unat k * 4096) = {}"
  using grows [OF assms(1,2)] fresh [OF assms(3,4)] by auto

end

text \<open>The bytes of a set of chunks, and of the chunks that the map marks as used.\<close>

definition chunk_bytes :: "addr \<Rightarrow> nat set \<Rightarrow> addr set" where
  "chunk_bytes off C = (\<Union>c \<in> C. (\<lambda>i. at off (c * 4096 + i)) ` {..<4096})"

definition held_bytes :: "phys \<Rightarrow> addr set" where
  "held_bytes s = chunk_bytes (MEM_OFFSET s) {c. c < 2 ^ 32 \<and> used s c}"

definition user_run :: "phys \<Rightarrow> u32 \<Rightarrow> bool" where
  "user_run s n \<longleftrightarrow> n \<noteq> 0 \<and> unat n < 2 ^ 20 \<and> run_exists s n MEM_U"

lemma chunk_bytes_Un: "chunk_bytes off (A \<union> B) = chunk_bytes off A \<union> chunk_bytes off B"
  by (auto simp: chunk_bytes_def)

lemma chunk_bytesE:
  assumes "x \<in> chunk_bytes off C"
  obtains c i where "c \<in> C" and "i < 4096" and "x = at off (c * 4096 + i)"
  using assms unfolding chunk_bytes_def by blast

lemma chunk_bytes_disjoint:
  assumes "A \<inter> B = {}" and "A \<subseteq> {..<2 ^ 32}" and "B \<subseteq> {..<2 ^ 32}"
  shows "chunk_bytes off A \<inter> chunk_bytes off B = {}"
proof (rule ccontr)
  assume "\<not> ?thesis"
  then obtain x where x: "x \<in> chunk_bytes off A" "x \<in> chunk_bytes off B" by blast
  obtain j i where j: "j \<in> A" "i < 4096" "x = at off (j * 4096 + i)"
    using x(1) by (rule chunk_bytesE)
  obtain j' i' where j': "j' \<in> B" "i' < 4096" "x = at off (j' * 4096 + i')"
    using x(2) by (rule chunk_bytesE)
  from j(3) j'(3) have eq: "(of_nat (j * 4096 + i) :: addr) = of_nat (j' * 4096 + i')"
    by (simp only: add_left_cancel)
  have "j < 2 ^ 32" "j' < 2 ^ 32" using j(1) j'(1) assms(2,3) by auto
  with j(2) j'(2) have "j * 4096 + i < 2 ^ LENGTH(64)" "j' * 4096 + i' < 2 ^ LENGTH(64)" by simp_all
  then have "j * 4096 + i = j' * 4096 + i'" using eq by (rule of_nat_eq_iff_small [THEN iffD1])
  then have "(j * 4096 + i) div 4096 = (j' * 4096 + i') div 4096" by simp
  then have "j = j'" using j(2) j'(2) by simp
  with j(1) j'(1) assms(1) show False by blast
qed

lemma block_chunks: "block (of_nat c * 4096 + off) (k * 4096) = chunk_bytes off {c..<c + k}" (is "?B = ?C")
proof -
  have shift: "?B = (\<lambda>x. at off (c * 4096 + x)) ` {..<k * 4096}"
    by (simp add: block_def algebra_simps)
  show ?thesis
  proof (intro subset_antisym subsetI)
    fix y assume "y \<in> ?B"
    then obtain x where x: "x < k * 4096" "y = at off (c * 4096 + x)"
      unfolding shift by auto
    then have y: "y = at off ((c + x div 4096) * 4096 + x mod 4096)" and "x div 4096 < k"
      by (simp_all only: add_mult_distrib add.assoc div_mult_mod_eq)
    then show "y \<in> ?C"
      unfolding chunk_bytes_def by (intro UN_I [of "c + x div 4096"] image_eqI [of _ _ "x mod 4096"]) (use y in auto)
  next
    fix y assume "y \<in> ?C"
    then obtain j i where ji: "c \<le> j" "j < c + k" "i < 4096" "y = at off (j * 4096 + i)"
      by (rule chunk_bytesE) auto
    then obtain d where d: "j = c + d" by (auto simp: le_iff_add)
    with ji have "c * 4096 + (d * 4096 + i) = j * 4096 + i" "d * 4096 + i < k * 4096"
      by (simp_all add: algebra_simps)
    with ji show "y \<in> ?B" unfolding shift by (intro image_eqI [of _ _ "d * 4096 + i"]) (simp_all only: lessThan_iff)
  qed
qed

lemma user_reserve:
  assumes "user_run s n" and "reserve s n MEM_U = (a, s')"
  shows "block a (unat n * 4096) \<inter> held_bytes s = {} \<and> held_bytes s' = held_bytes s \<union> block a (unat n * 4096)"
proof -
  define c where "c = first_chunk s n MEM_U"
  have "n \<noteq> 0" "unat n < 2 ^ 20" "run_exists s n MEM_U"
    using assms(1) by (auto simp: user_run_def)
  note run = reserve_run [OF this(1,2) disjI2 [OF refl] this(3) assms(2) c_def]
  have off: "MEM_OFFSET s' = MEM_OFFSET s"
    using assms(2) \<open>n \<noteq> 0\<close> by (auto simp: reserve_unfold Let_def)
  have a: "block a (unat n * 4096) = chunk_bytes (MEM_OFFSET s) {c..<c + unat n}"
    using run by (simp only: block_chunks)
  have R: "{c..<c + unat n} \<subseteq> {..<2 ^ 32}"
    using run chunk_hi_lt [of s MEM_U] by auto
  have "{j. j < 2 ^ 32 \<and> used s' j} = {j. j < 2 ^ 32 \<and> used s j} \<union> {c..<c + unat n}"
    using run R by auto
  then have "held_bytes s' = held_bytes s \<union> block a (unat n * 4096)"
    by (simp only: held_bytes_def off a chunk_bytes_Un)
  moreover have "block a (unat n * 4096) \<inter> held_bytes s = {}"
    unfolding a held_bytes_def using run R by (intro chunk_bytes_disjoint) auto
  ultimately show ?thesis by simp
qed

interpretation user_pages: page_source "\<lambda>s n. reserve s n MEM_U" user_run held_bytes
  by unfold_locales (auto dest: user_reserve)

text \<open>
  C9: the memory of two user reservations made one after the other never overlaps.
\<close>

theorem reservations_disjoint:
  assumes "user_run s n" and "reserve s n MEM_U = (a, s1)" and "user_run s1 k"
    and "reserve s1 k MEM_U = (b, s2)"
  shows "block a (unat n * 4096) \<inter> block b (unat k * 4096) = {}"
  using assms by (rule user_pages.two_reservations_disjoint)

lemma boot_first_chunk: "first_chunk boot_phys 2 MEM_U = 4096"
proof -
  have "run_exists boot_phys 2 MEM_U" by (rule boot_run_exists) simp_all
  note f = first_chunk_found [OF _ _ this, simplified]
  have "run_at (MEMORY_MAP boot_phys) 2 (chunk_hi boot_phys MEM_U) 4096" "chunk_lo MEM_U = 4096"
    by (simp_all add: run_at_def boot_phys_def bm_test_zero chunk_hi_def chunk_lo_def phys_consts)
  with f show ?thesis by (metis le_neq_implies_less order_refl)
qed

lemma boot_second_run: "user_run (snd (reserve boot_phys 2 MEM_U)) 3"
proof -
  have "run_exists boot_phys 2 MEM_U" by (rule boot_run_exists) simp_all
  then have "used (snd (reserve boot_phys 2 MEM_U)) j \<longleftrightarrow>
      used boot_phys j \<or> first_chunk boot_phys 2 MEM_U \<le> j \<and> j < first_chunk boot_phys 2 MEM_U + 2" for j
    using reserve_marks [of 2 MEM_U boot_phys j] by simp
  moreover have "\<not> used boot_phys j" for j
    by (simp add: boot_phys_def bm_test_zero)
  ultimately have "\<not> used (snd (reserve boot_phys 2 MEM_U)) (5000 + k)" for k
    unfolding boot_first_chunk by simp
  moreover have "MAX_CHUNK (snd (reserve boot_phys 2 MEM_U)) = 262144"
    by (simp add: reserve_unfold Let_def boot_phys_def)
  moreover have "chunk_lo MEM_U \<le> 5000" by (simp add: chunk_lo_def phys_consts)
  ultimately have "run_exists (snd (reserve boot_phys 2 MEM_U)) 3 MEM_U"
    unfolding run_exists_def run_at_def chunk_hi_user by (intro exI [of _ 5000]) simp
  then show ?thesis by (simp add: user_run_def)
qed

theorem reservations_disjoint_witness:
  "block (fst (reserve boot_phys 2 MEM_U)) 8192 \<inter>
   block (fst (reserve (snd (reserve boot_phys 2 MEM_U)) 3 MEM_U)) 12288 = {}"
  using reservations_disjoint [of boot_phys 2 "fst (reserve boot_phys 2 MEM_U)"
      "snd (reserve boot_phys 2 MEM_U)" 3 _ "snd (reserve (snd (reserve boot_phys 2 MEM_U)) 3 MEM_U)"]
    boot_run_exists [of 2] boot_second_run
  by (simp add: user_run_def)

end
