(* ===== verification/Heap_Alloc.thy ===== *)
theory Heap_Alloc
  imports Page_Reserve
begin

text \<open>
  The heap of \<^verbatim>\<open>kernel/src/memory/malloc.c\<close>: regions of pages, each holding an array of
  pointers to chunk descriptors (\<^verbatim>\<open>smart_ptr\<close>) that grows downwards from the end of the
  region while the chunks grow upwards from its start.

  The heap keeps its bookkeeping inside the memory it manages. The model has one store per
  C type, addressed by the address of the object: \<open>smart\<close> for \<^verbatim>\<open>smart_ptr\<close>,
  \<open>region\<close> for \<^verbatim>\<open>region_t\<close>, \<open>heap\<close> for \<^verbatim>\<open>heap_t\<close> and \<open>cell\<close> for the pointer
  arrays; payload bytes live in the byte memory of the page allocator. The layout
  invariant below gives the positions of the objects in their region, so that objects of
  different type do not share bytes.
\<close>

section \<open>Objects and state\<close>

record smart_ptr =
  sp_size :: int
  sp_flag :: u32
  sp_base :: addr
  sp_addr :: addr

record region_t =
  r_alloc_size :: int
  r_used_size :: int
  r_n_chunks :: int
  r_base_addr :: addr
  r_chunks :: addr

record heap_t =
  h_alignment :: int
  h_n_regions :: int
  h_regions :: addr

record heap_state =
  pages :: phys
  smart :: "addr \<Rightarrow> smart_ptr"
  region :: "addr \<Rightarrow> region_t"
  heap :: "addr \<Rightarrow> heap_t"
  cell :: "addr \<Rightarrow> addr"
  ret :: int

definition UNALLOCATED :: u32 where "UNALLOCATED = 0"
definition RESERVED :: u32 where "RESERVED = 1"
definition CULLED :: u32 where "CULLED = 2"
definition AVAILABLE :: u32 where "AVAILABLE = 3"

lemmas flag_defs = UNALLOCATED_def RESERVED_def CULLED_def AVAILABLE_def

text \<open>\<^verbatim>\<open>sizeof\<close> of the three structures, of a pointer, and the page size.\<close>

abbreviation CHUNK_INFO_SIZE :: "'a::numeral" where "CHUNK_INFO_SIZE \<equiv> 24"
abbreviation REGION_INFO_SIZE :: "'a::numeral" where "REGION_INFO_SIZE \<equiv> 32"
abbreviation HEAP_INFO_SIZE :: "'a::numeral" where "HEAP_INFO_SIZE \<equiv> 16"
abbreviation REGION_ARR :: "'a::numeral" where "REGION_ARR \<equiv> 8"
abbreviation CHUNK_ARR :: "'a::numeral" where "CHUNK_ARR \<equiv> 8"
abbreviation ALIGN :: "'a::numeral" where "ALIGN \<equiv> 4096"
abbreviation NEW_REGION_SIZE :: "'a::numeral" where "NEW_REGION_SIZE \<equiv> 128"

definition F_CHECK :: "smart_ptr \<Rightarrow> bool" where
  "F_CHECK c \<longleftrightarrow> (sp_flag c AND 1) XOR (sp_flag c AND 2) \<noteq> 0"

text \<open>Assignments through pointers.\<close>

definition put_smart :: "addr \<Rightarrow> smart_ptr \<Rightarrow> heap_state \<Rightarrow> heap_state" where
  "put_smart a v st = st\<lparr>smart := (smart st)(a := v)\<rparr>"

definition put_cell :: "addr \<Rightarrow> addr \<Rightarrow> heap_state \<Rightarrow> heap_state" where
  "put_cell a v st = st\<lparr>cell := (cell st)(a := v)\<rparr>"

definition put_region :: "addr \<Rightarrow> region_t \<Rightarrow> heap_state \<Rightarrow> heap_state" where
  "put_region a v st = st\<lparr>region := (region st)(a := v)\<rparr>"

definition put_heap :: "addr \<Rightarrow> heap_t \<Rightarrow> heap_state \<Rightarrow> heap_state" where
  "put_heap a v st = st\<lparr>heap := (heap st)(a := v)\<rparr>"

lemmas puts = put_smart_def put_cell_def put_region_def put_heap_def

text \<open>\<^verbatim>\<open>memset\<close> and \<^verbatim>\<open>memcpy\<close> on payload bytes.\<close>

definition fill_bytes :: "addr \<Rightarrow> u32 \<Rightarrow> heap_state \<Rightarrow> heap_state" where
  "fill_bytes a n st = st\<lparr>pages := (pages st)\<lparr>pmem := fst (memset (pmem (pages st)) a 0 n)\<rparr>\<rparr>"

definition copy_payload :: "addr \<Rightarrow> addr \<Rightarrow> u32 \<Rightarrow> heap_state \<Rightarrow> heap_state" where
  "copy_payload d s n st = st\<lparr>pages := (pages st)\<lparr>pmem := fst (memcpy (pmem (pages st)) d s n)\<rparr>\<rparr>"

text \<open>\<^verbatim>\<open>memmove\<close> or \<^verbatim>\<open>memcpy\<close> of \<open>k\<close> pointers.\<close>

definition move_cells :: "addr \<Rightarrow> addr \<Rightarrow> nat \<Rightarrow> heap_state \<Rightarrow> heap_state" where
  "move_cells d s k st =
     st\<lparr>cell := fold (\<lambda>i c. c(d + 8 * of_nat i := cell st (s + 8 * of_nat i))) [0..<k] (cell st)\<rparr>"

text \<open>\<^verbatim>\<open>h->regions[i]\<close> and \<^verbatim>\<open>h->regions[i]->chunks[j]\<close>.\<close>

definition reg :: "heap_state \<Rightarrow> addr \<Rightarrow> int \<Rightarrow> addr" where
  "reg st h i = cell st (h_regions (heap st h) + 8 * of_int i)"

definition chunk :: "heap_state \<Rightarrow> addr \<Rightarrow> int \<Rightarrow> addr" where
  "chunk st r j = cell st (r_chunks (region st r) + 8 * of_int j)"

text \<open>A call of \<^verbatim>\<open>reserve\<close> and of \<^verbatim>\<open>relinquish\<close> from the heap.\<close>

definition get_pages :: "heap_state \<Rightarrow> u32 \<Rightarrow> u32 \<Rightarrow> addr \<times> heap_state" where
  "get_pages st n type = (let (a, p) = reserve (pages st) n type in (a, st\<lparr>pages := p\<rparr>))"

text \<open>\<^verbatim>\<open>relinquish\<close> fills the pages with the character V: the structures in them read as this pattern.\<close>

definition overwrite_cells :: "addr \<Rightarrow> u32 \<Rightarrow> heap_state \<Rightarrow> heap_state" where
  "overwrite_cells a count st =
     (let hit = (\<lambda>x. unat (x - a) < unat count); v4 = 0x56565656; v8 = 0x5656565656565656
      in st\<lparr>smart := (\<lambda>x. if hit x then \<lparr>sp_size = v4, sp_flag = 0x56565656, sp_base = v8, sp_addr = v8\<rparr> else smart st x),
            region := (\<lambda>x. if hit x then \<lparr>r_alloc_size = v4, r_used_size = v4, r_n_chunks = v4, r_base_addr = v8, r_chunks = v8\<rparr>
                            else region st x),
            heap := (\<lambda>x. if hit x then \<lparr>h_alignment = v4, h_n_regions = v4, h_regions = v8\<rparr> else heap st x),
            cell := (\<lambda>x. if hit x then v8 else cell st x)\<rparr>)"

definition free_pages :: "heap_state \<Rightarrow> addr \<Rightarrow> u32 \<Rightarrow> heap_state result" where
  "free_pages st a n =
     (case relinquish (pages st) a n of
        Inl e \<Rightarrow> Inl e
      | Inr (_, p) \<Rightarrow> Inr (overwrite_cells a (n * 4096) (st\<lparr>pages := p\<rparr>)))"

section \<open>Building regions\<close>

text \<open>
  A user region, as \<^verbatim>\<open>create\<close> and \<^verbatim>\<open>create_region\<close> lay it out: the region descriptor, the free
  chunk, and at the end the array of three chunk pointers.
\<close>

definition user_region_init :: "addr \<Rightarrow> int \<Rightarrow> heap_state \<Rightarrow> heap_state" where
  "user_region_init base_reg1 sz st =
     (let reg_info = \<lparr>sp_size = REGION_INFO_SIZE, sp_flag = RESERVED, sp_base = base_reg1,
                      sp_addr = base_reg1 + CHUNK_INFO_SIZE\<rparr>;
          chunk_arr = \<lparr>sp_size = 3 * CHUNK_ARR, sp_flag = RESERVED, sp_base = base_reg1,
                       sp_addr = base_reg1 + of_int sz - 3 * CHUNK_ARR\<rparr>;
          used = REGION_INFO_SIZE + 3 * CHUNK_INFO_SIZE + 3 * CHUNK_ARR;
          reg1 = \<lparr>r_alloc_size = int32 sz, r_used_size = used, r_n_chunks = 3,
                  r_base_addr = base_reg1, r_chunks = sp_addr chunk_arr\<rparr>;
          free_space = \<lparr>sp_size = int32 (sz - used), sp_flag = UNALLOCATED, sp_base = base_reg1,
                        sp_addr = sp_addr reg_info + REGION_INFO_SIZE + CHUNK_INFO_SIZE\<rparr>;
          st = put_cell (r_chunks reg1) (sp_addr chunk_arr - CHUNK_INFO_SIZE) st;
          st = put_cell (r_chunks reg1 + 8) (sp_addr reg_info - CHUNK_INFO_SIZE) st;
          st = put_cell (r_chunks reg1 + 16) (sp_addr free_space - CHUNK_INFO_SIZE) st;
          st = put_smart (sp_addr chunk_arr - CHUNK_INFO_SIZE) chunk_arr st;
          st = put_smart (sp_addr reg_info - CHUNK_INFO_SIZE) reg_info st;
          st = put_smart (sp_addr free_space - CHUNK_INFO_SIZE) free_space st;
          st = put_region (sp_addr reg_info) reg1 st
      in fill_bytes (sp_addr free_space) (word_of_int (sp_size free_space)) st)"

text \<open>
  The kernel region, as \<^verbatim>\<open>create\<close> and \<^verbatim>\<open>grow_kheap\<close> lay it out, with room for \<open>n\<close> region
  pointers; the heap descriptor itself is written by the caller.
\<close>

definition kernel_region_init :: "addr \<Rightarrow> int \<Rightarrow> int \<Rightarrow> heap_state \<Rightarrow> heap_state" where
  "kernel_region_init base_kheap sz n st =
     (let heap_reg_info = \<lparr>sp_size = REGION_INFO_SIZE, sp_flag = RESERVED, sp_base = base_kheap,
                           sp_addr = base_kheap + CHUNK_INFO_SIZE\<rparr>;
          heap_ptr = \<lparr>sp_size = HEAP_INFO_SIZE, sp_flag = RESERVED, sp_base = base_kheap,
                      sp_addr = sp_addr heap_reg_info + REGION_INFO_SIZE + CHUNK_INFO_SIZE\<rparr>;
          reg_arr = \<lparr>sp_size = int32 (n * REGION_ARR), sp_flag = RESERVED, sp_base = base_kheap,
                     sp_addr = sp_addr heap_ptr + HEAP_INFO_SIZE + CHUNK_INFO_SIZE\<rparr>;
          heap_chunk_arr = \<lparr>sp_size = 5 * CHUNK_ARR, sp_flag = RESERVED, sp_base = base_kheap,
                            sp_addr = base_kheap + of_int sz - 5 * CHUNK_ARR\<rparr>;
          used = int32 (REGION_INFO_SIZE + HEAP_INFO_SIZE + 5 * CHUNK_INFO_SIZE + n * REGION_ARR + 5 * CHUNK_ARR);
          kheap = \<lparr>r_alloc_size = int32 sz, r_used_size = used, r_n_chunks = 5,
                   r_base_addr = base_kheap, r_chunks = sp_addr heap_chunk_arr\<rparr>;
          heap_free_space = \<lparr>sp_size = int32 (sz - used), sp_flag = UNALLOCATED, sp_base = base_kheap,
                             sp_addr = sp_addr reg_arr + of_int (n * REGION_ARR) + CHUNK_INFO_SIZE\<rparr>;
          st = put_cell (r_chunks kheap) (sp_addr heap_chunk_arr - CHUNK_INFO_SIZE) st;
          st = put_cell (r_chunks kheap + 8) (sp_addr heap_reg_info - CHUNK_INFO_SIZE) st;
          st = put_cell (r_chunks kheap + 16) (sp_addr heap_ptr - CHUNK_INFO_SIZE) st;
          st = put_cell (r_chunks kheap + 24) (sp_addr reg_arr - CHUNK_INFO_SIZE) st;
          st = put_cell (r_chunks kheap + 32) (sp_addr heap_free_space - CHUNK_INFO_SIZE) st;
          st = put_smart (sp_addr heap_chunk_arr - CHUNK_INFO_SIZE) heap_chunk_arr st;
          st = put_smart (sp_addr heap_reg_info - CHUNK_INFO_SIZE) heap_reg_info st;
          st = put_smart (sp_addr heap_ptr - CHUNK_INFO_SIZE) heap_ptr st;
          st = put_smart (sp_addr reg_arr - CHUNK_INFO_SIZE) reg_arr st;
          st = put_smart (sp_addr heap_free_space - CHUNK_INFO_SIZE) heap_free_space st;
          st = put_region (sp_addr heap_reg_info) kheap st
      in fill_bytes (sp_addr heap_free_space) (word_of_int (sp_size heap_free_space)) st)"

text \<open>Where \<open>kernel_region_init\<close> puts the region descriptor, the heap descriptor and the region array.\<close>

definition kheap_region :: "addr \<Rightarrow> addr" where "kheap_region base = base + 24"
definition kheap_heap :: "addr \<Rightarrow> addr" where "kheap_heap base = base + 80"
definition kheap_array :: "addr \<Rightarrow> addr" where "kheap_array base = base + 120"

text \<open>\<^verbatim>\<open>create\<close>: \<open>NULL\<close> and an error code when a reservation returns 0.\<close>

definition create :: "heap_state \<Rightarrow> u32 \<Rightarrow> u32 \<Rightarrow> addr \<times> heap_state" where
  "create st alignment sz =
     (let (base_kheap, st) = get_pages st (sz div alignment) MEM_K
      in if base_kheap = NULL then (NULL, st\<lparr>ret := E_NOHEAP\<rparr>)
         else
           (let st = fill_bytes base_kheap sz st;
                (base_reg1, st) = get_pages st (sz div alignment) MEM_U
            in if base_reg1 = NULL then (NULL, st\<lparr>ret := E_NOPAGE\<rparr>)
               else
                 (let st = fill_bytes base_reg1 sz st;
                      st = kernel_region_init base_kheap (uint sz) 2 st;
                      st = user_region_init base_reg1 (uint sz) st;
                      st = put_cell (kheap_array base_kheap) (kheap_region base_kheap) st;
                      st = put_cell (kheap_array base_kheap + 8) (base_reg1 + CHUNK_INFO_SIZE) st;
                      st = put_heap (kheap_heap base_kheap)
                             \<lparr>h_alignment = int32 (uint alignment), h_n_regions = 2,
                              h_regions = kheap_array base_kheap\<rparr> st
                  in (kheap_heap base_kheap, st))))"

text \<open>\<^verbatim>\<open>destroy\<close>: the regions are released from the last to the first.\<close>

fun destroy_from :: "addr \<Rightarrow> nat \<Rightarrow> heap_state \<Rightarrow> heap_state result" where
  "destroy_from h 0 st = Inr st"
| "destroy_from h (Suc i) st =
     (let r = region st (reg st h (int i))
      in if r_base_addr r \<noteq> NULL
         then (case free_pages st (r_base_addr r) (word_of_int (cdiv (r_alloc_size r) ALIGN)) of
                 Inl e \<Rightarrow> Inl e
               | Inr st' \<Rightarrow> destroy_from h i st')
         else destroy_from h i st)"

definition destroy :: "addr \<Rightarrow> heap_state \<Rightarrow> heap_state result" where
  "destroy h st = (if h \<noteq> NULL then destroy_from h (nat (h_n_regions (heap st h))) st else Inr st)"

text \<open>\<^verbatim>\<open>grow_kheap\<close>: a larger kernel region, with the region array copied over.\<close>

definition grow_kheap :: "addr \<Rightarrow> heap_state \<Rightarrow> (addr \<times> heap_state) result" where
  "grow_kheap h st =
     (let alignment = h_alignment (heap st h);
          n_regions = h_n_regions (heap st h);
          sz = int32 (r_alloc_size (region st (reg st h 0)) + alignment);
          (base_kheap, st) = get_pages st (word_of_int (cdiv sz alignment)) MEM_K
      in if base_kheap = NULL then Inr (NULL, st\<lparr>ret := E_NOHEAP\<rparr>)
         else
           (let st = fill_bytes base_kheap (word_of_int sz) st;
                st = kernel_region_init base_kheap sz n_regions st;
                st = put_cell (kheap_array base_kheap) (kheap_region base_kheap) st;
                st = move_cells (kheap_array base_kheap + REGION_ARR) (h_regions (heap st h) + REGION_ARR)
                       (nat (n_regions - 1)) st;
                st = put_heap (kheap_heap base_kheap)
                       \<lparr>h_alignment = alignment, h_n_regions = n_regions,
                        h_regions = kheap_array base_kheap\<rparr> st;
                old = region st (reg st h 0)
            in (case free_pages st (r_base_addr old) (word_of_int (cdiv (r_alloc_size old) ALIGN)) of
                  Inl e \<Rightarrow> Inl e
                | Inr st' \<Rightarrow> Inr (kheap_heap base_kheap, st'))))"

text \<open>
  \<^verbatim>\<open>create_region\<close>. The function works on its own copy of \<open>h\<close>: when the kernel region has to
  grow, the caller keeps the address of the old one.
\<close>

definition create_region :: "addr \<Rightarrow> int \<Rightarrow> heap_state \<Rightarrow> heap_state result" where
  "create_region h sz st =
     (let (base_reg1, st) = get_pages st (word_of_int (cdiv sz ALIGN)) MEM_U
      in if base_reg1 = NULL then Inr (st\<lparr>ret := E_NOPAGE\<rparr>)
         else
           (let st = fill_bytes base_reg1 (word_of_int sz) st;
                r0 = region st (reg st h 0)
            in (case (if r_alloc_size r0 - r_used_size r0 < REGION_ARR then grow_kheap h st else Inr (h, st)) of
                  Inl e \<Rightarrow> Inl e
                | Inr (h, st) \<Rightarrow>
                    if h = NULL then Inr (st\<lparr>ret := E_NOPAGE\<rparr>)
                    else
                      (let st = user_region_init base_reg1 sz st;
                           r0 = reg st h 0;
                           last = chunk st r0 (r_n_chunks (region st r0) - 1);
                           new_free = \<lparr>sp_size = int32 (sp_size (smart st last) - REGION_ARR),
                                       sp_flag = UNALLOCATED, sp_base = base_reg1,
                                       sp_addr = sp_addr (smart st last) + REGION_ARR\<rparr>;
                           st = put_heap h ((heap st h)\<lparr>h_n_regions := h_n_regions (heap st h) + 1\<rparr>) st;
                           st = put_cell (h_regions (heap st h) + 8 * of_int (h_n_regions (heap st h) - 1))
                                  (base_reg1 + CHUNK_INFO_SIZE) st;
                           st = put_smart (sp_addr new_free - CHUNK_INFO_SIZE) new_free st;
                           st = put_cell (r_chunks (region st r0) + 8 * of_int (r_n_chunks (region st r0) - 1))
                                  (sp_addr new_free - CHUNK_INFO_SIZE) st;
                           st = put_region r0 ((region st r0)\<lparr>r_used_size :=
                                  int32 (r_used_size (region st r0) + REGION_ARR)\<rparr>) st;
                           c3 = chunk st r0 3
                       in Inr (put_smart c3 ((smart st c3)\<lparr>sp_size :=
                                 int32 (sp_size (smart st c3) + REGION_ARR)\<rparr>) st)))))"

section \<open>Allocating\<close>

text \<open>The last chunk of a region, and the test of \<^verbatim>\<open>alloc\<close> on it.\<close>

definition last_chunk :: "heap_state \<Rightarrow> addr \<Rightarrow> addr" where
  "last_chunk st r = chunk st r (r_n_chunks (region st r) - 1)"

definition region_fits :: "heap_state \<Rightarrow> u32 \<Rightarrow> addr \<Rightarrow> bool" where
  "region_fits st n r \<longleftrightarrow>
     sp_size (smart st (last_chunk st r)) > int32 (uint n + CHUNK_INFO_SIZE + CHUNK_ARR) \<and>
     \<not> F_CHECK (smart st (last_chunk st r))"

text \<open>
  Cutting \<open>n\<close> bytes off the free chunk: the pointer array moves down by one entry, the old free
  chunk becomes the user's and a new one follows it.
\<close>

definition alloc_in_region :: "addr \<Rightarrow> u32 \<Rightarrow> heap_state \<Rightarrow> addr \<times> heap_state" where
  "alloc_in_region r n st =
     (let R = region st r;
          nc = r_n_chunks R;
          old = smart st (last_chunk st r);
          new_chunk = \<lparr>sp_size = int32 ((nc + 1) * CHUNK_ARR), sp_flag = RESERVED, sp_base = r_base_addr R,
                       sp_addr = sp_addr (smart st (chunk st r 0)) - CHUNK_ARR\<rparr>;
          usr_smart = \<lparr>sp_size = int32 (uint n), sp_flag = RESERVED, sp_base = r_base_addr R,
                       sp_addr = sp_addr old\<rparr>;
          new_free = \<lparr>sp_size = int32 (sp_size old - (uint n + CHUNK_INFO_SIZE + CHUNK_ARR)),
                      sp_flag = UNALLOCATED, sp_base = r_base_addr R,
                      sp_addr = sp_addr old + ucast n + CHUNK_INFO_SIZE\<rparr>;
          st = move_cells (sp_addr new_chunk) (r_chunks R) (nat nc) st;
          st = put_region r (R\<lparr>r_n_chunks := nc + 1, r_chunks := sp_addr new_chunk\<rparr>) st;
          st = put_cell (sp_addr new_chunk) (sp_addr new_chunk - CHUNK_INFO_SIZE) st;
          st = put_cell (sp_addr new_chunk + 8 * of_int (nc - 1)) (sp_addr usr_smart - CHUNK_INFO_SIZE) st;
          st = put_cell (sp_addr new_chunk + 8 * of_int nc) (sp_addr new_free - CHUNK_INFO_SIZE) st;
          st = put_smart (chunk st r 0) new_chunk st;
          st = put_smart (chunk st r (nc - 1)) usr_smart st;
          st = put_smart (chunk st r nc) new_free st;
          st = put_region r ((region st r)\<lparr>r_used_size :=
                 int32 (r_used_size (region st r) + (uint n + CHUNK_INFO_SIZE + CHUNK_ARR))\<rparr>) st
      in (sp_addr usr_smart, st))"

text \<open>The size of the region that \<^verbatim>\<open>alloc\<close> asks for when no region has room.\<close>

definition new_region_bytes :: "int \<Rightarrow> u32 \<Rightarrow> int" where
  "new_region_bytes alignment n =
     (let a = uint (word_of_int alignment :: u64)
      in int32 (((uint n + NEW_REGION_SIZE) div a + 1) * a))"

text \<open>
  \<^verbatim>\<open>alloc\<close>: the first region from number 1 on with room, otherwise a new region and the call
  again. \<open>None\<close> is a call that never returns.
\<close>

partial_function (option) alloc :: "addr \<Rightarrow> u32 \<Rightarrow> heap_state \<Rightarrow> (addr \<times> heap_state) result option" where
  "alloc h n st =
     (case find (\<lambda>i. region_fits st n (reg st h i)) [1..h_n_regions (heap st h) - 1] of
        Some i \<Rightarrow> Some (Inr (alloc_in_region (reg st h i) n st))
      | None \<Rightarrow>
          (case create_region h (new_region_bytes (h_alignment (heap st h)) n) st of
             Inl e \<Rightarrow> Some (Inl e)
           | Inr st' \<Rightarrow> alloc h n st'))"

section \<open>Releasing\<close>

text \<open>The search of \<^verbatim>\<open>cull\<close> and \<^verbatim>\<open>change\<close>: the chunk with the payload address \<open>ptr\<close>.\<close>

definition find_in_region :: "heap_state \<Rightarrow> addr \<Rightarrow> addr \<Rightarrow> int option" where
  "find_in_region st ptr r =
     find (\<lambda>j. sp_addr (smart st (chunk st r j)) = ptr) [0..r_n_chunks (region st r) - 1]"

definition find_chunk :: "heap_state \<Rightarrow> addr \<Rightarrow> addr \<Rightarrow> (int \<times> int) option" where
  "find_chunk st h ptr =
     (case find (\<lambda>i. find_in_region st ptr (reg st h i) \<noteq> None) [1..h_n_regions (heap st h) - 1] of
        None \<Rightarrow> None
      | Some i \<Rightarrow> map_option (Pair i) (find_in_region st ptr (reg st h i)))"

text \<open>The loop variables after a search that fails.\<close>

definition search_end :: "heap_state \<Rightarrow> addr \<Rightarrow> int \<times> int" where
  "search_end st h =
     (let n = h_n_regions (heap st h)
      in if n \<le> 1 then (1, 0) else (n, max 0 (r_n_chunks (region st (reg st h (n - 1))))))"

definition mergeable :: "smart_ptr \<Rightarrow> bool" where
  "mergeable c \<longleftrightarrow> \<not> F_CHECK c \<or> sp_flag c = CULLED"

text \<open>The last chunk of the region grows by the entry that the pointer array gives up.\<close>

definition widen_last :: "addr \<Rightarrow> heap_state \<Rightarrow> heap_state" where
  "widen_last r st =
     (let l = last_chunk st r
      in put_smart l ((smart st l)\<lparr>sp_size := int32 (sp_size (smart st l) + CHUNK_ARR)\<rparr>) st)"

text \<open>Merging chunk \<open>j\<close> into chunk \<open>j - 1\<close>.\<close>

definition merge_prev :: "addr \<Rightarrow> int \<Rightarrow> heap_state \<Rightarrow> heap_state" where
  "merge_prev r j st =
     (let R = region st r;
          prev = smart st (chunk st r (j - 1));
          new_free = \<lparr>sp_size = int32 (sp_size prev + CHUNK_INFO_SIZE + sp_size (smart st (chunk st r j))),
                      sp_flag = UNALLOCATED, sp_base = r_base_addr R, sp_addr = sp_addr prev\<rparr>;
          new_chunk = \<lparr>sp_size = int32 (sp_size (smart st (chunk st r 0)) - CHUNK_ARR), sp_flag = RESERVED,
                       sp_base = r_base_addr R, sp_addr = r_chunks R + CHUNK_ARR\<rparr>;
          st = move_cells (sp_addr new_chunk) (r_chunks R) (nat j) st;
          st = put_region r (R\<lparr>r_chunks := sp_addr new_chunk\<rparr>) st;
          st = put_cell (sp_addr new_chunk) (sp_addr new_chunk - CHUNK_INFO_SIZE) st;
          st = put_cell (sp_addr new_chunk + 8 * of_int (j - 1)) (sp_addr new_free - CHUNK_INFO_SIZE) st;
          st = put_smart (sp_addr new_free - CHUNK_INFO_SIZE) new_free st;
          st = put_smart (sp_addr new_chunk - CHUNK_INFO_SIZE) new_chunk st;
          st = put_region r ((region st r)\<lparr>r_n_chunks := r_n_chunks (region st r) - 1\<rparr>) st
      in widen_last r st)"

text \<open>Merging chunk \<open>j + 1\<close> into chunk \<open>j\<close>; the merged chunk starts at \<open>ptr\<close>.\<close>

definition merge_next :: "addr \<Rightarrow> addr \<Rightarrow> int \<Rightarrow> heap_state \<Rightarrow> heap_state" where
  "merge_next ptr r j st =
     (let R = region st r;
          new_free = \<lparr>sp_size = int32 (sp_size (smart st (chunk st r (j + 1))) + CHUNK_INFO_SIZE
                                        + sp_size (smart st (chunk st r j))),
                      sp_flag = UNALLOCATED, sp_base = r_base_addr R, sp_addr = ptr\<rparr>;
          new_chunk = \<lparr>sp_size = int32 (sp_size (smart st (chunk st r 0)) - CHUNK_ARR), sp_flag = RESERVED,
                       sp_base = r_base_addr R, sp_addr = r_chunks R + CHUNK_ARR\<rparr>;
          st = put_smart (sp_addr new_free - CHUNK_INFO_SIZE) new_free st;
          st = move_cells (sp_addr new_chunk) (r_chunks R) (nat j) st;
          st = put_smart (sp_addr new_chunk - CHUNK_INFO_SIZE) new_chunk st;
          st = put_region r (R\<lparr>r_chunks := sp_addr new_chunk\<rparr>) st;
          st = put_cell (sp_addr new_chunk) (sp_addr new_chunk - CHUNK_INFO_SIZE) st;
          st = put_cell (sp_addr new_chunk + 8 * of_int j) (sp_addr new_free - CHUNK_INFO_SIZE) st;
          st = put_region r ((region st r)\<lparr>r_n_chunks := r_n_chunks (region st r) - 1\<rparr>) st
      in widen_last r st)"

definition cull :: "addr \<Rightarrow> addr \<Rightarrow> heap_state \<Rightarrow> heap_state" where
  "cull h ptr st =
     (let (i, j) = (case find_chunk st h ptr of Some ij \<Rightarrow> ij | None \<Rightarrow> search_end st h);
          r = reg st h i;
          c = chunk st r j;
          st = (if find_chunk st h ptr \<noteq> None
                then put_region r ((region st r)\<lparr>r_used_size :=
                       int32 (r_used_size (region st r) - (sp_size (smart st c) + CHUNK_INFO_SIZE + CHUNK_ARR))\<rparr>)
                     (put_smart c ((smart st c)\<lparr>sp_flag := CULLED\<rparr>) st)
                else st);
          r = reg st h i;
          (j, st) = (if sp_flag (smart st (chunk st r j)) = CULLED \<and> mergeable (smart st (chunk st r (j - 1)))
                     then (j - 1, merge_prev r j st) else (j, st))
      in if mergeable (smart st (chunk st r j)) \<and> mergeable (smart st (chunk st r (j + 1)))
         then merge_next ptr r j st else st)"

text \<open>\<^verbatim>\<open>change\<close>: a new chunk, the payload copied, the old chunk released.\<close>

definition change :: "addr \<Rightarrow> addr \<Rightarrow> int \<Rightarrow> heap_state \<Rightarrow> (addr \<times> heap_state) result option" where
  "change h ptr sz st =
     (case find_chunk st h ptr of
        None \<Rightarrow> Some (Inr (NULL, st))
      | Some (i, j) \<Rightarrow>
          (case alloc h (word_of_int sz) st of
             None \<Rightarrow> None
           | Some (Inl e) \<Rightarrow> Some (Inl e)
           | Some (Inr (new_ptr, st)) \<Rightarrow>
               if new_ptr = NULL then Some (Inr (new_ptr, st\<lparr>ret := E_NOPAGE\<rparr>))
               else
                 (let old_size = sp_size (smart st (chunk st (reg st h i) j));
                      st = copy_payload new_ptr ptr (word_of_int (if sz > old_size then old_size else sz)) st
                  in Some (Inr (new_ptr, cull h ptr st)))))"

end
