(* ===== verification/Heap_Layout.thy ===== *)
theory Heap_Layout
  imports Heap_Alloc
begin

text \<open>
  The layout invariant of the heap and that the operations of \<open>Heap_Alloc\<close> keep it. A region is
  described by the list of sizes and flags of its chunks in address order (without the pointer
  array, which is the last chunk); \<open>region_ok\<close> says that the descriptors, the pointer array and
  the region record in memory are exactly those of such a list, and \<open>heap_ok\<close> that this holds
  for every user region and that the regions do not overlap. Each operation is then shown to
  act on the list.
\<close>

section \<open>Layout of a region\<close>

text \<open>
  \<open>off cs k\<close> is the offset of the header of chunk \<open>k\<close>, \<open>loc B i\<close> the address of offset \<open>i\<close> in the
  region at \<open>B\<close>.
\<close>

type_synonym chunks = "(int \<times> u32) list"

definition off :: "chunks \<Rightarrow> nat \<Rightarrow> int" where
  "off cs k = (\<Sum>c\<leftarrow>take k cs. fst c + CHUNK_INFO_SIZE)"

definition reserved_bytes :: "chunks \<Rightarrow> int" where
  "reserved_bytes cs = (\<Sum>c\<leftarrow>filter (\<lambda>c. snd c = RESERVED) cs. fst c + CHUNK_INFO_SIZE + CHUNK_ARR)"

definition layout_ok :: "int \<Rightarrow> chunks \<Rightarrow> bool" where
  "layout_ok sz cs \<longleftrightarrow> sz < 2 ^ 31 \<and> cs \<noteq> [] \<and> (\<forall>c\<in>set cs. 0 \<le> fst c) \<and>
     off cs (length cs) = sz - CHUNK_ARR * (int (length cs) + 1) - CHUNK_INFO_SIZE"

definition loc :: "addr \<Rightarrow> int \<Rightarrow> addr" where
  "loc B i = B + of_int i"

definition chunk_at :: "heap_state \<Rightarrow> addr \<Rightarrow> int \<Rightarrow> int \<times> u32 \<Rightarrow> bool" where
  "chunk_at st B p c \<longleftrightarrow>
     smart st (loc B p) = \<lparr>sp_size = fst c, sp_flag = snd c, sp_base = loc B 0,
                            sp_addr = loc B (p + CHUNK_INFO_SIZE)\<rparr>"

definition region_ok :: "heap_state \<Rightarrow> addr \<Rightarrow> int \<Rightarrow> chunks \<Rightarrow> bool" where
  "region_ok st B sz cs \<longleftrightarrow>
     (let nc = int (length cs) + 1; arr = sz - CHUNK_ARR * nc in
       layout_ok sz cs \<and>
       region st (loc B CHUNK_INFO_SIZE) =
         \<lparr>r_alloc_size = sz, r_used_size = reserved_bytes cs + 2 * (CHUNK_INFO_SIZE + CHUNK_ARR),
          r_n_chunks = nc, r_base_addr = loc B 0, r_chunks = loc B arr\<rparr> \<and>
       cell st (loc B arr) = loc B (arr - CHUNK_INFO_SIZE) \<and>
       chunk_at st B (arr - CHUNK_INFO_SIZE) (CHUNK_ARR * nc, RESERVED) \<and>
       (\<forall>k < length cs. cell st (loc B (arr + CHUNK_ARR * (int k + 1))) = loc B (off cs k) \<and>
          chunk_at st B (off cs k) (cs ! k)))"

lemma of_int_addr_inject:
  assumes "0 \<le> a" "a < 2 ^ 32" "0 \<le> b" "b < 2 ^ 32"
  shows "(of_int a :: addr) = of_int b \<longleftrightarrow> a = b"
  using assms by (auto simp: word_of_int_eq_iff take_bit_int_eq_self_iff[THEN iffD2] take_bit_int_eq_self)

lemma off_0 [simp]: "off cs 0 = 0" by (simp add: off_def)

lemma off_Suc: "k < length cs \<Longrightarrow> off cs (Suc k) = off cs k + fst (cs ! k) + CHUNK_INFO_SIZE"
  by (simp add: off_def take_Suc_conv_app_nth)

lemma off_mono:
  assumes "\<forall>c\<in>set cs. 0 \<le> fst c" "k < l" "l \<le> length cs"
  shows "off cs k + fst (cs ! k) + CHUNK_INFO_SIZE \<le> off cs l"
  using assms(2,3)
proof (induction l)
  case (Suc l)
  have nn: "0 \<le> fst (cs ! l)" using Suc.prems assms(1) by (simp)
  show ?case
  proof (cases "k = l")
    case False
    with Suc have "off cs k + fst (cs ! k) + CHUNK_INFO_SIZE \<le> off cs l" by simp
    moreover have "off cs (Suc l) = off cs l + fst (cs ! l) + CHUNK_INFO_SIZE" using Suc.prems by (simp add: off_Suc)
    ultimately show ?thesis using nn by linarith
  qed (use Suc.prems in \<open>simp add: off_Suc\<close>)
qed simp

lemma off_nonneg: "\<forall>c\<in>set cs. 0 \<le> fst c \<Longrightarrow> k \<le> length cs \<Longrightarrow> 0 \<le> off cs k"
  by (force simp: off_def intro!: sum_list_nonneg dest: in_set_takeD)

lemma off_eq_iff:
  assumes "\<forall>c\<in>set cs. 0 \<le> fst c" "k \<le> length cs" "l \<le> length cs"
  shows "off cs k = off cs l \<longleftrightarrow> k = l"
proof -
  have "off cs i < off cs j" if "i < j" "j \<le> length cs" for i j
    using off_mono[OF assms(1) that] nth_mem[of i cs] assms(1) that by (smt (verit) order.strict_trans2)
  with assms(2,3) show ?thesis by (metis linorder_neqE_nat less_irrefl)
qed

lemma off_step:
  assumes "\<forall>c\<in>set cs. 0 \<le> fst c" "k < l" "l \<le> length cs"
  shows "off cs k + CHUNK_INFO_SIZE \<le> off cs l"
proof -
  have "0 \<le> fst (cs ! k)" using assms by simp
  with off_mono[OF assms] show ?thesis by linarith
qed

lemma off_append1: "off (cs @ ds) k = (if k \<le> length cs then off cs k else off cs (length cs) + off ds (k - length cs))"
  by (simp add: off_def)


lemma loc_add [simp]: "loc B a + numeral k = loc B (a + numeral k)"
  "numeral k + loc B a = loc B (a + numeral k)"
  "loc B a - numeral k = loc B (a - numeral k)"
  "loc B a + numeral k * of_int j = loc B (a + numeral k * j)"
  "loc B a + of_int j = loc B (a + j)"
  "loc B a + ucast (n :: u32) = loc B (a + uint n)"
  by (simp_all add: loc_def unsigned_ucast_eq)

lemma loc_inject [simp]:
  "0 \<le> a \<Longrightarrow> a < 2 ^ 32 \<Longrightarrow> 0 \<le> b \<Longrightarrow> b < 2 ^ 32 \<Longrightarrow> loc B a = loc B b \<longleftrightarrow> a = b"
  by (simp add: loc_def of_int_addr_inject del: of_int_eq_iff)

lemma loc_0 : "loc B 0 = B" by (simp add: loc_def)

lemma region_okI:
  assumes "layout_ok sz cs" "nc = int (length cs) + 1" "arr = sz - CHUNK_ARR * nc"
    "region st (loc B CHUNK_INFO_SIZE) =
         \<lparr>r_alloc_size = sz, r_used_size = reserved_bytes cs + 2 * (CHUNK_INFO_SIZE + CHUNK_ARR),
          r_n_chunks = nc, r_base_addr = loc B 0, r_chunks = loc B arr\<rparr>"
    "cell st (loc B arr) = loc B (arr - CHUNK_INFO_SIZE)"
    "chunk_at st B (arr - CHUNK_INFO_SIZE) (CHUNK_ARR * nc, RESERVED)"
    "\<And>k. k < length cs \<Longrightarrow> cell st (loc B (arr + CHUNK_ARR * (int k + 1))) = loc B (off cs k)"
    "\<And>k. k < length cs \<Longrightarrow> chunk_at st B (off cs k) (cs ! k)"
  shows "region_ok st B sz cs"
  using assms unfolding region_ok_def Let_def by blast

lemma all_two: "(\<forall>k < length [x, y]. P k) \<longleftrightarrow> P 0 \<and> P 1"
  by (auto simp: less_Suc_eq)

lemma user_region_ok:
  assumes "128 \<le> sz" "sz < 2 ^ 31"
  shows "region_ok (user_region_init B sz st) B sz [(REGION_INFO_SIZE, RESERVED), (sz - 128, UNALLOCATED)]"
proof -
  have "region_ok (user_region_init (loc B 0) sz st) B sz [(REGION_INFO_SIZE, RESERVED), (sz - 128, UNALLOCATED)]"
    unfolding region_ok_def Let_def all_two using assms
    by (auto simp: user_region_init_def Let_def puts fill_bytes_def layout_ok_def chunk_at_def off_def
      reserved_bytes_def flag_defs)
  then show ?thesis by (simp add: loc_0)
qed

lemma fold_upd_in:
  "i < k \<Longrightarrow> inj_on f {..<k} \<Longrightarrow> fold (\<lambda>i c. c(f i := g i)) [0..<k] c (f i) = g i"
proof (induction k)
  case (Suc k)
  then show ?case
  proof (cases "i = k")
    case False
    with Suc.prems have "f i \<noteq> f k" by (auto simp: inj_on_def)
    with Suc False show ?thesis by (auto simp: lessThan_Suc inj_on_insert)
  qed simp
qed simp

lemma fold_upd_out: "(\<And>i. i < k \<Longrightarrow> x \<noteq> f i) \<Longrightarrow> fold (\<lambda>i c. c(f i := g i)) [0..<k] c x = c x"
  by (induction k) auto

lemma loc_nat [simp]: "loc B a + 8 * of_nat i = loc B (a + 8 * int i)"
  by (simp add: loc_def)

lemma move_cells_in:
  assumes "i < k" "0 \<le> d" "d + 8 * int k \<le> 2 ^ 32" "x = d + 8 * int i"
  shows "cell (move_cells (loc B d) (loc B s) k st) (loc B x) = cell st (loc B (s + 8 * int i))"
proof -
  have "inj_on (\<lambda>i. loc B (d + 8 * int i)) {..<k}"
    using assms by (auto intro!: inj_onI)
  then show ?thesis
    using assms fold_upd_in[of i k "\<lambda>i. loc B (d + 8 * int i)"] by (simp add: move_cells_def)
qed

lemma move_cells_out:
  assumes "0 \<le> d" "d + 8 * int k \<le> 2 ^ 32" "0 \<le> x" "x < 2 ^ 32" "x < d \<or> d + 8 * int k \<le> x"
  shows "cell (move_cells (loc B d) (loc B s) k st) (loc B x) = cell st (loc B x)"
proof -
  have "\<And>i. i < k \<Longrightarrow> loc B x \<noteq> loc B (d + 8 * int i)" using assms by auto
  then show ?thesis by (simp add: move_cells_def fold_upd_out)
qed

lemma move_cells_frame [simp]:
  "smart (move_cells d s k st) = smart st" "region (move_cells d s k st) = region st"
  "heap (move_cells d s k st) = heap st" "pages (move_cells d s k st) = pages st"
  "ret (move_cells d s k st) = ret st"
  by (simp_all add: move_cells_def)

lemma region_okD:
  assumes "region_ok st B sz cs"
  shows "layout_ok sz cs"
    "region st (loc B CHUNK_INFO_SIZE) =
         \<lparr>r_alloc_size = sz, r_used_size = reserved_bytes cs + 2 * (CHUNK_INFO_SIZE + CHUNK_ARR),
          r_n_chunks = int (length cs) + 1, r_base_addr = loc B 0,
          r_chunks = loc B (sz - CHUNK_ARR * (int (length cs) + 1))\<rparr>"
    "cell st (loc B (sz - CHUNK_ARR * (int (length cs) + 1))) =
       loc B (sz - CHUNK_ARR * (int (length cs) + 1) - CHUNK_INFO_SIZE)"
    "chunk_at st B (sz - CHUNK_ARR * (int (length cs) + 1) - CHUNK_INFO_SIZE)
       (CHUNK_ARR * (int (length cs) + 1), RESERVED)"
    "k < length cs \<Longrightarrow> cell st (loc B (sz - CHUNK_ARR * (int (length cs) + 1) + CHUNK_ARR * (int k + 1))) = loc B (off cs k)"
    "k < length cs \<Longrightarrow> chunk_at st B (off cs k) (cs ! k)"
  using assms unfolding region_ok_def Let_def by blast+

lemma chunk_loc: "r_chunks (region st r) = loc B a \<Longrightarrow> chunk st r j = cell st (loc B (a + 8 * j))"
  by (simp add: chunk_def del: of_int_add of_int_diff)

lemma chunk_0:
  "region_ok st B sz cs \<Longrightarrow>
    chunk st (loc B CHUNK_INFO_SIZE) 0 = loc B (off cs (length cs))"
  using region_okD(1-3)[of st B sz cs] by (simp add: chunk_loc layout_ok_def)

lemma chunk_Suc:
  "region_ok st B sz cs \<Longrightarrow> k < length cs \<Longrightarrow> j = int k + 1 \<Longrightarrow> 
    chunk st (loc B CHUNK_INFO_SIZE) j = loc B (off cs k)"
  using region_okD(1,2)[of st B sz cs] region_okD(5)[of st B sz cs k] by (simp add: chunk_loc)

lemma sum_mono_filter: "\<forall>c\<in>set cs. 0 \<le> fst c \<Longrightarrow> 0 \<le> reserved_bytes cs \<and>
  reserved_bytes cs \<le> off cs (length cs) + CHUNK_ARR * int (length cs)"
  by (induction cs) (auto simp: reserved_bytes_def off_def)

definition alloc_chunks :: "int \<Rightarrow> chunks \<Rightarrow> chunks" where
  "alloc_chunks n cs = butlast cs @ [(n, RESERVED), (fst (last cs) - (n + CHUNK_INFO_SIZE + CHUNK_ARR), UNALLOCATED)]"

lemma last_chunk_eq:
  "region_ok st B sz (ds @ [c]) \<Longrightarrow> last_chunk st (loc B CHUNK_INFO_SIZE) = loc B (off ds (length ds))"
  using region_okD(2)[of st B sz "ds @ [c]"] chunk_Suc[of st B sz "ds @ [c]" "length ds" "int (length ds) + 1"]
  by (simp add: last_chunk_def off_append1 add.commute)

lemma reserved_append [simp]: "reserved_bytes (cs @ ds) = reserved_bytes cs + reserved_bytes ds"
  by (simp add: reserved_bytes_def)

lemma not_F_CHECK_free: "\<not> F_CHECK c \<Longrightarrow> sp_flag c \<noteq> RESERVED"
  by (auto simp: F_CHECK_def RESERVED_def)

lemma alloc_setup:
  assumes ok: "region_ok st B sz (ds @ [(f, fl)])" and fits: "uint n + CHUNK_INFO_SIZE + CHUNK_ARR < f" "fl \<noteq> RESERVED"
    and nc_def: "nc = int (length ds) + 2" and arr_def: "arr = sz - 8 * nc" and F_def: "F = off ds (length ds)"
  shows "region st (loc B CHUNK_INFO_SIZE) = \<lparr>r_alloc_size = sz, r_used_size = reserved_bytes ds + 64,
       r_n_chunks = nc, r_base_addr = loc B 0, r_chunks = loc B arr\<rparr>"
    and "chunk st (loc B CHUNK_INFO_SIZE) 0 = loc B (arr - 24)"
    and "smart st (loc B (arr - 24)) = \<lparr>sp_size = 8 * nc, sp_flag = RESERVED, sp_base = loc B 0, sp_addr = loc B arr\<rparr>"
    and "last_chunk st (loc B CHUNK_INFO_SIZE) = loc B F"
    and "smart st (loc B F) = \<lparr>sp_size = f, sp_flag = fl, sp_base = loc B 0, sp_addr = loc B (F + 24)\<rparr>"
    and "0 \<le> F" "0 \<le> uint n" "uint n + 32 < f" "nc \<ge> 2" "arr + 8 * nc < 2 ^ 31" "F + f + 24 = arr - 24"
    and "0 \<le> reserved_bytes ds" "reserved_bytes ds \<le> F + 8 * (nc - 2)"
proof -
  have lay: "layout_ok sz (ds @ [(f, fl)])" using ok by (rule region_okD)
  then have nn: "\<forall>c\<in>set ds. 0 \<le> fst c" and sz: "sz < 2 ^ 31" and tot: "F + f + 24 = arr - 24"
    by (auto simp: layout_ok_def off_append1 off_def nc_def arr_def F_def)
  then show "0 \<le> F" "0 \<le> uint n" "uint n + 32 < f" "nc \<ge> 2" "arr + 8 * nc < 2 ^ 31" "F + f + 24 = arr - 24"
    using fits by (simp_all add: off_nonneg F_def nc_def arr_def)
  show "0 \<le> reserved_bytes ds" "reserved_bytes ds \<le> F + 8 * (nc - 2)"
    using sum_mono_filter[OF nn] by (simp_all add: F_def nc_def)
  note rd = region_okD[OF ok]
  have len: "int (length (ds @ [(f, fl)])) + 1 = nc" by (simp add: nc_def)
  show reg: "region st (loc B CHUNK_INFO_SIZE) = \<lparr>r_alloc_size = sz, r_used_size = reserved_bytes ds + 64,
       r_n_chunks = nc, r_base_addr = loc B 0, r_chunks = loc B arr\<rparr>"
    using rd(2) fits(2) unfolding len by (simp add: reserved_bytes_def arr_def)
  show "chunk st (loc B CHUNK_INFO_SIZE) 0 = loc B (arr - 24)"
    using rd(3) unfolding len by (simp add: chunk_loc[where B = B and a = arr] reg arr_def)
  show "smart st (loc B (arr - 24)) = \<lparr>sp_size = 8 * nc, sp_flag = RESERVED, sp_base = loc B 0, sp_addr = loc B arr\<rparr>"
    using rd(4) unfolding len by (simp add: chunk_at_def arr_def)
  show "last_chunk st (loc B CHUNK_INFO_SIZE) = loc B F" using ok unfolding F_def by (rule last_chunk_eq)
  show "smart st (loc B F) = \<lparr>sp_size = f, sp_flag = fl, sp_base = loc B 0, sp_addr = loc B (F + 24)\<rparr>"
    using rd(6)[of "length ds"] by (simp add: chunk_at_def off_append1 F_def)
qed

lemma alloc_in_region_eq:
  assumes ok: "region_ok st B sz (ds @ [(f, fl)])" and fits: "uint n + CHUNK_INFO_SIZE + CHUNK_ARR < f" "fl \<noteq> RESERVED"
    and nc_def: "nc = int (length ds) + 2" and arr_def: "arr = sz - 8 * nc" and F_def: "F = off ds (length ds)"
    and k_def: "k = uint n"
  shows "alloc_in_region (loc B CHUNK_INFO_SIZE) n st = (loc B (F + CHUNK_INFO_SIZE),
     st\<lparr>cell := (cell (move_cells (loc B (arr - 8)) (loc B arr) (nat nc) st))
          (loc B (arr - 8) := loc B (arr - 32), loc B (arr - 8 + 8 * (nc - 1)) := loc B F,
           loc B (arr - 8 + 8 * nc) := loc B (F + 24 + k)),
        smart := (smart st)
          (loc B (arr - 32) := \<lparr>sp_size = (nc + 1) * 8, sp_flag = RESERVED, sp_base = loc B 0, sp_addr = loc B (arr - 8)\<rparr>,
           loc B F := \<lparr>sp_size = k, sp_flag = RESERVED, sp_base = loc B 0, sp_addr = loc B (F + 24)\<rparr>,
           loc B (F + 24 + k) := \<lparr>sp_size = f - (k + 24 + 8), sp_flag = UNALLOCATED, sp_base = loc B 0,
              sp_addr = loc B (F + 24 + k + 24)\<rparr>),
        region := (region st)(loc B CHUNK_INFO_SIZE :=
          \<lparr>r_alloc_size = sz, r_used_size = reserved_bytes ds + 64 + (k + 24 + 8),
           r_n_chunks = nc + 1, r_base_addr = loc B 0, r_chunks = loc B (arr - 8)\<rparr>)\<rparr>)"
proof -
  note s = alloc_setup[OF ok fits nc_def arr_def F_def, folded k_def]
  show ?thesis
    using s
    by (simp add: alloc_in_region_def Let_def puts chunk_loc move_cells_def del: of_int_add of_int_diff flip: k_def)
qed

lemma alloc_in_region_ok:
  assumes cs_def: "cs = ds @ [(uint n, RESERVED), (f - (uint n + CHUNK_INFO_SIZE + CHUNK_ARR), UNALLOCATED)]"
    and ok: "region_ok st B sz (ds @ [(f, fl)])"
    and fits: "uint n + CHUNK_INFO_SIZE + CHUNK_ARR < f" "fl \<noteq> RESERVED"
  shows "fst (alloc_in_region (loc B CHUNK_INFO_SIZE) n st) = loc B (off ds (length ds) + CHUNK_INFO_SIZE)"
    and "region_ok (snd (alloc_in_region (loc B CHUNK_INFO_SIZE) n st)) B sz cs"
proof -
  define m where "m = length ds"
  define nc where "nc = int (length ds) + 2"
  define arr where "arr = sz - 8 * nc"
  define F where "F = off ds (length ds)"
  define k where "k = uint n"
  note eq = alloc_in_region_eq[OF ok fits nc_def arr_def F_def k_def]
  note s = alloc_setup[OF ok fits nc_def arr_def F_def, folded k_def]
  note sizes = s(6-11)
  show "fst (alloc_in_region (loc B CHUNK_INFO_SIZE) n st) = loc B (off ds (length ds) + CHUNK_INFO_SIZE)"
    by (simp add: eq F_def)
  have lay: "layout_ok sz (ds @ [(f, fl)])" using ok by (rule region_okD)
  then have nn: "\<forall>c\<in>set ds. 0 \<le> fst c" and sz: "sz < 2 ^ 31" by (auto simp: layout_ok_def)
  let ?st = "snd (alloc_in_region (loc B CHUNK_INFO_SIZE) n st)"
  note rd = region_okD[OF ok]
  have len: "int (length (ds @ [(f, fl)])) + 1 = nc" by (simp add: nc_def)
  have offk: "off cs j = (if j \<le> m then off ds j else if j = m + 1 then F + 24 + k else arr - 32)" if "j \<le> m + 2" for j
    using that sizes(6) by (auto simp: cs_def off_append1 m_def F_def k_def off_def numeral_2_eq_2 le_Suc_eq)
  have offj: "0 \<le> off ds j" "off ds j + 24 \<le> F" if "j < m" for j
    using off_step[OF nn] that by (simp_all add: m_def F_def off_nonneg[OF nn])
  have cj: "cell st (loc B (arr + (8 + 8 * int j))) = loc B (off ds j)" "smart st (loc B (off ds j)) = 
      \<lparr>sp_size = fst (ds ! j), sp_flag = snd (ds ! j), sp_base = loc B 0, sp_addr = loc B (off ds j + 24)\<rparr>" if "j < m" for j
    using rd(5,6)[of j] that unfolding len arr_def[symmetric]
    by (simp_all add: m_def off_append1 nth_append chunk_at_def algebra_simps)
  show "region_ok ?st B sz cs"
  proof (rule region_okI[where nc = "nc + 1" and arr = "arr - 8"])
    show "layout_ok sz cs"
      using sizes nn sz offk[of "m + 2"]
      by (auto simp: cs_def layout_ok_def arr_def nc_def simp flip: k_def m_def)
    show "region ?st (loc B 24) = \<lparr>r_alloc_size = sz, r_used_size = reserved_bytes cs + 2 * (24 + 8),
       r_n_chunks = nc + 1, r_base_addr = loc B 0, r_chunks = loc B (arr - 8)\<rparr>"
      by (simp add: eq cs_def reserved_bytes_def flag_defs k_def)
    show "cell ?st (loc B (arr - 8)) = loc B (arr - 8 - 24)"
      using sizes by (simp add: eq)
    show "chunk_at ?st B (arr - 8 - 24) (8 * (nc + 1), RESERVED)"
      using sizes by (simp add: eq chunk_at_def)
    fix j assume "j < length cs"
    then consider "j < m" | "j = m" | "j = m + 1" by (force simp: cs_def m_def)
    then show "cell ?st (loc B (arr - 8 + 8 * (int j + 1))) = loc B (off cs j)"
      using sizes by cases (simp_all add: eq offk move_cells_in[of "Suc j"] cj nc_def F_def m_def)
    from \<open>j < length cs\<close> consider "j < m" | "j = m" | "j = m + 1" by (force simp: cs_def m_def)
    then show "chunk_at ?st B (off cs j) (cs ! j)"
      using sizes offj[of j] cj[of j]
      by cases (simp_all add: eq offk chunk_at_def F_def[folded m_def, symmetric], simp_all add: cs_def nth_append m_def k_def F_def)
  qed (simp_all add: cs_def nc_def m_def arr_def)
qed

section \<open>Merging\<close>

definition grow_last :: "chunks \<Rightarrow> chunks" where
  "grow_last cs = butlast cs @ [(fst (last cs) + CHUNK_ARR, snd (last cs))]"

lemma length_grow_last [simp]: "cs \<noteq> [] \<Longrightarrow> length (grow_last cs) = length cs"
  by (simp add: grow_last_def)

lemma grow_last_Nil [simp]: "grow_last cs \<noteq> []"
  by (simp add: grow_last_def)

lemma nth_grow_last:
  "k < length cs \<Longrightarrow> grow_last cs ! k = (if k = length cs - 1 then (fst (cs ! k) + CHUNK_ARR, snd (cs ! k)) else cs ! k)"
  by (cases cs rule: rev_cases) (auto simp: grow_last_def nth_append)

lemma off_grow_last:
  "cs \<noteq> [] \<Longrightarrow> k \<le> length cs \<Longrightarrow> off (grow_last cs) k = (if k = length cs then off cs k + CHUNK_ARR else off cs k)"
  by (cases cs rule: rev_cases) (auto simp: grow_last_def off_append1, auto simp: off_def)

lemma reserved_grow_last: "cs \<noteq> [] \<Longrightarrow> snd (last cs) \<noteq> RESERVED \<Longrightarrow> reserved_bytes (grow_last cs) = reserved_bytes cs"
  by (cases cs rule: rev_cases) (auto simp: grow_last_def, auto simp: reserved_bytes_def)

lemma merged_region_ok:
  assumes cs_def: "cs = xs @ (a, fa) # (b, fb) # ys"
    and ds_def: "ds = xs @ (a + CHUNK_INFO_SIZE + b, UNALLOCATED) # ys"
    and ok: "region_ok st B sz cs" and free: "fa \<noteq> RESERVED" "fb \<noteq> RESERVED" "snd (last cs) \<noteq> RESERVED"
    and m_def: "m = length xs" and nc_def: "nc = int (length cs) + 1" and arr_def: "arr = sz - 8 * nc"
    and P_def: "P = off xs m"
    and region: "region st' (loc B CHUNK_INFO_SIZE) = \<lparr>r_alloc_size = sz,
       r_used_size = reserved_bytes cs + 2 * (CHUNK_INFO_SIZE + CHUNK_ARR), r_n_chunks = nc - 1,
       r_base_addr = loc B 0, r_chunks = loc B (arr + 8)\<rparr>"
    and smart: "smart st' = (smart st)
       (loc B P := \<lparr>sp_size = a + CHUNK_INFO_SIZE + b, sp_flag = UNALLOCATED, sp_base = loc B 0, sp_addr = loc B (P + 24)\<rparr>,
        loc B (arr - 16) := \<lparr>sp_size = 8 * (nc - 1), sp_flag = RESERVED, sp_base = loc B 0, sp_addr = loc B (arr + 8)\<rparr>)"
    and cell0: "cell st' (loc B (arr + 8)) = loc B (arr - 16)"
    and cell1: "\<And>i. i < m \<Longrightarrow> cell st' (loc B (arr + 16 + 8 * int i)) = cell st (loc B (arr + 8 + 8 * int i))"
    and cell2: "cell st' (loc B (arr + 16 + 8 * int m)) = loc B P"
    and cell3: "\<And>i. m < i \<Longrightarrow> i < length ds \<Longrightarrow> cell st' (loc B (arr + 16 + 8 * int i)) = cell st (loc B (arr + 16 + 8 * int i))"
  shows "region_ok (widen_last (loc B CHUNK_INFO_SIZE) st') B sz (grow_last ds)"
proof -
  define l where "l = length ds"
  have lay: "layout_ok sz cs" using ok by (rule region_okD)
  then have nn: "\<forall>c\<in>set cs. 0 \<le> fst c" and sz: "sz < 2 ^ 31" and tot: "off cs (length cs) = arr - 24"
    by (auto simp: layout_ok_def arr_def nc_def)
  have nn': "\<forall>c\<in>set ds. 0 \<le> fst c" using nn by (auto simp: cs_def ds_def)
  have l: "l = m + 1 + length ys" "length cs = Suc l" "nc = int l + 2" "m < l" "ds \<noteq> []" by (auto simp: l_def cs_def ds_def m_def nc_def)
  have offs: "off ds k = (if k \<le> m then off cs k else off cs (Suc k))" if "k \<le> l" for k
    using that by (auto simp: ds_def cs_def off_append1 m_def off_def take_Cons Suc_diff_le split: nat.splits)
  have P: "P = off ds m" by (simp add: P_def ds_def off_append1 m_def)
  have end_off: "off ds l = arr - 24" using offs[of l] tot l by simp
  have off_lt: "0 \<le> off ds k" "off ds k + 24 \<le> arr - 24" if "k < l" for k
    using off_step[OF nn' that] off_nonneg[OF nn', of k] that end_off by (simp_all add: l_def)
  have off_ne: "off ds k = off ds k' \<longleftrightarrow> k = k'" if "k < l" "k' < l" for k k'
    using off_eq_iff[OF nn', of k k'] that by (simp add: l_def)
  have arr: "0 \<le> arr - 48" "arr + 8 * nc < 2 ^ 31" using off_lt[of 0] l sz by (simp_all add: arr_def)
  have cells: "cell st' (loc B (arr + 16 + 8 * int k)) = loc B (off ds k)" if "k < l" for k
  proof -
    consider "k < m" | "k = m" | "m < k" by linarith
    then show ?thesis
      using cell1[of k] cell2 cell3[of k] that region_okD(5)[OF ok, of k] region_okD(5)[OF ok, of "Suc k"] l offs[of k] P
      by cases (simp_all add: l_def[symmetric] arr_def nc_def algebra_simps)
  qed
  define L where "L = off ds (l - 1)"
  have last: "last_chunk st' (loc B CHUNK_INFO_SIZE) = loc B L"
    using cells[of "l - 1"] l by (simp add: last_chunk_def chunk_loc region L_def algebra_simps of_nat_diff)
  have smarts: "smart st' (loc B (off ds k)) = \<lparr>sp_size = fst (ds ! k), sp_flag = snd (ds ! k), sp_base = loc B 0,
      sp_addr = loc B (off ds k + 24)\<rparr>" if "k < l" for k
  proof -
    have nthk: "ds ! k = (if k < m then cs ! k else if k = m then (a + 24 + b, UNALLOCATED) else cs ! Suc k)" for k
      by (auto simp: ds_def cs_def m_def nth_append nth_Cons' Suc_diff_le)
    consider "k < m" | "k = m" | "m < k" by linarith
    then show ?thesis
      using region_okD(6)[OF ok, of k] region_okD(6)[OF ok, of "Suc k"] that l offs[of k] off_lt[of k] off_lt[of m] off_ne[of k m] arr P
      by cases (simp_all add: smart chunk_at_def nthk)
  qed
  have reserved: "reserved_bytes (grow_last ds) = reserved_bytes cs"
    using free by (subst reserved_grow_last)
      (auto simp: ds_def cs_def reserved_bytes_def flag_defs split: if_splits)
  have lastL: "0 \<le> L" "L + fst (ds ! (l - 1)) + 24 = arr - 24" "0 \<le> fst (ds ! (l - 1))"
    using off_lt[of "l - 1"] l off_Suc[of "l - 1" ds] end_off nn' by (auto simp: L_def l_def)
  show ?thesis
  proof (rule region_okI[where nc = "nc - 1" and arr = "arr + 8"])
    let ?st = "widen_last (loc B CHUNK_INFO_SIZE) st'"
    have w: "cell ?st = cell st'" "region ?st = region st'"
      "smart ?st = (smart st')(loc B L := (smart st' (loc B L))\<lparr>sp_size := int32 (sp_size (smart st' (loc B L)) + 8)\<rparr>)"
      by (simp_all add: widen_last_def Let_def put_smart_def last)
    have "\<forall>c\<in>set (grow_last ds). 0 \<le> fst c"
      using nn' last_in_set[OF l(5)] by (auto simp: grow_last_def dest: in_set_butlastD)
    then show "layout_ok sz (grow_last ds)"
      using sz l end_off by (auto simp: layout_ok_def off_grow_last l_def[symmetric] arr_def)
    show "region ?st (loc B 24) = \<lparr>r_alloc_size = sz, r_used_size = reserved_bytes (grow_last ds) + 2 * (24 + 8),
       r_n_chunks = nc - 1, r_base_addr = loc B 0, r_chunks = loc B (arr + 8)\<rparr>"
      by (simp add: w region reserved)
    show "cell ?st (loc B (arr + 8)) = loc B (arr + 8 - 24)"
      by (simp add: w cell0)
    show "chunk_at ?st B (arr + 8 - 24) (8 * (nc - 1), RESERVED)"
      using lastL arr l(3) by (simp add: chunk_at_def w smart add.commute)
    fix k assume "k < length (grow_last ds)"
    then have k: "k < l" using l by (simp add: l_def)
    show "cell ?st (loc B (arr + 8 + 8 * (int k + 1))) = loc B (off (grow_last ds) k)"
      using cells[OF k] k l by (simp add: w off_grow_last l_def algebra_simps)
    show "chunk_at ?st B (off (grow_last ds) k) (grow_last ds ! k)"
      using smarts[OF k] smarts[of "l - 1"] off_ne[of k "l - 1"] k l lastL off_lt[of k] arr
      by (auto simp: w chunk_at_def off_grow_last nth_grow_last L_def l_def[symmetric])
  qed (use l in \<open>simp_all add: l_def arr_def\<close>)
qed

lemma merge_setup:
  assumes cs_def: "cs = xs @ (a, fa) # (b, fb) # ys" and ok: "region_ok st B sz cs"
    and nc_def: "nc = int (length cs) + 1" and arr_def: "arr = sz - 8 * nc" and P_def: "P = off xs (length xs)"
  shows "region st (loc B CHUNK_INFO_SIZE) = \<lparr>r_alloc_size = sz,
       r_used_size = reserved_bytes cs + 2 * (CHUNK_INFO_SIZE + CHUNK_ARR), r_n_chunks = nc,
       r_base_addr = loc B 0, r_chunks = loc B arr\<rparr>"
    and "chunk st (loc B CHUNK_INFO_SIZE) 0 = loc B (arr - 24)"
    and "chunk st (loc B CHUNK_INFO_SIZE) (int (length xs) + 1) = loc B P"
    and "chunk st (loc B CHUNK_INFO_SIZE) (int (length xs) + 2) = loc B (P + a + 24)"
    and "smart st (loc B (arr - 24)) = \<lparr>sp_size = 8 * nc, sp_flag = RESERVED, sp_base = loc B 0, sp_addr = loc B arr\<rparr>"
    and "smart st (loc B P) = \<lparr>sp_size = a, sp_flag = fa, sp_base = loc B 0, sp_addr = loc B (P + 24)\<rparr>"
    and "smart st (loc B (P + a + 24)) = \<lparr>sp_size = b, sp_flag = fb, sp_base = loc B 0, sp_addr = loc B (P + a + 24 + 24)\<rparr>"
    and "0 \<le> P" "0 \<le> a" "0 \<le> b" "P + a + 24 + b + 24 \<le> arr - 24" "arr + 8 * nc < 2 ^ 31" "nc \<ge> int (length xs) + 3"
proof -
  have lay: "layout_ok sz cs" using ok by (rule region_okD)
  then have nn: "\<forall>c\<in>set cs. 0 \<le> fst c" and sz: "sz < 2 ^ 31" and tot: "off cs (length cs) = arr - 24"
    by (auto simp: layout_ok_def arr_def nc_def)
  let ?m = "length xs"
  have m: "?m < length cs" "Suc ?m < length cs" "cs ! ?m = (a, fa)" "cs ! Suc ?m = (b, fb)"
    by (simp_all add: cs_def nth_append)
  have P: "off cs ?m = P" by (simp add: cs_def off_append1 P_def)
  have Q: "off cs (Suc ?m) = P + a + 24" using off_Suc[OF m(1)] by (simp add: m P)
  note rd = region_okD(2-)[OF ok, folded nc_def, folded arr_def]
  show "region st (loc B CHUNK_INFO_SIZE) = \<lparr>r_alloc_size = sz,
       r_used_size = reserved_bytes cs + 2 * (CHUNK_INFO_SIZE + CHUNK_ARR), r_n_chunks = nc,
       r_base_addr = loc B 0, r_chunks = loc B arr\<rparr>" by (rule rd(1))
  show "chunk st (loc B CHUNK_INFO_SIZE) 0 = loc B (arr - 24)"
    using rd by (simp add: chunk_loc)
  show "chunk st (loc B CHUNK_INFO_SIZE) (int ?m + 1) = loc B P"
    using chunk_Suc[OF ok m(1) refl] by (simp add: P)
  show "chunk st (loc B CHUNK_INFO_SIZE) (int ?m + 2) = loc B (P + a + 24)"
    using chunk_Suc[OF ok m(2), of "int ?m + 2"] by (simp add: Q)
  show "smart st (loc B (arr - 24)) = \<lparr>sp_size = 8 * nc, sp_flag = RESERVED, sp_base = loc B 0, sp_addr = loc B arr\<rparr>"
    using rd(3) by (simp add: chunk_at_def)
  show "smart st (loc B P) = \<lparr>sp_size = a, sp_flag = fa, sp_base = loc B 0, sp_addr = loc B (P + 24)\<rparr>"
    using rd(5)[OF m(1)] by (simp add: chunk_at_def P m)
  show "smart st (loc B (P + a + 24)) = \<lparr>sp_size = b, sp_flag = fb, sp_base = loc B 0, sp_addr = loc B (P + a + 24 + 24)\<rparr>"
    using rd(5)[OF m(2)] by (simp add: chunk_at_def Q m add.commute)
  show "0 \<le> P" using off_nonneg[OF nn, of ?m] by (simp add: P m less_imp_le)
  show "0 \<le> a" "0 \<le> b" using nn by (auto simp: cs_def)
  have "Suc (Suc ?m) \<le> length cs" using m by simp
  then show "P + a + 24 + b + 24 \<le> arr - 24"
    using off_mono[OF nn lessI, of "Suc ?m"] off_mono[OF nn, of "Suc ?m" "length cs"] by (simp add: Q m tot)
  show "arr + 8 * nc < 2 ^ 31" using sz by (simp add: arr_def)
  show "nc \<ge> int (length xs) + 3" by (simp add: nc_def cs_def)
qed

text \<open>The state after two adjacent chunks became one, before the last chunk is widened;
  \<open>t\<close> entries of the pointer array were moved.\<close>

definition merged_state :: "addr \<Rightarrow> int \<Rightarrow> int \<Rightarrow> int \<Rightarrow> int \<Rightarrow> int \<Rightarrow> nat \<Rightarrow> heap_state \<Rightarrow> heap_state" where
  "merged_state B nc arr P j new t st =
     st\<lparr>cell := (cell (move_cells (loc B (arr + 8)) (loc B arr) t st))
          (loc B (arr + 8) := loc B (arr - 16), loc B (arr + 8 + 8 * j) := loc B P),
        smart := (smart st)
          (loc B P := \<lparr>sp_size = new, sp_flag = UNALLOCATED, sp_base = loc B 0, sp_addr = loc B (P + 24)\<rparr>,
           loc B (arr - 16) := \<lparr>sp_size = 8 * (nc - 1), sp_flag = RESERVED, sp_base = loc B 0, sp_addr = loc B (arr + 8)\<rparr>),
        region := (region st)(loc B 24 := (region st (loc B 24))\<lparr>r_chunks := loc B (arr + 8), r_n_chunks := nc - 1\<rparr>)\<rparr>"

lemma merged_state_ok:
  assumes cs: "cs = xs @ (a, fa) # (b, fb) # ys" and ok: "region_ok st B sz cs"
    and free: "fa \<noteq> RESERVED" "fb \<noteq> RESERVED" "snd (last cs) \<noteq> RESERVED"
    and nc_def: "nc = int (length cs) + 1" and arr_def: "arr = sz - 8 * nc" and P_def: "P = off xs (length xs)"
    and j_def: "j = int (length xs) + 1" and t: "nat j \<le> t" "t \<le> nat j + 1"
  shows "region_ok (widen_last (loc B CHUNK_INFO_SIZE) (merged_state B nc arr P j (a + 24 + b) t st)) B sz
     (grow_last (xs @ (a + CHUNK_INFO_SIZE + b, UNALLOCATED) # ys))"
proof -
  let ?st = "merged_state B nc arr P j (a + 24 + b) t st"
  note s = merge_setup[OF cs ok nc_def arr_def P_def]
  have sizes: "0 \<le> P" "0 \<le> a" "0 \<le> b" "P + a + 24 + b + 24 \<le> arr - 24" "arr + 8 * nc < 2 ^ 31" "nc \<ge> j + 2" "j \<ge> 1"
    using s by (simp_all add: j_def)
  show ?thesis
  proof (rule merged_region_ok[OF cs refl ok free refl nc_def arr_def P_def])
    show "cell ?st (loc B (arr + 16 + 8 * int i)) = cell st (loc B (arr + 8 + 8 * int i))" if "i < length xs" for i
      using that sizes t by (simp add: merged_state_def j_def move_cells_in[where i = "Suc i"] add.assoc)
    show "cell ?st (loc B (arr + 16 + 8 * int i)) = cell st (loc B (arr + 16 + 8 * int i))"
       if "length xs < i" "i < length (xs @ (a + CHUNK_INFO_SIZE + b, UNALLOCATED) # ys)" for i
      using that sizes t by (simp add: merged_state_def j_def move_cells_out nc_def cs)
  qed (use s(1) sizes in \<open>simp_all add: merged_state_def j_def\<close>)
qed

lemma merge_prev_eq:
  assumes cs: "cs = xs @ (a, fa) # (b, fb) # ys" and ok: "region_ok st B sz cs"
    and nc_def: "nc = int (length cs) + 1" and arr_def: "arr = sz - 8 * nc" and P_def: "P = off xs (length xs)"
    and j: "j = int (length xs) + 2"
  shows "merge_prev (loc B CHUNK_INFO_SIZE) j st =
    widen_last (loc B CHUNK_INFO_SIZE) (merged_state B nc arr P (j - 1) (a + CHUNK_INFO_SIZE + b) (nat j) st)"
proof -
  note s = merge_setup[OF cs ok nc_def arr_def P_def]
  have j1: "j - 1 = int (length xs) + 1" by (simp add: j)
  have sizes: "0 \<le> P" "0 \<le> a" "0 \<le> b" "P + a + 24 + b + 24 \<le> arr - 24" "arr + 8 * nc < 2 ^ 31" "nc \<ge> j + 1" "j \<ge> 2"
    using s by (simp_all add: j)
  show ?thesis
    using s(1-7) sizes unfolding j1[symmetric] j[symmetric]
    by (simp add: merge_prev_def Let_def puts merged_state_def move_cells_def del: of_int_add of_int_diff)
qed

lemma cell_smart_swap: "st\<lparr>smart := x, cell := y\<rparr> = st\<lparr>cell := y, smart := x\<rparr>"
  by simp

lemma merge_next_eq:
  assumes cs: "cs = xs @ (a, fa) # (b, fb) # ys" and ok: "region_ok st B sz cs"
    and nc_def: "nc = int (length cs) + 1" and arr_def: "arr = sz - 8 * nc" and P_def: "P = off xs (length xs)"
    and j: "j = int (length xs) + 1" and ptr: "ptr = loc B (P' + CHUNK_INFO_SIZE)"
  shows "merge_next ptr (loc B CHUNK_INFO_SIZE) j st =
    widen_last (loc B CHUNK_INFO_SIZE) (merged_state B nc arr P' j (b + CHUNK_INFO_SIZE + a) (nat j) st)"
proof -
  note s = merge_setup[OF cs ok nc_def arr_def P_def]
  have j1: "j + 1 = int (length xs) + 2" by (simp add: j)
  have sizes: "0 \<le> P" "0 \<le> a" "0 \<le> b" "P + a + 24 + b + 24 \<le> arr - 24" "arr + 8 * nc < 2 ^ 31" "nc \<ge> j + 2" "j \<ge> 1"
    using s by (simp_all add: j)
  show ?thesis
    using s(1-7) sizes unfolding j1[symmetric] j[symmetric] ptr
    by (simp add: merge_next_def Let_def puts merged_state_def move_cells_def cell_smart_swap del: of_int_add of_int_diff)
qed

section \<open>Frame\<close>

definition agree :: "addr set \<Rightarrow> heap_state \<Rightarrow> heap_state \<Rightarrow> bool" where
  "agree X st st' \<longleftrightarrow> (\<forall>x\<in>X. cell st' x = cell st x \<and> smart st' x = smart st x \<and> region st' x = region st x)"

lemma loc_in_block: "0 \<le> y \<Longrightarrow> y < sz \<Longrightarrow> loc B y \<in> block B (nat sz)"
  by (auto simp: block_def loc_def intro!: image_eqI[of _ _ "nat y"])

lemma layout_bounds:
  assumes "layout_ok sz cs" "arr = sz - CHUNK_ARR * (int (length cs) + 1)"
  shows "k < length cs \<Longrightarrow> 0 \<le> off cs k \<and> off cs k + CHUNK_INFO_SIZE + fst (cs ! k) \<le> arr - CHUNK_INFO_SIZE"
    and "48 \<le> arr" "sz < 2 ^ 31"
proof -
  have nn: "\<forall>c\<in>set cs. 0 \<le> fst c" and ne: "cs \<noteq> []" and tot: "off cs (length cs) = arr - CHUNK_INFO_SIZE"
    using assms by (auto simp: layout_ok_def)
  show "k < length cs \<Longrightarrow> 0 \<le> off cs k \<and> off cs k + CHUNK_INFO_SIZE + fst (cs ! k) \<le> arr - CHUNK_INFO_SIZE"
    using off_mono[OF nn, of k "length cs"] off_nonneg[OF nn, of k] tot by simp
  show "48 \<le> arr" using off_step[OF nn, of 0 "length cs"] tot ne by simp
  show "sz < 2 ^ 31" using assms(1) by (simp add: layout_ok_def)
qed

lemma region_ok_agree:
  assumes ok: "region_ok st B sz cs" and ag: "agree (block B (nat sz)) st st'"
  shows "region_ok st' B sz cs"
proof -
  define nc where "nc = int (length cs) + 1"
  define arr where "arr = sz - CHUNK_ARR * nc"
  have nc1: "nc \<ge> 1" by (simp add: nc_def)
  note lay = region_okD(1)[OF ok]
  note bnd = layout_bounds[OF lay arr_def[unfolded nc_def]]
  have c: "cell st' (loc B y) = cell st (loc B y)" "smart st' (loc B y) = smart st (loc B y)"
    "region st' (loc B y) = region st (loc B y)" if "0 \<le> y" "y < sz" for y
    using ag loc_in_block[OF that] by (auto simp: agree_def)
  note rd = region_okD(2-)[OF ok, folded nc_def, folded arr_def]
  show ?thesis
  proof (rule region_okI[OF lay nc_def arr_def])
    fix k assume k: "k < length cs"
    then have "0 \<le> arr + 8 * (int k + 1)" "arr + 8 * (int k + 1) < sz" using bnd(2) by (simp_all add: arr_def nc_def)
    then show "cell st' (loc B (arr + CHUNK_ARR * (int k + 1))) = loc B (off cs k)"
      using rd(4)[OF k] c(1) by simp
    show "chunk_at st' B (off cs k) (cs ! k)"
    proof -
      have "0 \<le> fst (cs ! k)" using lay k by (simp add: layout_ok_def)
      then show ?thesis using rd(5)[OF k] c(2)[of "off cs k"] bnd(1)[OF k] nc1 by (simp add: chunk_at_def arr_def)
    qed
  qed (use rd c(1)[of arr] c(2)[of "arr - 24"] c(3)[of 24] bnd(2) nc1 in \<open>simp_all add: chunk_at_def arr_def\<close>)
qed

lemma move_cells_other:
  assumes "x \<notin> block B (nat sz)" "0 \<le> d" "d + 8 * int k \<le> sz"
  shows "cell (move_cells (loc B d) s k st) x = cell st x"
proof -
  have "x \<noteq> loc B (d + 8 * int i)" if "i < k" for i
    using assms loc_in_block[of "d + 8 * int i" sz B] that by auto
  then show ?thesis by (simp add: move_cells_def fold_upd_out)
qed

lemma not_in_block: "x \<notin> block B (nat sz) \<Longrightarrow> 0 \<le> y \<Longrightarrow> y < sz \<Longrightarrow> x \<noteq> loc B y"
  using loc_in_block by auto

lemma merged_frame:
  assumes cs: "cs = xs @ (a, fa) # (b, fb) # ys" and ok: "region_ok st B sz cs"
    and free: "fa \<noteq> RESERVED" "fb \<noteq> RESERVED" "snd (last cs) \<noteq> RESERVED"
    and nc_def: "nc = int (length cs) + 1" and arr_def: "arr = sz - 8 * nc" and P_def: "P = off xs (length xs)"
    and j_def: "j = int (length xs) + 1" and t: "nat j \<le> t" "t \<le> nat j + 1"
  shows "agree (- block B (nat sz)) st (merged_state B nc arr P j new t st)"
proof -
  let ?st = "merged_state B nc arr P j new t st"
  note s = merge_setup[OF cs ok nc_def arr_def P_def]
  have sizes: "0 \<le> P" "0 \<le> a" "0 \<le> b" "P + a + 24 + b + 24 \<le> arr - 24" "arr + 8 * nc = sz" "nc \<ge> j + 2" "j \<ge> 1"
    using s by (simp_all add: j_def arr_def)
  show ?thesis
    unfolding agree_def
  proof
    fix x assume "x \<in> - block B (nat sz)"
    then have x: "x \<notin> block B (nat sz)" by simp
    have ne: "x \<noteq> loc B P" "x \<noteq> loc B (arr - 16)" "x \<noteq> loc B (arr + 8)" "x \<noteq> loc B (arr + 8 + 8 * j)" "x \<noteq> loc B 24"
      by (rule not_in_block[OF x]; use sizes in linarith)+
    then show "cell ?st x = cell st x \<and> smart ?st x = smart st x \<and> region ?st x = region st x"
      using move_cells_other[OF x, of "arr + 8" t "loc B arr" st] sizes t by (simp add: merged_state_def)
  qed
qed

lemma widen_last_frame:
  assumes "last_chunk st r \<in> X" shows "agree (- X) st (widen_last r st)"
  using assms by (auto simp: agree_def widen_last_def Let_def put_smart_def)

lemma agree_trans: "agree X st st' \<Longrightarrow> agree X st' st'' \<Longrightarrow> agree X st st''"
  by (simp add: agree_def)

lemma last_chunk_in_block:
  assumes "region_ok (widen_last (loc B CHUNK_INFO_SIZE) st) B sz cs"
  shows "last_chunk st (loc B CHUNK_INFO_SIZE) \<in> block B (nat sz)"
proof -
  have eq: "last_chunk (widen_last r st) r = last_chunk st r" for r
    by (simp add: last_chunk_def chunk_def widen_last_def Let_def put_smart_def)
  note lay = region_okD(1)[OF assms]
  then obtain ds c where cs: "cs = ds @ [c]" by (cases cs rule: rev_cases) (auto simp: layout_ok_def)
  have "last_chunk st (loc B CHUNK_INFO_SIZE) = loc B (off cs (length ds))"
    using last_chunk_eq[OF assms[unfolded cs]] cs by (simp add: off_append1 eq)
  moreover have "0 \<le> off cs (length ds)" "off cs (length ds) < sz"
    using layout_bounds(1)[OF lay refl, of "length ds"] lay cs by (auto simp: layout_ok_def)
  ultimately show ?thesis by (simp add: loc_in_block)
qed

lemma merged_heap [simp]: "heap (merged_state B nc arr P j new t st) = heap st"
  "heap (widen_last r st) = heap st"
  by (simp_all add: merged_state_def widen_last_def Let_def put_smart_def)

lemma merge_prev_ok:
  assumes cs: "cs = xs @ (a, fa) # (b, fb) # ys" and ok: "region_ok st B sz cs"
    and free: "fa \<noteq> RESERVED" "fb \<noteq> RESERVED" "snd (last cs) \<noteq> RESERVED"
    and j: "j = int (length xs) + 2"
  shows "region_ok (merge_prev (loc B CHUNK_INFO_SIZE) j st) B sz
       (grow_last (xs @ (a + CHUNK_INFO_SIZE + b, UNALLOCATED) # ys))" (is "region_ok ?st _ _ _")
    and "agree (- block B (nat sz)) st (merge_prev (loc B CHUNK_INFO_SIZE) j st)"
    and "heap (merge_prev (loc B CHUNK_INFO_SIZE) j st) = heap st"
proof -
  have j1: "j - 1 = int (length xs) + 1" by (simp add: j)
  note eq = merge_prev_eq[OF cs ok refl refl refl j]
  show ok': "region_ok ?st B sz (grow_last (xs @ (a + CHUNK_INFO_SIZE + b, UNALLOCATED) # ys))"
    unfolding eq by (rule merged_state_ok[OF cs ok free refl refl refl j1]) simp_all
  show "agree (- block B (nat sz)) st ?st"
    unfolding eq
    by (rule agree_trans[OF merged_frame[OF cs ok free refl refl refl j1]
          widen_last_frame[OF last_chunk_in_block[OF ok'[unfolded eq]]]]) simp_all
  show "heap ?st = heap st" by (simp add: eq)
qed

lemma merge_next_ok:
  assumes cs: "cs = xs @ (a, fa) # (b, fb) # ys" and ok: "region_ok st B sz cs"
    and free: "fa \<noteq> RESERVED" "fb \<noteq> RESERVED" "snd (last cs) \<noteq> RESERVED"
    and j: "j = int (length xs) + 1" and ptr: "ptr = loc B (off xs (length xs) + CHUNK_INFO_SIZE)"
  shows "region_ok (merge_next ptr (loc B CHUNK_INFO_SIZE) j st) B sz
       (grow_last (xs @ (a + CHUNK_INFO_SIZE + b, UNALLOCATED) # ys))" (is "region_ok ?st _ _ _")
    and "agree (- block B (nat sz)) st (merge_next ptr (loc B CHUNK_INFO_SIZE) j st)"
    and "heap (merge_next ptr (loc B CHUNK_INFO_SIZE) j st) = heap st"
proof -
  have comm: "b + CHUNK_INFO_SIZE + a = a + CHUNK_INFO_SIZE + b" by simp
  note eq = merge_next_eq[OF cs ok refl refl refl j ptr, unfolded comm]
  show ok': "region_ok ?st B sz (grow_last (xs @ (a + CHUNK_INFO_SIZE + b, UNALLOCATED) # ys))"
    unfolding eq by (rule merged_state_ok[OF cs ok free refl refl refl j]) simp_all
  show "agree (- block B (nat sz)) st ?st"
    unfolding eq
    by (rule agree_trans[OF merged_frame[OF cs ok free refl refl refl j]
          widen_last_frame[OF last_chunk_in_block[OF ok'[unfolded eq]]]]) simp_all
  show "heap ?st = heap st" by (simp add: eq)
qed

lemma alloc_frame:
  assumes ok: "region_ok st B sz (ds @ [(f, fl)])"
    and fits: "uint n + CHUNK_INFO_SIZE + CHUNK_ARR < f" "fl \<noteq> RESERVED"
  shows "agree (- block B (nat sz)) st (snd (alloc_in_region (loc B CHUNK_INFO_SIZE) n st))"
    and "heap (snd (alloc_in_region (loc B CHUNK_INFO_SIZE) n st)) = heap st"
proof -
  define nc where "nc = int (length ds) + 2"
  define arr where "arr = sz - 8 * nc"
  define F where "F = off ds (length ds)"
  define k where "k = uint n"
  note eq = alloc_in_region_eq[OF ok fits nc_def arr_def F_def k_def]
  note sizes = alloc_setup(6-11)[OF ok fits nc_def arr_def F_def, folded k_def]
  have sz: "sz = arr + 8 * nc" by (simp add: arr_def)
  let ?st = "snd (alloc_in_region (loc B CHUNK_INFO_SIZE) n st)"
  show "heap ?st = heap st" by (simp add: eq)
  show "agree (- block B (nat sz)) st ?st"
    unfolding agree_def
  proof
    fix x assume "x \<in> - block B (nat sz)"
    then have x: "x \<notin> block B (nat sz)" by simp
    have ne: "x \<noteq> loc B F" "x \<noteq> loc B (F + 24 + k)" "x \<noteq> loc B (arr - 32)" "x \<noteq> loc B (arr - 8)"
      "x \<noteq> loc B (arr - 8 + 8 * (nc - 1))" "x \<noteq> loc B (arr - 8 + 8 * nc)" "x \<noteq> loc B 24"
      by (rule not_in_block[OF x]; use sizes sz in simp)+
    then show "cell ?st x = cell st x \<and> smart ?st x = smart st x \<and> region ?st x = region st x"
      using move_cells_other[OF x, of "arr - 8" "nat nc" "loc B arr" st] sizes sz by (simp add: eq)
  qed
qed

section \<open>The heap\<close>

record layout =
  l_base :: addr
  l_size :: int
  l_chunks :: chunks

definition region_at :: "heap_state \<Rightarrow> addr \<Rightarrow> layout \<Rightarrow> bool" where
  "region_at st r L \<longleftrightarrow> r = loc (l_base L) CHUNK_INFO_SIZE \<and> region_ok st (l_base L) (l_size L) (l_chunks L) \<and>
     snd (last (l_chunks L)) = UNALLOCATED \<and>
     (\<forall>c\<in>set (l_chunks L). snd c = UNALLOCATED \<or> snd c = RESERVED \<or> snd c = CULLED)"

definition extent :: "layout \<Rightarrow> addr set" where
  "extent L = block (l_base L) (nat (l_size L))"

definition heap_ok :: "heap_state \<Rightarrow> addr \<Rightarrow> layout list \<Rightarrow> bool" where
  "heap_ok st h Ls \<longleftrightarrow>
     h_n_regions (heap st h) = int (length Ls) + 1 \<and>
     (\<forall>i < length Ls. region_at st (reg st h (int i + 1)) (Ls ! i) \<and>
        (\<forall>k < length Ls. h_regions (heap st h) + 8 * of_int (int k + 1) \<notin> extent (Ls ! i))) \<and>
     (\<forall>i < length Ls. \<forall>k < length Ls. i \<noteq> k \<longrightarrow> extent (Ls ! i) \<inter> extent (Ls ! k) = {})"

lemma agree_subset: "agree X st st' \<Longrightarrow> Y \<subseteq> X \<Longrightarrow> agree Y st st'"
  by (auto simp: agree_def)

lemma region_at_agree: "region_at st r L \<Longrightarrow> agree (extent L) st st' \<Longrightarrow> region_at st' r L"
  using region_ok_agree by (auto simp: region_at_def extent_def)

lemma heap_ok_update:
  assumes ok: "heap_ok st h Ls" and i: "i < length Ls"
    and ag: "agree (- extent (Ls ! i)) st st'" and hp: "heap st' = heap st"
    and new: "region_at st' (loc (l_base L) CHUNK_INFO_SIZE) L" and same: "l_base L = l_base (Ls ! i)" "l_size L = l_size (Ls ! i)"
  shows "heap_ok st' h (Ls[i := L])"
proof -
  have ext: "extent (Ls[i := L] ! k) = extent (Ls ! k)" for k
    using same i by (cases "k = i") (simp_all add: extent_def)
  have reg: "reg st' h (int k + 1) = reg st h (int k + 1)" if "k < length Ls" for k
    using ok i ag that by (auto simp: heap_ok_def reg_def hp agree_def)
  have old: "region_at st' (reg st h (int k + 1)) (Ls ! k)" if "k < length Ls" "k \<noteq> i" for k
  proof -
    have "region_at st (reg st h (int k + 1)) (Ls ! k)" "extent (Ls ! k) \<subseteq> - extent (Ls ! i)"
      using ok i that unfolding heap_ok_def by (blast, fastforce)
    then show ?thesis
      using region_at_agree agree_subset[OF ag] by blast
  qed
  have "region_at st' (reg st h (int i + 1)) L"
    using new ok i same by (auto simp: heap_ok_def region_at_def)
  with old have "region_at st' (reg st h (int k + 1)) (Ls[i := L] ! k)" if "k < length Ls" for k
    using that by (cases "k = i") simp_all
  then show ?thesis
    using ok reg unfolding heap_ok_def ext by (simp add: hp)
qed

section \<open>Allocation refines first fit on layouts\<close>

definition payload :: "layout \<Rightarrow> nat \<Rightarrow> addr set" where
  "payload L k = block (loc (l_base L) (off (l_chunks L) k + CHUNK_INFO_SIZE)) (nat (fst (l_chunks L ! k)))"

definition room :: "u32 \<Rightarrow> layout \<Rightarrow> bool" where
  "room n L \<longleftrightarrow> uint n + CHUNK_INFO_SIZE + CHUNK_ARR < fst (last (l_chunks L))"

definition carve :: "u32 \<Rightarrow> layout \<Rightarrow> layout" where
  "carve n L = L\<lparr>l_chunks := alloc_chunks (uint n) (l_chunks L)\<rparr>"

definition first_fit :: "u32 \<Rightarrow> layout list \<Rightarrow> nat option" where
  "first_fit n Ls = find (\<lambda>i. room n (Ls ! i)) [0..<length Ls]"

lemma region_atE:
  assumes "region_at st r L"
  obtains ds f where "l_chunks L = ds @ [(f, UNALLOCATED)]" "region_ok st (l_base L) (l_size L) (ds @ [(f, UNALLOCATED)])"
    "r = loc (l_base L) CHUNK_INFO_SIZE"
  using assms by (cases "l_chunks L" rule: rev_cases) (auto simp: region_at_def region_ok_def layout_ok_def)

lemma F_CHECK_simps [simp]: "F_CHECK c \<longleftrightarrow> False" if "sp_flag c = UNALLOCATED"
  using that by (simp add: F_CHECK_def UNALLOCATED_def)

lemma region_fits_room:
  assumes "region_at st r L" "uint n + 32 < 2 ^ 31"
  shows "region_fits st n r \<longleftrightarrow> room n L"
  using assms(1)
proof (rule region_atE)
  fix ds f assume cs: "l_chunks L = ds @ [(f, UNALLOCATED)]"
    and ok: "region_ok st (l_base L) (l_size L) (ds @ [(f, UNALLOCATED)])" and r: "r = loc (l_base L) CHUNK_INFO_SIZE"
  have "smart st (last_chunk st r) = \<lparr>sp_size = f, sp_flag = UNALLOCATED, sp_base = loc (l_base L) 0,
      sp_addr = loc (l_base L) (off ds (length ds) + 24)\<rparr>"
    using last_chunk_eq[OF ok] region_okD(6)[OF ok, of "length ds"] r by (simp add: chunk_at_def off_append1)
  then show ?thesis using assms(2) by (simp add: region_fits_def room_def cs)
qed

lemma find_upto_nat: "find P [1..int n] = map_option (\<lambda>i. int i + 1) (find (\<lambda>i. P (int i + 1)) [0..<n])"
proof -
  have "[1..int n] = map (\<lambda>i. int i + 1) [0..<n]"
    by (induction n) (simp_all add: upto_rec2)
  moreover have "find P (map f xs) = map_option f (find (\<lambda>x. P (f x)) xs)" for f :: "nat \<Rightarrow> int" and xs
    by (induction xs) auto
  ultimately show ?thesis by simp
qed

lemma find_cong_set: "(\<And>x. x \<in> set xs \<Longrightarrow> P x = Q x) \<Longrightarrow> find P xs = find Q xs"
  by (induction xs) auto

lemma carve_ok:
  assumes at: "region_at st r L" and fit: "room n L"
  shows "region_at (snd (alloc_in_region r n st)) (loc (l_base (carve n L)) CHUNK_INFO_SIZE) (carve n L)"
    and "fst (alloc_in_region r n st) = loc (l_base L) (off (l_chunks L) (length (l_chunks L) - 1) + CHUNK_INFO_SIZE)"
    and "agree (- extent L) st (snd (alloc_in_region r n st))" and "heap (snd (alloc_in_region r n st)) = heap st"
proof -
  obtain ds f where cs: "l_chunks L = ds @ [(f, UNALLOCATED)]" and
    ok: "region_ok st (l_base L) (l_size L) (ds @ [(f, UNALLOCATED)])" and r: "r = loc (l_base L) CHUNK_INFO_SIZE"
    using at by (rule region_atE)
  have fits: "uint n + CHUNK_INFO_SIZE + CHUNK_ARR < f" "UNALLOCATED \<noteq> RESERVED"
    using fit cs by (simp_all add: room_def flag_defs)
  note a = alloc_in_region_ok[OF refl ok fits]
  show "region_at (snd (alloc_in_region r n st)) (loc (l_base (carve n L)) CHUNK_INFO_SIZE) (carve n L)"
    using a(2) at by (auto simp: region_at_def carve_def alloc_chunks_def cs r)
  show "fst (alloc_in_region r n st) = loc (l_base L) (off (l_chunks L) (length (l_chunks L) - 1) + CHUNK_INFO_SIZE)"
    using a(1) by (simp add: cs r off_append1)
  show "agree (- extent L) st (snd (alloc_in_region r n st))" "heap (snd (alloc_in_region r n st)) = heap st"
    using alloc_frame[OF ok fits] by (simp_all add: extent_def r)
qed

lemma alloc_eq:
  assumes ok: "heap_ok st h Ls" and n: "uint n + 32 < 2 ^ 31" and ff: "first_fit n Ls = Some i"
  shows "alloc h n st = Some (Inr (alloc_in_region (reg st h (int i + 1)) n st))"
proof -
  have at: "region_at st (reg st h (int k + 1)) (Ls ! k)" if "k < length Ls" for k
    using ok that by (simp add: heap_ok_def)
  have "find (\<lambda>i. region_fits st n (reg st h (int i + 1))) [0..<length Ls] = Some i"
    using ff region_fits_room[OF at n] unfolding first_fit_def
    by (subst find_cong_set[where Q = "\<lambda>i. room n (Ls ! i)"]) auto
  moreover have "h_n_regions (heap st h) - 1 = int (length Ls)" using ok by (simp add: heap_ok_def)
  ultimately have "find (\<lambda>i. region_fits st n (reg st h i)) [1..h_n_regions (heap st h) - 1] = Some (int i + 1)"
    by (simp add: find_upto_nat)
  then show ?thesis by (subst alloc.simps) simp
qed

lemma alloc_refines:
  assumes ok: "heap_ok st h Ls" and n: "uint n + 32 < 2 ^ 31" and ff: "first_fit n Ls = Some i"
  shows "\<exists>p st'. alloc h n st = Some (Inr (p, st')) \<and> heap_ok st' h (Ls[i := carve n (Ls ! i)]) \<and>
    p = loc (l_base (Ls ! i)) (off (l_chunks (Ls ! i)) (length (l_chunks (Ls ! i)) - 1) + CHUNK_INFO_SIZE)"
proof -
  have i: "i < length Ls" "room n (Ls ! i)" using ff by (auto simp: first_fit_def find_Some_iff)
  have at: "region_at st (reg st h (int i + 1)) (Ls ! i)" using ok i by (simp add: heap_ok_def)
  note c = carve_ok[OF at i(2)]
  show ?thesis
    using heap_ok_update[OF ok i(1) c(3,4,1)] c(2) alloc_eq[OF assms]
    by (intro exI[of _ "fst (alloc_in_region (reg st h (int i + 1)) n st)"] exI[of _ "snd (alloc_in_region (reg st h (int i + 1)) n st)"])
      (simp add: carve_def prod_eq_iff)
qed

lemma at_loc: "at (loc B a) t = loc B (a + int t)"
  by (simp add: loc_def)

lemma payload_disjoint:
  assumes lay: "layout_ok (l_size L) (l_chunks L)" and k: "k < length (l_chunks L)" "l < length (l_chunks L)" "k \<noteq> l"
  shows "payload L k \<inter> payload L l = {}"
proof -
  let ?cs = "l_chunks L"
  have nn: "\<forall>c\<in>set ?cs. 0 \<le> fst c" using lay by (simp add: layout_ok_def)
  have pl: "\<exists>y. off ?cs i + 24 \<le> y \<and> y < off ?cs i + 24 + fst (?cs ! i) \<and> x = loc (l_base L) y \<and> 0 \<le> y \<and> y < 2 ^ 32"
    if "x \<in> payload L i" "i < length ?cs" for x i
  proof -
    obtain t where t: "t < nat (fst (?cs ! i))" "x = at (loc (l_base L) (off ?cs i + 24)) t"
      using \<open>x \<in> payload L i\<close> unfolding payload_def by (rule in_blockE)
    show ?thesis
      using t layout_bounds(1)[OF lay refl, of i] layout_bounds(3)[OF lay refl] that
      by (intro exI[of _ "off ?cs i + 24 + int t"]) (auto simp: at_loc)
  qed
  have "x \<notin> payload L l" if "x \<in> payload L k" for x
  proof
    assume "x \<in> payload L l"
    from pl[OF this k(2)] pl[OF that k(1)] obtain y z where
      y: "off ?cs l + 24 \<le> y" "y < off ?cs l + 24 + fst (?cs ! l)" "x = loc (l_base L) y" "0 \<le> y" "y < 2 ^ 32" and
      z: "off ?cs k + 24 \<le> z" "z < off ?cs k + 24 + fst (?cs ! k)" "x = loc (l_base L) z" "0 \<le> z" "z < 2 ^ 32" by blast
    then have "y = z" by simp
    moreover have "k < l \<or> l < k" using k(3) by linarith
    ultimately show False
      using y z off_mono[OF nn, of k l] off_mono[OF nn, of l k] k by auto
  qed
  then show ?thesis by blast
qed

lemma payload_in_extent:
  assumes lay: "layout_ok (l_size L) (l_chunks L)" and k: "k < length (l_chunks L)"
  shows "payload L k \<subseteq> extent L"
proof
  fix x assume "x \<in> payload L k"
  then obtain t where t: "t < nat (fst (l_chunks L ! k))" "x = at (loc (l_base L) (off (l_chunks L) k + 24)) t"
    unfolding payload_def by (rule in_blockE)
  then have "x = loc (l_base L) (off (l_chunks L) k + 24 + int t)" by (simp add: at_loc)
  with t layout_bounds(1)[OF lay refl k] show "x \<in> extent L"
    unfolding extent_def at_loc by (auto simp: at_loc intro!: loc_in_block)
qed

section \<open>Releasing\<close>

lemma of_int_8: "h + 8 * of_int j + (8 * of_int k :: addr) = h + 8 * of_int (j + k)"
  by (simp add: algebra_simps)

lemma find_unique:
  assumes "x \<in> set xs" "\<And>y. y \<in> set xs \<Longrightarrow> P y \<longleftrightarrow> y = x"
  shows "find P xs = Some x"
  using assms by (induction xs) auto

lemma find_in_region_some:
  assumes ok: "region_ok st B sz cs" and k: "k < length cs"
  shows "find_in_region st (loc B (off cs k + CHUNK_INFO_SIZE)) (loc B CHUNK_INFO_SIZE) = Some (int k + 1)"
proof -
  note lay = region_okD(1)[OF ok]
  have nn: "\<forall>c\<in>set cs. 0 \<le> fst c" using lay by (simp add: layout_ok_def)
  have sp: "sp_addr (smart st (chunk st (loc B CHUNK_INFO_SIZE) j)) = loc B (off cs (if j = 0 then length cs else nat j - 1) + CHUNK_INFO_SIZE)"
    if "0 \<le> j" "j \<le> int (length cs)" for j
    using that region_okD(4)[OF ok] region_okD(6)[OF ok, of "nat j - 1"] chunk_0[OF ok] chunk_Suc[OF ok, of "nat j - 1" j] lay
    by (auto simp: chunk_at_def layout_ok_def)
  have bnd: "0 \<le> off cs l \<and> off cs l + 24 < 2 ^ 32" if "l \<le> length cs" for l
    using layout_bounds(3)[OF lay refl] off_nonneg[OF nn that] off_step[OF nn, of l "length cs"] lay that
    by (cases "l = length cs") (auto simp: layout_ok_def)
  show ?thesis
    unfolding find_in_region_def
  proof (rule find_unique)
    show "int k + 1 \<in> set [0..r_n_chunks (region st (loc B CHUNK_INFO_SIZE)) - 1]"
      using k region_okD(2)[OF ok] by simp
    fix j assume "j \<in> set [0..r_n_chunks (region st (loc B CHUNK_INFO_SIZE)) - 1]"
    then have j: "0 \<le> j" "j \<le> int (length cs)" using region_okD(2)[OF ok] by simp_all
    define l where "l = (if j = 0 then length cs else nat j - 1)"
    have l: "l \<le> length cs" "l = k \<longleftrightarrow> j = int k + 1" using j k by (auto simp: l_def)
    then show "sp_addr (smart st (chunk st (loc B CHUNK_INFO_SIZE) j)) = loc B (off cs k + CHUNK_INFO_SIZE) \<longleftrightarrow> j = int k + 1"
      using bnd[of k] bnd[of l] k off_eq_iff[OF nn, of l k] by (simp add: sp[OF j] flip: l_def)
  qed
qed

lemma find_in_region_none:
  assumes ok: "region_ok st B sz cs" and p: "p \<notin> block B (nat sz)"
  shows "find_in_region st p (loc B CHUNK_INFO_SIZE) = None"
proof -
  note lay = region_okD(1)[OF ok]
  have "sp_addr (smart st (chunk st (loc B CHUNK_INFO_SIZE) j)) \<in> block B (nat sz)"
    if "0 \<le> j" "j \<le> int (length cs)" for j
  proof (cases "j = 0")
    case True
    then show ?thesis
      using region_okD(4)[OF ok] chunk_0[OF ok] layout_bounds(2)[OF lay refl] lay
      by (auto simp: chunk_at_def layout_ok_def intro!: loc_in_block)
  next
    case False
    then have k: "nat j - 1 < length cs" "j = int (nat j - 1) + 1" using that by linarith+
    have "0 \<le> fst (cs ! (nat j - 1))" using lay k by (simp add: layout_ok_def)
    with k show ?thesis
      using region_okD(6)[OF ok k(1)] chunk_Suc[OF ok k] layout_bounds(1)[OF lay refl k(1)]
      by (auto simp: chunk_at_def intro!: loc_in_block)
  qed
  then show ?thesis
    using p region_okD(2)[OF ok] by (auto simp: find_in_region_def find_None_iff)
qed

definition chunk_ptr :: "layout \<Rightarrow> nat \<Rightarrow> addr" where
  "chunk_ptr L k = loc (l_base L) (off (l_chunks L) k + CHUNK_INFO_SIZE)"

lemma chunk_ptr_extent:
  assumes "layout_ok (l_size L) (l_chunks L)" "k < length (l_chunks L)"
  shows "chunk_ptr L k \<in> extent L"
proof -
  have "0 \<le> fst (l_chunks L ! k)" using assms by (simp add: layout_ok_def)
  then show ?thesis
    using layout_bounds(1)[OF assms(1) refl assms(2)] by (simp add: chunk_ptr_def extent_def loc_in_block)
qed

lemma find_chunk_ptr:
  assumes ok: "heap_ok st h Ls" and i: "i < length Ls" and k: "k < length (l_chunks (Ls ! i))"
  shows "find_chunk st h (chunk_ptr (Ls ! i) k) = Some (int i + 1, int k + 1)"
proof -
  have at: "region_at st (reg st h (int l + 1)) (Ls ! l)" if "l < length Ls" for l
    using ok that by (simp add: heap_ok_def)
  have here: "find_in_region st (chunk_ptr (Ls ! i) k) (reg st h (int i + 1)) = Some (int k + 1)"
    using at[OF i] find_in_region_some[OF _ k] by (auto simp: region_at_def chunk_ptr_def)
  have ext: "chunk_ptr (Ls ! i) k \<in> extent (Ls ! i)"
    using at[OF i] k by (auto simp: region_at_def region_ok_def Let_def intro: chunk_ptr_extent)
  have there: "find_in_region st (chunk_ptr (Ls ! i) k) (reg st h (int l + 1)) = None" if "l < length Ls" "l \<noteq> i" for l
  proof -
    have "chunk_ptr (Ls ! i) k \<notin> extent (Ls ! l)"
      using ok i that ext unfolding heap_ok_def by blast
    then show ?thesis using at[OF that(1)] find_in_region_none by (auto simp: region_at_def extent_def)
  qed
  have "find (\<lambda>l. find_in_region st (chunk_ptr (Ls ! i) k) (reg st h (int l + 1)) \<noteq> None) [0..<length Ls] = Some i"
  proof (rule find_unique)
    fix l assume "l \<in> set [0..<length Ls]"
    then show "find_in_region st (chunk_ptr (Ls ! i) k) (reg st h (int l + 1)) \<noteq> None \<longleftrightarrow> l = i"
      using here there[of l] by (cases "l = i") auto
  qed (use i in simp)
  moreover have "h_n_regions (heap st h) - 1 = int (length Ls)" using ok by (simp add: heap_ok_def)
  ultimately show ?thesis using here by (simp add: find_chunk_def find_upto_nat)
qed

definition mark_culled :: "addr \<Rightarrow> int \<Rightarrow> heap_state \<Rightarrow> heap_state" where
  "mark_culled r j st =
     (let c = chunk st r j
      in put_region r ((region st r)\<lparr>r_used_size :=
           int32 (r_used_size (region st r) - (sp_size (smart st c) + CHUNK_INFO_SIZE + CHUNK_ARR))\<rparr>)
         (put_smart c ((smart st c)\<lparr>sp_flag := CULLED\<rparr>) st))"

lemma reserved_update:
  "k < length cs \<Longrightarrow> snd (cs ! k) = RESERVED \<Longrightarrow>
   reserved_bytes (cs[k := (fst (cs ! k), CULLED)]) = reserved_bytes cs - (fst (cs ! k) + CHUNK_INFO_SIZE + CHUNK_ARR)"
proof (induction cs arbitrary: k)
  case (Cons c cs)
  then show ?case by (cases k) (auto simp: reserved_bytes_def flag_defs)
qed simp

lemma off_update: "off (cs[k := (fst (cs ! k), g)]) l = off cs l"
proof (induction cs arbitrary: k l)
  case (Cons c cs)
  then show ?case by (cases k; cases l) (auto simp: off_def)
qed (simp add: off_def)

lemma mark_culled_ok:
  assumes ok: "region_ok st B sz cs" and k: "k < length cs" "snd (cs ! k) = RESERVED" and j: "j = int k + 1"
  shows "region_ok (mark_culled (loc B CHUNK_INFO_SIZE) j st) B sz (cs[k := (fst (cs ! k), CULLED)])" (is "region_ok ?st _ _ ?cs")
    and "agree (- block B (nat sz)) st (mark_culled (loc B CHUNK_INFO_SIZE) j st)"
    and "heap (mark_culled (loc B CHUNK_INFO_SIZE) j st) = heap st"
    and "cell (mark_culled (loc B CHUNK_INFO_SIZE) j st) = cell st"
proof -
  define nc where "nc = int (length cs) + 1"
  define arr where "arr = sz - CHUNK_ARR * nc"
  note lay = region_okD(1)[OF ok]
  have nn: "\<forall>c\<in>set cs. 0 \<le> fst c" and tot: "off cs (length cs) = arr - CHUNK_INFO_SIZE"
    using lay by (auto simp: layout_ok_def arr_def nc_def)
  note bnd = layout_bounds[OF lay arr_def[unfolded nc_def]]
  note rd = region_okD(2-)[OF ok, folded nc_def, folded arr_def]
  have ch: "chunk st (loc B CHUNK_INFO_SIZE) j = loc B (off cs k)" using chunk_Suc[OF ok k(1) j] .
  have off: "0 \<le> off cs l" "off cs l + 24 + fst (cs ! l) \<le> arr - 24" "0 \<le> fst (cs ! l)" if "l < length cs" for l
    using bnd(1)[OF that] nn that by auto
  have nn': "\<forall>c\<in>set ?cs. 0 \<le> fst c"
    using nn nth_mem[OF k(1)] by (auto dest!: set_update_subset_insert[THEN subsetD])
  have res: "reserved_bytes ?cs = reserved_bytes cs - (fst (cs ! k) + 24 + 8)" "0 \<le> reserved_bytes ?cs"
    "reserved_bytes ?cs + 64 < 2 ^ 31"
    using reserved_update[OF k] sum_mono_filter[OF nn'] sum_mono_filter[OF nn] off(3)[OF k(1)] tot bnd(3)
    by (simp_all add: arr_def nc_def)
  have sm: "smart ?st = (smart st)(loc B (off cs k) := \<lparr>sp_size = fst (cs ! k), sp_flag = CULLED, sp_base = loc B 0,
       sp_addr = loc B (off cs k + 24)\<rparr>)"
    using rd(5)[OF k(1)] by (simp add: mark_culled_def ch puts chunk_at_def)
  have rg: "region ?st = (region st)(loc B 24 := (region st (loc B 24))\<lparr>r_used_size := reserved_bytes ?cs + 64\<rparr>)"
  proof -
    have u: "r_used_size (region st (loc B 24)) - (fst (cs ! k) + 24 + 8) = reserved_bytes ?cs + 64"
      using rd(1) res(1) by simp
    have "sp_size (smart st (loc B (off cs k))) = fst (cs ! k)" using rd(5)[OF k(1)] by (simp add: chunk_at_def)
    then show ?thesis using res(2,3) unfolding mark_culled_def ch puts Let_def by (simp only: u) simp
  qed
  show cl: "cell ?st = cell st" "heap ?st = heap st" by (simp_all add: mark_culled_def Let_def puts)
  have in_block: "loc B (off cs k) \<in> block B (nat sz)" "loc B 24 \<in> block B (nat sz)"
    by (rule loc_in_block; use off[OF k(1)] bnd(2) in \<open>simp add: arr_def nc_def\<close>)+
  then show "agree (- block B (nat sz)) st ?st"
    by (auto simp: agree_def sm rg cl)
  show "region_ok ?st B sz ?cs"
  proof (rule region_okI[where nc = nc and arr = arr])
    show "layout_ok sz ?cs" using lay nn' by (auto simp: layout_ok_def off_update)
    show "region ?st (loc B CHUNK_INFO_SIZE) = \<lparr>r_alloc_size = sz, r_used_size = reserved_bytes ?cs + 2 * (24 + 8),
      r_n_chunks = nc, r_base_addr = loc B 0, r_chunks = loc B arr\<rparr>"
      using rd(1) by (simp add: rg)
    show "chunk_at ?st B (arr - 24) (8 * nc, RESERVED)"
      using rd(3) off[OF k(1)] bnd(2,3) by (simp add: chunk_at_def sm arr_def nc_def)
    fix l assume "l < length ?cs"
    then have l: "l < length cs" by simp
    show "cell ?st (loc B (arr + 8 * (int l + 1))) = loc B (off ?cs l)" using rd(4)[OF l] by (simp add: cl off_update)
    show "chunk_at ?st B (off ?cs l) (?cs ! l)"
      using rd(5)[OF l] off_eq_iff[OF nn, of k l] l k off[OF l] off[OF k(1)] bnd(3)
      by (cases "l = k") (simp_all add: chunk_at_def sm off_update arr_def nc_def)
  qed (use rd(2) in \<open>simp_all add: cl nc_def arr_def\<close>)
qed

definition cull_chunks :: "nat \<Rightarrow> chunks \<Rightarrow> chunks" where
  "cull_chunks k cs =
     (let c = fst (cs ! k); p = cs ! (k - 1); q = cs ! (k + 1)
      in if snd p \<noteq> RESERVED then grow_last (take (k - 1) cs @ (fst p + CHUNK_INFO_SIZE + c, UNALLOCATED) # drop (k + 1) cs)
         else if snd q \<noteq> RESERVED then grow_last (take k cs @ (c + CHUNK_INFO_SIZE + fst q, UNALLOCATED) # drop (k + 2) cs)
         else cs[k := (c, CULLED)])"

lemma mergeable_flag:
  "sp_flag c = UNALLOCATED \<or> sp_flag c = RESERVED \<or> sp_flag c = CULLED \<Longrightarrow> mergeable c \<longleftrightarrow> sp_flag c \<noteq> RESERVED"
  by (auto simp: mergeable_def F_CHECK_def flag_defs)

lemma cull_unfold:
  assumes "find_chunk st h ptr = Some (i, j)" "reg (mark_culled (reg st h i) j st) h i = reg st h i"
  shows "cull h ptr st =
     (let r = reg st h i; st = mark_culled r j st;
          (j, st) = (if sp_flag (smart st (chunk st r j)) = CULLED \<and> mergeable (smart st (chunk st r (j - 1)))
                     then (j - 1, merge_prev r j st) else (j, st))
      in if mergeable (smart st (chunk st r j)) \<and> mergeable (smart st (chunk st r (j + 1)))
         then merge_next ptr r j st else st)"
  using assms by (simp add: cull_def mark_culled_def Let_def)

lemma chunk_smart:
  assumes "region_ok st B sz cs" "k < length cs" "j = int k + 1"
  shows "sp_flag (smart st (chunk st (loc B CHUNK_INFO_SIZE) j)) = snd (cs ! k)"
  using chunk_Suc[OF assms] region_okD(6)[OF assms(1,2)] by (simp add: chunk_at_def)

lemma cull_region:
  assumes ok: "region_ok st B sz cs" and r: "reg st h i = loc B CHUNK_INFO_SIZE" 
    and same: "reg (mark_culled (loc B CHUNK_INFO_SIZE) j st) h i = loc B CHUNK_INFO_SIZE"
    and flags: "\<forall>c\<in>set cs. snd c = UNALLOCATED \<or> snd c = RESERVED \<or> snd c = CULLED"
    and last: "snd (last cs) = UNALLOCATED"
    and cs: "cs = xs @ (p, fp) # (c, RESERVED) # (q, fq) # ys"
    and found: "find_chunk st h ptr = Some (i, j)" and j: "j = int (length xs) + 2"
    and ptr: "ptr = loc B (off cs (length xs + 1) + CHUNK_INFO_SIZE)"
    and one: "fp = RESERVED \<or> fq = RESERVED"
  shows "region_ok (cull h ptr st) B sz (cull_chunks (length xs + 1) cs)"
    and "agree (- block B (nat sz)) st (cull h ptr st)" and "heap (cull h ptr st) = heap st"
proof -
  let ?r = "loc B CHUNK_INFO_SIZE"
  define st1 where "st1 = mark_culled ?r j st"
  define cs1 where "cs1 = xs @ (p, fp) # (c, CULLED) # (q, fq) # ys"
  have k: "length xs + 1 < length cs" "snd (cs ! (length xs + 1)) = RESERVED" "j = int (length xs + 1) + 1"
    using j by (simp_all add: cs nth_append)
  have "cs[length xs + 1 := (fst (cs ! (length xs + 1)), CULLED)] = cs1" by (simp add: cs cs1_def nth_append list_update_append)
  note m = mark_culled_ok[OF ok k, folded st1_def, unfolded this]
  have fl: "mergeable (smart st1 (chunk st1 ?r (j - 1))) \<longleftrightarrow> fp \<noteq> RESERVED"
    "sp_flag (smart st1 (chunk st1 ?r j)) = CULLED" "mergeable (smart st1 (chunk st1 ?r j))"
    "mergeable (smart st1 (chunk st1 ?r (j + 1))) \<longleftrightarrow> fq \<noteq> RESERVED"
    using chunk_smart[OF m(1), of "length xs" "j - 1"] chunk_smart[OF m(1), of "length xs + 1" j]
      chunk_smart[OF m(1), of "length xs + 2" "j + 1"] j flags
    by (simp_all add: cs1_def cs nth_append mergeable_flag, simp_all add: flag_defs)
  have cull: "cull h ptr st = (if fp \<noteq> RESERVED then 
       (let st2 = merge_prev ?r j st1 in if mergeable (smart st2 (chunk st2 ?r (j - 1))) \<and> mergeable (smart st2 (chunk st2 ?r j))
         then merge_next ptr ?r (j - 1) st2 else st2)
     else if fq \<noteq> RESERVED then merge_next ptr ?r j st1 else st1)"
    using fl same by (simp add: cull_unfold[OF found] r Let_def flip: st1_def)
  have last1: "snd (last cs1) \<noteq> RESERVED" using last by (auto simp: cs cs1_def flag_defs split: if_splits)
  have CR: "CULLED \<noteq> RESERVED" by (simp add: flag_defs)
  have "region_ok (cull h ptr st) B sz (cull_chunks (length xs + 1) cs) \<and>
    agree (- block B (nat sz)) st1 (cull h ptr st) \<and> heap (cull h ptr st) = heap st1"
  proof (cases "fp = RESERVED")
    case False
    then have fq: "fq = RESERVED" using one by simp
    note mp = merge_prev_ok[OF cs1_def m(1) False CR last1 j]
    let ?st2 = "merge_prev ?r j st1"
    have "sp_flag (smart ?st2 (chunk ?st2 ?r j)) = RESERVED"
      using chunk_smart[OF mp(1), of "length xs + 1" j] j fq by (simp add: nth_grow_last nth_append)
    then have "\<not> mergeable (smart ?st2 (chunk ?st2 ?r j))" by (simp add: mergeable_def F_CHECK_def flag_defs)
    then have "cull h ptr st = ?st2" using False by (simp add: cull)
    with mp False show ?thesis by (simp add: cull_chunks_def cs nth_append)
  next
    case True
    show ?thesis
    proof (cases "fq = RESERVED")
      case False
      have cs1': "cs1 = (xs @ [(p, fp)]) @ (c, CULLED) # (q, fq) # ys" by (simp add: cs1_def)
      have ptr': "ptr = loc B (off (xs @ [(p, fp)]) (length (xs @ [(p, fp)])) + CHUNK_INFO_SIZE)"
        by (simp add: ptr cs off_append1 off_def)
      have j': "j = int (length (xs @ [(p, fp)])) + 1" using j by simp
      note mn = merge_next_ok[OF cs1' m(1) CR False last1 j' ptr']
      show ?thesis
        using mn True False by (simp add: cull cull_chunks_def cs nth_append)
    qed (use True m in \<open>simp add: cull cull_chunks_def cs cs1_def nth_append list_update_append agree_def\<close>)
  qed
  with m(2,3) show "region_ok (cull h ptr st) B sz (cull_chunks (length xs + 1) cs)"
    "agree (- block B (nat sz)) st (cull h ptr st)" "heap (cull h ptr st) = heap st"
    by (auto intro: agree_trans)
qed

definition release :: "nat \<Rightarrow> layout \<Rightarrow> layout" where
  "release k L = L\<lparr>l_chunks := cull_chunks k (l_chunks L)\<rparr>"

lemma cull_flags:
  assumes "0 < k" "Suc k < length cs" "snd (last cs) = UNALLOCATED"
    "\<forall>c\<in>set cs. snd c = UNALLOCATED \<or> snd c = RESERVED \<or> snd c = CULLED"
  shows "snd (last (cull_chunks k cs)) = UNALLOCATED"
    "\<forall>c\<in>set (cull_chunks k cs). snd c = UNALLOCATED \<or> snd c = RESERVED \<or> snd c = CULLED"
proof -
  have l: "last (cs[k := x]) = last cs" for x using assms(2) by (cases cs rule: rev_cases) (auto simp: list_update_append)
  have d: "drop (Suc k) cs \<noteq> []" "last (drop (Suc k) cs) = last cs" using assms(2) by auto
  have d2: "drop (Suc (Suc k)) cs \<noteq> [] \<Longrightarrow> last (drop (Suc (Suc k)) cs) = last cs" by (simp add: last_drop)
  show "snd (last (cull_chunks k cs)) = UNALLOCATED"
    using assms d d2 l by (auto simp: cull_chunks_def Let_def grow_last_def)
  have g: "snd ` set (grow_last ds) \<subseteq> snd ` set ds" if "ds \<noteq> []" for ds
    using that last_in_set[OF that] by (auto simp: grow_last_def dest: in_set_butlastD)
  have t: "snd ` set (take n cs @ (x, UNALLOCATED) # drop l cs) \<subseteq> insert UNALLOCATED (snd ` set cs)" for n x l
    by (auto dest: in_set_takeD in_set_dropD)
  have u: "snd ` set (cs[k := (x, CULLED)]) \<subseteq> insert CULLED (snd ` set cs)" for x
    using set_update_subset_insert[of cs k "(x, CULLED)"] by auto
  have "snd ` set (cull_chunks k cs) \<subseteq> snd ` set cs \<union> {UNALLOCATED, CULLED}"
  proof -
    have "snd ` set (grow_last (take n cs @ (x, UNALLOCATED) # drop l cs)) \<subseteq> snd ` set cs \<union> {UNALLOCATED, CULLED}" for n x l
      using subset_trans[OF g t[of n x l]] by blast
    moreover have "snd ` set (cs[k := (x, CULLED)]) \<subseteq> snd ` set cs \<union> {UNALLOCATED, CULLED}" for x
      using u[of x] by blast
    ultimately show ?thesis unfolding cull_chunks_def Let_def by presburger
  qed
  then have "snd c \<in> snd ` set cs \<union> {UNALLOCATED, CULLED}" if "c \<in> set (cull_chunks k cs)" for c
    using that by blast
  then show "\<forall>c\<in>set (cull_chunks k cs). snd c = UNALLOCATED \<or> snd c = RESERVED \<or> snd c = CULLED"
    using assms(4) by fastforce
qed

lemma cull_refines:
  assumes ok: "heap_ok st h Ls" and i: "i < length Ls" and cs: "cs = l_chunks (Ls ! i)"
    and k: "0 < k" "k < length cs" "snd (cs ! k) = RESERVED"
    and one: "snd (cs ! (k - 1)) = RESERVED \<or> snd (cs ! (k + 1)) = RESERVED"
  shows "heap_ok (cull h (chunk_ptr (Ls ! i) k) st) h (Ls[i := release k (Ls ! i)])"
proof -
  have at: "region_at st (reg st h (int i + 1)) (Ls ! i)" using ok i by (simp add: heap_ok_def)
  have rok: "region_ok st (l_base (Ls ! i)) (l_size (Ls ! i)) cs" and r: "reg st h (int i + 1) = loc (l_base (Ls ! i)) CHUNK_INFO_SIZE"
    and last: "snd (last cs) = UNALLOCATED" and flags: "\<forall>c\<in>set cs. snd c = UNALLOCATED \<or> snd c = RESERVED \<or> snd c = CULLED"
    using at by (auto simp: region_at_def cs)
  have sk: "Suc k < length cs"
  proof (rule ccontr)
    assume "\<not> Suc k < length cs"
    then have "cs ! k = last cs" using k by (cases cs rule: rev_cases) (auto simp: nth_append)
    then show False using last k by (simp add: flag_defs)
  qed
  define xs where "xs = take (k - 1) cs"
  have lx: "length xs = k - 1" using k by (simp add: xs_def)
  have split: "cs = xs @ (fst (cs ! (k - 1)), snd (cs ! (k - 1))) # (fst (cs ! k), RESERVED) #
     (fst (cs ! (k + 1)), snd (cs ! (k + 1))) # drop (k + 2) cs"
  proof -
    have "cs = take (k - 1) cs @ drop (k - 1) cs" by simp
    also have "drop (k - 1) cs = cs ! (k - 1) # drop k cs" using k by (metis Cons_nth_drop_Suc Suc_diff_1 less_imp_diff_less)
    also have "drop k cs = cs ! k # cs ! (k + 1) # drop (k + 2) cs" using sk k by (metis Cons_nth_drop_Suc Suc_eq_plus1 add_2_eq_Suc')
    finally show ?thesis using k(3) by (metis xs_def prod.collapse)
  qed
  note found = find_chunk_ptr[OF ok i, of k, folded cs, OF k(2)]
  have same: "reg (mark_culled (loc (l_base (Ls ! i)) CHUNK_INFO_SIZE) (int k + 1) st) h (int i + 1) = loc (l_base (Ls ! i)) CHUNK_INFO_SIZE"
    using mark_culled_ok(3,4)[OF rok k(2,3) refl] r by (simp add: reg_def)
  note c = cull_region[OF rok r same flags last split found]
  have "region_at (cull h (chunk_ptr (Ls ! i) k) st) (loc (l_base (release k (Ls ! i))) CHUNK_INFO_SIZE) (release k (Ls ! i))"
    using c(1) one lx k cull_flags[OF k(1) sk last flags] by (simp add: region_at_def release_def chunk_ptr_def cs)
  moreover have "agree (- extent (Ls ! i)) st (cull h (chunk_ptr (Ls ! i) k) st)" "heap (cull h (chunk_ptr (Ls ! i) k) st) = heap st"
    using c(2,3) one lx k by (simp_all add: extent_def chunk_ptr_def cs)
  ultimately show ?thesis
    using heap_ok_update[OF ok i] by (simp add: release_def)
qed

section \<open>Creating a heap\<close>

definition fresh_layout :: "addr \<Rightarrow> int \<Rightarrow> layout" where
  "fresh_layout B sz = \<lparr>l_base = B, l_size = sz, l_chunks = [(REGION_INFO_SIZE, RESERVED), (sz - NEW_REGION_SIZE, UNALLOCATED)]\<rparr>"

lemma run_exists_after_kernel:
  assumes n: "n \<noteq> 0" "unat n < 2 ^ 20" and rk: "run_exists p n MEM_K" and ru: "run_exists p n MEM_U"
    and r: "reserve p n MEM_K = (K, p')"
  shows "run_exists p' n MEM_U"
proof -
  note run = reserve_run[OF n disjI1[OF refl] rk r refl]
  have mx: "MAX_CHUNK p' = MAX_CHUNK p" using r n by (auto simp: reserve_unfold Let_def)
  from ru obtain d where d: "chunk_lo MEM_U \<le> d" "run_at (MEMORY_MAP p) (unat n) (chunk_hi p MEM_U) d"
    by (auto simp: run_exists_def)
  have "\<not> used p' (d + i)" if "i < unat n" for i
    using run d that by (auto simp: run_at_def chunk_lo_def chunk_hi_def phys_consts)
  then show ?thesis
    using d mx unfolding run_exists_def run_at_def chunk_hi_user by auto
qed

lemma reserve_pmem_irrelevant:
  assumes "n \<noteq> 0" "type = MEM_K \<or> type = MEM_U"
  shows "fst (reserve (p\<lparr>pmem := m\<rparr>) n type) = fst (reserve p n type)"
  using assms by (simp add: reserve_unfold Let_def first_chunk_def chunk_hi_def)

lemma kernel_user_disjoint:
  assumes n: "n \<noteq> 0" "unat n < 2 ^ 20" and rk: "run_exists p n MEM_K" and ru: "run_exists p' n MEM_U"
    and r: "reserve p n MEM_K = (K, p')" and r': "reserve p' n MEM_U = (U, p'')"
  shows "block K (unat n * 4096) \<inter> block U (unat n * 4096) = {}"
proof -
  define c where "c = first_chunk p n MEM_K"
  define d where "d = first_chunk p' n MEM_U"
  note run = reserve_run[OF n disjI1[OF refl] rk r c_def] and run' = reserve_run[OF n disjI2[OF refl] ru r' d_def]
  have off: "MEM_OFFSET p' = MEM_OFFSET p" using r n by (auto simp: reserve_unfold Let_def)
  have "K = of_nat c * 4096 + MEM_OFFSET p" "U = of_nat d * 4096 + MEM_OFFSET p" using run run' off by simp_all
  then have "block K (unat n * 4096) = chunk_bytes (MEM_OFFSET p) {c..<c + unat n}"
    "block U (unat n * 4096) = chunk_bytes (MEM_OFFSET p) {d..<d + unat n}"
    by (simp_all only: block_chunks)
  moreover have "c + unat n < 4096" "4096 \<le> d" "d + unat n < 2 ^ 32"
    using run run' chunk_hi_lt[of p' MEM_U] by (auto simp: chunk_lo_def chunk_hi_def phys_consts)
  then have "{c..<c + unat n} \<inter> {d..<d + unat n} = {}" "{c..<c + unat n} \<subseteq> {..<2 ^ 32}" "{d..<d + unat n} \<subseteq> {..<2 ^ 32}"
    by auto
  ultimately show ?thesis by (simp only: chunk_bytes_disjoint)
qed

lemma fresh_region_at:
  assumes "128 \<le> sz" "sz < 2 ^ 31"
  shows "region_at (user_region_init B sz st) (loc B CHUNK_INFO_SIZE) (fresh_layout B sz)"
  using user_region_ok[OF assms] by (auto simp: region_at_def fresh_layout_def flag_defs)

lemma create_ok:
  fixes st :: heap_state and sz n :: u32
  assumes sz: "sz = n * 4096" and n: "n \<noteq> 0" "unat n < 2 ^ 19"
    and rk: "run_exists (pages st) n MEM_K" and ru: "run_exists (pages st) n MEM_U"
    and K: "reserve (pages st) n MEM_K = (K, p)" "K \<noteq> NULL" and U: "fst (reserve p n MEM_U) = U" "U \<noteq> NULL"
  shows "\<exists>st'. create st 4096 sz = (K + 80, st') \<and> heap_ok st' (K + 80) [fresh_layout U (uint sz)]"
proof -
  have un: "unat sz = unat n * 4096" using n(2) by (simp add: sz unat_word_ariths)
  then have usz: "uint sz = int (unat n) * 4096" by (metis of_nat_mult of_nat_numeral uint_nat)
  have dv: "sz div 4096 = n" using un by (simp add: word_unat_eq_iff unat_div)
  have n1: "1 \<le> unat n" using n(1) by (simp add: unat_gt_0 Suc_le_eq)
  moreover have "unat n < 524288" using n(2) by simp
  ultimately have "128 \<le> int (unat n) * 4096" "int (unat n) * 4096 < 2147483648" by linarith+
  then have big: "128 \<le> uint sz" "uint sz < 2 ^ 31" unfolding usz[symmetric] by simp_all
  have ru': "run_exists p n MEM_U" using run_exists_after_kernel[OF n(1) _ rk ru K(1)] n(2) by simp
  have disj: "block K (unat sz) \<inter> block U (unat sz) = {}"
    using kernel_user_disjoint[OF n(1) _ rk ru' K(1), of U "snd (reserve p n MEM_U)"] U n(2) by (simp add: un prod_eq_iff)
  define stU where "stU = snd (get_pages (fill_bytes K sz (st\<lparr>pages := p\<rparr>)) n MEM_U)"
  define st1 where "st1 = fill_bytes K sz (st\<lparr>pages := p\<rparr>)"
  define st2 where "st2 = fill_bytes U sz stU"
  define st3 where "st3 = user_region_init U (uint sz) (kernel_region_init K (uint sz) 2 st2)"
  define st' where "st' = put_heap (kheap_heap K) \<lparr>h_alignment = 4096, h_n_regions = 2, h_regions = kheap_array K\<rparr>
     (put_cell (kheap_array K + 8) (U + CHUNK_INFO_SIZE) (put_cell (kheap_array K) (kheap_region K) st3))"
  have g1: "get_pages st n MEM_K = (K, st\<lparr>pages := p\<rparr>)" using K(1) by (simp add: get_pages_def)
  have "pages st1 = p\<lparr>pmem := pmem (pages st1)\<rparr>" by (simp add: st1_def fill_bytes_def)
  then have "fst (reserve (pages st1) n MEM_U) = U"
    using reserve_pmem_irrelevant[OF n(1) disjI2[OF refl]] U(1) by metis
  then have g2: "get_pages st1 n MEM_U = (U, stU)"
    unfolding stU_def st1_def[symmetric] by (auto simp: get_pages_def split: prod.splits)
  have eq: "create st 4096 sz = (K + 80, st')"
    unfolding create_def dv g1 Let_def prod.case st1_def[symmetric] g2
    using K(2) U(2) by (simp add: st'_def st3_def st2_def kheap_heap_def)
  have arr: "kheap_array K \<in> block K (unat sz)" "kheap_array K + 8 \<in> block K (unat sz)"
    using at_in_block[of 120 "unat sz" K] at_in_block[of 128 "unat sz" K] n1 un by (simp_all add: kheap_array_def add.assoc)
  have ext: "extent (fresh_layout U (uint sz)) = block U (unat sz)" by (simp add: extent_def fresh_layout_def)
  have ne: "kheap_array K \<notin> block U (unat sz)" "kheap_array K + 8 \<notin> block U (unat sz)"
    using arr disj by blast+
  have "agree (extent (fresh_layout U (uint sz))) st3 st'"
    using ne by (auto simp: agree_def ext st'_def puts)
  then have "region_at st' (loc U CHUNK_INFO_SIZE) (fresh_layout U (uint sz))"
    using fresh_region_at[OF big] region_at_agree unfolding st3_def by blast
  moreover have "reg st' (K + 80) 1 = loc U CHUNK_INFO_SIZE"
    by (simp add: reg_def st'_def puts kheap_heap_def loc_def add.commute)
  ultimately have "heap_ok st' (K + 80) [fresh_layout U (uint sz)]"
    using ne unfolding heap_ok_def ext by (simp add: st'_def puts kheap_heap_def ext)
  with eq show ?thesis by blast
qed

section \<open>Both neighbours free\<close>

lemma cull_both_free:
  assumes ok: "region_ok st B sz cs" and r: "reg st h i = loc B CHUNK_INFO_SIZE" 
    and flags: "\<forall>c\<in>set cs. snd c = UNALLOCATED \<or> snd c = RESERVED \<or> snd c = CULLED"
    and cs: "cs = xs @ [(p, fp), (c, RESERVED), (q, UNALLOCATED)]" and fp: "fp \<noteq> RESERVED"
    and found: "find_chunk st h ptr = Some (i, j)" and j: "j = int (length xs) + 2"
    and ptr: "ptr = loc B (off cs (length xs + 1) + CHUNK_INFO_SIZE)"
    and st': "st' = cull h ptr st" and lst: "l = smart st' (last_chunk st' (loc B CHUNK_INFO_SIZE))"
  shows "sp_addr l = ptr \<and> sp_addr l + of_int (sp_size l) = r_chunks (region st' (loc B CHUNK_INFO_SIZE)) + of_int p"
proof -
  let ?r = "loc B CHUNK_INFO_SIZE"
  define st1 where "st1 = mark_culled ?r j st"
  define cs1 where "cs1 = xs @ [(p, fp), (c, CULLED), (q, UNALLOCATED)]"
  have k: "length xs + 1 < length cs" "snd (cs ! (length xs + 1)) = RESERVED" "j = int (length xs + 1) + 1"
    using j by (simp_all add: cs nth_append)
  have "cs[length xs + 1 := (fst (cs ! (length xs + 1)), CULLED)] = cs1" by (simp add: cs cs1_def nth_append list_update_append)
  note m = mark_culled_ok[OF ok k, folded st1_def, unfolded this]
  have same: "reg (mark_culled (reg st h i) j st) h i = reg st h i" using m(3,4) r by (simp add: reg_def st1_def)
  have fl: "mergeable (smart st1 (chunk st1 ?r (j - 1)))" "sp_flag (smart st1 (chunk st1 ?r j)) = CULLED"
    using chunk_smart[OF m(1), of "length xs" "j - 1"] chunk_smart[OF m(1), of "length xs + 1" j] j flags fp
    by (simp_all add: cs1_def cs nth_append mergeable_flag)
  have CR: "CULLED \<noteq> RESERVED" "snd (last cs1) \<noteq> RESERVED" by (simp_all add: flag_defs cs1_def)
  define st2 where "st2 = merge_prev ?r j st1"
  have mp: "region_ok st2 B sz (xs @ (p + 24 + c, UNALLOCATED) # (q + 8, UNALLOCATED) # [])"
    using merge_prev_ok(1)[OF cs1_def[unfolded append.simps] m(1) fp CR j] by (simp add: st2_def grow_last_def butlast_append)
  have fl2: "mergeable (smart st2 (chunk st2 ?r (j - 1)))" "mergeable (smart st2 (chunk st2 ?r j))"
    using chunk_smart[OF mp, of "length xs" "j - 1"] chunk_smart[OF mp, of "length xs + 1" j] j
    by (simp_all add: mergeable_flag nth_append) (simp_all add: flag_defs)
  have j1: "j - 1 = int (length xs) + 1" using j by simp
  define nc where "nc = int (length xs) + 3"
  define arr where "arr = sz - 8 * nc"
  define P where "P = off xs (length xs)"
  have ncd: "nc = int (length (xs @ (p + 24 + c, UNALLOCATED) # (q + 8, UNALLOCATED) # [])) + 1" by (simp add: nc_def)
  note s = merge_setup[OF refl mp ncd arr_def P_def]
  have P': "off cs (length xs + 1) = P + 24 + p" by (simp add: cs off_append1 P_def, simp add: off_def)
  have mn: "merge_next ptr ?r (j - 1) st2 = widen_last ?r (merged_state B nc arr (P + 24 + p) (j - 1) (q + 8 + 24 + (p + 24 + c)) (nat (j - 1)) st2)"
    by (rule merge_next_eq[OF refl mp ncd arr_def P_def j1]) (simp add: ptr P'[simplified])
  have "cull h ptr st = merge_next ptr ?r (j - 1) st2"
    using fl fl2 by (simp add: cull_unfold[OF found same] r Let_def flip: st1_def st2_def)
  then have st'': "st' = widen_last ?r (merged_state B nc arr (P + 24 + p) (j - 1) (q + 8 + 24 + (p + 24 + c)) (nat (j - 1)) st2)"
    by (simp add: st' mn)
  have tot: "P + (p + 24 + c) + 24 + (q + 8) + 24 = arr - 24"
    using region_okD(1)[OF mp] by (simp add: layout_ok_def off_append1 P_def arr_def nc_def) (simp add: off_def)
  have p0: "0 \<le> p" "0 \<le> c" using region_okD(1)[OF ok] by (auto simp: layout_ok_def cs)
  let ?Q = "P + 24 + p"
  define stm where "stm = merged_state B nc arr ?Q (j - 1) (q + 8 + 24 + (p + 24 + c)) (nat (j - 1)) st2"
  have reg: "region stm ?r = \<lparr>r_alloc_size = sz, r_used_size = r_used_size (region st2 ?r), r_n_chunks = nc - 1,
      r_base_addr = loc B 0, r_chunks = loc B (arr + 8)\<rparr>"
    using s(1) by (simp add: stm_def merged_state_def)
  have sizes: "0 \<le> P" "0 \<le> q + 8" "arr + 8 * nc < 2 ^ 31" "nc = j + 1" "2 \<le> j" using s j by (simp_all add: nc_def)
  have "cell stm (loc B (arr + 8 + 8 * (j - 1))) = loc B ?Q" by (simp add: stm_def merged_state_def)
  then have lc: "last_chunk stm ?r = loc B ?Q"
    using chunk_loc[of stm ?r B "arr + 8" "j - 1"] sizes(4) by (simp add: last_chunk_def reg)
  have sm: "smart stm (loc B ?Q) = \<lparr>sp_size = q + 8 + 24 + (p + 24 + c), sp_flag = UNALLOCATED, sp_base = loc B 0, sp_addr = loc B (?Q + 24)\<rparr>"
    using sizes p0 tot by (simp add: stm_def merged_state_def)
  have st3: "st' = widen_last ?r stm" by (simp only: st'' stm_def)
  have lc': "last_chunk st' ?r = loc B ?Q" "region st' = region stm"
    using lc by (simp_all add: st3 widen_last_def Let_def put_smart_def last_chunk_def chunk_def)
  have "smart st' (loc B ?Q) = \<lparr>sp_size = q + 8 + 24 + (p + 24 + c) + 8, sp_flag = UNALLOCATED, sp_base = loc B 0, sp_addr = loc B (?Q + 24)\<rparr>"
    unfolding st3 widen_last_def Let_def lc put_smart_def using sm sizes p0 tot by simp
  then have leq: "l = \<lparr>sp_size = q + 8 + 24 + (p + 24 + c) + 8, sp_flag = UNALLOCATED, sp_base = loc B 0, sp_addr = loc B (?Q + 24)\<rparr>"
    by (simp only: lst lc')
  have e: "P + 24 + p + 24 + (q + 8 + 24 + (p + 24 + c) + 8) = arr + 8 + p" using tot by simp
  have "sp_addr l + of_int (sp_size l) = loc B (arr + 8 + p)"
    by (simp only: leq smart_ptr.select_convs loc_add e)
  then show ?thesis by (simp add: lc' reg leq ptr P'[simplified])
qed

end
