(* ===== verification/Heap_Spec.thy ===== *)
theory Heap_Spec
  imports Heap_Layout
begin

text \<open>
  What the heap of \<^verbatim>\<open>malloc.c\<close> promises its clients, over the layouts of \<open>Heap_Layout\<close>:
  creation yields a well-formed heap, allocation is first fit over the regions and never
  hands out live bytes, releasing merges with one free neighbour, and where it does not keep
  its promise: releasing between two free chunks.
\<close>


section \<open>What clients of the heap rely on\<close>

primrec serve_all :: "('s \<Rightarrow> u32 \<Rightarrow> (addr \<times> 's) option) \<Rightarrow> u32 list \<Rightarrow> 's \<Rightarrow> (addr list \<times> 's) option" where
  "serve_all step [] s = Some ([], s)"
| "serve_all step (n # ns) s =
     (case step s n of
        None \<Rightarrow> None
      | Some (a, s') \<Rightarrow> (case serve_all step ns s' of None \<Rightarrow> None | Some (as, s'') \<Rightarrow> Some (a # as, s'')))"

primrec spec_all :: "(u32 \<Rightarrow> 'l \<Rightarrow> 'l option) \<Rightarrow> u32 list \<Rightarrow> 'l \<Rightarrow> 'l option" where
  "spec_all spec [] l = Some l"
| "spec_all spec (n # ns) l = (case spec n l of None \<Rightarrow> None | Some l' \<Rightarrow> spec_all spec ns l')"

locale memory_manager =
  fixes step :: "'s \<Rightarrow> u32 \<Rightarrow> (addr \<times> 's) option"
    and inv :: "'s \<Rightarrow> 'l \<Rightarrow> bool"
    and spec :: "u32 \<Rightarrow> 'l \<Rightarrow> 'l option"
    and live :: "'l \<Rightarrow> addr set"
  assumes serve: "inv s l \<Longrightarrow> spec n l = Some l' \<Longrightarrow> \<exists>a s'. step s n = Some (a, s') \<and> inv s' l'
      \<and> block a (unat n) \<inter> live l = {} \<and> live l' = live l \<union> block a (unat n)"
begin

lemma serve_all_ok:
  "inv s l \<Longrightarrow> spec_all spec ns l = Some l' \<Longrightarrow> \<exists>as s'. serve_all step ns s = Some (as, s') \<and> inv s' l' \<and>
     length as = length ns \<and> (\<forall>i < length ns. block (as ! i) (unat (ns ! i)) \<inter> live l = {}) \<and>
     (\<forall>i < length ns. \<forall>j < i. block (as ! j) (unat (ns ! j)) \<inter> block (as ! i) (unat (ns ! i)) = {})"
proof (induction ns arbitrary: s l)
  case (Cons n ns)
  from Cons.prems(2) obtain l1 where l1: "spec n l = Some l1" "spec_all spec ns l1 = Some l'"
    by (auto split: option.splits)
  obtain a s1 where a: "step s n = Some (a, s1)" "inv s1 l1" "block a (unat n) \<inter> live l = {}"
    "live l1 = live l \<union> block a (unat n)"
    using serve[OF Cons.prems(1) l1(1)] by blast
  obtain as s' where as: "serve_all step ns s1 = Some (as, s')" "inv s' l'" "length as = length ns"
    "\<forall>i < length ns. block (as ! i) (unat (ns ! i)) \<inter> live l1 = {}"
    "\<forall>i < length ns. \<forall>j < i. block (as ! j) (unat (ns ! j)) \<inter> block (as ! i) (unat (ns ! i)) = {}"
    using Cons.IH[OF a(2) l1(2)] by blast
  have "block ((a # as) ! i) (unat ((n # ns) ! i)) \<inter> live l = {}" if "i < length (n # ns)" for i
    using that a(3,4) as(4) by (cases i) auto
  moreover have "block ((a # as) ! j) (unat ((n # ns) ! j)) \<inter> block ((a # as) ! i) (unat ((n # ns) ! i)) = {}"
    if "i < length (n # ns)" "j < i" for i j
    using that a(4) as(4,5) by (cases i; cases j) auto
  ultimately show ?case using a as by (intro exI[of _ "a # as"] exI[of _ s']) auto
qed simp

end

definition live :: "layout list \<Rightarrow> addr set" where
  "live Ls = (\<Union>L \<in> set Ls. \<Union>k \<in> {k. k < length (l_chunks L) \<and> snd (l_chunks L ! k) = RESERVED}. payload L k)"

definition spec_alloc :: "u32 \<Rightarrow> layout list \<Rightarrow> layout list option" where
  "spec_alloc n Ls = (if uint n + 32 < 2 ^ 31 then map_option (\<lambda>i. Ls[i := carve n (Ls ! i)]) (first_fit n Ls) else None)"

definition heap_step :: "addr \<Rightarrow> heap_state \<Rightarrow> u32 \<Rightarrow> (addr \<times> heap_state) option" where
  "heap_step h st n = (case alloc h n st of Some (Inr r) \<Rightarrow> Some r | _ \<Rightarrow> None)"

lemma payload_carve:
  assumes cs: "l_chunks L = ds @ [(f, fl)]"
  shows "k < length ds \<Longrightarrow> payload (carve n L) k = payload L k"
    and "payload (carve n L) (length ds) = block (chunk_ptr L (length ds)) (unat n)"
    and "l_chunks (carve n L) = ds @ [(uint n, RESERVED), (f - (uint n + 32), UNALLOCATED)]"
  by (simp_all add: payload_def carve_def alloc_chunks_def cs off_append1 nth_append chunk_ptr_def)

lemma live_carve:
  assumes cs: "l_chunks L = ds @ [(f, UNALLOCATED)]"
  shows "live [carve n L] = live [L] \<union> block (chunk_ptr L (length ds)) (unat n)"
proof -
  let ?R = "\<lambda>L. {k. k < length (l_chunks L) \<and> snd (l_chunks L ! k) = RESERVED}"
  have "?R L = {k. k < length ds \<and> snd (ds ! k) = RESERVED}"
    by (auto simp: cs nth_append less_Suc_eq flag_defs)
  moreover have "?R (carve n L) = insert (length ds) {k. k < length ds \<and> snd (ds ! k) = RESERVED}"
    by (auto simp: payload_carve(3)[OF cs] nth_append less_Suc_eq flag_defs)
  ultimately show ?thesis
    using payload_carve(1,2)[OF cs] by (auto simp: live_def)
qed

lemma in_live: "x \<in> live Ls \<longleftrightarrow> (\<exists>i < length Ls. x \<in> live [Ls ! i])"
proof -
  have "x \<in> live Ls \<longleftrightarrow> (\<exists>L \<in> set Ls. x \<in> live [L])" by (simp add: live_def)
  then show ?thesis by (metis in_set_conv_nth)
qed

lemma live_update:
  assumes i: "i < length Ls" and L: "live [L] = live [Ls ! i] \<union> X"
  shows "live (Ls[i := L]) = live Ls \<union> X"
proof -
  have "x \<in> live (Ls[i := L]) \<longleftrightarrow> x \<in> live [L] \<or> (\<exists>k < length Ls. k \<noteq> i \<and> x \<in> live [Ls ! k])" for x
    using i by (subst in_live) (metis length_list_update nth_list_update_eq nth_list_update_neq)
  moreover have "x \<in> live Ls \<longleftrightarrow> x \<in> live [Ls ! i] \<or> (\<exists>k < length Ls. k \<noteq> i \<and> x \<in> live [Ls ! k])" for x
    using i by (subst in_live) metis
  ultimately show ?thesis using L by blast
qed

lemma live_extent: "layout_ok (l_size L) (l_chunks L) \<Longrightarrow> live [L] \<subseteq> extent L"
  using payload_in_extent by (fastforce simp: live_def)

lemma block_mono: "m \<le> n \<Longrightarrow> block a m \<subseteq> block a n"
  by (force simp: block_def)

lemma heap_okD:
  assumes "heap_ok st h Ls" "i < length Ls"
  shows "region_at st (reg st h (int i + 1)) (Ls ! i)" "layout_ok (l_size (Ls ! i)) (l_chunks (Ls ! i))"
    "k < length Ls \<Longrightarrow> i \<noteq> k \<Longrightarrow> extent (Ls ! i) \<inter> extent (Ls ! k) = {}"
  using assms by (auto simp: heap_ok_def region_at_def region_ok_def Let_def)

lemma free_not_live:
  assumes ok: "heap_ok st h Ls" and i: "i < length Ls" and cs: "l_chunks (Ls ! i) = ds @ [(f, UNALLOCATED)]"
  shows "payload (Ls ! i) (length ds) \<inter> live Ls = {}"
proof -
  have "x \<notin> live [Ls ! k]" if x: "x \<in> payload (Ls ! i) (length ds)" and k: "k < length Ls" for x k
  proof (cases "k = i")
    case True
    then show ?thesis
      using payload_disjoint[OF heap_okD(2)[OF ok i], of "length ds"] x cs
      by (fastforce simp: live_def flag_defs)
  next
    case False
    have "x \<in> extent (Ls ! i)" using payload_in_extent[OF heap_okD(2)[OF ok i]] x cs by auto
    then show ?thesis using heap_okD(3)[OF ok i k] live_extent[OF heap_okD(2)[OF ok k]] False by blast
  qed
  then show ?thesis by (auto simp: in_live[of _ Ls])
qed

lemma alloc_serves:
  assumes ok: "heap_ok st h Ls" and sp: "spec_alloc n Ls = Some Ls'"
  shows "\<exists>p st'. alloc h n st = Some (Inr (p, st')) \<and> heap_ok st' h Ls' \<and> block p (unat n) \<inter> live Ls = {} \<and>
     live Ls' = live Ls \<union> block p (unat n)"
proof -
  from sp obtain i where n: "uint n + 32 < 2 ^ 31" and ff: "first_fit n Ls = Some i" and Ls': "Ls' = Ls[i := carve n (Ls ! i)]"
    by (auto simp: spec_alloc_def split: if_splits)
  have i: "i < length Ls" "room n (Ls ! i)" using ff by (auto simp: first_fit_def find_Some_iff)
  obtain ds f where cs: "l_chunks (Ls ! i) = ds @ [(f, UNALLOCATED)]"
    using heap_okD(1)[OF ok i(1)] by (rule region_atE)
  obtain p st' where a: "alloc h n st = Some (Inr (p, st'))" "heap_ok st' h Ls'" "p = chunk_ptr (Ls ! i) (length ds)"
    using alloc_refines[OF ok n ff] unfolding Ls' chunk_ptr_def cs length_append_singleton diff_Suc_1 by blast
  have "uint n < f" using i(2) by (simp add: room_def cs)
  then have "unat n \<le> nat f" using nat_mono[of "uint n" f] by simp
  then have "block p (unat n) \<subseteq> payload (Ls ! i) (length ds)"
    using block_mono by (simp add: a(3) payload_def chunk_ptr_def cs nth_append)
  then have "block p (unat n) \<inter> live Ls = {}" using free_not_live[OF ok i(1) cs] by blast
  moreover have "live Ls' = live Ls \<union> block p (unat n)"
    unfolding Ls' a(3) by (rule live_update[OF i(1) live_carve[OF cs]])
  ultimately show ?thesis using a by blast
qed

interpretation heap_manager: memory_manager "heap_step h" "\<lambda>st. heap_ok st h" spec_alloc live
proof unfold_locales
  fix s l n l' assume "heap_ok s h l" "spec_alloc n l = Some l'"
  then show "\<exists>a s'. heap_step h s n = Some (a, s') \<and> heap_ok s' h l' \<and> block a (unat n) \<inter> live l = {} \<and>
      live l' = live l \<union> block a (unat n)"
    using alloc_serves by (fastforce simp: heap_step_def)
qed

section \<open>Properties of the heap\<close>

lemma cull_chunks_alloc:
  assumes "cs = ds @ [(f, UNALLOCATED)]" "ds \<noteq> []" "snd (last ds) = RESERVED"
  shows "cull_chunks (length cs - 1) (alloc_chunks n cs) = cs"
proof -
  have "ds ! (length ds - 1) = last ds" using assms(2) by (simp add: last_conv_nth)
  then show ?thesis
    using assms(2,3) by (simp add: assms(1) cull_chunks_def alloc_chunks_def nth_append grow_last_def flag_defs)
qed

lemma put_pages [simp]: "pages (put_smart a v st) = pages st" "pages (put_cell a c st) = pages st"
  "pages (put_region a r st) = pages st" "pages (put_heap a h st) = pages st" "pages (widen_last x st) = pages st"
  by (simp_all add: puts widen_last_def Let_def)

lemma merge_pages [simp]: "pages (merge_prev r j st) = pages st" "pages (merge_next p r j st) = pages st"
  by (simp_all add: merge_prev_def merge_next_def Let_def)

lemma cull_pages [simp]: "pages (cull h p st) = pages st"
  by (simp add: cull_def Let_def split: option.split prod.split)

lemma alloc_region_pages [simp]: "pages (snd (alloc_in_region r n st)) = pages st"
  by (simp add: alloc_in_region_def Let_def)

definition zero_state :: heap_state where
  "zero_state = \<lparr>pages = boot_phys, smart = (\<lambda>_. \<lparr>sp_size = 0, sp_flag = 0, sp_base = 0, sp_addr = 0\<rparr>),
     region = (\<lambda>_. \<lparr>r_alloc_size = 0, r_used_size = 0, r_n_chunks = 0, r_base_addr = 0, r_chunks = 0\<rparr>),
     heap = (\<lambda>_. \<lparr>h_alignment = 0, h_n_regions = 0, h_regions = 0\<rparr>), cell = (\<lambda>_. 0), ret = 0\<rparr>"

definition demo_layout :: layout where "demo_layout = fresh_layout 0x100000 4096"

definition demo_state :: heap_state where
  "demo_state = put_heap 0x2000 \<lparr>h_alignment = 4096, h_n_regions = 2, h_regions = 0x3000\<rparr>
     (put_cell 0x3008 (loc 0x100000 CHUNK_INFO_SIZE) (user_region_init 0x100000 4096 zero_state))"

lemma demo_heap_ok: "heap_ok demo_state 0x2000 [demo_layout]"
proof -
  have ext: "extent demo_layout = block 0x100000 4096" by (simp add: extent_def demo_layout_def fresh_layout_def)
  have ne: "0x3008 \<notin> block (0x100000 :: addr) 4096" by (simp add: block_no_wrap)
  have "region_at (user_region_init 0x100000 4096 zero_state) (loc 0x100000 CHUNK_INFO_SIZE) demo_layout"
    using fresh_region_at[of 4096] by (simp add: demo_layout_def)
  then have "region_at demo_state (loc 0x100000 CHUNK_INFO_SIZE) demo_layout"
    by (rule region_at_agree) (use ne in \<open>auto simp: agree_def ext demo_state_def puts\<close>)
  then show ?thesis using ne by (simp add: heap_ok_def ext reg_def demo_state_def puts)
qed

definition no_wrap :: "layout \<Rightarrow> bool" where
  "no_wrap L \<longleftrightarrow> l_base L \<noteq> 0 \<and> unat (l_base L) + nat (l_size L) \<le> 2 ^ 64"

lemma chunk_ptr_no_wrap:
  assumes "no_wrap L" "layout_ok (l_size L) (l_chunks L)" "k < length (l_chunks L)"
  shows "unat (chunk_ptr L k) + nat (fst (l_chunks L ! k)) \<le> 2 ^ 64" "chunk_ptr L k \<noteq> NULL"
proof -
  define y where "y = nat (off (l_chunks L) k + 24)"
  note b = layout_bounds(1)[OF assms(2) refl assms(3)]
  have "0 \<le> fst (l_chunks L ! k)" using assms(2,3) by (simp add: layout_ok_def)
  with b have y: "y + nat (fst (l_chunks L ! k)) < nat (l_size L)"
    unfolding y_def by (auto simp flip: nat_add_distrib)
  have "chunk_ptr L k = at (l_base L) y" using b by (simp add: chunk_ptr_def loc_def y_def)
  moreover have "unat (at (l_base L) y) = unat (l_base L) + y"
    using y assms(1) by (intro unat_at) (simp add: no_wrap_def)
  ultimately have u: "unat (chunk_ptr L k) = unat (l_base L) + y" by simp
  then show "unat (chunk_ptr L k) + nat (fst (l_chunks L ! k)) \<le> 2 ^ 64" using y assms(1) by (simp add: no_wrap_def)
  have "unat (l_base L) \<noteq> 0" using assms(1) by (simp add: no_wrap_def unat_eq_0)
  with u show "chunk_ptr L k \<noteq> NULL" by (metis add_is_0 unat_0)
qed

lemma chunk_size_heap:
  assumes "heap_ok st h Ls" "i < length Ls" "k < length (l_chunks (Ls ! i))"
  shows "sp_size (smart st (chunk st (reg st h (int i + 1)) (int k + 1))) = fst (l_chunks (Ls ! i) ! k)"
proof -
  have at: "reg st h (int i + 1) = loc (l_base (Ls ! i)) CHUNK_INFO_SIZE"
    "region_ok st (l_base (Ls ! i)) (l_size (Ls ! i)) (l_chunks (Ls ! i))"
    using heap_okD(1)[OF assms(1,2)] by (auto simp: region_at_def)
  show ?thesis using chunk_Suc[OF at(2) assms(3) refl] region_okD(6)[OF at(2) assms(3)] by (simp add: at(1) chunk_at_def)
qed

lemma carve_nth:
  assumes "Suc k < length (l_chunks (Ls ! i))" "j < length Ls" "i < length Ls"
  shows "l_chunks (Ls[j := carve n (Ls ! j)] ! i) ! k = l_chunks (Ls ! i) ! k"
    and "k < length (l_chunks (Ls[j := carve n (Ls ! j)] ! i))"
  using assms by (cases "l_chunks (Ls ! i)" rule: rev_cases,
      auto simp: nth_list_update carve_def alloc_chunks_def nth_append)+

lemma change_copies:
  assumes ok: "heap_ok st h Ls" and i: "i < length Ls" and k: "Suc k < length (l_chunks (Ls ! i))"
    "snd (l_chunks (Ls ! i) ! k) = RESERVED"
    and sz: "0 \<le> sz" "sz < 2 ^ 31 - 32" and sp: "first_fit (word_of_int sz) Ls = Some j"
    and nw: "\<forall>L \<in> set Ls. no_wrap L" and old: "old = fst (l_chunks (Ls ! i) ! k)" and ptr: "ptr = chunk_ptr (Ls ! i) k"
  shows "\<exists>p st'. change h ptr sz st = Some (Inr (p, st')) \<and> block p (nat sz) \<inter> live Ls = {} \<and>
    bytes (pmem (pages st')) p (nat (min sz old)) = bytes (pmem (pages st)) ptr (nat (min sz old)) \<and>
    (\<forall>x. x \<notin> block p (nat (min sz old)) \<longrightarrow> pmem (pages st') x = pmem (pages st) x)"
proof -
  define n :: u32 where "n = word_of_int sz"
  have un: "uint n = sz" "unat n = nat sz"
    using sz by (simp_all add: n_def unsigned_of_int take_bit_int_eq_self)
  have n: "uint n + 32 < 2 ^ 31" using un sz by simp
  have j: "j < length Ls" "room n (Ls ! j)" using sp by (auto simp: first_fit_def find_Some_iff n_def)
  obtain ds f where cs: "l_chunks (Ls ! j) = ds @ [(f, UNALLOCATED)]"
    using heap_okD(1)[OF ok j(1)] by (rule region_atE)
  define Ls' where "Ls' = Ls[j := carve n (Ls ! j)]"
  obtain p st1 where al: "alloc h n st = Some (Inr (p, st1))" "heap_ok st1 h Ls'" "block p (unat n) \<inter> live Ls = {}"
    using alloc_serves[OF ok, of n Ls'] n sp by (auto simp: spec_alloc_def Ls'_def n_def)
  have ar: "alloc_in_region (reg st h (int j + 1)) n st = (p, st1)"
    using al(1) alloc_eq[OF ok n, of j] sp by (simp add: n_def)
  have pg: "pages st1 = pages st" using alloc_region_pages[of "reg st h (int j + 1)" n st] by (simp add: ar)
  have p: "p = chunk_ptr (Ls ! j) (length ds)"
    using al(1) alloc_refines[OF ok n, of j] sp cs by (auto simp: n_def chunk_ptr_def)
  have nw': "unat ptr + nat old \<le> 2 ^ 64" "unat p + nat f \<le> 2 ^ 64" "p \<noteq> NULL"
    using chunk_ptr_no_wrap[OF _ heap_okD(2)[OF ok i], of k] chunk_ptr_no_wrap[OF _ heap_okD(2)[OF ok j(1)], of "length ds"]
      nw i j k by (simp_all add: ptr old p cs nth_append)
  have f: "nat sz < nat f" using j(2) un sz by (simp add: room_def cs)
  define c where "c = min sz old"
  have old0: "0 \<le> old" using heap_okD(2)[OF ok i] k by (simp add: layout_ok_def old)
  have old31: "old < 2 ^ 31"
    using layout_bounds(1)[OF heap_okD(2)[OF ok i] refl, of k] layout_bounds(3)[OF heap_okD(2)[OF ok i] refl] k(1)
    by (simp add: old)
  have uc: "unat (word_of_int c :: u32) = nat c"
    using sz old0 old31 by (simp add: c_def unsigned_of_int take_bit_int_eq_self)
  have "block ptr (nat old) \<subseteq> live Ls"
    using i k by (auto simp: live_def payload_def ptr old chunk_ptr_def intro!: bexI[of _ "Ls ! i"] exI[of _ k])
  moreover have le: "nat c \<le> nat old" "nat c \<le> nat sz" by (simp_all add: c_def)
  ultimately have disj: "block p (nat c) \<inter> block ptr (nat c) = {}"
    using al(3) block_mono[of "nat c" "nat old" ptr] block_mono[of "nat c" "nat sz" p] unfolding un(2) by blast
  obtain m q where m: "memcpy (pmem (pages st)) p ptr (word_of_int c) = (m, q)" by fastforce
  have "unat ptr + nat c \<le> 2 ^ 64" "unat p + nat c \<le> 2 ^ 64" using nw'(1,2) le f by linarith+
  note cp = memcpy_disjoint[OF _ _ nw'(3) _ m, unfolded uc, OF this disj]
  have size: "sp_size (smart st1 (chunk st1 (reg st1 h (int i + 1)) (int k + 1))) = old"
    using chunk_size_heap[OF al(2), of i k] carve_nth[OF k(1) j(1) i, of n] i by (simp add: Ls'_def old)
  have "change h ptr sz st = Some (Inr (p, cull h ptr (copy_payload p ptr (word_of_int c) st1)))"
    using find_chunk_ptr[OF ok i, of k] k(1) al(1) nw'(3) size
    by (simp add: change_def ptr n_def[symmetric] c_def min_def Let_def)
  moreover have "pmem (pages (cull h ptr (copy_payload p ptr (word_of_int c) st1))) = m"
    using m pg by (simp add: copy_payload_def)
  ultimately show ?thesis
    using cp al(3) by (simp add: un(2) flip: c_def)
qed

text \<open>
  C5: when the page allocator has room in both zones, \<^verbatim>\<open>create\<close> returns the address of a
  heap descriptor and leaves a well-formed heap with one user region whose only free chunk has
  all the bytes the descriptors do not take.
\<close>

theorem create_builds_heap:
  fixes st :: heap_state and sz n :: u32
  assumes "sz = n * 4096" and "n \<noteq> 0" and "unat n < 2 ^ 19"
    and "run_exists (pages st) n MEM_K" and "run_exists (pages st) n MEM_U"
    and "reserve (pages st) n MEM_K = (K, p)" and "K \<noteq> NULL"
    and "fst (reserve p n MEM_U) = U" and "U \<noteq> NULL"
  shows "\<exists>st'. create st 4096 sz = (K + 80, st') \<and>
    heap_ok st' (K + 80) [\<lparr>l_base = U, l_size = uint sz, l_chunks = [(32, RESERVED), (uint sz - 128, UNALLOCATED)]\<rparr>]"
  using create_ok[OF assms] by (simp add: fresh_layout_def)

definition boot_state :: heap_state where
  "boot_state = zero_state\<lparr>pages := boot_phys\<lparr>MEM_OFFSET := 0x40000000\<rparr>\<rparr>"

lemma boot_runs: "run_exists (pages boot_state) 4 MEM_K" "run_exists (pages boot_state) 4 MEM_U"
proof -
  show "run_exists (pages boot_state) 4 MEM_K"
    unfolding run_exists_def by (rule exI[of _ 0])
      (simp add: run_at_def boot_state_def boot_phys_def bm_test_zero chunk_lo_def chunk_hi_def phys_consts)
  show "run_exists (pages boot_state) 4 MEM_U"
    unfolding run_exists_def by (rule exI[of _ 4096])
      (simp add: run_at_def boot_state_def boot_phys_def bm_test_zero chunk_lo_def chunk_hi_def phys_consts)
qed

lemma boot_bases:
  assumes "reserve (pages boot_state) 4 MEM_K = (K, p)"
  shows "K \<noteq> NULL" "fst (reserve p 4 MEM_U) \<noteq> NULL"
proof -
  define c where "c = first_chunk (pages boot_state) 4 MEM_K"
  define d where "d = first_chunk p 4 MEM_U"
  have off: "MEM_OFFSET (pages boot_state) = 0x40000000" "MEM_OFFSET p = 0x40000000" "MAX_CHUNK p = 262144"
    using assms by (auto simp: reserve_unfold Let_def boot_state_def boot_phys_def)
  have ru: "run_exists p 4 MEM_U" using run_exists_after_kernel[OF _ _ boot_runs assms] by simp
  have c: "K = of_nat c * 4096 + 0x40000000" "c < 4096"
    using reserve_run[OF _ _ disjI1[OF refl] boot_runs(1) assms c_def] off by (simp_all add: chunk_hi_def phys_consts)
  have d: "fst (reserve p 4 MEM_U) = of_nat d * 4096 + 0x40000000" "d < 262144"
    using reserve_run[OF _ _ disjI2[OF refl] ru prod.collapse[symmetric] d_def] off by (simp_all add: chunk_hi_def phys_consts)
  have ne: "(of_nat x * 4096 + 0x40000000 :: addr) \<noteq> 0" if "x < 262144" for x
  proof -
    have "(of_nat x * 4096 + 0x40000000 :: addr) = of_nat (x * 4096 + 0x40000000)" by simp
    then show ?thesis using that word64_of_nat_inject[of "x * 4096 + 0x40000000" 0] by simp
  qed
  show "K \<noteq> NULL" using ne[of c] c by simp
  show "fst (reserve p 4 MEM_U) \<noteq> NULL" using ne[of d] d by simp
qed

theorem create_builds_heap_witness:
  "\<exists>h st' U. create boot_state 4096 (4 * 4096) = (h, st') \<and>
    heap_ok st' h [\<lparr>l_base = U, l_size = 16384, l_chunks = [(32, RESERVED), (16256, UNALLOCATED)]\<rparr>]"
proof -
  obtain K p where kp: "reserve (pages boot_state) 4 MEM_K = (K, p)" by fastforce
  show ?thesis
    using create_builds_heap[OF refl _ _ boot_runs kp boot_bases(1)[OF kp] refl boot_bases(2)[OF kp]] by auto
qed

text \<open>
  C1: as long as some region has room, an allocation returns the start of the free chunk of the
  first such region, cuts the request off that chunk, keeps the heap well formed, and the
  bytes it returns belong to no live chunk of any region.
\<close>

theorem alloc_first_fit:
  assumes "heap_ok st h Ls" and "uint n + 32 < 2 ^ 31" and "first_fit n Ls = Some i"
  shows "\<exists>p st'. alloc h n st = Some (Inr (p, st')) \<and>
    p = chunk_ptr (Ls ! i) (length (l_chunks (Ls ! i)) - 1) \<and>
    heap_ok st' h (Ls[i := carve n (Ls ! i)]) \<and> block p (unat n) \<inter> live Ls = {}"
  using alloc_refines[OF assms] alloc_serves[OF assms(1), of n "Ls[i := carve n (Ls ! i)]"] assms(2,3)
  by (auto simp: spec_alloc_def chunk_ptr_def)

lemma demo_first_fit: "uint n + 32 < 3968 \<Longrightarrow> first_fit n [demo_layout] = Some 0"
  by (simp add: first_fit_def room_def demo_layout_def fresh_layout_def)

theorem alloc_first_fit_witness:
  "\<exists>p st'. alloc 0x2000 100 demo_state = Some (Inr (p, st')) \<and> heap_ok st' 0x2000 [carve 100 demo_layout]"
  using alloc_first_fit[OF demo_heap_ok, of 100 0] demo_first_fit[of 100] by auto

text \<open>
  C2: any sequence of requests that first fit can serve is served by \<^verbatim>\<open>alloc\<close>, and the
  blocks it hands out are pairwise disjoint and disjoint from all that was live before.
\<close>

theorem allocations_never_overlap:
  assumes "heap_ok st h Ls" and "spec_all spec_alloc ns Ls = Some Ls'"
  shows "\<exists>ps st'. serve_all (heap_step h) ns st = Some (ps, st') \<and> heap_ok st' h Ls' \<and> length ps = length ns \<and>
    (\<forall>i < length ns. block (ps ! i) (unat (ns ! i)) \<inter> live Ls = {}) \<and>
    (\<forall>i < length ns. \<forall>j < i. block (ps ! j) (unat (ns ! j)) \<inter> block (ps ! i) (unat (ns ! i)) = {})"
  using assms by (rule heap_manager.serve_all_ok)

lemma demo_two: "spec_all spec_alloc [100, 200] [demo_layout] = Some [carve 200 (carve 100 demo_layout)]"
  by (simp add: spec_alloc_def first_fit_def room_def demo_layout_def fresh_layout_def carve_def alloc_chunks_def)

theorem allocations_never_overlap_witness:
  "\<exists>ps st'. serve_all (heap_step 0x2000) [100, 200] demo_state = Some (ps, st') \<and> length ps = 2 \<and>
    block (ps ! 0) 100 \<inter> block (ps ! 1) 200 = {}"
proof -
  obtain ps st' where *: "serve_all (heap_step 0x2000) [100, 200] demo_state = Some (ps, st')"
    "length ps = length [100, 200 :: u32]" "\<forall>i < length [100, 200 :: u32]. \<forall>j < i.
       block (ps ! j) (unat ([100, 200 :: u32] ! j)) \<inter> block (ps ! i) (unat ([100, 200 :: u32] ! i)) = {}"
    using allocations_never_overlap[OF demo_heap_ok demo_two] by blast
  have "block (ps ! 0) 100 \<inter> block (ps ! 1) 200 = {}" using *(3)[rule_format, of 1 0] by simp
  with *(1,2) show ?thesis by auto
qed

text \<open>
  C3: releasing a live chunk that has at most one free neighbour keeps the heap well formed: the
  chunk is marked, or merged with the neighbour, and the pointer array gives its entry back to
  the last chunk.
\<close>

theorem cull_keeps_heap:
  assumes "heap_ok st h Ls" and "i < length Ls" and "cs = l_chunks (Ls ! i)"
    and "0 < k" and "k < length cs" and "snd (cs ! k) = RESERVED"
    and "snd (cs ! (k - 1)) = RESERVED \<or> snd (cs ! (k + 1)) = RESERVED"
  shows "heap_ok (cull h (chunk_ptr (Ls ! i) k) st) h (Ls[i := (Ls ! i)\<lparr>l_chunks := cull_chunks k cs\<rparr>])"
  using cull_refines[OF assms] by (simp add: release_def assms(3))

lemma demo_two_heap: "\<exists>st. heap_ok st 0x2000 [carve 200 (carve 100 demo_layout)]"
  using heap_manager.serve_all_ok[OF demo_heap_ok demo_two] by blast

lemma demo_two_chunks: "l_chunks (carve 200 (carve 100 demo_layout)) =
  [(32, RESERVED), (100, RESERVED), (200, RESERVED), (3604, UNALLOCATED)]"
  by (simp add: carve_def alloc_chunks_def demo_layout_def fresh_layout_def)

theorem cull_keeps_heap_witness:
  "\<exists>st st'. heap_ok st 0x2000 [carve 200 (carve 100 demo_layout)] \<and> heap_ok st' 0x2000
     [demo_layout\<lparr>l_chunks := [(32, RESERVED), (100, CULLED), (200, RESERVED), (3604, UNALLOCATED)]\<rparr>]"
proof -
  obtain st where st: "heap_ok st 0x2000 [carve 200 (carve 100 demo_layout)]" using demo_two_heap by blast
  let ?L = "carve 200 (carve 100 demo_layout)"
  have "heap_ok (cull 0x2000 (chunk_ptr ?L 1) st) 0x2000 [?L\<lparr>l_chunks := cull_chunks 1 (l_chunks ?L)\<rparr>]"
    using cull_keeps_heap[OF st, of 0 _ 1] by (simp add: demo_two_chunks)
  moreover have "?L\<lparr>l_chunks := cull_chunks 1 (l_chunks ?L)\<rparr> =
      demo_layout\<lparr>l_chunks := [(32, RESERVED), (100, CULLED), (200, RESERVED), (3604, UNALLOCATED)]\<rparr>"
    unfolding demo_two_chunks by (simp add: carve_def cull_chunks_def)
  ultimately show ?thesis using st by auto
qed

text \<open>
  C4: releasing the chunk that was allocated last restores the heap exactly as it was before the
  allocation, when the chunk in front of it is live.
\<close>

theorem cull_undoes_alloc:
  assumes "heap_ok st h Ls" and "uint n + 32 < 2 ^ 31" and "first_fit n Ls = Some i"
    and "l_chunks (Ls ! i) = ds @ [(f, UNALLOCATED)]" and "ds \<noteq> []" and "snd (last ds) = RESERVED"
  shows "\<exists>p st'. alloc h n st = Some (Inr (p, st')) \<and> heap_ok (cull h p st') h Ls"
proof -
  have i: "i < length Ls" using assms(3) by (auto simp: first_fit_def find_Some_iff)
  obtain p st' where a: "alloc h n st = Some (Inr (p, st'))" "heap_ok st' h (Ls[i := carve n (Ls ! i)])"
    "p = chunk_ptr (Ls ! i) (length ds)"
    using alloc_refines[OF assms(1-3)] assms(4) by (auto simp: chunk_ptr_def)
  have p: "p = chunk_ptr (Ls[i := carve n (Ls ! i)] ! i) (length ds)"
    using i by (simp add: a(3) chunk_ptr_def carve_def alloc_chunks_def assms(4) off_append1)
  have "heap_ok (cull h p st') h ((Ls[i := carve n (Ls ! i)])[i := release (length ds) (carve n (Ls ! i))])"
    using cull_refines[OF a(2), of i _ "length ds"] i assms(5,6)
    by (simp add: p carve_def alloc_chunks_def assms(4) nth_append last_conv_nth)
  moreover have "release (length ds) (carve n (Ls ! i)) = Ls ! i"
    using cull_chunks_alloc[OF refl assms(5,6), of f "uint n"] by (simp add: release_def carve_def assms(4))
  ultimately show ?thesis using a(1) i by auto
qed

theorem cull_undoes_alloc_witness:
  "\<exists>p st'. alloc 0x2000 100 demo_state = Some (Inr (p, st')) \<and> heap_ok (cull 0x2000 p st') 0x2000 [demo_layout]"
  using cull_undoes_alloc[OF demo_heap_ok, of 100 0 "[(32, RESERVED)]" 3968] demo_first_fit[of 100]
  by (simp add: demo_layout_def fresh_layout_def)

text \<open>
  C7: releasing a chunk between two free ones breaks the heap. The second merge takes the size
  of all three chunks but starts the merged chunk at the released one, so that the free chunk
  of the region ends \<open>p\<close> bytes (the size of the first of the three) behind the start of the pointer
  array instead of in front of its header.
\<close>

theorem cull_between_free_overruns:
  assumes "heap_ok st h Ls" and "i < length Ls"
    and "l_chunks (Ls ! i) = xs @ [(p, fp), (c, RESERVED), (q, UNALLOCATED)]" and "fp \<noteq> RESERVED"
    and "ptr = chunk_ptr (Ls ! i) (length xs + 1)" and "st' = cull h ptr st"
    and "r = reg st h (int i + 1)" and "l = smart st' (last_chunk st' r)"
  shows "sp_addr l = ptr \<and> sp_addr l + of_int (sp_size l) = r_chunks (region st' r) + of_int p"
proof -
  have at: "region_ok st (l_base (Ls ! i)) (l_size (Ls ! i)) (l_chunks (Ls ! i))" "r = loc (l_base (Ls ! i)) CHUNK_INFO_SIZE"
    "\<forall>c\<in>set (l_chunks (Ls ! i)). snd c = UNALLOCATED \<or> snd c = RESERVED \<or> snd c = CULLED"
    using heap_okD(1)[OF assms(1,2)] by (simp_all add: region_at_def assms(7))
  have found: "find_chunk st h ptr = Some (int i + 1, int (length xs) + 2)"
    using find_chunk_ptr[OF assms(1,2), of "length xs + 1"] assms(3,5) by simp
  show ?thesis
    unfolding at(2)
    by (rule cull_both_free[OF at(1) at(2)[unfolded assms(7)] at(3) assms(3,4) found refl
          assms(5)[unfolded chunk_ptr_def] assms(6) assms(8)[unfolded at(2)]])
qed

lemma demo_culled_heap:
  "\<exists>st. heap_ok st 0x2000 [demo_layout\<lparr>l_chunks := [(32, RESERVED), (100, CULLED), (200, RESERVED), (3604, UNALLOCATED)]\<rparr>]"
proof -
  obtain st where st: "heap_ok st 0x2000 [carve 200 (carve 100 demo_layout)]" using demo_two_heap by blast
  have "release 1 (carve 200 (carve 100 demo_layout)) =
      demo_layout\<lparr>l_chunks := [(32, RESERVED), (100, CULLED), (200, RESERVED), (3604, UNALLOCATED)]\<rparr>"
    unfolding release_def demo_two_chunks by (simp add: carve_def cull_chunks_def)
  then show ?thesis
    using cull_refines[OF st, of 0 _ 1] by (auto simp: demo_two_chunks)
qed

theorem cull_between_free_overruns_witness:
  "\<exists>st ptr r. let st' = cull 0x2000 ptr st; l = smart st' (last_chunk st' r)
     in sp_addr l = ptr \<and> sp_addr l + of_int (sp_size l) = r_chunks (region st' r) + 100"
proof -
  let ?L = "demo_layout\<lparr>l_chunks := [(32, RESERVED), (100, CULLED), (200, RESERVED), (3604, UNALLOCATED)]\<rparr>"
  obtain st where st: "heap_ok st 0x2000 [?L]" using demo_culled_heap by blast
  have ne: "CULLED \<noteq> RESERVED" by (simp add: flag_defs)
  define ptr where "ptr = chunk_ptr ?L (length [(32 :: int, RESERVED)] + 1)"
  define st' where "st' = cull 0x2000 ptr st"
  define r where "r = reg st 0x2000 1"
  define l where "l = smart st' (last_chunk st' r)"
  have "sp_addr l = ptr \<and> sp_addr l + of_int (sp_size l) = r_chunks (region st' r) + of_int 100"
    by (rule cull_between_free_overruns[OF st, of 0 "[(32, RESERVED)]" 100 CULLED 200 3604])
      (simp_all add: ne ptr_def st'_def r_def l_def)
  then show ?thesis unfolding Let_def l_def st'_def by auto
qed

text \<open>
  C6: \<^verbatim>\<open>change\<close> moves a chunk: the new block is none of the live ones, its first bytes, as many
  as the smaller of the two sizes, are those of the old block, and no other byte changes.
\<close>

theorem change_moves_payload:
  assumes "heap_ok st h Ls" and "i < length Ls" and "Suc k < length (l_chunks (Ls ! i))"
    and "snd (l_chunks (Ls ! i) ! k) = RESERVED"
    and "0 \<le> sz" and "sz < 2 ^ 31 - 32" and "first_fit (word_of_int sz) Ls = Some j"
    and "\<forall>L \<in> set Ls. no_wrap L" and "old = fst (l_chunks (Ls ! i) ! k)" and "ptr = chunk_ptr (Ls ! i) k"
  shows "\<exists>p st'. change h ptr sz st = Some (Inr (p, st')) \<and> block p (nat sz) \<inter> live Ls = {} \<and>
    bytes (pmem (pages st')) p (nat (min sz old)) = bytes (pmem (pages st)) ptr (nat (min sz old)) \<and>
    (\<forall>x. x \<notin> block p (nat (min sz old)) \<longrightarrow> pmem (pages st') x = pmem (pages st) x)"
  using assms by (rule change_copies)

theorem change_moves_payload_witness:
  "\<exists>st p st'. change 0x2000 (chunk_ptr (carve 200 (carve 100 demo_layout)) 1) 300 st = Some (Inr (p, st')) \<and>
    bytes (pmem (pages st')) p 100 = bytes (pmem (pages st)) (chunk_ptr (carve 200 (carve 100 demo_layout)) 1) 100"
proof -
  obtain st where st: "heap_ok st 0x2000 [carve 200 (carve 100 demo_layout)]" using demo_two_heap by blast
  have "no_wrap (carve 200 (carve 100 demo_layout))"
    by (simp add: no_wrap_def carve_def demo_layout_def fresh_layout_def)
  moreover have "first_fit (word_of_int 300) [carve 200 (carve 100 demo_layout)] = Some 0"
    by (simp add: first_fit_def room_def demo_two_chunks)
  ultimately show ?thesis
    using change_moves_payload[OF st, of 0 1 300 0, OF _ _ _ _ _ _ _ refl refl] by (auto simp: demo_two_chunks)
qed

end
