(* ===== verification/Ext2.thy ===== *)
theory Ext2
  imports Prelude
begin

unbundle bit_operations_syntax

text \<open>
  The file system of \<^verbatim>\<open>kernel/src/fs/ext2/\<close> over a block device: \<^verbatim>\<open>inode.c\<close> (inodes, the block map of a file,
  reading and writing file data, the inode bitmap) and the block bitmap of \<^verbatim>\<open>ext2.c\<close>.

  The device is an array of sectors of 512 bytes; \<^verbatim>\<open>dev->read\<close> and \<^verbatim>\<open>dev->write\<close> transfer whole sectors and
  succeed. Buffers are lists of bytes with the size the code allocates; an access behind the end of a buffer, of
  an object or of what was read into a buffer is the fault \<open>OutOfBounds\<close>. Allocations succeed; trace and messages
  are not modelled. Numbers on the disk are little-endian.
\<close>

section \<open>Bytes and words\<close>

definition byte_of :: "nat \<Rightarrow> 'a :: len word \<Rightarrow> u8" where
  "byte_of i w = ucast (drop_bit (8 * i) w)"

definition le_bytes :: "nat \<Rightarrow> 'a :: len word \<Rightarrow> u8 list" where
  "le_bytes n w = map (\<lambda>i. byte_of i w) [0..<n]"

fun le_word :: "u8 list \<Rightarrow> 'a :: len word" where
  "le_word [] = 0"
| "le_word (b # bs) = ucast b OR push_bit 8 (le_word bs)"

text \<open>The word \<open>xs[i]\<close> of a buffer read as an array of \<^verbatim>\<open>uint32_t\<close>, and an assignment to it.\<close>

definition slice :: "nat \<Rightarrow> nat \<Rightarrow> 'a list \<Rightarrow> 'a list" where
  "slice a n xs = take n (drop a xs)"

definition overwrite :: "nat \<Rightarrow> 'a list \<Rightarrow> 'a list \<Rightarrow> 'a list" where
  "overwrite a ys xs = take a xs @ ys @ drop (a + length ys) xs"

definition get32 :: "u8 list \<Rightarrow> nat \<Rightarrow> u32 result" where
  "get32 buf i = (if 4 * i + 4 \<le> length buf then Inr (le_word (slice (4 * i) 4 buf)) else Inl OutOfBounds)"

definition put32 :: "u8 list \<Rightarrow> nat \<Rightarrow> u32 \<Rightarrow> u8 list result" where
  "put32 buf i v = (if 4 * i + 4 \<le> length buf then Inr (overwrite (4 * i) (le_bytes 4 v) buf) else Inl OutOfBounds)"

section \<open>The device and the state\<close>

type_synonym disk = "u32 \<Rightarrow> u8 list"

record block_group_descriptor =
  block_bitmap_addr :: u32
  inode_bitmap_addr :: u32
  inode_table_addr :: u32
  n_unalloc_blocks :: u16
  n_unalloc_inodes :: u16
  n_dir :: u16
  pad1 :: u16
  bg_reserved :: "u8 list"

text \<open>\<^verbatim>\<open>EXT2_t\<close> without its path, with the field of the superblock that the code reads and the device. \<open>BGD\<close>
  is the whole buffer the descriptor table was read into.\<close>

record ext2 =
  sectors :: disk
  inode_size :: u16
  BGD :: "block_group_descriptor list"
  start_block :: u32
  block_size :: u32
  blocks_per_group :: u32
  inodes_per_group :: u32
  n_groups :: u32
  bgd_blocks :: u32

definition dev_read :: "ext2 \<Rightarrow> u32 \<Rightarrow> u32 \<Rightarrow> u8 list" where
  "dev_read fs n sector = concat (map (\<lambda>i. sectors fs (sector + of_nat i)) [0..<unat n])"

definition dev_write :: "u8 list \<Rightarrow> u32 \<Rightarrow> u32 \<Rightarrow> ext2 \<Rightarrow> ext2 result" where
  "dev_write buf n sector fs =
     (if 512 * unat n \<le> length buf
      then Inr (fs\<lparr>sectors := fold (\<lambda>i d. d(sector + of_nat i := slice (512 * i) 512 buf)) [0..<unat n] (sectors fs)\<rparr>)
      else Inl OutOfBounds)"

text \<open>A block is read as eight sectors whatever the block size, and written as \<^verbatim>\<open>block_size / 512\<close>.\<close>

definition read_disk_block :: "ext2 \<Rightarrow> u32 \<Rightarrow> u8 list" where
  "read_disk_block fs b = dev_read fs 8 (start_block fs + 8 * b)"

definition write_disk_block :: "u32 \<Rightarrow> u8 list \<Rightarrow> ext2 \<Rightarrow> ext2 result" where
  "write_disk_block b buf fs = dev_write buf (block_size fs div 512) (start_block fs + 8 * b) fs"

text \<open>The memory of the descriptor table.\<close>

definition bgd_bytes :: "block_group_descriptor \<Rightarrow> u8 list" where
  "bgd_bytes g = le_bytes 4 (block_bitmap_addr g) @ le_bytes 4 (inode_bitmap_addr g) @ le_bytes 4 (inode_table_addr g) @
     le_bytes 2 (n_unalloc_blocks g) @ le_bytes 2 (n_unalloc_inodes g) @ le_bytes 2 (n_dir g) @ le_bytes 2 (pad1 g) @ bg_reserved g"

text \<open>\<^verbatim>\<open>write_bgd\<close> writes every block of the table to block 2.\<close>

definition write_bgd :: "ext2 \<Rightarrow> ext2 result" where
  "write_bgd fs =
     fold (\<lambda>i r. bindR r (write_disk_block 2 (drop (i * unat (block_size fs)) (concat (map bgd_bytes (BGD fs))))))
       [0..<unat (bgd_blocks fs)] (Inr fs)"

definition group_of :: "ext2 \<Rightarrow> nat \<Rightarrow> block_group_descriptor result" where
  "group_of fs g = (if g < length (BGD fs) then Inr (BGD fs ! g) else Inl OutOfBounds)"

section \<open>The bitmaps\<close>

text \<open>The first free bit of a word, and of the words of a bitmap from \<open>j\<close> on: the pair of their indices.\<close>

definition free_bit :: "u32 \<Rightarrow> nat option" where
  "free_bit w = find (\<lambda>k. \<not> bit w k) [0..<32]"

fun free_in_map :: "u8 list \<Rightarrow> nat \<Rightarrow> nat \<Rightarrow> (nat \<times> nat) option result" where
  "free_in_map buf j 0 = Inr None"
| "free_in_map buf j (Suc n) =
     bindR (get32 buf j)
       (\<lambda>sub_bitmap. if sub_bitmap = 0xFFFFFFFF then free_in_map buf (j + 1) n
          else (case free_bit sub_bitmap of Some k \<Rightarrow> Inr (Some (j, k)) | None \<Rightarrow> free_in_map buf (j + 1) n))"

text \<open>Taking the bit \<open>(j, k)\<close> of the bitmap of group \<open>i\<close>; \<open>upd\<close> updates the free count in the descriptor.\<close>

definition take_bit_of ::
  "(block_group_descriptor \<Rightarrow> block_group_descriptor) \<Rightarrow> u32 \<Rightarrow> u8 list \<Rightarrow> nat \<Rightarrow> nat \<Rightarrow> nat \<Rightarrow> ext2 \<Rightarrow> ext2 result" where
  "take_bit_of upd bitmap_block buf i j k fs =
     bindR (get32 buf j)
       (\<lambda>w. bindR (put32 buf j (w OR push_bit k 1))
       (\<lambda>buf. bindR (write_disk_block bitmap_block buf fs)
       (\<lambda>fs. write_bgd (fs\<lparr>BGD := (BGD fs)[i := upd (BGD fs ! i)]\<rparr>))))"

text \<open>The loop over the groups, for blocks and for inodes alike.\<close>

fun alloc_from ::
  "(block_group_descriptor \<Rightarrow> u16) \<Rightarrow> (block_group_descriptor \<Rightarrow> u32) \<Rightarrow> (block_group_descriptor \<Rightarrow> block_group_descriptor) \<Rightarrow>
   u32 \<Rightarrow> nat \<Rightarrow> nat \<Rightarrow> ext2 \<Rightarrow> (u32 \<times> ext2) result" where
  "alloc_from count bitmap upd per_group i 0 fs = Inr (- 1, fs)"
| "alloc_from count bitmap upd per_group i (Suc n) fs =
     bindR (group_of fs i)
       (\<lambda>g. if count g = 0 then alloc_from count bitmap upd per_group (i + 1) n fs
          else
            (let buf = read_disk_block fs (bitmap g)
             in bindR (free_in_map buf 0 (unat (block_size fs div 4)))
                  (\<lambda>r. case r of
                     None \<Rightarrow> alloc_from count bitmap upd per_group (i + 1) n fs
                   | Some (j, k) \<Rightarrow>
                       bindR (take_bit_of upd (bitmap g) buf i j k fs)
                         (\<lambda>fs. Inr (of_nat i * per_group + of_nat j * 32 + of_nat k, fs)))))"

definition dec_blocks :: "block_group_descriptor \<Rightarrow> block_group_descriptor" where
  "dec_blocks g = g\<lparr>n_unalloc_blocks := n_unalloc_blocks g - 1\<rparr>"

definition dec_inodes :: "block_group_descriptor \<Rightarrow> block_group_descriptor" where
  "dec_inodes g = g\<lparr>n_unalloc_inodes := n_unalloc_inodes g - 1\<rparr>"

definition ext2_alloc_block :: "ext2 \<Rightarrow> (u32 \<times> ext2) result" where
  "ext2_alloc_block fs =
     alloc_from n_unalloc_blocks block_bitmap_addr dec_blocks (blocks_per_group fs) 0 (unat (n_groups fs)) fs"

definition alloc_inode :: "ext2 \<Rightarrow> (u32 \<times> ext2) result" where
  "alloc_inode fs =
     alloc_from n_unalloc_inodes inode_bitmap_addr dec_inodes (inodes_per_group fs) 0 (unat (n_groups fs)) fs"

text \<open>Releasing: the word and the bit in it are the quotient and the remainder by 4. The buffer has \<^verbatim>\<open>block_size\<close> words: a
  word behind the bytes that were read is in the buffer, but not written back.\<close>

definition release ::
  "(block_group_descriptor \<Rightarrow> u32) \<Rightarrow> (block_group_descriptor \<Rightarrow> block_group_descriptor) \<Rightarrow> u32 \<Rightarrow> u32 \<Rightarrow> ext2 \<Rightarrow> ext2 result" where
  "release bitmap upd per_group n fs =
     (let group_idx = n div per_group;
          sub_bitmap_idx = (n - per_group * group_idx) div 4;
          idx = (n - per_group * group_idx) mod 4
      in bindR (group_of fs (unat group_idx))
           (\<lambda>g. let buf = read_disk_block fs (bitmap g)
                in bindR (if length buf < 4 * unat sub_bitmap_idx + 4 \<and> unat sub_bitmap_idx < unat (block_size fs) then Inr buf
                          else bindR (get32 buf (unat sub_bitmap_idx))
                            (\<lambda>w. put32 buf (unat sub_bitmap_idx) (w AND NOT (push_bit (unat idx) 1))))
                  (\<lambda>buf. bindR (write_disk_block (bitmap g) buf fs)
                  (\<lambda>fs. write_bgd (fs\<lparr>BGD := (BGD fs)[unat group_idx := upd (BGD fs ! unat group_idx)]\<rparr>)))))"

definition ext2_free_block :: "u32 \<Rightarrow> ext2 \<Rightarrow> ext2 result" where
  "ext2_free_block n fs =
     release block_bitmap_addr (\<lambda>g. g\<lparr>n_unalloc_blocks := n_unalloc_blocks g + 1\<rparr>) (blocks_per_group fs) n fs"

definition free_inode :: "u32 \<Rightarrow> ext2 \<Rightarrow> ext2 result" where
  "free_inode inode fs =
     release inode_bitmap_addr (\<lambda>g. g\<lparr>n_unalloc_inodes := n_unalloc_inodes g + 1\<rparr>) (inodes_per_group fs) inode fs"

section \<open>Inodes\<close>

record inode_base =
  inode_type_perm :: u16
  user_ID :: u16
  size_lower :: u32
  last_access_time :: u32
  creation_time :: u32
  last_mod_time :: u32
  deletion_time :: u32
  group_ID :: u16
  n_hard_links :: u16
  n_sectors :: u32
  flags :: u32
  OS_Val_1 :: u32
  blocks :: "u32 list"
  gen_num :: u32
  ext_attr_block :: u32
  f_size_dir_acl :: u32
  frag_block_addr :: u32
  OS_Val_2 :: "u8 list"

text \<open>The 128 bytes of an inode.\<close>

definition inode_bytes :: "inode_base \<Rightarrow> u8 list" where
  "inode_bytes n =
     le_bytes 2 (inode_type_perm n) @ le_bytes 2 (user_ID n) @ le_bytes 4 (size_lower n) @
     le_bytes 4 (last_access_time n) @ le_bytes 4 (creation_time n) @ le_bytes 4 (last_mod_time n) @ le_bytes 4 (deletion_time n) @
     le_bytes 2 (group_ID n) @ le_bytes 2 (n_hard_links n) @ le_bytes 4 (n_sectors n) @ le_bytes 4 (flags n) @ le_bytes 4 (OS_Val_1 n) @
     concat (map (le_bytes 4) (blocks n)) @
     le_bytes 4 (gen_num n) @ le_bytes 4 (ext_attr_block n) @ le_bytes 4 (f_size_dir_acl n) @ le_bytes 4 (frag_block_addr n) @ OS_Val_2 n"

definition inode_of_bytes :: "u8 list \<Rightarrow> inode_base" where
  "inode_of_bytes bs =
     \<lparr>inode_type_perm = le_word (slice 0 2 bs), user_ID = le_word (slice 2 2 bs), size_lower = le_word (slice 4 4 bs),
      last_access_time = le_word (slice 8 4 bs), creation_time = le_word (slice 12 4 bs), last_mod_time = le_word (slice 16 4 bs),
      deletion_time = le_word (slice 20 4 bs), group_ID = le_word (slice 24 2 bs), n_hard_links = le_word (slice 26 2 bs),
      n_sectors = le_word (slice 28 4 bs), flags = le_word (slice 32 4 bs), OS_Val_1 = le_word (slice 36 4 bs),
      blocks = map (\<lambda>i. le_word (slice (40 + 4 * i) 4 bs)) [0..<15],
      gen_num = le_word (slice 100 4 bs), ext_attr_block = le_word (slice 104 4 bs), f_size_dir_acl = le_word (slice 108 4 bs),
      frag_block_addr = le_word (slice 112 4 bs), OS_Val_2 = slice 116 12 bs\<rparr>"

definition inode_table_of :: "ext2 \<Rightarrow> u32 \<Rightarrow> u32 result" where
  "inode_table_of fs index = bindR (group_of fs (unat ((index - 1) div inodes_per_group fs))) (\<lambda>g. Inr (inode_table_addr g))"

text \<open>The buffer is an array of \<^verbatim>\<open>uint16_t\<close>, so the offset in it is rounded down to an even number;
  \<^verbatim>\<open>inode_size\<close> bytes are copied into the 128 bytes of the inode.\<close>

definition read_inode_metadata :: "u32 \<Rightarrow> inode_base \<Rightarrow> ext2 \<Rightarrow> inode_base result" where
  "read_inode_metadata index inode fs =
     bindR (inode_table_of fs index)
       (\<lambda>inode_table_block.
          let idx = (index - 1) mod inodes_per_group fs;
              isz = ucast (inode_size fs) :: u32;
              block_offset = (idx * isz) div block_size fs;
              offset_in_block = (idx * isz) mod block_size fs;
              block_num = inode_table_block + block_offset;
              n_sectors = isz div 512 + 1;
              block_buf = dev_read fs n_sectors (start_block fs + block_num * 8);
              off = 2 * (unat offset_in_block div 2)
          in if length block_buf < off + unat isz \<or> 128 < unat isz then Inl OutOfBounds
             else Inr (inode_of_bytes (overwrite 0 (slice off (unat isz) block_buf) (inode_bytes inode))))"

text \<open>\<^verbatim>\<open>write_inode_metadata\<close> computes the position from \<^verbatim>\<open>index\<close> and the number of sectors as \<open>inode_size div 513\<close>.\<close>

definition write_inode_metadata :: "u32 \<Rightarrow> inode_base \<Rightarrow> ext2 \<Rightarrow> ext2 result" where
  "write_inode_metadata index inode fs =
     bindR (inode_table_of fs index)
       (\<lambda>inode_table_block.
          let isz = ucast (inode_size fs) :: u32;
              block_offset = (index * isz) div block_size fs;
              offset_in_block = (index * isz) mod block_size fs;
              block_num = inode_table_block + block_offset;
              n_sectors = isz div (512 + 1);
              block_buf = dev_read fs n_sectors (start_block fs + block_num * 8);
              off = 2 * (unat offset_in_block div 2)
          in if length block_buf < off + unat isz \<or> 128 < unat isz then Inl OutOfBounds
             else dev_write (overwrite off (take (unat isz) (inode_bytes inode)) block_buf) n_sectors (start_block fs + block_num * 8) fs)"

section \<open>The block map\<close>

text \<open>The variables \<^verbatim>\<open>a\<close> to \<^verbatim>\<open>g\<close> are of type \<^verbatim>\<open>int\<close>, \<^verbatim>\<open>p\<close> is unsigned: the arithmetic is modulo \<open>2 ^ 32\<close> and the comparisons
  with 0 are signed. An index behind the range of the triple indirect block gives \<^verbatim>\<open>E_NOERR\<close>, 0.\<close>

definition block_ptr :: "inode_base \<Rightarrow> nat \<Rightarrow> u32 result" where
  "block_ptr inode i = (if i < length (blocks inode) then Inr (blocks inode ! i) else Inl OutOfBounds)"

definition get_disk_block_number :: "inode_base \<Rightarrow> u32 \<Rightarrow> ext2 \<Rightarrow> u32 result" where
  "get_disk_block_number inode inode_block fs =
     (let p = block_size fs div 4;
          a = inode_block - 12;
          b = a - p;
          c = b - p * p;
          d = c - p * p * p
      in if sint a < 0 then block_ptr inode (unat inode_block)
         else if sint b < 0 then
           bindR (block_ptr inode 12) (\<lambda>n. get32 (read_disk_block fs n) (unat a))
         else if sint c < 0 then
           (let c = b div p; d = b - c * p
            in bindR (block_ptr inode 13)
                 (\<lambda>n. bindR (get32 (read_disk_block fs n) (unat c))
                 (\<lambda>n. get32 (read_disk_block fs n) (unat d))))
         else if sint d < 0 then
           (let e = c div (p * p); f = (c - e * p * p) div p; g = c - e * p * p - f * p
            in bindR (block_ptr inode 14)
                 (\<lambda>n. bindR (get32 (read_disk_block fs n) (unat e))
                 (\<lambda>n. bindR (get32 (read_disk_block fs n) (unat f))
                 (\<lambda>n. get32 (read_disk_block fs n) (unat g)))))
         else Inr 0)"

text \<open>\<^verbatim>\<open>alloc_inode_metadata_block\<close>: a block for an empty pointer. With a buffer the pointer is a word of it (at \<open>i\<close>)
  and the buffer goes to \<open>block_overwrite\<close>; without one it is a pointer of the inode.\<close>

definition alloc_inode_pointer :: "nat \<Rightarrow> u32 \<Rightarrow> inode_base \<Rightarrow> ext2 \<Rightarrow> (inode_base \<times> ext2) result" where
  "alloc_inode_pointer i index inode fs =
     bindR (block_ptr inode i)
       (\<lambda>n. if n \<noteq> 0 then Inr (inode, fs)
          else bindR (ext2_alloc_block fs)
            (\<lambda>(block_no, fs). if block_no = 0 then Inr (inode, fs)
               else (let inode = inode\<lparr>blocks := (blocks inode)[i := block_no]\<rparr>
                     in bindR (write_inode_metadata index inode fs) (\<lambda>fs. Inr (inode, fs)))))"

definition alloc_buffer_pointer :: "nat \<Rightarrow> u8 list \<Rightarrow> u32 \<Rightarrow> ext2 \<Rightarrow> (u8 list \<times> ext2) result" where
  "alloc_buffer_pointer i buf block_overwrite fs =
     bindR (get32 buf i)
       (\<lambda>n. if n \<noteq> 0 then Inr (buf, fs)
          else bindR (ext2_alloc_block fs)
            (\<lambda>(block_no, fs). if block_no = 0 then Inr (buf, fs)
               else bindR (put32 buf i block_no)
                 (\<lambda>buf. bindR (write_disk_block block_overwrite buf fs) (\<lambda>fs. Inr (buf, fs)))))"

text \<open>\<^verbatim>\<open>tmp[i] = v\<close> in the block \<open>n\<close>. The buffer has \<^verbatim>\<open>block_size\<close> words: a store behind the bytes that were read is
  not written back.\<close>

definition set_in_block :: "u32 \<Rightarrow> nat \<Rightarrow> u32 \<Rightarrow> ext2 \<Rightarrow> ext2 result" where
  "set_in_block n i v fs =
     (let buf = read_disk_block fs n
      in if length buf < 4 * i + 4 \<and> i < unat (block_size fs) then write_disk_block n buf fs
         else bindR (put32 buf i v) (\<lambda>buf. write_disk_block n buf fs))"

text \<open>One level down: the block that word \<open>i\<close> of block \<open>n\<close> points to, allocated when there is none.\<close>

definition descend :: "u32 \<Rightarrow> nat \<Rightarrow> ext2 \<Rightarrow> (u32 \<times> ext2) result" where
  "descend n i fs =
     bindR (alloc_buffer_pointer i (read_disk_block fs n) n fs) (\<lambda>(buf, fs). bindR (get32 buf i) (\<lambda>m. Inr (m, fs)))"

definition set_disk_block_number :: "u32 \<Rightarrow> u32 \<Rightarrow> u32 \<Rightarrow> inode_base \<Rightarrow> ext2 \<Rightarrow> (inode_base \<times> ext2) result" where
  "set_disk_block_number index inode_block disk_block inode fs =
     (let p = block_size fs div 4;
          a = inode_block - 12;
          b = a - p;
          c = b - p * p;
          d = c - p * p * p
      in if sint a \<le> 0 then
           (if unat inode_block < length (blocks inode)
            then Inr (inode\<lparr>blocks := (blocks inode)[unat inode_block := disk_block]\<rparr>, fs) else Inl OutOfBounds)
         else if sint b \<le> 0 then
           bindR (alloc_inode_pointer 12 index inode fs)
             (\<lambda>(inode, fs). bindR (set_in_block (blocks inode ! 12) (unat a) disk_block fs) (\<lambda>fs. Inr (inode, fs)))
         else if sint c \<le> 0 then
           (let c = b div p; d = b - c * p
            in bindR (alloc_inode_pointer 13 index inode fs)
                 (\<lambda>(inode, fs). bindR (descend (blocks inode ! 13) (unat c) fs)
                 (\<lambda>(n, fs). bindR (set_in_block n (unat d) disk_block fs) (\<lambda>fs. Inr (inode, fs)))))
         else if sint d \<le> 0 then
           (let e = c div (p * p); f = (c - e * p * p) div p; g = c - e * p * p - f * p
            in bindR (alloc_inode_pointer 14 index inode fs)
                 (\<lambda>(inode, fs). bindR (descend (blocks inode ! 14) (unat e) fs)
                 (\<lambda>(n, fs). bindR (descend n (unat f) fs)
                 (\<lambda>(n, fs). bindR (set_in_block n (unat g) disk_block fs) (\<lambda>fs. Inr (inode, fs))))))
         else Inr (inode, fs))"

definition alloc_inode_block :: "u32 \<Rightarrow> u32 \<Rightarrow> inode_base \<Rightarrow> ext2 \<Rightarrow> (inode_base \<times> ext2) result" where
  "alloc_inode_block index b inode fs =
     bindR (ext2_alloc_block fs)
       (\<lambda>(n, fs). bindR (set_disk_block_number index b n inode fs)
       (\<lambda>(inode, fs). let inode = inode\<lparr>n_sectors := (b + 1) * (block_size fs div 512)\<rparr>
                      in bindR (write_inode_metadata index inode fs) (\<lambda>fs. Inr (inode, fs))))"

text \<open>\<^verbatim>\<open>free_inode_block\<close> passes the number of the disk block where the index in the file is expected.\<close>

definition free_inode_block :: "u32 \<Rightarrow> u32 \<Rightarrow> inode_base \<Rightarrow> ext2 \<Rightarrow> (inode_base \<times> ext2) result" where
  "free_inode_block index b inode fs =
     bindR (get_disk_block_number inode b fs)
       (\<lambda>n. bindR (ext2_free_block n fs)
       (\<lambda>fs. bindR (set_disk_block_number index n 0 inode fs)
       (\<lambda>(inode, fs). bindR (write_inode_metadata index inode fs) (\<lambda>fs. Inr (inode, fs)))))"

section \<open>File data\<close>

text \<open>The buffer of \<^verbatim>\<open>read_inode_block\<close> has \<^verbatim>\<open>block_size\<close> bytes and the eight sectors go into it.\<close>

definition read_inode_block :: "inode_base \<Rightarrow> u32 \<Rightarrow> ext2 \<Rightarrow> u8 list result" where
  "read_inode_block inode iblock fs =
     bindR (get_disk_block_number inode iblock fs)
       (\<lambda>n. let buf = read_disk_block fs n in if unat (block_size fs) < length buf then Inl OutOfBounds else Inr buf)"

definition write_inode_block :: "inode_base \<Rightarrow> u32 \<Rightarrow> u8 list \<Rightarrow> ext2 \<Rightarrow> ext2 result" where
  "write_inode_block inode iblock buf fs =
     bindR (get_disk_block_number inode iblock fs) (\<lambda>n. write_disk_block n buf fs)"

definition end_of_read :: "inode_base \<Rightarrow> u32 \<Rightarrow> u32 \<Rightarrow> u32" where
  "end_of_read inode offset n = (if size_lower inode \<ge> offset + n then offset + n else size_lower inode)"

text \<open>The loop over the blocks: \<open>out\<close> is what has been copied to the buffer of the caller.\<close>

fun read_blocks :: "inode_base \<Rightarrow> u32 \<Rightarrow> u32 \<Rightarrow> u32 \<Rightarrow> u32 \<Rightarrow> nat \<Rightarrow> nat \<Rightarrow> u8 list \<Rightarrow> ext2 \<Rightarrow> u8 list result" where
  "read_blocks inode start_blk end_blk start_off end_size i 0 out fs = Inr out"
| "read_blocks inode start_blk end_blk start_off end_size i (Suc n) out fs =
     (let left = (if of_nat i = start_blk then start_off else 0);
          right = (if of_nat i = end_blk then end_size - 1 else block_size fs - 1);
          len = unat (right - left + 1)
      in bindR (read_inode_block inode (of_nat i) fs)
           (\<lambda>buf. if length buf < unat left + len then Inl OutOfBounds
              else read_blocks inode start_blk end_blk start_off end_size (i + 1) n (out @ slice (unat left) len buf) fs))"

definition read_inode_filedata :: "inode_base \<Rightarrow> u32 \<Rightarrow> u32 \<Rightarrow> ext2 \<Rightarrow> (u32 \<times> u8 list) result" where
  "read_inode_filedata inode offset n fs =
     (let end_offset = end_of_read inode offset n;
          start_blk = offset div block_size fs;
          end_blk = end_offset div block_size fs;
          start_off = offset mod block_size fs;
          end_size = end_offset - end_blk * block_size fs
      in bindR (read_blocks inode start_blk end_blk start_off end_size (unat start_blk) (unat end_blk + 1 - unat start_blk) [] fs)
           (\<lambda>out. Inr (end_offset - offset, out)))"

text \<open>The loop of \<^verbatim>\<open>write_inode_filedata\<close>: the right end of a block that is not the last is \<^verbatim>\<open>block_size\<close>, so one byte more
  than the block has is copied into its buffer.\<close>

fun write_blocks :: "inode_base \<Rightarrow> u32 \<Rightarrow> u32 \<Rightarrow> u32 \<Rightarrow> u32 \<Rightarrow> nat \<Rightarrow> nat \<Rightarrow> u8 list \<Rightarrow> ext2 \<Rightarrow> ext2 result" where
  "write_blocks inode start_blk end_blk start_off end_size i 0 data fs = Inr fs"
| "write_blocks inode start_blk end_blk start_off end_size i (Suc n) data fs =
     (let left = (if of_nat i = start_blk then start_off else 0);
          right = (if of_nat i = end_blk then end_size - 1 else block_size fs);
          len = unat (right - left + 1)
      in bindR (read_inode_block inode (of_nat i) fs)
           (\<lambda>buf. if length buf < unat left + len \<or> length data < len then Inl OutOfBounds
              else bindR (write_inode_block inode (of_nat i) (overwrite (unat left) (take len data) buf) fs)
                (write_blocks inode start_blk end_blk start_off end_size (i + 1) n (drop len data))))"

definition write_inode_filedata :: "u32 \<Rightarrow> u32 \<Rightarrow> u8 list \<Rightarrow> inode_base \<Rightarrow> ext2 \<Rightarrow> (inode_base \<times> ext2) result" where
  "write_inode_filedata index offset data inode fs =
     (let n = of_nat (length data) :: u32
      in bindR (if offset + n > size_lower inode
                then (let inode = inode\<lparr>size_lower := offset + n\<rparr> in bindR (write_inode_metadata index inode fs) (\<lambda>fs. Inr (inode, fs)))
                else Inr (inode, fs))
           (\<lambda>(inode, fs).
              let end_offset = end_of_read inode offset n;
                  start_blk = offset div block_size fs;
                  end_blk = end_offset div block_size fs;
                  start_off = offset mod block_size fs;
                  end_size = end_offset - end_blk * block_size fs
              in bindR (write_blocks inode start_blk end_blk start_off end_size (unat start_blk) (unat end_blk + 1 - unat start_blk) data fs)
                   (\<lambda>fs. Inr (inode, fs))))"

section \<open>Files\<close>

text \<open>The operations of \<^verbatim>\<open>ext2.c\<close> on the inode of a file. \<open>mem\<close> is what the memory allocated for the inode holds.\<close>

definition ext2_get_file_size :: "u32 \<Rightarrow> inode_base \<Rightarrow> ext2 \<Rightarrow> u32 result" where
  "ext2_get_file_size index mem fs = bindR (read_inode_metadata index mem fs) (\<lambda>inode. Inr (size_lower inode))"

definition ext2_chmod :: "u32 \<Rightarrow> u32 \<Rightarrow> inode_base \<Rightarrow> ext2 \<Rightarrow> ext2 result" where
  "ext2_chmod index mode mem fs =
     bindR (read_inode_metadata index mem fs)
       (\<lambda>inode. write_inode_metadata index
          (inode\<lparr>inode_type_perm := ucast (((ucast (inode_type_perm inode) :: u32) AND 0xFFFFF000) OR mode)\<rparr>) fs)"

text \<open>Both return the size that was asked for, whatever was transferred.\<close>

definition ext2_read :: "u32 \<Rightarrow> u32 \<Rightarrow> u32 \<Rightarrow> inode_base \<Rightarrow> ext2 \<Rightarrow> (u32 \<times> u8 list) result" where
  "ext2_read index offset n mem fs =
     bindR (read_inode_metadata index mem fs)
       (\<lambda>inode. bindR (read_inode_filedata inode offset n fs) (\<lambda>(_, out). Inr (n, out)))"

definition ext2_write :: "u32 \<Rightarrow> u32 \<Rightarrow> u8 list \<Rightarrow> inode_base \<Rightarrow> ext2 \<Rightarrow> (u32 \<times> ext2) result" where
  "ext2_write index offset data mem fs =
     bindR (read_inode_metadata index mem fs)
       (\<lambda>inode. bindR (write_inode_filedata index offset data inode fs) (\<lambda>(_, fs). Inr (of_nat (length data), fs)))"

end
