(* ===== verification/Cstring.thy ===== *)
theory Cstring
  imports Mem_Ops "HOL-Library.Sublist"
begin

text \<open>
  The string functions of \<^verbatim>\<open>kernel/src/stdlib/string.c\<close> and the string hash of
  \<^verbatim>\<open>hash.h\<close>, over the byte memory. A loop that runs until it meets a certain byte
  is a \<^theory_text>\<open>partial_function\<close>: \<open>None\<close> is the loop that never stops. Characters are bytes
  (\<^verbatim>\<open>char\<close> is unsigned on AArch64).
\<close>

section \<open>Length and comparison\<close>

text \<open>\<^verbatim>\<open>strlen\<close>: the index \<open>i\<close> counts up to the first zero byte.\<close>

partial_function (option) strlen_from :: "mem \<Rightarrow> addr \<Rightarrow> nat \<Rightarrow> nat option" where
  "strlen_from m s1 i = (if m (at s1 i) \<noteq> 0 then strlen_from m s1 (i + 1) else Some i)"

definition strlen :: "mem \<Rightarrow> addr \<Rightarrow> nat option" where
  "strlen m s1 = strlen_from m s1 0"

text \<open>\<^verbatim>\<open>strncmp\<close>: \<open>n\<close> counts down while \<open>i\<close> counts up.\<close>

fun strncmp_loop :: "mem \<Rightarrow> addr \<Rightarrow> addr \<Rightarrow> nat \<Rightarrow> nat \<Rightarrow> int" where
  "strncmp_loop m s1 s2 i 0 = 0"
| "strncmp_loop m s1 s2 i (Suc n) =
     (let r = uint (m (at s1 i)) - uint (m (at s2 i))
      in if r \<noteq> 0 then r
         else if m (at s1 i) = 0 then 0
         else strncmp_loop m s1 s2 (i + 1) n)"

definition strncmp :: "mem \<Rightarrow> addr \<Rightarrow> addr \<Rightarrow> u32 \<Rightarrow> int" where
  "strncmp m s1 s2 n = strncmp_loop m s1 s2 0 (unat n)"

text \<open>\<^verbatim>\<open>strcmp\<close>: both pointers advance while the bytes agree.\<close>

partial_function (option) strcmp :: "mem \<Rightarrow> addr \<Rightarrow> addr \<Rightarrow> int option" where
  "strcmp m s1 s2 =
     (if m s1 = m s2
      then (if m s1 = 0 then Some 0 else strcmp m (s1 + 1) (s2 + 1))
      else Some (uint (m s1) - uint (m s2)))"

section \<open>Copying\<close>

text \<open>The first loop of \<^verbatim>\<open>strncpy\<close>: the memory and the index where it stops.\<close>

fun strncpy_copy :: "addr \<Rightarrow> addr \<Rightarrow> nat \<Rightarrow> nat \<Rightarrow> mem \<Rightarrow> mem \<times> nat" where
  "strncpy_copy dest src i 0 m = (m, i)"
| "strncpy_copy dest src i (Suc k) m =
     (let m' = copy_byte dest src i m
      in if m' (at src i) = 0 then (m', i) else strncpy_copy dest src (i + 1) k m')"

definition strncpy :: "mem \<Rightarrow> addr \<Rightarrow> addr \<Rightarrow> u32 \<Rightarrow> mem \<times> addr" where
  "strncpy m dest src n =
     (let (m, i) = strncpy_copy dest src 0 (unat n) m
      in (fold (\<lambda>i m. m(at dest i := 0)) [i..<unat n] m, dest))"

partial_function (option) strcpy_from :: "addr \<Rightarrow> addr \<Rightarrow> nat \<Rightarrow> mem \<Rightarrow> mem option" where
  "strcpy_from dest src i m =
     (let c = m (at src i);
          m = m(at dest i := c)
      in if c \<noteq> 0 then strcpy_from dest src (i + 1) m else Some m)"

definition strcpy :: "mem \<Rightarrow> addr \<Rightarrow> addr \<Rightarrow> (mem \<times> addr) option" where
  "strcpy m dest src = map_option (\<lambda>m. (m, dest)) (strcpy_from dest src 0 m)"

text \<open>\<^verbatim>\<open>strncat\<close>: the copy loop of \<^verbatim>\<open>strncpy\<close> behind the string at \<open>dest\<close>, then a zero byte.\<close>

definition strncat :: "mem \<Rightarrow> addr \<Rightarrow> addr \<Rightarrow> u32 \<Rightarrow> (mem \<times> addr) option" where
  "strncat m dest src n =
     (case strlen m dest of
        None \<Rightarrow> None
      | Some dest_len \<Rightarrow>
          (let (m, i) = strncpy_copy (at dest dest_len) src 0 (unat n) m
           in Some (m(at dest (dest_len + i) := 0), dest)))"

text \<open>\<^verbatim>\<open>strlcpy\<close>: the bound \<^verbatim>\<open>n - 1\<close> is an unsigned difference.\<close>

definition strlcpy :: "mem \<Rightarrow> addr \<Rightarrow> addr \<Rightarrow> u32 \<Rightarrow> mem \<times> int" where
  "strlcpy m dest src n =
     (let (m, i) = strncpy_copy dest src 0 (unat (n - 1)) m
      in (m(at dest i := 0), int32 (int i)))"

section \<open>Searching\<close>

text \<open>The inner loop of \<^verbatim>\<open>strstr\<close>: the address behind the next byte \<open>c\<close>, or \<open>None\<close> when the
  string ends first.\<close>

partial_function (option) skip_to :: "mem \<Rightarrow> u8 \<Rightarrow> addr \<Rightarrow> addr option option" where
  "skip_to m c p =
     (if m p = 0 then Some None else if m p \<noteq> c then skip_to m c (p + 1) else Some (Some (p + 1)))"

partial_function (option) strstr_loop :: "mem \<Rightarrow> u8 \<Rightarrow> addr \<Rightarrow> u32 \<Rightarrow> addr \<Rightarrow> addr option" where
  "strstr_loop m c str len p =
     (case skip_to m c p of
        None \<Rightarrow> None
      | Some None \<Rightarrow> Some NULL
      | Some (Some q) \<Rightarrow>
          if strncmp m q str len \<noteq> 0 then strstr_loop m c str len q
          else Some (q - 1))"

definition strstr :: "mem \<Rightarrow> addr \<Rightarrow> addr \<Rightarrow> addr option" where
  "strstr m inp str =
     (if m str = 0 then Some inp
      else (case strlen m (str + 1) of
              None \<Rightarrow> None
            | Some len \<Rightarrow> strstr_loop m (m str) (str + 1) (of_nat len) inp))"

section \<open>Numbers\<close>

definition digit_char :: "nat \<Rightarrow> u8" where
  "digit_char t = of_nat (if t < 10 then t + 48 else t + 97 - 10)"

text \<open>The digits of \<^verbatim>\<open>itoa\<close>, least significant first; \<open>None\<close> for a base that does not
  make \<open>n\<close> smaller.\<close>

partial_function (option) itoa_digits :: "addr \<Rightarrow> nat \<Rightarrow> nat \<Rightarrow> nat \<Rightarrow> mem \<Rightarrow> (mem \<times> nat) option" where
  "itoa_digits buf base n i m =
     (let m = m(at buf i := digit_char (n mod base));
          n = n div base
      in if n \<noteq> 0 then itoa_digits buf base n (i + 1) m else Some (m, i + 1))"

text \<open>The loop that reverses the digits.\<close>

fun reverse_bytes :: "addr \<Rightarrow> nat \<Rightarrow> nat \<Rightarrow> mem \<Rightarrow> mem" where
  "reverse_bytes buf j i m =
     (if j < i then reverse_bytes buf (j + 1) (i - 1)
                      (m(at buf j := m (at buf i), at buf i := m (at buf j)))
      else m)"

definition itoa :: "mem \<Rightarrow> addr \<Rightarrow> u64 \<Rightarrow> nat \<Rightarrow> mem option" where
  "itoa m buf n base =
     (case itoa_digits buf base (unat n) 0 m of
        None \<Rightarrow> None
      | Some (m, i) \<Rightarrow> Some (reverse_bytes buf 0 (i - 1) (m(at buf i := 0))))"

definition isspace :: "u8 \<Rightarrow> bool" where
  "isspace c \<longleftrightarrow> c = 32 \<or> c = 9 \<or> c = 10 \<or> c = 11 \<or> c = 12 \<or> c = 13"

definition isprint :: "u8 \<Rightarrow> bool" where
  "isprint c \<longleftrightarrow> 32 \<le> c \<and> c \<le> 126"

partial_function (option) skip_space :: "mem \<Rightarrow> addr \<Rightarrow> addr option" where
  "skip_space m p = (if isspace (m p) then skip_space m (p + 1) else Some p)"

text \<open>The digit loop of \<^verbatim>\<open>atoi\<close>: \<^verbatim>\<open>digit\<close> is unsigned, so characters below \<open>0\<close> become large.\<close>

partial_function (option) atoi_loop :: "mem \<Rightarrow> addr \<Rightarrow> int \<Rightarrow> int option" where
  "atoi_loop m p r =
     (let digit = (word_of_int (uint (m p) - 48) :: u32)
      in if digit > 9 then Some r else atoi_loop m (p + 1) (int32 (10 * r + uint digit)))"

definition atoi :: "mem \<Rightarrow> addr \<Rightarrow> int option" where
  "atoi m string =
     (case skip_space m string of
        None \<Rightarrow> None
      | Some p \<Rightarrow>
          if m p = 45 then map_option (\<lambda>r. int32 (- r)) (atoi_loop m (p + 1) 0)
          else if m p = 43 then atoi_loop m (p + 1) 0
          else atoi_loop m p 0)"

section \<open>Tokens\<close>

text \<open>The scan of the delimiters in \<^verbatim>\<open>strsep\<close>; the zero byte at their end counts as one.\<close>

partial_function (option) in_delims :: "mem \<Rightarrow> addr \<Rightarrow> u8 \<Rightarrow> bool option" where
  "in_delims m spanp c =
     (if m spanp = c then Some True else if m spanp \<noteq> 0 then in_delims m (spanp + 1) c else Some False)"

text \<open>The loop of \<^verbatim>\<open>strsep\<close>: the memory and the new \<^verbatim>\<open>*stringp\<close>.\<close>

partial_function (option) strsep_loop :: "mem \<Rightarrow> addr \<Rightarrow> addr \<Rightarrow> (mem \<times> addr) option" where
  "strsep_loop m delim s =
     (case in_delims m delim (m s) of
        None \<Rightarrow> None
      | Some found \<Rightarrow>
          if found then Some (if m s = 0 then (m, NULL) else (m(s := 0), s + 1))
          else strsep_loop m delim (s + 1))"

definition strsep :: "mem \<Rightarrow> addr \<Rightarrow> addr \<Rightarrow> (mem \<times> addr \<times> addr) option" where
  "strsep m stringp delim =
     (if stringp = NULL then Some (m, NULL, NULL)
      else map_option (\<lambda>(m, s). (m, stringp, s)) (strsep_loop m delim stringp))"

section \<open>Hash\<close>

partial_function (option) hash_loop :: "mem \<Rightarrow> addr \<Rightarrow> u64 \<Rightarrow> u64 option" where
  "hash_loop m p val = (if m p \<noteq> 0 then hash_loop m (p + 1) ((push_bit 5 val + val) + ucast (m p)) else Some val)"

definition hash32 :: "mem \<Rightarrow> addr \<Rightarrow> u32 option" where
  "hash32 m string = map_option (\<lambda>val. ucast (val AND 0x7FFFFFFF)) (hash_loop m string 5381)"

section \<open>Strings in memory\<close>

definition cstr :: "mem \<Rightarrow> addr \<Rightarrow> u8 list \<Rightarrow> bool" where
  "cstr m s xs \<longleftrightarrow> (\<forall>i < length xs. m (at s i) = xs ! i \<and> xs ! i \<noteq> 0) \<and> m (at s (length xs)) = 0"

lemma at_Suc: "at s (Suc i) = at (s + 1) i"
  by (simp add: add.assoc add.commute)

lemma cstr_Nil [simp]: "cstr m s [] \<longleftrightarrow> m s = 0"
  by (simp add: cstr_def)

lemma cstr_Cons [simp]: "cstr m s (x # xs) \<longleftrightarrow> m s = x \<and> x \<noteq> 0 \<and> cstr m (s + 1) xs"
  by (simp add: cstr_def All_less_Suc2 at_Suc del: of_nat_Suc, auto?)

lemma cstr_append: "cstr m s (xs @ ys) \<longleftrightarrow> (\<forall>i < length xs. m (at s i) = xs ! i \<and> xs ! i \<noteq> 0) \<and> cstr m (at s (length xs)) ys"
  by (induction xs arbitrary: s) (auto simp: All_less_Suc2 at_Suc simp del: of_nat_Suc)

lemma cstr_inject: "cstr m s xs \<Longrightarrow> cstr m s ys \<Longrightarrow> xs = ys"
proof (induction xs arbitrary: s ys)
  case Nil then show ?case by (cases ys) auto
next
  case (Cons x xs) then show ?case by (cases ys) auto
qed

lemma strlen_from_cstr:
  assumes "cstr m s xs" "i \<le> length xs"
  shows "strlen_from m s i = Some (length xs)"
  using assms(2)
proof (induction "length xs - i" arbitrary: i)
  case 0
  then show ?case using assms(1) by (subst strlen_from.simps) (simp add: cstr_def)
next
  case (Suc k)
  then have "i < length xs" by simp
  with Suc(1)[of "i + 1"] Suc(2) show ?case
    using assms(1) by (subst strlen_from.simps) (simp add: cstr_def)
qed

lemma strlen_cstr: "cstr m s xs \<Longrightarrow> strlen m s = Some (length xs)"
  by (simp add: strlen_def strlen_from_cstr)

lemma strncmp_loop_eq_0:
  "\<forall>k < n. m (at s (i + k)) \<noteq> 0 \<Longrightarrow>
   strncmp_loop m p s i n = 0 \<longleftrightarrow> (\<forall>k < n. m (at p (i + k)) = m (at s (i + k)))"
proof (induction n arbitrary: i)
  case (Suc n)
  then have "\<forall>k < n. m (at s (i + 1 + k)) \<noteq> 0" by (metis Suc_less_eq add_Suc_right add_Suc_shift plus_1_eq_Suc add.commute)
  note IH = Suc.IH[OF this]
  show ?case
    using IH Suc.prems[rule_format, of 0]
    by (auto simp: Let_def All_less_Suc2 word_uint_eq_iff simp del: of_nat_add)
qed simp

lemma prefix_cstr:
  "cstr m q bs \<Longrightarrow> \<forall>y \<in> set ys. y \<noteq> 0 \<Longrightarrow> (\<forall>k < length ys. m (at q k) = ys ! k) \<longleftrightarrow> prefix ys bs"
proof (induction ys arbitrary: q bs)
  case (Cons y ys)
  then show ?case by (cases bs) (auto simp: All_less_Suc2 at_Suc simp del: of_nat_Suc)
qed simp

lemma strncmp_prefix:
  assumes "cstr m str ys" "cstr m q bs" "length ys < 2 ^ 32"
  shows "strncmp m q str (of_nat (length ys)) = 0 \<longleftrightarrow> prefix ys bs"
proof -
  have "unat (of_nat (length ys) :: u32) = length ys" using assms(3) by (simp add: unat_of_nat)
  moreover have "\<forall>k < length ys. m (at str k) = ys ! k \<and> ys ! k \<noteq> 0" using assms(1) by (simp add: cstr_def)
  ultimately have "strncmp m q str (of_nat (length ys)) = 0 \<longleftrightarrow> (\<forall>k < length ys. m (at q k) = ys ! k)"
    using strncmp_loop_eq_0[of "length ys" m str 0 q] by (simp add: strncmp_def)
  moreover have "\<forall>y \<in> set ys. y \<noteq> 0" using assms(1) by (auto simp: cstr_def in_set_conv_nth)
  ultimately show ?thesis using prefix_cstr[OF assms(2)] by simp
qed

lemma strcmp_cstr:
  "cstr m s1 xs \<Longrightarrow> cstr m s2 ys \<Longrightarrow> 
   \<exists>d. strcmp m s1 s2 = Some d \<and> (d = 0 \<longleftrightarrow> xs = ys) \<and> (d < 0 \<longleftrightarrow> (xs, ys) \<in> lexord {(a, b). a < b})"
proof (induction xs arbitrary: s1 s2 ys)
  case Nil
  then show ?case by (cases ys; subst strcmp.simps) (auto simp: uint_0_iff less_le)
next
  case (Cons x xs)
  show ?case
  proof (cases ys)
    case Nil
    then show ?thesis using Cons.prems by (subst strcmp.simps) (auto simp: uint_0_iff dest: leD)
  next
    case (Cons y ys')
    show ?thesis
    proof (cases "x = y")
      case True
      then show ?thesis using Cons Cons.prems Cons.IH[of "s1 + 1" "s2 + 1" ys'] by (subst strcmp.simps) auto
    next
      case False
      then show ?thesis using Cons Cons.prems by (subst strcmp.simps) (auto simp: word_less_def word_uint_eq_iff)
    qed
  qed
qed


lemma skip_to_cstr:
  "cstr m p xs \<Longrightarrow> skip_to m c p = (if c \<in> set xs then Some (Some (at p (Suc (length (takeWhile (\<lambda>x. x \<noteq> c) xs))))) else Some None)"
proof (induction xs arbitrary: p)
  case (Cons x xs)
  then show ?case by (subst skip_to.simps) (auto simp: at_Suc simp del: of_nat_Suc)
qed (subst skip_to.simps, simp)

fun find_sub :: "'a list \<Rightarrow> 'a list \<Rightarrow> nat option" where
  "find_sub ys [] = (if ys = [] then Some 0 else None)"
| "find_sub ys (x # xs) = (if prefix ys (x # xs) then Some 0 else map_option Suc (find_sub ys xs))"

lemma find_sub_skip: "c \<notin> set as \<Longrightarrow> find_sub (c # ys) (as @ bs) = map_option (\<lambda>k. length as + k) (find_sub (c # ys) bs)"
  by (induction as) (cases "find_sub (c # ys) bs"; simp)+

lemma strstr_loop_cstr:
  assumes ys: "cstr m str ys" "length ys < 2 ^ 32" and c: "c \<noteq> 0"
  shows "cstr m p xs \<Longrightarrow> strstr_loop m c str (of_nat (length ys)) p =
    Some (case find_sub (c # ys) xs of None \<Rightarrow> NULL | Some k \<Rightarrow> at p k)"
proof (induction "length xs" arbitrary: xs p rule: less_induct)
  case less
  show ?case
  proof (cases "c \<in> set xs")
    case False
    then have "find_sub (c # ys) xs = None" using find_sub_skip[of c xs ys "[]"] by simp
    then show ?thesis using less.prems False by (subst strstr_loop.simps) (simp add: skip_to_cstr)
  next
    case True
    then obtain as bs where xs: "xs = as @ c # bs" "c \<notin> set as" by (meson split_list_first)
    define q where "q = at p (Suc (length as))"
    have tw: "takeWhile (\<lambda>x. x \<noteq> c) xs = as" using xs by (auto simp: takeWhile_append)
    have q: "cstr m q bs" using less.prems xs by (simp add: cstr_append q_def at_Suc add.commute del: of_nat_Suc) (simp add: add.assoc add.commute)
    have sk: "skip_to m c p = Some (Some q)" using skip_to_cstr[OF less.prems, of c] True by (simp add: tw q_def)
    have fs: "find_sub (c # ys) xs = map_option (\<lambda>k. length as + k) (if prefix ys bs then Some 0 else map_option Suc (find_sub (c # ys) bs))"
      using find_sub_skip[OF xs(2)] by (simp add: xs(1))
    show ?thesis
    proof (cases "prefix ys bs")
      case True
      then show ?thesis
        using fs sk strncmp_prefix[OF ys(1) q ys(2)] by (subst strstr_loop.simps) (simp add: q_def)
    next
      case False
      have "length bs < length xs" using xs by simp
      from less.hyps[OF this q] show ?thesis
        using fs sk strncmp_prefix[OF ys(1) q ys(2)] False
        by (subst strstr_loop.simps) (auto simp: q_def split: option.splits)
    qed
  qed
qed

lemma find_sub_Some: "find_sub ys xs = Some k \<longleftrightarrow> k \<le> length xs \<and> prefix ys (drop k xs) \<and> (\<forall>j < k. \<not> prefix ys (drop j xs))"
proof (induction xs arbitrary: k)
  case (Cons x xs)
  then show ?case by (cases k) (auto simp: All_less_Suc2)
qed auto

lemma find_sub_None: "find_sub ys xs = None \<longleftrightarrow> (\<forall>j \<le> length xs. \<not> prefix ys (drop j xs))"
proof (induction xs)
  case (Cons x xs)
  then show ?case by (auto simp: less_Suc_eq_le[symmetric] All_less_Suc2)
qed auto


lemma strcpy_from_cstr:
  assumes "cstr m0 src xs" "\<And>k. k \<le> length xs \<Longrightarrow> m (at src k) = m0 (at src k)"
    "block dest (length xs + 1) \<inter> block src (length xs + 1) = {}" "i \<le> length xs"
  shows "strcpy_from dest src i m = Some (fold (copy_byte dest src) [i..<length xs + 1] m)"
  using assms(2,4)
proof (induction "length xs - i" arbitrary: i m)
  case 0
  then show ?case using assms(1) by (subst strcpy_from.simps) (simp add: cstr_def copy_byte_def)
next
  case (Suc n)
  then have i: "i < length xs" by simp
  have ne: "at src k \<noteq> at dest i" if "k \<le> length xs" for k
    using assms(3) i that by (metis at_in_block disjoint_iff le_imp_less_Suc less_imp_le Suc_eq_plus1)
  let ?m = "m(at dest i := m (at src i))"
  have "strcpy_from dest src (i + 1) ?m = Some (fold (copy_byte dest src) [i + 1..<length xs + 1] ?m)"
    using Suc i ne by (intro Suc.hyps(1)) auto
  moreover have "[i..<length xs + 1] = i # [i + 1..<length xs + 1]" using i by (simp add: upt_conv_Cons)
  ultimately show ?case
    using Suc.prems(1)[of i] i assms(1)
    by (subst strcpy_from.simps) (simp add: cstr_def copy_byte_def Let_def del: upt_Suc)
qed

lemma strcpy_cstr:
  assumes "cstr m src xs" "block dest (length xs + 1) \<inter> block src (length xs + 1) = {}"
    "unat src + length xs < 2 ^ 64" "unat dest + length xs < 2 ^ 64" "length xs < 2 ^ 32"
  shows "\<exists>m'. strcpy m dest src = Some (m', dest) \<and> cstr m' dest xs \<and> (\<forall>x. x \<notin> block dest (length xs + 1) \<longrightarrow> m' x = m x)"
proof -
  define m' where "m' = fold (copy_byte dest src) [0..<length xs + 1] m"
  have "strcpy m dest src = Some (m', dest)"
    using strcpy_from_cstr[OF assms(1) refl assms(2), of 0] by (simp add: strcpy_def m'_def)
  moreover have "bytes m' dest (length xs + 1) = bytes m src (length xs + 1)" and frame: "\<forall>x. x \<notin> block dest (length xs + 1) \<longrightarrow> m' x = m x"
    using fold_copy_up[OF _ _ _ _ m'_def] assms by (simp_all del: upt_Suc)
  then have "m' (at dest k) = m (at src k)" if "k \<le> length xs" for k
    using that by (metis nth_bytes le_imp_less_Suc Suc_eq_plus1)
  then have "cstr m' dest xs" using assms(1) by (simp add: cstr_def)
  ultimately show ?thesis using frame by blast
qed

section \<open>Decimal numbers\<close>

fun digits :: "nat \<Rightarrow> nat list" where
  "digits n = (if n < 10 then [n] else n mod 10 # digits (n div 10))"

declare digits.simps [simp del]

lemma digits_lt: "d \<in> set (digits n) \<Longrightarrow> d < 10"
  by (induction n rule: digits.induct) (subst (asm) digits.simps, auto split: if_splits)

lemma digits_ne [simp]: "digits n \<noteq> []"
  by (subst digits.simps) simp

lemma length_digits: "length (digits n) \<le> n + 1"
proof (induction n rule: digits.induct)
  case (1 n)
  then show ?case by (subst digits.simps) auto
qed

lemma digits_value: "foldr (\<lambda>d r. 10 * r + d) (digits n) 0 = n"
proof (induction n rule: digits.induct)
  case (1 n)
  then show ?case by (subst digits.simps) auto
qed

lemma at_inj: "i < 2 ^ 64 \<Longrightarrow> j < 2 ^ 64 \<Longrightarrow> at a i = at a j \<longleftrightarrow> i = j"
  by simp

lemma itoa_digits_spec:
  "i + length (digits n) < 2 ^ 64 \<Longrightarrow> \<exists>m'. itoa_digits buf 10 n i m = Some (m', i + length (digits n)) \<and>
    (\<forall>k < length (digits n). m' (at buf (i + k)) = digit_char (digits n ! k)) \<and>
    (\<forall>k < i. m' (at buf k) = m (at buf k))"
proof (induction n arbitrary: i m rule: digits.induct)
  case (1 n)
  let ?m = "m(at buf i := digit_char (n mod 10))"
  show ?case
  proof (cases "n < 10")
    case True
    then show ?thesis using 1(2) by (subst itoa_digits.simps) (auto simp: digits.simps[of n])
  next
    case False
    then have d: "digits n = n mod 10 # digits (n div 10)" by (simp add: digits.simps[of n])
    obtain m' where m': "itoa_digits buf 10 (n div 10) (i + 1) ?m = Some (m', i + 1 + length (digits (n div 10)))"
      "\<forall>k < length (digits (n div 10)). m' (at buf (i + 1 + k)) = digit_char (digits (n div 10) ! k)"
      "\<forall>k < i + 1. m' (at buf k) = ?m (at buf k)"
      using 1(1)[OF False, of "i + 1" ?m] 1(2) d by (auto simp del: fun_upd_apply of_nat_add)
    have "n div 10 \<noteq> 0" using False by auto
    then have "itoa_digits buf 10 n i m = Some (m', i + length (digits n))"
      using m'(1) d by (subst itoa_digits.simps) (simp add: Let_def)
    moreover have "m' (at buf (i + k)) = digit_char (digits n ! k)" if "k < length (digits n)" for k
      using m'(2,3) that d by (cases k) (auto simp: add.commute)
    moreover have "m' (at buf k) = m (at buf k)" if "k < i" for k
      using m'(3)[rule_format, of k] that 1(2) by simp
    ultimately show ?thesis by blast
  qed
qed

declare reverse_bytes.simps [simp del]

lemma reverse_bytes_spec:
  "i < 2 ^ 64 \<Longrightarrow> k < 2 ^ 64 \<Longrightarrow>
   reverse_bytes buf j i m (at buf k) = (if j \<le> k \<and> k \<le> i then m (at buf (j + i - k)) else m (at buf k))"
proof (induction buf j i m rule: reverse_bytes.induct)
  case (1 buf j i m)
  show ?case
  proof (cases "j < i")
    case False
    then have "j \<le> k \<Longrightarrow> k \<le> i \<Longrightarrow> j + i - k = k" by linarith
    with False show ?thesis by (subst reverse_bytes.simps) (simp del: of_nat_diff of_nat_add)
  next
    case True
    let ?m = "m(at buf j := m (at buf i), at buf i := m (at buf j))"
    have IH: "reverse_bytes buf (j + 1) (i - 1) ?m (at buf k) =
        (if j + 1 \<le> k \<and> k \<le> i - 1 then ?m (at buf (j + 1 + (i - 1) - k)) else ?m (at buf k))"
      by (rule 1(1)[OF True]) (use 1(2,3) in linarith)+
    have eq: "reverse_bytes buf j i m = reverse_bytes buf (j + 1) (i - 1) ?m"
      using True by (subst reverse_bytes.simps) simp
    have j: "j < 2 ^ 64" using True 1(2) by simp
    consider "k < j" | "k = j" | "j < k" "k < i" | "k = i" | "i < k" by linarith
    then show ?thesis
      unfolding eq IH
    proof cases
      case 3
      then have "j + 1 + (i - 1) - k = j + i - k" "j + i - k \<noteq> j" "j + i - k \<noteq> i" "j + i - k < 2 ^ 64" "k \<le> i - 1" using 1(2) by linarith+
      then show "(if j + 1 \<le> k \<and> k \<le> i - 1 then ?m (at buf (j + 1 + (i - 1) - k)) else ?m (at buf k)) =
        (if j \<le> k \<and> k \<le> i then m (at buf (j + i - k)) else m (at buf k))"
        using 3 j 1(2) by (simp del: of_nat_diff of_nat_add)
    qed (use True j 1(2,3) in \<open>auto simp del: of_nat_diff of_nat_add\<close>)
  qed
qed

definition decimal :: "nat \<Rightarrow> u8 list" where
  "decimal n = rev (map digit_char (digits n))"

lemma itoa_writes_decimal:
  assumes "unat n < 2 ^ 32"
  shows "\<exists>m'. itoa m buf n 10 = Some m' \<and> cstr m' buf (decimal (unat n))"
proof -
  define ds where "ds = digits (unat n)"
  define l where "l = length ds"
  have l: "l < 2 ^ 64" "0 < l" using length_digits[of "unat n"] assms by (auto simp: l_def ds_def)
  obtain m1 where m1: "itoa_digits buf 10 (unat n) 0 m = Some (m1, l)"
    "\<forall>k < l. m1 (at buf k) = digit_char (ds ! k)"
    using itoa_digits_spec[of 0 "unat n" buf m] l by (auto simp: l_def ds_def)
  let ?m = "m1(at buf l := 0)"
  define m' where "m' = reverse_bytes buf 0 (l - 1) ?m"
  have m': "m' (at buf k) = (if k \<le> l - 1 then ?m (at buf (l - 1 - k)) else ?m (at buf k))" if "k < 2 ^ 64" for k
    using reverse_bytes_spec[of "l - 1" k buf 0 ?m] that l unfolding m'_def by (simp del: of_nat_diff fun_upd_apply)
  have "m' (at buf k) = decimal (unat n) ! k" if "k < l" for k
  proof -
    have "l - 1 - k < l" "l - 1 - k \<noteq> l" "l - 1 - k < 2 ^ 64" "k \<le> l - 1" using that l by linarith+
    then have "m' (at buf k) = digit_char (ds ! (l - 1 - k))"
      using m'[of k] m1(2) that l by (simp del: of_nat_diff)
    then show ?thesis using that by (simp add: decimal_def rev_nth ds_def l_def)
  qed
  moreover have "m' (at buf l) = 0" using m'[of l] l linorder_not_le[of l "l - 1"] by (simp del: fun_upd_apply) simp
  moreover have "decimal (unat n) ! k \<noteq> 0" if "k < l" for k
  proof -
    have "digits (unat n) ! (l - 1 - k) < 10" using digits_lt[OF nth_mem] that by (simp add: l_def ds_def)
    then have "digit_char (digits (unat n) ! (l - 1 - k)) \<noteq> 0"
      using of_nat_eq_iff_small[where 'a = 8, of "digits (unat n) ! (l - 1 - k) + 48" 0] by (simp add: digit_char_def)
    then show ?thesis using that by (simp add: decimal_def rev_nth l_def ds_def)
  qed
  moreover have "length (decimal (unat n)) = l" by (simp add: decimal_def l_def ds_def)
  ultimately have "cstr m' buf (decimal (unat n))" by (simp add: cstr_def)
  moreover have "itoa m buf n 10 = Some m'" by (simp add: itoa_def m1 m'_def)
  ultimately show ?thesis by blast
qed

lemma uint_of_nat_small:
  "n < 256 \<Longrightarrow> uint (of_nat n :: u8) = int n" "n < 2 ^ 32 \<Longrightarrow> uint (of_nat n :: u32) = int n"
  by (simp_all add: unsigned_of_nat take_bit_nat_eq_self)

lemma digit_value:
  assumes "d < 10"
  shows "(word_of_int (uint (digit_char d) - 48) :: u32) = of_nat d"
proof -
  have "uint (digit_char d) = int (d + 48)"
    using assms by (simp add: digit_char_def uint_of_nat_small del: of_nat_add)
  then show ?thesis by simp
qed

lemma atoi_loop_cstr:
  assumes "\<forall>d \<in> set ds. d < 10"
  shows "cstr m p (map digit_char ds) \<Longrightarrow> foldl (\<lambda>r d. 10 * r + d) r ds < 2 ^ 31 \<Longrightarrow>
    atoi_loop m p (int r) = Some (int (foldl (\<lambda>r d. 10 * r + d) r ds))"
  using assms
proof (induction ds arbitrary: p r)
  case Nil
  then show ?case by (subst atoi_loop.simps) simp
next
  case (Cons d ds)
  have mono: "r \<le> foldl (\<lambda>r d. 10 * r + d) r xs" for r :: nat and xs :: "nat list"
  proof (induction xs arbitrary: r)
    case (Cons a xs)
    from Cons[of "10 * r + a"] show ?case by simp
  qed simp
  have d: "d < 10" and step: "10 * r + d < 2 ^ 31" using Cons.prems mono[of "10 * r + d" ds] by auto
  have dv: "(word_of_int (uint (m p) - 48) :: u32) = of_nat d" using Cons.prems digit_value[OF d] by simp
  have "\<not> (of_nat d :: u32) > 9" "uint (of_nat d :: u32) = int d"
    using d by (simp_all add: word_less_nat_alt unsigned_of_nat take_bit_nat_eq_self)
  then have "atoi_loop m p (int r) = atoi_loop m (p + 1) (int (10 * r + d))"
    using step by (subst atoi_loop.simps, unfold dv Let_def) simp
  then show ?case using Cons.IH[of "p + 1" "10 * r + d"] Cons.prems by simp
qed

lemma atoi_decimal:
  assumes "cstr m p (decimal n)" "n < 2 ^ 31"
  shows "atoi m p = Some (int n)"
proof -
  have v: "foldl (\<lambda>r d. 10 * r + d) 0 (rev (digits n)) = n"
    using digits_value[of n] by (simp add: foldr_conv_foldl)
  have lt: "\<forall>d \<in> set (rev (digits n)). d < 10" using digits_lt by auto
  obtain d ds where ds: "rev (digits n) = d # ds" by (cases "rev (digits n)") auto
  have c: "cstr m p (map digit_char (rev (digits n)))" using assms(1) by (simp add: decimal_def rev_map)
  have loop: "atoi_loop m p 0 = Some (int n)"
    using atoi_loop_cstr[OF lt c, of 0] v assms(2) by simp
  have "d < 10" using lt ds by simp
  then have "uint (m p) = int (d + 48)"
    using c ds by (simp add: digit_char_def uint_of_nat_small del: of_nat_add)
  then have u: "uint (m p) = int d + 48" by simp
  then have "\<not> isspace (m p)" "m p \<noteq> 45" "m p \<noteq> 43" by (auto simp: isspace_def)
  then show ?thesis using loop by (simp add: atoi_def, subst skip_space.simps) simp
qed

section \<open>Tokens and hashes\<close>

lemma in_delims_cstr: "cstr m p ds \<Longrightarrow> in_delims m p c = Some (c \<in> set ds \<or> c = 0)"
proof (induction ds arbitrary: p)
  case (Cons d ds)
  then show ?case by (subst in_delims.simps) auto
qed (subst in_delims.simps, auto)

lemma strsep_loop_skip:
  assumes "cstr m delim ds"
  shows "cstr m s (tok @ xs) \<Longrightarrow> set tok \<inter> set ds = {} \<Longrightarrow> strsep_loop m delim s = strsep_loop m delim (at s (length tok))"
proof (induction tok arbitrary: s)
  case (Cons t tok)
  then have "strsep_loop m delim s = strsep_loop m delim (s + 1)"
    using in_delims_cstr[OF assms, of "m s"] by (subst strsep_loop.simps) auto
  then show ?case using Cons by (simp add: at_Suc del: of_nat_Suc)
qed simp

lemma strsep_cstr:
  assumes d: "cstr m delim ds" and s: "cstr m s (tok @ c # rest)" and t: "set tok \<inter> set ds = {}" and c: "c \<in> set ds"
  shows "strsep_loop m delim s = Some (m(at s (length tok) := 0), at s (length tok + 1))"
proof -
  have "m (at s (length tok)) = c" "c \<noteq> 0" using s by (auto simp: cstr_append)
  then have "strsep_loop m delim (at s (length tok)) = Some (m(at s (length tok) := 0), at s (length tok) + 1)"
    using in_delims_cstr[OF d, of c] c by (subst strsep_loop.simps) simp
  then show ?thesis using strsep_loop_skip[OF d s t] by (simp add: add.assoc add.commute)
qed

lemma strsep_last:
  assumes d: "cstr m delim ds" and s: "cstr m s tok" and t: "set tok \<inter> set ds = {}"
  shows "strsep_loop m delim s = Some (m, NULL)"
proof -
  have "m (at s (length tok)) = 0" using s by (simp add: cstr_def)
  then have "strsep_loop m delim (at s (length tok)) = Some (m, NULL)"
    using in_delims_cstr[OF d, of 0] by (subst strsep_loop.simps) simp
  then show ?thesis using strsep_loop_skip[OF d, of s tok "[]"] s t by simp
qed

lemma cstr_cut:
  assumes s: "cstr m s (tok @ c # rest)" and len: "length tok + length rest + 2 \<le> 2 ^ 64"
  shows "cstr (m(at s (length tok) := 0)) s tok" "cstr (m(at s (length tok) := 0)) (at s (length tok + 1)) rest"
proof -
  let ?n = "length tok"
  have a: "m (at s i) = tok ! i" "tok ! i \<noteq> 0" if "i < ?n" for i using s that by (auto simp: cstr_append)
  show "cstr (m(at s ?n := 0)) s tok" using a len by (auto simp: cstr_def)
  have e: "at s (?n + 1) = at s ?n + 1" by simp
  have r: "cstr m (at s (?n + 1)) rest" unfolding e using s by (simp add: cstr_append)
  have "at s (?n + 1 + i) \<noteq> at s ?n" if "i \<le> length rest" for i
  proof -
    have "?n + 1 + i < 2 ^ 64" "?n < 2 ^ 64" "?n + 1 + i \<noteq> ?n" using that len by linarith+
    then show ?thesis using at_inj[of "?n + 1 + i" ?n s] by blast
  qed
  then have "(m(at s ?n := 0)) (at (at s (?n + 1)) i) = m (at (at s (?n + 1)) i)" if "i \<le> length rest" for i
    using that by (simp add: add.assoc)
  then show "cstr (m(at s ?n := 0)) (at s (?n + 1)) rest" using r by (simp add: cstr_def)
qed

definition djb2 :: "u8 list \<Rightarrow> nat" where
  "djb2 xs = foldl (\<lambda>v c. 33 * v + unat c) 5381 xs"

lemma hash_loop_cstr: "cstr m p xs \<Longrightarrow> hash_loop m p v = Some (of_nat (foldl (\<lambda>v c. 33 * v + unat c) (unat v) xs))"
proof (induction xs arbitrary: p v)
  case Nil then show ?case by (subst hash_loop.simps) simp
next
  case (Cons c xs)
  have congr: "(of_nat (foldl (\<lambda>v c. 33 * v + unat c) a ys) :: u64) = of_nat (foldl (\<lambda>v c. 33 * v + unat c) b ys)"
    if "(of_nat a :: u64) = of_nat b" for a b and ys :: "u8 list"
    using that by (induction ys arbitrary: a b) auto
  have "push_bit 5 v + v + ucast c = (of_nat (33 * unat v + unat c) :: u64)"
    by (simp add: push_bit_eq_mult)
  then have "(of_nat (unat (push_bit 5 v + v + ucast c)) :: u64) = of_nat (33 * unat v + unat c)" by simp
  from congr[OF this] show ?case using Cons by (subst hash_loop.simps) simp
qed

section \<open>Properties of the string functions\<close>

text \<open>
  C11: on two strings \<^verbatim>\<open>strcmp\<close> returns, its result is zero exactly when the strings are
  equal and negative exactly when the first is smaller in lexicographic order.
\<close>

theorem strcmp_lexicographic:
  assumes "cstr m s1 xs" and "cstr m s2 ys"
  shows "\<exists>d. strcmp m s1 s2 = Some d \<and> (d = 0 \<longleftrightarrow> xs = ys) \<and> (d < 0 \<longleftrightarrow> (xs, ys) \<in> lexord {(a, b). a < b})"
  using assms by (rule strcmp_cstr)

definition demo_mem :: mem where
  "demo_mem = (\<lambda>_. 0)(0x100 := 97, 0x101 := 98, 0x102 := 97, 0x103 := 99, 0x200 := 97, 0x201 := 99)"

lemma demo_cstr: "cstr demo_mem 0x100 [97, 98, 97, 99]" "cstr demo_mem 0x200 [97, 99]"
  by (simp_all add: demo_mem_def)

theorem strcmp_lexicographic_witness: "\<exists>d < 0. strcmp demo_mem 0x100 0x200 = Some d"
  using strcmp_lexicographic[OF demo_cstr] by auto

text \<open>
  \<^verbatim>\<open>strcpy\<close> between ranges that do not overlap returns, leaves the string at the
  destination and writes no byte behind its terminator.
\<close>

theorem strcpy_copies:
  assumes "cstr m src xs" and "block dest (length xs + 1) \<inter> block src (length xs + 1) = {}"
    and "unat src + length xs < 2 ^ 64" and "unat dest + length xs < 2 ^ 64" and "length xs < 2 ^ 32"
  shows "\<exists>m'. strcpy m dest src = Some (m', dest) \<and> cstr m' dest xs \<and>
    (\<forall>x. x \<notin> block dest (length xs + 1) \<longrightarrow> m' x = m x)"
  using assms by (rule strcpy_cstr)

theorem strcpy_copies_witness:
  "\<exists>m'. strcpy demo_mem 0x300 0x100 = Some (m', 0x300) \<and> cstr m' 0x300 [97, 98, 97, 99]"
proof -
  have "block 0x300 (length [97, 98, 97, 99 :: u8] + 1) \<inter> block (0x100 :: addr) (length [97, 98, 97, 99 :: u8] + 1) = {}"
    by (auto simp: block_no_wrap)
  then show ?thesis using strcpy_copies[OF demo_cstr(1), where dest = "0x300"] by fastforce
qed

text \<open>
  C12: \<^verbatim>\<open>strstr\<close> returns the address of the first occurrence of the second string in the first,
  and 0 when there is none.
\<close>

theorem strstr_first_occurrence:
  assumes "cstr m inp xs" and "cstr m str ys" and "length ys \<le> 2 ^ 32"
  shows "(k \<le> length xs \<and> prefix ys (drop k xs) \<and> (\<forall>j < k. \<not> prefix ys (drop j xs)) \<longrightarrow> strstr m inp str = Some (at inp k)) \<and>
    ((\<forall>j \<le> length xs. \<not> prefix ys (drop j xs)) \<longrightarrow> strstr m inp str = Some NULL)"
proof (cases ys)
  case Nil
  then show ?thesis using assms(2) by (cases k) (auto simp: strstr_def)
next
  case (Cons c zs)
  then have c: "m str = c" "c \<noteq> 0" "cstr m (str + 1) zs" "length zs < 2 ^ 32" using assms(2,3) by auto
  have "strstr m inp str = Some (case find_sub ys xs of None \<Rightarrow> NULL | Some k \<Rightarrow> at inp k)"
    using strstr_loop_cstr[OF c(3,4,2) assms(1)] c strlen_cstr[OF c(3)] by (simp add: strstr_def Cons)
  then show ?thesis using find_sub_Some[of ys xs k] find_sub_None[of ys xs] by (auto split: option.splits)
qed

theorem strstr_first_occurrence_witness: "strstr demo_mem 0x100 0x200 = Some 0x102"
proof -
  have "prefix [97, 99] (drop 2 [97, 98, 97, 99 :: u8]) \<and> (\<forall>j < 2. \<not> prefix [97, 99] (drop j [97, 98, 97, 99 :: u8]))"
    by (simp add: numeral_2_eq_2 All_less_Suc2)
  then show ?thesis using strstr_first_occurrence[OF demo_cstr, where k = 2] by simp
qed

text \<open>
  C13: \<^verbatim>\<open>itoa\<close> in base 10 followed by \<^verbatim>\<open>atoi\<close> gives the number back, for every number
  that fits an \<^verbatim>\<open>int\<close>.
\<close>

theorem atoi_itoa:
  assumes "unat n < 2 ^ 31"
  shows "\<exists>m'. itoa m buf n 10 = Some m' \<and> atoi m' buf = Some (int (unat n))"
proof -
  obtain m' where "itoa m buf n 10 = Some m'" "cstr m' buf (decimal (unat n))"
    using itoa_writes_decimal[where n = n and m = m and buf = buf] assms by auto
  with atoi_decimal[OF this(2) assms] show ?thesis by blast
qed

theorem atoi_itoa_witness: "\<exists>m'. itoa demo_mem 0x400 1234 10 = Some m' \<and> atoi m' 0x400 = Some 1234"
  using atoi_itoa[where n = 1234 and m = demo_mem and buf = "0x400"] by simp

text \<open>
  \<^verbatim>\<open>strsep\<close> cuts a string at the first delimiter: it returns the token, ended by a zero
  byte, and leaves \<^verbatim>\<open>*stringp\<close> at the rest; without a delimiter it returns the whole string
  and sets \<^verbatim>\<open>*stringp\<close> to 0.
\<close>

theorem strsep_splits:
  assumes "cstr m delim ds" and "s \<noteq> NULL" and "set tok \<inter> set ds = {}"
  shows "(cstr m s tok \<longrightarrow> strsep m s delim = Some (m, s, NULL)) \<and>
    (cstr m s (tok @ c # rest) \<and> c \<in> set ds \<and> length tok + length rest + 2 \<le> 2 ^ 64 \<longrightarrow>
      (\<exists>m'. strsep m s delim = Some (m', s, at s (length tok + 1)) \<and> cstr m' s tok \<and> cstr m' (at s (length tok + 1)) rest))"
  using strsep_last[OF assms(1) _ assms(3)] strsep_cstr[OF assms(1) _ assms(3)] cstr_cut assms(2)
  by (auto simp: strsep_def simp del: of_nat_add)

theorem strsep_splits_witness:
  "\<exists>m'. strsep (demo_mem(0x500 := 98)) 0x100 0x500 = Some (m', 0x100, 0x102) \<and> cstr m' 0x100 [97] \<and> cstr m' 0x102 [97, 99]"
proof -
  have d: "cstr (demo_mem(0x500 := 98)) 0x500 [98]" and s: "cstr (demo_mem(0x500 := 98)) 0x100 ([97] @ 98 # [97, 99])"
    by (simp_all add: demo_mem_def)
  show ?thesis using strsep_splits[OF d, where s = "0x100" and tok = "[97]" and c = 98 and rest = "[97, 99]"] s by (auto simp: demo_mem_def)
qed

text \<open>
  the string hash is the 31-bit remainder of \<open>33 * v + c\<close> accumulated over the bytes from
  5381.
\<close>

theorem hash32_value:
  assumes "cstr m s xs"
  shows "hash32 m s = Some (of_nat (djb2 xs mod 2 ^ 31))"
proof -
  have "ucast (v AND 0x7FFFFFFF :: u64) = (of_nat (unat v mod 2 ^ 31) :: u32)" for v
  proof -
    have "(v AND 0x7FFFFFFF :: u64) = take_bit 31 v" by (simp add: take_bit_eq_mask mask_eq_exp_minus_1)
    moreover have "ucast (take_bit 31 v) = (of_nat (unat (take_bit 31 v)) :: u32)" by simp
    moreover have "unat (take_bit 31 v) = unat v mod 2 ^ 31" 
      unfolding unsigned_take_bit_eq by (rule take_bit_eq_mod)
    ultimately show ?thesis by simp
  qed
  moreover have "unat (of_nat k :: u64) mod 2 ^ 31 = k mod 2 ^ 31" for k
    by (simp add: unsigned_of_nat take_bit_eq_mod mod_mod_cancel)
  ultimately show ?thesis using hash_loop_cstr[OF assms, of 5381] by (simp add: hash32_def djb2_def)
qed

theorem hash32_value_witness: "hash32 demo_mem 0x200 = Some 5863209"
  using hash32_value[OF demo_cstr(2)] by (simp add: djb2_def)

end
