(* ===== verification/Vfs.thy ===== *)
theory Vfs
  imports Ext2 Cstring
begin

unbundle bit_operations_syntax

text \<open>
  The tree of directories that the kernel builds from an ext2 partition when it mounts it (\<^verbatim>\<open>populate_fs\<close> and
  \<^verbatim>\<open>populate_recur\<close> of \<^verbatim>\<open>fs/ext2/ext2.c\<close>), and how a path is resolved in it (\<^verbatim>\<open>traverse_fs\<close> of
  \<^verbatim>\<open>fs/ext2/file.c\<close> with \<^verbatim>\<open>str_split\<close> of \<^verbatim>\<open>stdlib/string.c\<close>).

  Strings and buffers are lists of bytes, a buffer with the size it is allocated with. Allocations succeed; \<open>M n\<close> is
  what \<open>n\<close> bytes of newly allocated memory hold: \<^verbatim>\<open>alloc\<close> clears nothing, and the code does not always overwrite it. When the
  tree is read, many objects are allocated: \<open>M k\<close> is what those of number \<open>k\<close> find. The entries of a subdirectory are numbered by
  \<open>inner\<close> and the entries behind an entry by \<open>later\<close>, so that no two of them share a number. A byte behind the end of
  a buffer is the fault \<open>OutOfBounds\<close>. Reading the directories does not end for every disk, so it is a partial
  function, \<open>None\<close> is the call that does not return.
\<close>

definition inner :: "(nat \<Rightarrow> 'a) \<Rightarrow> nat \<Rightarrow> 'a" where "inner M k = M (2 * k + 2)"
definition later :: "(nat \<Rightarrow> 'a) \<Rightarrow> nat \<Rightarrow> 'a" where "later M k = M (2 * k + 3)"

section \<open>Splitting a path\<close>

text \<open>The bytes of a buffer up to the terminator.\<close>

definition cstr_of :: "u8 list \<Rightarrow> u8 list result" where
  "cstr_of buf = (if 0 \<in> set buf then Inr (takeWhile (\<lambda>c. c \<noteq> 0) buf) else Inl OutOfBounds)"

text \<open>What \<^verbatim>\<open>strncpy\<close> writes: at most \<open>n\<close> bytes of the string in \<open>src\<close>, then zeros up to \<open>n\<close>.\<close>

definition strncpy_bytes :: "nat \<Rightarrow> u8 list \<Rightarrow> u8 list" where
  "strncpy_bytes n src = (let s = takeWhile (\<lambda>c. c \<noteq> 0) (take n src) in s @ replicate (n - length s) 0)"

text \<open>The end of the string without the delimiters behind it; a string of delimiters only is read before its start.\<close>

fun trim_end :: "u8 list \<Rightarrow> u8 \<Rightarrow> nat \<Rightarrow> nat result" where
  "trim_end str delim 0 = Inl OutOfBounds"
| "trim_end str delim (Suc end_off) = (if str ! end_off = delim then trim_end str delim end_off else Inr (Suc end_off))"

text \<open>Runs of delimiters are reduced to one by moving the rest of the string down.\<close>

fun collapse_runs :: "u8 \<Rightarrow> u8 list \<Rightarrow> u8 list" where
  "collapse_runs delim [] = []"
| "collapse_runs delim [c] = [c]"
| "collapse_runs delim (c # c' # cs) =
     (if c = delim \<and> c' = delim then collapse_runs delim (c' # cs) else c # collapse_runs delim (c' # cs))"

text \<open>The last loop: \<open>start\<close> is the token up to the current character.\<close>

fun tokens :: "u8 \<Rightarrow> u8 list \<Rightarrow> u8 list \<Rightarrow> u8 list list" where
  "tokens delim start [] = [start]"
| "tokens delim start (c # cs) = (if c = delim then start # tokens delim [] cs else tokens delim (start @ [c]) cs)"

text \<open>One byte more than the trimmed string is copied, and the buffer has one byte more than that.\<close>

definition str_split :: "(nat \<Rightarrow> u8 list) \<Rightarrow> u8 list \<Rightarrow> u8 \<Rightarrow> u8 list list result" where
  "str_split M str delim =
     (let start_off = length (takeWhile (\<lambda>c. c = delim) str)
      in bindR (trim_end str delim (length str))
           (\<lambda>end_off. let n = end_off - start_off + 1;
                          host_str = overwrite 0 (strncpy_bytes n (drop start_off (str @ [0]))) (M (n + 1))
                      in bindR (cstr_of host_str) (\<lambda>s. Inr (tokens delim [] (collapse_runs delim s)))))"

section \<open>The tree\<close>

text \<open>\<^verbatim>\<open>hash32\<close> of a string given as its bytes.\<close>

definition hash_bytes :: "u8 list \<Rightarrow> u32" where
  "hash_bytes xs = ucast (fold (\<lambda>c val. push_bit 5 val + val + ucast c) xs (5381 :: u64) AND 0x7FFFFFFF)"

text \<open>\<open>f_rest\<close> are the last 16 bytes, the members \<^verbatim>\<open>file_buffer\<close>, \<^verbatim>\<open>cur_offset\<close> and \<^verbatim>\<open>refcount\<close>.\<close>

record FILE =
  f_name :: "u8 list"
  f_hash :: u32
  f_inode :: u32
  f_size :: u32
  f_create_time :: u32
  f_access_time :: u32
  f_modify_time :: u32
  f_flags :: u32
  f_nlink :: u32
  f_rest :: "u8 list"

text \<open>\<^verbatim>\<open>fs_tree\<close>, and the union \<^verbatim>\<open>fs_entry\<close> behind a pointer that may be NULL. The array \<^verbatim>\<open>type\<close> tells which member of the
  union was written.\<close>

datatype fs_tree = Fs_Tree (t_name: "u8 list") (t_hash: u32) (t_inode: u32) (t_type: "u8 list") (t_entries: "fs_entry list")
  and fs_entry = NoEntry | FileEntry FILE | DirEntry fs_tree

definition FS_FILE :: u8 where "FS_FILE = 0x01"
definition FS_DIR :: u8 where "FS_DIR = 0x02"
definition E_BADPATH :: int where "E_BADPATH = 0x0307"

section \<open>Reading a directory\<close>

record dirent =
  d_inode :: u32
  d_size :: u16
  d_type :: u8
  d_name :: "u8 list"

definition dirent_type :: "u8 list \<Rightarrow> u32 \<Rightarrow> u8 result" where
  "dirent_type raw off = (if unat off + 8 \<le> length raw then Inr (raw ! (unat off + 7)) else Inl OutOfBounds)"

text \<open>The name stands where the structure has its last member.\<close>

definition dirent_at :: "u8 list \<Rightarrow> u32 \<Rightarrow> dirent result" where
  "dirent_at raw off =
     (let o' = unat off; name_len = unat (raw ! (o' + 6))
      in if o' + 8 + name_len \<le> length raw
         then Inr \<lparr>d_inode = le_word (slice o' 4 raw), d_size = le_word (slice (o' + 4) 2 raw), d_type = raw ! (o' + 7),
                   d_name = slice (o' + 8) name_len raw\<rparr>
         else Inl OutOfBounds)"

text \<open>The blocks of a directory: one more than its sectors fill, at most twelve are read.\<close>

definition load_dir :: "(nat \<Rightarrow> u8 list) \<Rightarrow> ext2 \<Rightarrow> inode_base \<Rightarrow> u8 list result" where
  "load_dir M fs cur_inode =
     (let n_blocks = n_sectors cur_inode div 8 + 1
      in fold (\<lambda>i r. bindR r (\<lambda>raw. bindR (block_ptr cur_inode i)
                (\<lambda>b. if unat (block_size fs) * i + 4096 \<le> length raw
                     then Inr (overwrite (unat (block_size fs) * i) (read_disk_block fs b) raw) else Inl OutOfBounds)))
           [0..<min (unat n_blocks) 12] (Inr (M (unat (block_size fs * n_blocks)))))"

definition dir_raw :: "(nat \<Rightarrow> u8 list) \<Rightarrow> ext2 \<Rightarrow> u32 \<Rightarrow> u8 list result" where
  "dir_raw M fs inode = bindR (read_inode_metadata inode (inode_of_bytes (M 128)) fs) (load_dir M fs)"

text \<open>A file: its name is copied without a terminator into the 256 bytes of a new \<^verbatim>\<open>FILE\<close> (of 312 bytes), and the members for
  an open file keep what the memory held.\<close>

definition make_file :: "(nat \<Rightarrow> u8 list) \<Rightarrow> ext2 \<Rightarrow> dirent \<Rightarrow> inode_base \<Rightarrow> (FILE \<times> inode_base) result" where
  "make_file M fs d entry_inode =
     (let name = overwrite 0 (strncpy_bytes (length (d_name d)) (d_name d)) (take 256 (M 312))
      in bindR (cstr_of name)
           (\<lambda>s. bindR (read_inode_metadata (d_inode d) entry_inode fs)
           (\<lambda>i. Inr (\<lparr>f_name = name, f_hash = hash_bytes s, f_inode = d_inode d, f_size = size_lower i,
                      f_create_time = creation_time i, f_access_time = last_access_time i, f_modify_time = last_mod_time i,
                      f_flags = 0, f_nlink = ucast (n_hard_links i), f_rest = drop 296 (M 312)\<rparr>, i))))"

text \<open>A directory: the memory of its name is cleared first.\<close>

definition make_dir :: "dirent \<Rightarrow> u8 list \<Rightarrow> fs_entry list \<Rightarrow> fs_tree" where
  "make_dir d ts es =
     (let s = takeWhile (\<lambda>c. c \<noteq> 0) (d_name d) in Fs_Tree s (hash_bytes s) (d_inode d) ts es)"

text \<open>Both comparisons look at one character.\<close>

definition hidden :: "dirent \<Rightarrow> bool" where
  "hidden d \<longleftrightarrow> d_name d \<noteq> [] \<and> hd (d_name d) = of_char (CHR ''.'')"

partial_function (option) read_dir ::
  "(nat \<Rightarrow> nat \<Rightarrow> u8 list) \<Rightarrow> ext2 \<Rightarrow> u8 list \<Rightarrow> u32 \<Rightarrow> inode_base \<Rightarrow> u8 list \<Rightarrow> fs_entry list \<Rightarrow> (u8 list \<times> fs_entry list) result option" where
  "read_dir M fs raw off entry_inode ts es =
     (case dirent_type raw off of
        Inl e \<Rightarrow> Some (Inl e)
      | Inr ty \<Rightarrow>
          if ty = 0 then Some (Inr (ts, es))
          else
            (case dirent_at raw off of
               Inl e \<Rightarrow> Some (Inl e)
             | Inr d \<Rightarrow>
                 if ty = FS_FILE then
                   (case make_file (M 0) fs d entry_inode of
                      Inl e \<Rightarrow> Some (Inl e)
                    | Inr p \<Rightarrow> read_dir (later M) fs raw (off + ucast (d_size d)) (snd p) (ts @ [ty]) (es @ [FileEntry (fst p)]))
                 else if ty = FS_DIR then
                   (if hidden d then read_dir (later M) fs raw (off + ucast (d_size d)) entry_inode (ts @ [ty]) (es @ [DirEntry (make_dir d [] [])])
                    else
                      (case dir_raw (M 0) fs (d_inode d) of
                         Inl e \<Rightarrow> Some (Inl e)
                       | Inr raw' \<Rightarrow>
                           Option.bind (read_dir (inner M) fs raw' 0 (inode_of_bytes (M 1 128)) [] [])
                             (\<lambda>r. case r of
                                Inl e \<Rightarrow> Some (Inl e)
                              | Inr p \<Rightarrow> read_dir (later M) fs raw (off + ucast (d_size d)) entry_inode (ts @ [ty])
                                           (es @ [DirEntry (make_dir d (fst p) (snd p))]))))
                 else read_dir (later M) fs raw (off + ucast (d_size d)) entry_inode (ts @ [ty]) (es @ [NoEntry])))"

definition populate_recur :: "(nat \<Rightarrow> nat \<Rightarrow> u8 list) \<Rightarrow> ext2 \<Rightarrow> fs_tree \<Rightarrow> fs_tree result option" where
  "populate_recur M fs start =
     (case dir_raw (M 0) fs (t_inode start) of
        Inl e \<Rightarrow> Some (Inl e)
      | Inr raw \<Rightarrow>
          map_option (\<lambda>r. bindR r (\<lambda>(ts, es). Inr (Fs_Tree (t_name start) (t_hash start) (t_inode start) ts es)))
            (read_dir (inner M) fs raw 0 (inode_of_bytes (M 1 128)) (t_type start) (t_entries start)))"

definition get_ext2_root :: "(nat \<Rightarrow> u8 list) \<Rightarrow> fs_tree result" where
  "get_ext2_root M = bindR (cstr_of (overwrite 0 [of_char (CHR ''/'')] (M 2))) (\<lambda>s. Inr (Fs_Tree s (hash_bytes s) 2 [] []))"

definition populate_fs :: "(nat \<Rightarrow> nat \<Rightarrow> u8 list) \<Rightarrow> ext2 \<Rightarrow> fs_tree result option" where
  "populate_fs M fs =
     (case bindR (read_inode_metadata 2 (inode_of_bytes (M 0 128)) fs) (\<lambda>_. get_ext2_root (M 0)) of
        Inl e \<Rightarrow> Some (Inl e)
      | Inr root \<Rightarrow> populate_recur (later M) fs root)"

section \<open>Resolving a path\<close>

text \<open>A file read as a directory: the hash stands where the name has its bytes 8 to 11.\<close>

definition hash_as_dir :: "FILE \<Rightarrow> u32" where
  "hash_as_dir f = le_word (slice 8 4 (f_name f))"

text \<open>The search for a directory takes every entry for one.\<close>

fun find_dir :: "u32 \<Rightarrow> fs_entry list \<Rightarrow> fs_entry option result" where
  "find_dir h [] = Inr None"
| "find_dir h (NoEntry # es) = Inl NullDeref"
| "find_dir h (FileEntry f # es) = (if hash_as_dir f = h then Inr (Some (FileEntry f)) else find_dir h es)"
| "find_dir h (DirEntry t # es) = (if t_hash t = h then Inr (Some (DirEntry t)) else find_dir h es)"

text \<open>The loop over the components but the last. When a component is not found the head stays where it is. \<open>None\<close> is the
  exit with \<^verbatim>\<open>E_BADPATH\<close>; going on in a file as if it were a directory is a fault.\<close>

fun walk :: "u8 list list \<Rightarrow> fs_tree \<Rightarrow> bool \<Rightarrow> (fs_tree \<times> bool) option result" where
  "walk [] head found = Inr (Some (head, found))"
| "walk (t # path) head found =
     (if length (t_entries head) < 2 then Inr None
      else bindR (find_dir (hash_bytes t) (t_entries head))
        (\<lambda>r. case r of
           None \<Rightarrow> walk path head False
         | Some (DirEntry d) \<Rightarrow> walk path d True
         | Some _ \<Rightarrow> Inl OutOfBounds))"

text \<open>The search for the last component: the result code, and the entry when one was assigned.\<close>

fun find_last :: "u32 \<Rightarrow> u8 list \<Rightarrow> fs_entry list \<Rightarrow> (int \<times> (fs_entry \<times> u8) option) result" where
  "find_last h (ty # ts) (e # es) =
     (if ty = FS_FILE then
        (case e of
           FileEntry f \<Rightarrow> if f_hash f = h then Inr (E_NOERR, Some (e, ty)) else find_last h ts es
         | DirEntry _ \<Rightarrow> Inl OutOfBounds
         | NoEntry \<Rightarrow> Inl NullDeref)
      else if ty = FS_DIR then
        (case e of
           DirEntry t \<Rightarrow> if t_hash t = h then Inr (E_NOERR, Some (e, ty)) else find_last h ts es
         | FileEntry f \<Rightarrow> if hash_as_dir f = h then Inr (E_NOERR, Some (e, ty)) else find_last h ts es
         | NoEntry \<Rightarrow> Inl NullDeref)
      else Inr (E_BADPATH, None))"
| "find_last h ts es = Inr (E_NOERR, None)"

record entry_info =
  ei_entry :: fs_entry
  ei_type :: u8
  ei_ret :: int

text \<open>\<open>uninit\<close> is what the local variable \<^verbatim>\<open>entry_return\<close> holds before it is assigned. The end of \<^verbatim>\<open>traverse_fs\<close>, behind
  the loop over the directories.\<close>

definition search_last :: "entry_info \<Rightarrow> u8 list list \<Rightarrow> (fs_tree \<times> bool) option \<Rightarrow> entry_info result" where
  "search_last uninit path_list w =
     (case w of
        None \<Rightarrow> Inr (uninit\<lparr>ei_ret := E_BADPATH\<rparr>)
      | Some (head, found) \<Rightarrow>
          if \<not> found \<and> length path_list \<noteq> 1 then Inr (uninit\<lparr>ei_ret := E_BADPATH\<rparr>)
          else bindR (find_last (hash_bytes (last path_list)) (t_type head) (t_entries head))
            (\<lambda>(ret, r). case r of
               None \<Rightarrow> Inr (uninit\<lparr>ei_ret := ret\<rparr>)
             | Some (e, ty) \<Rightarrow> Inr \<lparr>ei_entry = e, ei_type = ty, ei_ret = ret\<rparr>))"

definition traverse_fs :: "(nat \<Rightarrow> u8 list) \<Rightarrow> entry_info \<Rightarrow> fs_tree \<Rightarrow> u8 list \<Rightarrow> u8 list \<Rightarrow> entry_info result" where
  "traverse_fs M uninit root pwd path =
     (let use_path = (if path \<noteq> [] \<and> hd path = of_char (CHR ''/'') then path else pwd @ path)
      in bindR (str_split M use_path (of_char (CHR ''/'')))
        (\<lambda>path_list. bindR (walk (butlast path_list) root False) (search_last uninit path_list)))"

end
