(* ===== verification/File_Ops.thy ===== *)
theory File_Ops
  imports Vfs
begin

unbundle bit_operations_syntax

text \<open>
  Open files: \<^verbatim>\<open>fs/ext2/file.c\<close> (\<^verbatim>\<open>f_open\<close>, \<^verbatim>\<open>f_read\<close>, \<^verbatim>\<open>f_write\<close>, \<^verbatim>\<open>f_close\<close>, \<^verbatim>\<open>f_gets\<close>, \<^verbatim>\<open>f_putc\<close>) over \<^verbatim>\<open>ext2_open\<close> and
  \<^verbatim>\<open>ext2_close\<close> of \<^verbatim>\<open>fs/ext2/ext2.c\<close>.

  The members of \<^verbatim>\<open>FILE\<close> that mounting leaves alone are the record \<open>open_file\<close>; they hold what the memory of the object
  held, \<open>fresh_handle\<close>. A buffer that was released keeps its pointer, and one that was never assigned is \<open>Wild\<close>;
  reading either of them or releasing it is the fault \<open>OutOfBounds\<close>. \<^verbatim>\<open>f_read\<close> has no variable \<^verbatim>\<open>ret\<close> of its own: it adds to
  the offset, and returns, the global error code of \<^verbatim>\<open>malloc.c\<close>, which is the argument \<open>gret\<close>.
\<close>

section \<open>Opening and closing\<close>

datatype buffer = No_buffer | Buffer "u8 list" | Released | Wild

record open_file =
  file_buffer :: buffer
  cur_offset :: u32
  refcount :: int

definition fresh_handle :: "FILE \<Rightarrow> open_file" where
  "fresh_handle f =
     \<lparr>file_buffer = (if le_word (slice 0 8 (f_rest f)) = (0 :: u64) then No_buffer else Wild),
      cur_offset = le_word (slice 8 4 (f_rest f)), refcount = sint (le_word (slice 12 4 (f_rest f)) :: u32)\<rparr>"

definition file_get_size :: "(nat \<Rightarrow> u8 list) \<Rightarrow> ext2 \<Rightarrow> FILE option \<Rightarrow> u32 result" where
  "file_get_size M fs f =
     (case f of None \<Rightarrow> Inr 0 | Some f \<Rightarrow> ext2_get_file_size (f_inode f) (inode_of_bytes (M 128)) fs)"

text \<open>The buffer has the size that the file had when the disk was mounted; what is read is as long as the file is now.\<close>

definition ext2_open :: "(nat \<Rightarrow> u8 list) \<Rightarrow> ext2 \<Rightarrow> FILE \<Rightarrow> open_file \<Rightarrow> open_file result" where
  "ext2_open M fs f h =
     (if file_buffer h \<noteq> No_buffer then Inr h
      else bindR (ext2_read (f_inode f) 0 (f_size f) (inode_of_bytes (M 128)) fs)
        (\<lambda>(_, out). if length out \<le> unat (f_size f)
           then Inr (h\<lparr>file_buffer := Buffer (overwrite 0 out (M (unat (f_size f))))\<rparr>) else Inl OutOfBounds))"

definition ext2_close :: "open_file \<Rightarrow> open_file result" where
  "ext2_close h =
     (case file_buffer h of
        No_buffer \<Rightarrow> Inr h
      | Buffer _ \<Rightarrow> Inr (h\<lparr>file_buffer := Released\<rparr>)
      | _ \<Rightarrow> Inl OutOfBounds)"

definition fs_open :: "(nat \<Rightarrow> u8 list) \<Rightarrow> ext2 \<Rightarrow> FILE \<Rightarrow> open_file \<Rightarrow> open_file result" where
  "fs_open M fs f h =
     (let h = (if refcount h \<ge> 0 then h\<lparr>refcount := int32 (refcount h + 1)\<rparr> else h)
      in ext2_open M fs f (h\<lparr>cur_offset := 0\<rparr>))"

definition f_close :: "open_file \<Rightarrow> open_file result" where
  "f_close h =
     (if refcount h = - 1 then Inr h
      else let h = h\<lparr>refcount := int32 (refcount h - 1)\<rparr> in if refcount h = 0 then ext2_close h else Inr h)"

text \<open>\<open>mem f\<close> is what the object of the file holds. The result code of \<^verbatim>\<open>traverse_fs\<close> is not looked at.\<close>

definition f_open ::
  "(nat \<Rightarrow> u8 list) \<Rightarrow> ext2 \<Rightarrow> entry_info \<Rightarrow> fs_tree \<Rightarrow> u8 list \<Rightarrow> (FILE \<Rightarrow> open_file) \<Rightarrow> u8 list \<Rightarrow> (FILE \<times> open_file) option result" where
  "f_open M fs uninit root pwd mem name =
     bindR (traverse_fs M uninit root pwd name)
       (\<lambda>entry. if ei_type entry \<noteq> FS_FILE then Inr None
          else (case ei_entry entry of
                  FileEntry f \<Rightarrow> bindR (fs_open M fs f (mem f)) (\<lambda>h. Inr (Some (f, h)))
                | DirEntry d \<Rightarrow> Inl OutOfBounds
                | NoEntry \<Rightarrow> Inl NullDeref))"

section \<open>Reading and writing\<close>

definition live_bytes :: "open_file \<Rightarrow> nat \<Rightarrow> nat \<Rightarrow> u8 list result" where
  "live_bytes h a n =
     (case file_buffer h of
        Buffer b \<Rightarrow> if a + n \<le> length b then Inr (slice a n b) else Inl OutOfBounds
      | _ \<Rightarrow> Inl OutOfBounds)"

text \<open>The value returned, the bytes stored in the buffer of the caller, and the file. The sum of size and offset wraps. The
  offset is read before the file is opened.\<close>

definition f_read :: "(nat \<Rightarrow> u8 list) \<Rightarrow> ext2 \<Rightarrow> u32 \<Rightarrow> FILE \<Rightarrow> u32 \<Rightarrow> open_file \<Rightarrow> (u32 \<times> u8 list \<times> open_file) result" where
  "f_read M fs gret f n h =
     (let offset = cur_offset h
      in if n + offset > f_size f then Inr (- 1, [], h)
         else bindR (if file_buffer h = No_buffer then fs_open M fs f h else Inr h)
           (\<lambda>h. bindR (live_bytes h (unat offset) (unat n))
             (\<lambda>out. Inr (gret, out, h\<lparr>cur_offset := cur_offset h + gret\<rparr>))))"

text \<open>The buffer and the size in \<^verbatim>\<open>FILE\<close> are not changed.\<close>

definition f_write :: "(nat \<Rightarrow> u8 list) \<Rightarrow> ext2 \<Rightarrow> FILE \<Rightarrow> u8 list \<Rightarrow> open_file \<Rightarrow> (u32 \<times> open_file \<times> ext2) result" where
  "f_write M fs f data h =
     bindR (ext2_write (f_inode f) (cur_offset h) data (inode_of_bytes (M 128)) fs)
       (\<lambda>(r, fs). Inr (r, h\<lparr>cur_offset := cur_offset h + r\<rparr>, fs))"

definition f_putc :: "(nat \<Rightarrow> u8 list) \<Rightarrow> ext2 \<Rightarrow> FILE \<Rightarrow> u8 \<Rightarrow> open_file \<Rightarrow> (int \<times> open_file \<times> ext2) result" where
  "f_putc M fs f c h = bindR (f_write M fs f [c] h) (\<lambda>(r, h, fs). Inr (sint r, h, fs))"

section \<open>Reading a line\<close>

text \<open>\<^verbatim>\<open>strncpy(s, fp->file_buffer + off, 4)\<close>: it reads up to a terminator.\<close>

definition four_bytes :: "open_file \<Rightarrow> u32 \<Rightarrow> u8 list result" where
  "four_bytes h off =
     (case file_buffer h of
        Buffer b \<Rightarrow>
          if unat off + 4 \<le> length b \<or> 0 \<in> set (take 4 (drop (unat off) b)) then Inr (strncpy_bytes 4 (drop (unat off) b))
          else Inl OutOfBounds
      | No_buffer \<Rightarrow> Inl NullDeref
      | _ \<Rightarrow> Inl OutOfBounds)"

text \<open>The lead byte of a sequence: the number of bytes behind it, 0 for none, and its bits.\<close>

definition lead_byte :: "u32 \<Rightarrow> u32 \<times> u32" where
  "lead_byte dc =
     (let (dc, ct) = (if dc AND 0xE0 = 0xC0 then (dc AND 0x1F, 1) else (dc, 0));
          (dc, ct) = (if dc AND 0xF0 = 0xE0 then (dc AND 0x0F, 2) else (dc, ct));
          (dc, ct) = (if dc AND 0xF8 = 0xF0 then (dc AND 0x07, 3) else (dc, ct))
      in (dc, ct))"

text \<open>The number of bytes behind the lead byte that continue the sequence.\<close>

fun merge_bytes :: "u8 list \<Rightarrow> u32 \<Rightarrow> u32" where
  "merge_bytes [] rc = rc"
| "merge_bytes (c # cs) rc = (if c AND 0xC0 \<noteq> 0x80 then rc else merge_bytes cs (rc + 1))"

text \<open>The first loop of \<^verbatim>\<open>f_gets\<close>: nothing is stored, and the character that is decoded is not used. It ends when \<open>rc\<close> is
  not 1 at the next character.\<close>

partial_function (option) gets_skip ::
  "(nat \<Rightarrow> u8 list) \<Rightarrow> ext2 \<Rightarrow> u32 \<Rightarrow> FILE \<Rightarrow> u32 \<Rightarrow> u32 \<Rightarrow> open_file \<Rightarrow> open_file result option" where
  "gets_skip M fs gret f off rc h =
     (case four_bytes h off of
        Inl e \<Rightarrow> Some (Inl e)
      | Inr s \<Rightarrow>
          if rc \<noteq> 1 then Some (Inr h)
          else if hd s < 0x80 \<or> snd (lead_byte (ucast (hd s))) = 0 then gets_skip M fs gret f (off + 4) rc h
          else
            (case f_read M fs gret f (snd (lead_byte (ucast (hd s)))) h of
               Inl e \<Rightarrow> Some (Inl e)
             | Inr r \<Rightarrow>
                 if fst r \<noteq> snd (lead_byte (ucast (hd s))) then Some (Inr (snd (snd r)))
                 else gets_skip M fs gret f (off + 4)
                   (merge_bytes (take (unat (fst r)) (overwrite 0 (fst (snd r)) s)) 0) (snd (snd r))))"

text \<open>The second loop: \<open>n\<close> characters are still to be stored, \<open>out\<close> are those stored.\<close>

partial_function (option) gets_copy ::
  "(nat \<Rightarrow> u8 list) \<Rightarrow> ext2 \<Rightarrow> u32 \<Rightarrow> FILE \<Rightarrow> nat \<Rightarrow> u8 list \<Rightarrow> open_file \<Rightarrow> (u8 list \<times> open_file) result option" where
  "gets_copy M fs gret f n out h =
     (if n = 0 then Some (Inr (out, h))
      else
        (case f_read M fs gret f 1 h of
           Inl e \<Rightarrow> Some (Inl e)
         | Inr r \<Rightarrow>
             if fst r \<noteq> 1 then Some (Inr (out, snd (snd r)))
             else if hd (fst (snd r)) = 13 then gets_copy M fs gret f n out (snd (snd r))
             else if hd (fst (snd r)) = 10 then Some (Inr (out @ [10], snd (snd r)))
             else gets_copy M fs gret f (n - 1) (out @ [hd (fst (snd r))]) (snd (snd r))))"

text \<open>The result is \<open>None\<close> for a null pointer, when no character was stored.\<close>

definition f_gets ::
  "(nat \<Rightarrow> u8 list) \<Rightarrow> ext2 \<Rightarrow> u32 \<Rightarrow> FILE \<Rightarrow> int \<Rightarrow> open_file \<Rightarrow> (u8 list option \<times> open_file) result option" where
  "f_gets M fs gret f len h =
     (case (if 0 < len then gets_skip M fs gret f 0 1 h else Some (Inr h)) of
        None \<Rightarrow> None
      | Some (Inl e) \<Rightarrow> Some (Inl e)
      | Some (Inr h) \<Rightarrow>
          map_option (\<lambda>r. bindR r (\<lambda>(out, h). Inr (if out = [] then None else Some (out @ [0]), h)))
            (gets_copy M fs gret f (nat (len - 1)) [] h))"

end
