(* ===== verification/Line_Edit.thy ===== *)
theory Line_Edit
  imports Prelude
begin

text \<open>
  The input of a line over the serial line: the same loop stands in \<^verbatim>\<open>shell\<close> of \<^verbatim>\<open>stdlib/shell.c\<close> and in \<^verbatim>\<open>get_events\<close> of
  \<^verbatim>\<open>perf/perf.c\<close>. The characters go into an array of 4096 bytes without a test of the index. The locale \<open>line_input\<close>
  states what a line buffer promises to its clients; it is interpreted on the code's operations.
\<close>

section \<open>The buffer\<close>

record line_buffer =
  lb_buf :: "u8 list"
  lb_len :: u32

definition empty_line :: line_buffer where
  "empty_line = \<lparr>lb_buf = replicate 4096 0, lb_len = 0\<rparr>"

text \<open>Backspace and delete, newline and carriage return.\<close>

definition erases :: "u8 \<Rightarrow> bool" where
  "erases ch \<longleftrightarrow> ch = 0x8 \<or> ch = 0x7f"

definition ends_line :: "u8 \<Rightarrow> bool" where
  "ends_line ch \<longleftrightarrow> ch = 0xa \<or> ch = 0xd"

text \<open>The cases of the switch that stay in the line.\<close>

definition put_key :: "u8 \<Rightarrow> line_buffer \<Rightarrow> line_buffer result" where
  "put_key ch b =
     (if erases ch then
        (if lb_len b > 0 then Inr \<lparr>lb_buf = (lb_buf b)[unat (lb_len b - 1) := 0], lb_len = lb_len b - 1\<rparr> else Inr b)
      else if unat (lb_len b) < length (lb_buf b)
        then Inr \<lparr>lb_buf = (lb_buf b)[unat (lb_len b) := ch], lb_len = lb_len b + 1\<rparr>
      else Inl OutOfBounds)"

section \<open>The interface\<close>

text \<open>The line that keys leave: the buffer shows it (\<open>shows\<close>), and holds at most \<open>room\<close> characters.\<close>

definition type_key :: "u8 \<Rightarrow> u8 list \<Rightarrow> u8 list" where
  "type_key ch l = (if erases ch then butlast l else l @ [ch])"

locale line_input =
  fixes shows' :: "'b \<Rightarrow> u8 list" and start :: 'b and put :: "u8 \<Rightarrow> 'b \<Rightarrow> 'b result" and valid :: "'b \<Rightarrow> bool" and room :: nat
  assumes start_valid: "valid start" "shows' start = []"
    and put_valid: "valid b \<Longrightarrow> put ch b = Inr b' \<Longrightarrow> valid b' \<and> shows' b' = type_key ch (shows' b)"
    and put_returns: "valid b \<Longrightarrow> (\<exists>b'. put ch b = Inr b') \<longleftrightarrow> erases ch \<or> length (shows' b) < room"
    and put_faults: "valid b \<Longrightarrow> put ch b = Inl e \<Longrightarrow> e = OutOfBounds"
begin

lemma put_room:
  assumes "valid b" "erases ch \<or> length (shows' b) < room"
  obtains b' where "put ch b = Inr b'" "valid b'" "shows' b' = type_key ch (shows' b)"
  using put_returns[OF assms(1), of ch] put_valid[OF assms(1), of ch] assms(2) by blast

lemma put_full: "valid b \<Longrightarrow> \<not> erases ch \<Longrightarrow> room \<le> length (shows' b) \<Longrightarrow> put ch b = Inl OutOfBounds"
  using put_returns[of b ch] put_faults[of b ch] by (cases "put ch b") auto

text \<open>A line that is typed in full.\<close>

lemma typed_line:
  "valid b \<Longrightarrow> \<forall>ch\<in>set ks. \<not> erases ch \<Longrightarrow> length (shows' b) + length ks \<le> room \<Longrightarrow>
    \<exists>b'. fold (\<lambda>ch r. bindR r (put ch)) ks (Inr b) = Inr b' \<and> valid b' \<and> shows' b' = shows' b @ ks"
proof (induction ks arbitrary: b)
  case (Cons ch ks)
  obtain b' where b': "put ch b = Inr b'" "valid b'" "shows' b' = type_key ch (shows' b)"
    using put_room[of b ch] Cons.prems by auto
  then show ?case using Cons.IH[of b'] Cons.prems by (auto simp: type_key_def)
qed simp

end

definition line_of :: "line_buffer \<Rightarrow> u8 list" where
  "line_of b = take (unat (lb_len b)) (lb_buf b)"

definition line_ok :: "line_buffer \<Rightarrow> bool" where
  "line_ok b \<longleftrightarrow> (\<exists>l. length l \<le> 4096 \<and> lb_buf b = l @ replicate (4096 - length l) 0 \<and> lb_len b = of_nat (length l))"

lemma line_okE:
  assumes "line_ok b"
  obtains l where "length l \<le> 4096" "lb_buf b = l @ replicate (4096 - length l) 0" "unat (lb_len b) = length l"
    "lb_len b = of_nat (length l)" "line_of b = l"
proof -
  obtain l where l: "length l \<le> 4096" "lb_buf b = l @ replicate (4096 - length l) 0" "lb_len b = of_nat (length l)"
    using assms by (auto simp: line_ok_def)
  then have "unat (lb_len b) = length l" by (simp add: unat_of_nat)
  then show ?thesis using l that by (simp add: line_of_def)
qed

lemma line_buffer_text: "line_ok b \<Longrightarrow> lb_buf b = line_of b @ replicate (4096 - length (line_of b)) 0"
  by (erule line_okE) simp

lemma line_length: "line_ok b \<Longrightarrow> unat (lb_len b) = length (line_of b) \<and> length (line_of b) \<le> 4096"
  by (erule line_okE) simp

lemma put_key_types:
  assumes "line_ok b" "put_key ch b = Inr b'"
  shows "line_ok b' \<and> line_of b' = type_key ch (line_of b)"
proof -
  obtain l where l: "length l \<le> 4096" "lb_buf b = l @ replicate (4096 - length l) 0" "unat (lb_len b) = length l"
    "lb_len b = of_nat (length l)" "line_of b = l"
    using assms(1) by (rule line_okE)
  have "\<exists>l'. length l' \<le> 4096 \<and> lb_buf b' = l' @ replicate (4096 - length l') 0 \<and> lb_len b' = of_nat (length l') \<and> l' = type_key ch l"
  proof (cases "erases ch")
    case e: True
    show ?thesis
    proof (cases l rule: rev_cases)
      case Nil
      then show ?thesis using assms(2) l e by (auto simp: put_key_def type_key_def)
    next
      case (snoc l0 c)
      have len: "lb_len b = of_nat (length l0) + 1" "unat (lb_len b - 1) = length l0"
        using l(1,4) snoc by (simp_all add: unat_of_nat)
      have "0 < lb_len b" using l(3) snoc by (simp add: word_less_nat_alt)
      then have b': "lb_len b' = of_nat (length l0)" "lb_buf b' = (lb_buf b)[length l0 := 0]"
        using assms(2) e len by (auto simp: put_key_def)
      have "4096 - length l0 = Suc (4096 - length l)" using l(1) snoc by simp
      then have "lb_buf b' = l0 @ replicate (4096 - length l0) 0"
        by (simp add: b'(2) l(2) snoc list_update_append)
      then show ?thesis using b'(1) snoc l(1) e by (auto simp: type_key_def)
    qed
  next
    case False
    have n: "length l < 4096" using assms(2) l(1-3) False by (auto simp: put_key_def split: if_splits)
    then obtain k where k: "4096 - length l = Suc k" "4096 - length (l @ [ch]) = k" by (metis Suc_diff_Suc diff_Suc_eq_diff_pred length_append_singleton)
    have "b' = \<lparr>lb_buf = (l @ replicate (Suc k) 0)[length l := ch], lb_len = of_nat (length l) + 1\<rparr>"
      using assms(2) False n l(1-4) by (simp add: put_key_def k)
    then show ?thesis using n k(2) False by (intro exI[of _ "l @ [ch]"]) (simp add: type_key_def list_update_append)
  qed
  then show ?thesis using l(5) by (auto simp: line_ok_def line_of_def unat_of_nat)
qed

interpretation keys: line_input line_of empty_line put_key line_ok 4096
proof
  show "line_ok empty_line" unfolding line_ok_def by (rule exI[of _ "[]"]) (simp add: empty_line_def)
  show "line_of empty_line = []" by (simp add: line_of_def empty_line_def)
  fix b ch
  assume b: "line_ok b"
  show "\<And>b'. put_key ch b = Inr b' \<Longrightarrow> line_ok b' \<and> line_of b' = type_key ch (line_of b)" by (rule put_key_types[OF b])
  show "(\<exists>b'. put_key ch b = Inr b') \<longleftrightarrow> erases ch \<or> length (line_of b) < 4096"
    using b by (elim line_okE) (simp add: put_key_def)
  show "\<And>e. put_key ch b = Inl e \<Longrightarrow> e = OutOfBounds" by (auto simp: put_key_def split: if_splits)
qed

end
