(* ===== verification/Shell.thy ===== *)
theory Shell
  imports File_Ops Line_Edit
begin

unbundle bit_operations_syntax

text \<open>
  The shell: reading and running lines (\<^verbatim>\<open>stdlib/shell.c\<close>), and the commands on files (\<^verbatim>\<open>stdlib/commands.c\<close>). What a
  command does to the rest of the machine (\<open>'w\<close>) and the profiling functions are fields of the record \<open>services\<close>.
  Messages are not modelled; the text that \<^verbatim>\<open>cat\<close> prints and the lines of \<^verbatim>\<open>ls\<close> are results.
\<close>

section \<open>Commands\<close>

datatype command =
  Echo | Clear | Show_time | Perf_list | Ls | Cat | Shutdown | Usage | Memcpy_test | Memset_test

definition SHUTDOWN_CODE :: int where "SHUTDOWN_CODE = 0x12345"

definition bytes_of :: "string \<Rightarrow> u8 list" where
  "bytes_of s = map of_char s"

text \<open>\<^verbatim>\<open>!strncmp(name, buf, strlen(name))\<close>\<close>

definition begins :: "string \<Rightarrow> u8 list \<Rightarrow> bool" where
  "begins name buf \<longleftrightarrow> take (length name) buf = bytes_of name"

definition interpret_line :: "u8 list \<Rightarrow> command option" where
  "interpret_line buf =
     (if begins ''print'' buf then Some Echo
      else if begins ''clear'' buf then Some Clear
      else if begins ''time'' buf then Some Show_time
      else if begins ''listperf'' buf then Some Perf_list
      else if begins ''ls'' buf then Some Ls
      else if begins ''cat'' buf then Some Cat
      else if begins ''shutdown'' buf then Some Shutdown
      else if begins ''usage'' buf then Some Usage
      else if begins ''memcpy_test'' buf then Some Memcpy_test
      else if begins ''memset_test'' buf then Some Memset_test
      else None)"

record 'w services =
  exec :: "command \<Rightarrow> u8 list \<Rightarrow> 'w \<Rightarrow> (int \<times> 'w) result"
  begin_profiling :: "'w \<Rightarrow> 'w result"
  end_profiling :: "'w \<Rightarrow> 'w result"
  perf_print :: "'w \<Rightarrow> 'w result"
  perf_cleanup :: "'w \<Rightarrow> (int \<times> 'w) result"

text \<open>The command behind \<^verbatim>\<open>perf\<close> begins at the sixth character. When it fails, \<^verbatim>\<open>perf_cleanup\<close> is not called.\<close>

definition run :: "'w services \<Rightarrow> u8 list \<Rightarrow> 'w \<Rightarrow> (int \<times> 'w) result" where
  "run S buf w =
     (if begins ''perf'' buf then
        (case interpret_line (drop 5 buf) of
           None \<Rightarrow> Inr (0, w)
         | Some func \<Rightarrow>
             bindR (begin_profiling S w)
               (\<lambda>w. bindR (exec S func (drop 5 buf) w)
               (\<lambda>(ret, w). bindR (end_profiling S w)
               (\<lambda>w. if ret \<noteq> 0 then Inr (ret, w) else bindR (perf_print S w) (perf_cleanup S)))))
      else
        (case interpret_line buf of None \<Rightarrow> Inr (0, w) | Some func \<Rightarrow> exec S func buf w))"

section \<open>The loop\<close>

record 'w shell =
  line :: line_buffer
  last_ret :: int
  echoed :: "u8 list"
  world :: 'w

text \<open>One character; \<open>True\<close> when the shell is left.\<close>

definition shell_key :: "'w services \<Rightarrow> u8 \<Rightarrow> 'w shell \<Rightarrow> ('w shell \<times> bool) result" where
  "shell_key S ch st =
     (if ends_line ch then
        bindR (run S (lb_buf (line st)) (world st))
          (\<lambda>(ret, w). if ret = SHUTDOWN_CODE then Inr (st\<lparr>last_ret := ret, world := w\<rparr>, True)
             else Inr (st\<lparr>line := empty_line, last_ret := ret, echoed := echoed st @ [ch], world := w\<rparr>, False))
      else bindR (put_key ch (line st)) (\<lambda>l. Inr (st\<lparr>line := l, echoed := echoed st @ [ch]\<rparr>, False)))"

fun shell_keys :: "'w services \<Rightarrow> u8 list \<Rightarrow> 'w shell \<Rightarrow> ('w shell \<times> bool) result" where
  "shell_keys S [] st = Inr (st, False)"
| "shell_keys S (ch # ks) st =
     bindR (shell_key S ch st) (\<lambda>(st, left). if left then Inr (st, True) else shell_keys S ks st)"

definition shell :: "'w services \<Rightarrow> u8 list \<Rightarrow> 'w \<Rightarrow> ('w shell \<times> bool) result" where
  "shell S ks w = shell_keys S ks \<lparr>line = empty_line, last_ret = 0, echoed = [], world = w\<rparr>"

section \<open>Commands on files\<close>

text \<open>\<open>buf\<close> is the command line up to its terminator, \<open>len\<close> the length of the name of the command.\<close>

definition fs_helper ::
  "(nat \<Rightarrow> u8 list) \<Rightarrow> entry_info \<Rightarrow> fs_tree \<Rightarrow> u8 list \<Rightarrow> u8 list \<Rightarrow> nat \<Rightarrow> entry_info result" where
  "fs_helper M uninit root pwd buf len =
     (let spath = (if length buf < len + 2 then pwd else drop (len + 1) buf)
      in if length spath = 1 \<and> hd spath = of_char (CHR ''/'')
         then Inr \<lparr>ei_entry = DirEntry root, ei_type = FS_DIR, ei_ret = 0\<rparr>
         else traverse_fs M uninit root pwd spath)"

text \<open>The result code, what is printed, and the file that was used. The text is printed as a string: up to a zero byte. The
  code that \<^verbatim>\<open>f_read\<close> returns is the result.\<close>

definition cat ::
  "(nat \<Rightarrow> u8 list) \<Rightarrow> ext2 \<Rightarrow> u32 \<Rightarrow> entry_info \<Rightarrow> fs_tree \<Rightarrow> u8 list \<Rightarrow> (FILE \<Rightarrow> open_file) \<Rightarrow> u8 list \<Rightarrow>
   (int \<times> u8 list \<times> (FILE \<times> open_file) option) result" where
  "cat M fs gret uninit root pwd mem buf =
     bindR (fs_helper M uninit root pwd buf 3)
       (\<lambda>res. if ei_ret res \<noteq> E_NOERR \<or> ei_type res \<noteq> FS_FILE then Inr (ei_ret res, [], None)
          else (case ei_entry res of
                  FileEntry f \<Rightarrow>
                    bindR (f_read M fs gret f (f_size f) (mem f))
                      (\<lambda>(r, out, h). bindR (cstr_of (overwrite 0 out (M (unat (f_size f)))))
                      (\<lambda>text. bindR (f_close h) (\<lambda>h. Inr (sint r, text, Some (f, h)))))
                | DirEntry d \<Rightarrow> Inl OutOfBounds
                | NoEntry \<Rightarrow> Inl NullDeref))"

text \<open>A line of \<^verbatim>\<open>ls\<close>: the type, the name and the size of a file or the number of entries of a directory.\<close>

fun ls_line :: "u8 \<Rightarrow> fs_entry \<Rightarrow> (u8 \<times> (u8 list \<times> u32) option) result" where
  "ls_line ty e =
     (if ty = FS_FILE then
        (case e of FileEntry f \<Rightarrow> bindR (cstr_of (f_name f)) (\<lambda>s. Inr (ty, Some (s, f_size f)))
         | DirEntry d \<Rightarrow> Inl OutOfBounds | NoEntry \<Rightarrow> Inl NullDeref)
      else if ty = FS_DIR then
        (case e of DirEntry d \<Rightarrow> Inr (ty, Some (t_name d, of_nat (length (t_entries d))))
         | FileEntry f \<Rightarrow> Inl OutOfBounds | NoEntry \<Rightarrow> Inl NullDeref)
      else Inr (ty, None))"

fun ls_lines :: "u8 list \<Rightarrow> fs_entry list \<Rightarrow> (u8 \<times> (u8 list \<times> u32) option) list result" where
  "ls_lines (ty # ts) (e # es) = bindR (ls_line ty e) (\<lambda>l. bindR (ls_lines ts es) (\<lambda>ls. Inr (l # ls)))"
| "ls_lines ts es = Inr []"

definition ls ::
  "(nat \<Rightarrow> u8 list) \<Rightarrow> entry_info \<Rightarrow> fs_tree \<Rightarrow> u8 list \<Rightarrow> u8 list \<Rightarrow> (int \<times> (u8 \<times> (u8 list \<times> u32) option) list) result" where
  "ls M uninit root pwd buf =
     bindR (fs_helper M uninit root pwd buf 2)
       (\<lambda>res. if ei_ret res \<noteq> E_NOERR \<or> ei_type res \<noteq> FS_DIR then Inr (ei_ret res, [])
          else (case ei_entry res of
                  DirEntry d \<Rightarrow> bindR (ls_lines (t_type d) (t_entries d)) (\<lambda>l. Inr (ei_ret res, l))
                | FileEntry f \<Rightarrow> Inl OutOfBounds
                | NoEntry \<Rightarrow> Inl NullDeref))"

end
