(* ===== verification/Ext2_Spec.thy ===== *)
theory Ext2_Spec
  imports Ext2
begin

unbundle bit_operations_syntax

text \<open>
  Properties of the file system of \<^verbatim>\<open>fs/ext2\<close>: the encoding of words and inodes, blocks written are blocks read, the
  block map of a file against the reference \<open>file_block\<close> (the path of indices to a block and following it), reading
  file data against \<open>file_byte\<close>, the allocation bitmaps against \<open>alloc_spec\<close>, and the errors of releasing a block
  and of writing an inode. All of them are about a file system with blocks of 4096 bytes (\<open>disk_ok\<close>), the size that
  \<^verbatim>\<open>read_disk_block\<close> (eight sectors) presumes.
\<close>


section \<open>Encoding\<close>

lemma bit_byte_of: "bit (byte_of i w) k \<longleftrightarrow> k < 8 \<and> bit w (8 * i + k)" for w :: "'a :: len word"
  by (auto simp: byte_of_def bit_ucast_iff bit_drop_bit_eq)

lemma length_le_bytes [simp]: "length (le_bytes n w) = n" by (simp add: le_bytes_def)

lemma bit_le_word:
  "8 * length bs \<le> LENGTH('a) \<Longrightarrow> bit (le_word bs :: 'a :: len word) k \<longleftrightarrow> k < 8 * length bs \<and> bit (bs ! (k div 8)) (k mod 8)"
proof (induction bs arbitrary: k)
  case (Cons b bs)
  have *: "8 * length bs \<le> LENGTH('a)" "8 \<le> LENGTH('a)" using Cons.prems by auto
  show ?case
  proof (cases "k < 8")
    case True
    then show ?thesis using * by (simp add: bit_or_iff bit_ucast_iff bit_push_bit_iff)
  next
    case False
    then have k: "k = (k - 8) + 8" "k div 8 = Suc ((k - 8) div 8)" "k mod 8 = (k - 8) mod 8"
      by (auto simp: le_div_geq le_mod_geq)
    have nb: "\<not> bit b k" using False by (auto dest: bit_imp_le_length)
    have "bit (le_word (b # bs) :: 'a word) k \<longleftrightarrow> k < LENGTH('a) \<and> bit (le_word bs :: 'a word) (k - 8)"
      using False nb by (simp add: bit_or_iff bit_ucast_iff bit_push_bit_iff)
    also have "... \<longleftrightarrow> k - 8 < 8 * length bs \<and> bit (bs ! ((k - 8) div 8)) ((k - 8) mod 8)"
      using Cons.IH[OF *(1), of "k - 8"] False Cons.prems by auto
    finally show ?thesis using False k by auto
  qed
qed simp

lemma le_word_le_bytes:
  assumes "LENGTH('a) = 8 * n"
  shows "le_word (le_bytes n w) = (w :: 'a :: len word)"
proof (rule bit_word_eqI)
  fix k assume "k < LENGTH('a)"
  then have "k div 8 < n" "8 * (k div 8) + k mod 8 = k" using assms by (auto simp: div_less_iff_less_mult)
  moreover from this have "le_bytes n w ! (k div 8) = byte_of (k div 8) w" by (simp add: le_bytes_def)
  ultimately show "bit (le_word (le_bytes n w) :: 'a word) k = bit w k"
    using assms \<open>k < LENGTH('a)\<close> by (simp add: bit_le_word bit_byte_of)
qed

lemma slice_overwrite_same [simp]: "a + length ys \<le> length xs \<Longrightarrow> n = length ys \<Longrightarrow> slice a n (overwrite a ys xs) = ys"
  by (simp add: slice_def overwrite_def)

lemma length_overwrite [simp]: "a + length ys \<le> length xs \<Longrightarrow> length (overwrite a ys xs) = length xs"
  by (simp add: overwrite_def)

lemma length_slice [simp]: "a + n \<le> length xs \<Longrightarrow> length (slice a n xs) = n"
  by (simp add: slice_def)

lemma nth_overwrite:
  "a + length ys \<le> length xs \<Longrightarrow> i < length xs \<Longrightarrow> overwrite a ys xs ! i = (if a \<le> i \<and> i < a + length ys then ys ! (i - a) else xs ! i)"
  by (auto simp: overwrite_def nth_append min_def)

lemma slice_overwrite_other:
  assumes "a + length ys \<le> length xs" "b + n \<le> length xs" "b + n \<le> a \<or> a + length ys \<le> b"
  shows "slice b n (overwrite a ys xs) = slice b n xs"
  using assms by (intro nth_equalityI) (auto simp: slice_def nth_overwrite)

lemma get32_put32:
  assumes "put32 buf i v = Inr buf'"
  shows "get32 buf' i = Inr v" "j \<noteq> i \<Longrightarrow> get32 buf' j = get32 buf j" "length buf' = length buf"
proof -
  have l: "4 * i + 4 \<le> length buf" and b: "buf' = overwrite (4 * i) (le_bytes 4 v) buf"
    using assms by (auto simp: put32_def split: if_splits)
  show "length buf' = length buf" using l b by simp
  show "get32 buf' i = Inr v" using l b by (simp add: get32_def le_word_le_bytes)
  assume "j \<noteq> i"
  then have "4 * j + 4 \<le> 4 * i \<or> 4 * i + 4 \<le> 4 * j" by linarith
  then show "get32 buf' j = get32 buf j" using l b by (auto simp: get32_def slice_overwrite_other)
qed

section \<open>Blocks of the device\<close>

definition disk_ok :: "ext2 \<Rightarrow> bool" where
  "disk_ok fs \<longleftrightarrow> block_size fs = 4096 \<and> (\<forall>s. length (sectors fs s) = 512)"

lemma concat_slices: "length buf = m * k \<Longrightarrow> concat (map (\<lambda>i. slice (m * i) m buf) [0..<k]) = buf"
proof (induction k arbitrary: buf)
  case (Suc k)
  have "concat (map (\<lambda>i. slice (m * i) m buf) [0..<k]) = concat (map (\<lambda>i. slice (m * i) m (take (m * k) buf)) [0..<k])"
  proof (rule arg_cong[where f = concat], rule map_cong[OF refl])
    fix i assume "i \<in> set [0..<k]"
    then have "m * i + m \<le> m * k" by (metis Suc_leI add.commute atLeastLessThan_iff mult_Suc_right mult_le_mono2 set_upt)
    then show "slice (m * i) m buf = slice (m * i) m (take (m * k) buf)" by (simp add: slice_def drop_take)
  qed
  also have "... = take (m * k) buf" using Suc by (intro Suc.IH) simp
  finally have "concat (map (\<lambda>i. slice (m * i) m buf) [0..<Suc k]) = take (m * k) buf @ slice (m * k) m buf" by simp
  also have "... = buf" using Suc.prems by (simp add: slice_def)
  finally show ?case .
qed simp

lemma length_read_disk_block: "disk_ok fs \<Longrightarrow> length (read_disk_block fs b) = 4096"
  by (simp add: read_disk_block_def dev_read_def disk_ok_def length_concat comp_def sum_list_triv)

lemma fold_sectors:
  assumes "inj_on f {..<k}"
  shows "i < k \<Longrightarrow> fold (\<lambda>i d. d(f i := g i)) [0..<k] d (f i) = g i"
    and "s \<notin> f ` {..<k} \<Longrightarrow> fold (\<lambda>i d. d(f i := g i)) [0..<k] d s = d s"
proof -
  define G where "G = (\<lambda>i d. d(f i := g i))"
  have step: "G k d s = (if s = f k then g k else d s)" for k d s by (simp add: G_def)
  have "(\<forall>i<k. fold G [0..<k] d (f i) = g i) \<and> (\<forall>s. s \<notin> f ` {..<k} \<longrightarrow> fold G [0..<k] d s = d s)"
    using assms
  proof (induction k)
    case (Suc k)
    have "inj_on f {..<k}" using Suc.prems by (rule inj_on_subset) auto
    then have IH: "\<forall>i<k. fold G [0..<k] d (f i) = g i" "\<forall>s. s \<notin> f ` {..<k} \<longrightarrow> fold G [0..<k] d s = d s" using Suc.IH by auto
    have ne: "f i \<noteq> f k" if "i < k" for i using Suc.prems that by (auto simp: inj_on_def)
    have "fold G [0..<Suc k] d s = (if s = f k then g k else fold G [0..<k] d s)" for s by (simp only: upt_Suc_append le0 fold_append fold_simps comp_apply step)
    then show ?case using IH ne by (auto simp: less_Suc_eq lessThan_Suc simp del: upt_Suc)
  qed simp
  then show "i < k \<Longrightarrow> fold (\<lambda>i d. d(f i := g i)) [0..<k] d (f i) = g i"
    "s \<notin> f ` {..<k} \<Longrightarrow> fold (\<lambda>i d. d(f i := g i)) [0..<k] d s = d s" unfolding G_def by blast+
qed

lemma sector_inj:
  assumes "s + 8 * b + of_nat i = s + 8 * c + (of_nat j :: u32)" "i < 8" "j < 8" "unat b < 2 ^ 29" "unat c < 2 ^ 29"
  shows "b = c \<and> i = j"
proof -
  have e: "8 * b + of_nat i = 8 * c + (of_nat j :: u32)" using assms(1) by (simp add: add.assoc)
  have u: "unat (8 * d + of_nat k :: u32) = 8 * unat d + k" if "unat d < 2 ^ 29" "k < 8" for d k
    using that by (simp add: unat_word_ariths unat_of_nat)
  have "8 * unat b + i = 8 * unat c + j" using arg_cong[OF e, of unat] assms(2-5) by (simp only: u)
  then show ?thesis using assms(2,3) by (auto simp: word_unat_eq_iff) presburger+
qed

lemma write_disk_block_ok:
  assumes "disk_ok fs" "length buf = 4096" "unat b < 2 ^ 29"
  shows "\<exists>d. write_disk_block b buf fs = Inr (fs\<lparr>sectors := d\<rparr>) \<and> disk_ok (fs\<lparr>sectors := d\<rparr>) \<and>
    read_disk_block (fs\<lparr>sectors := d\<rparr>) b = buf \<and>
    (\<forall>c. unat c < 2 ^ 29 \<and> c \<noteq> b \<longrightarrow> read_disk_block (fs\<lparr>sectors := d\<rparr>) c = read_disk_block fs c)"
proof -
  let ?s = "start_block fs" and ?g = "\<lambda>i. slice (512 * i) 512 buf"
  define f where "f = (\<lambda>i. ?s + 8 * b + (of_nat i :: u32))"
  define d where "d = fold (\<lambda>i d. d(f i := ?g i)) [0..<8] (sectors fs)"
  have inj: "inj_on f {..<8}" using sector_inj[OF _ _ _ assms(3,3)] by (auto simp: f_def inj_on_def)
  have di: "d (f i) = ?g i" if "i < 8" for i unfolding d_def by (rule fold_sectors(1)[OF inj that])
  have dn: "d s = sectors fs s" if "s \<notin> f ` {..<8}" for s unfolding d_def by (rule fold_sectors(2)[OF inj that])
  have bs: "block_size fs = 4096" "unat (block_size fs div 512) = 8" using assms(1) by (simp_all add: disk_ok_def)
  have w: "write_disk_block b buf fs = Inr (fs\<lparr>sectors := d\<rparr>)"
    using assms(2) unfolding write_disk_block_def dev_write_def d_def f_def bs(2) by simp
  have "length (d s) = 512" for s
  proof (cases "s \<in> f ` {..<8}")
    case True
    then obtain i where "i < 8" "s = f i" by auto
    then show ?thesis using di assms(2) by simp
  next
    case False
    then show ?thesis using assms(1) by (simp add: dn disk_ok_def)
  qed
  then have ok: "disk_ok (fs\<lparr>sectors := d\<rparr>)" using bs by (simp add: disk_ok_def)
  have "read_disk_block (fs\<lparr>sectors := d\<rparr>) b = concat (map ?g [0..<8])"
    unfolding read_disk_block_def dev_read_def by (rule arg_cong[where f = concat]) (use di in \<open>auto simp: f_def\<close>)
  also have "... = buf" using assms(2) by (intro concat_slices) simp
  finally have rb: "read_disk_block (fs\<lparr>sectors := d\<rparr>) b = buf" .
  have "read_disk_block (fs\<lparr>sectors := d\<rparr>) c = read_disk_block fs c" if "unat c < 2 ^ 29" "c \<noteq> b" for c
    unfolding read_disk_block_def dev_read_def
  proof (rule arg_cong[where f = concat], rule map_cong)
    fix i assume "i \<in> set [0..<unat (8 :: u32)]"
    then have "?s + 8 * c + of_nat i \<notin> f ` {..<8}" using sector_inj[OF _ _ _ that(1) assms(3)] that(2) by (auto simp: f_def)
    then show "sectors (fs\<lparr>sectors := d\<rparr>) (start_block (fs\<lparr>sectors := d\<rparr>) + 8 * c + of_nat i) = sectors fs (?s + 8 * c + of_nat i)"
      by (simp add: dn)
  qed simp
  then show ?thesis using w ok rb by blast
qed

section \<open>The block map\<close>

lemma sint_sub: "unat x < 2 ^ 31 \<Longrightarrow> unat y < 2 ^ 31 \<Longrightarrow> sint (x - y :: u32) = int (unat x) - int (unat y)"
proof -
  assume *: "unat x < 2 ^ 31" "unat y < 2 ^ 31"
  have p: "(2 :: int) ^ 31 = 2147483648" "(2 :: nat) ^ 31 = 2147483648" by simp_all
  have "x - y = word_of_int (int (unat x) - int (unat y))" by simp
  then have "sint (x - y) = signed_take_bit 31 (int (unat x) - int (unat y))" by (simp only: sint_sbintrunc') simp
  also have "... = int (unat x) - int (unat y)"
  proof (rule signed_take_bit_int_eq_self)
    show "- (2 ^ 31) \<le> int (unat x) - int (unat y)" using * p by linarith
    show "int (unat x) - int (unat y) < 2 ^ 31" using * p by linarith
  qed
  finally show ?thesis .
qed

lemma unat_minus: "unat y \<le> unat x \<Longrightarrow> unat (x - y :: u32) = unat x - unat y"
  by (simp add: unat_sub word_le_nat_alt)

definition word_at :: "ext2 \<Rightarrow> u32 \<Rightarrow> nat \<Rightarrow> u32" where
  "word_at fs n i = le_word (slice (4 * i) 4 (read_disk_block fs n))"

lemma get32_block: "disk_ok fs \<Longrightarrow> i < 1024 \<Longrightarrow> get32 (read_disk_block fs n) i = Inr (word_at fs n i)"
  by (simp add: get32_def length_read_disk_block word_at_def)

text \<open>The reference: the indices on the way to a block of a file, and following them.\<close>

definition block_path :: "nat \<Rightarrow> nat \<times> nat list" where
  "block_path n =
     (if n < 12 then (n, [])
      else if n < 12 + 1024 then (12, [n - 12])
      else if n < 12 + 1024 + 1024 ^ 2 then (let b = n - 12 - 1024 in (13, [b div 1024, b mod 1024]))
      else (let c = n - 12 - 1024 - 1024 ^ 2 in (14, [c div 1024 ^ 2, c mod 1024 ^ 2 div 1024, c mod 1024])))"

fun follow :: "ext2 \<Rightarrow> u32 \<Rightarrow> nat list \<Rightarrow> u32" where
  "follow fs n [] = n"
| "follow fs n (i # is) = follow fs (word_at fs n i) is"

definition file_block :: "ext2 \<Rightarrow> inode_base \<Rightarrow> nat \<Rightarrow> u32" where
  "file_block fs inode n = (case block_path n of (i, is) \<Rightarrow> follow fs (blocks inode ! i) is)"

definition max_blocks :: nat where "max_blocks = 12 + 1024 + 1024 ^ 2 + 1024 ^ 3"

lemma map_arith:
  fixes n p a b c d :: u32
  assumes "p = 1024" "a = n - 12" "b = a - p" "c = b - p * p" "d = c - p * p * p" "unat n < max_blocks"
  shows "sint a < 0 \<longleftrightarrow> unat n < 12" "sint a \<le> 0 \<longleftrightarrow> unat n \<le> 12"
    and "12 \<le> unat n \<Longrightarrow> unat a = unat n - 12"
    and "12 \<le> unat n \<Longrightarrow> sint b < 0 \<longleftrightarrow> unat n < 1036" "12 \<le> unat n \<Longrightarrow> sint b \<le> 0 \<longleftrightarrow> unat n \<le> 1036"
    and "1036 \<le> unat n \<Longrightarrow> unat b = unat n - 1036"
    and "1036 \<le> unat n \<Longrightarrow> sint c < 0 \<longleftrightarrow> unat n < 1049612" "1036 \<le> unat n \<Longrightarrow> sint c \<le> 0 \<longleftrightarrow> unat n \<le> 1049612"
    and "1049612 \<le> unat n \<Longrightarrow> unat c = unat n - 1049612" "1049612 \<le> unat n \<Longrightarrow> sint d < 0"
proof -
  have n: "unat n < 1074791436" using assms(6) by (simp add: max_blocks_def)
  have s: "sint a = int (unat n) - 12" unfolding assms(2) using n by (subst sint_sub) auto
  show "sint a < 0 \<longleftrightarrow> unat n < 12" "sint a \<le> 0 \<longleftrightarrow> unat n \<le> 12" using s by linarith+
  show ua: "unat a = unat n - 12" if "12 \<le> unat n" unfolding assms(2) using that by (subst unat_minus) auto
  have "sint b = int (unat n) - 1036" if "12 \<le> unat n"
    unfolding assms(3) using ua[OF that] that n by (subst sint_sub) (auto simp: assms(1))
  then show "12 \<le> unat n \<Longrightarrow> sint b < 0 \<longleftrightarrow> unat n < 1036" "12 \<le> unat n \<Longrightarrow> sint b \<le> 0 \<longleftrightarrow> unat n \<le> 1036" by linarith+
  show ub: "unat b = unat n - 1036" if "1036 \<le> unat n"
    unfolding assms(3) using that ua by (subst unat_minus) (auto simp: assms(1))
  have "sint c = int (unat n) - 1049612" if "1036 \<le> unat n"
    unfolding assms(4) using ub[OF that] that n by (subst sint_sub) (auto simp: assms(1))
  then show "1036 \<le> unat n \<Longrightarrow> sint c < 0 \<longleftrightarrow> unat n < 1049612" "1036 \<le> unat n \<Longrightarrow> sint c \<le> 0 \<longleftrightarrow> unat n \<le> 1049612" by linarith+
  show uc: "unat c = unat n - 1049612" if "1049612 \<le> unat n"
    unfolding assms(4) using that ub by (subst unat_minus) (auto simp: assms(1))
  have "sint d = int (unat n) - 1074791436" if "1049612 \<le> unat n"
    unfolding assms(5) using uc[OF that] that n by (subst sint_sub) (auto simp: assms(1))
  then show "1049612 \<le> unat n \<Longrightarrow> sint d < 0" using n by linarith
qed

lemma quotients:
  fixes b c :: u32
  shows "unat (b div 1024) = unat b div 1024" "unat (b - b div 1024 * 1024) = unat b mod 1024"
    and "unat (c div 1048576) = unat c div 1048576" "unat ((c - c div 1048576 * 1024 * 1024) div 1024) = unat c mod 1048576 div 1024"
    and "unat (c - c div 1048576 * 1024 * 1024 - (c - c div 1048576 * 1024 * 1024) div 1024 * 1024) = unat c mod 1024"
proof -
  have m: "x - x div y * y = x mod y" for x y :: u32 by (simp add: minus_div_mult_eq_mod)
  show "unat (b div 1024) = unat b div 1024" by (simp add: unat_div)
  show "unat (b - b div 1024 * 1024) = unat b mod 1024" unfolding m by (simp add: unat_mod)
  show "unat (c div 1048576) = unat c div 1048576" by (simp add: unat_div)
  have e: "c div 1048576 * 1024 * 1024 = c div 1048576 * 1048576" by (simp add: mult.assoc)
  show "unat ((c - c div 1048576 * 1024 * 1024) div 1024) = unat c mod 1048576 div 1024"
    unfolding e m by (simp add: unat_div unat_mod)
  show "unat (c - c div 1048576 * 1024 * 1024 - (c - c div 1048576 * 1024 * 1024) div 1024 * 1024) = unat c mod 1024"
    unfolding e m by (simp add: unat_mod mod_mod_cancel)
qed

lemma get_disk_block_number_follows:
  assumes "disk_ok fs" "length (blocks inode) = 15" "unat n < max_blocks"
  shows "get_disk_block_number inode n fs = Inr (file_block fs inode (unat n))"
proof -
  define p :: u32 where "p = block_size fs div 4"
  define a b c d where "a = n - 12" and "b = a - p" and "c = b - p * p" and "d = c - p * p * p"
  have p: "p = 1024" using assms(1) by (simp add: p_def disk_ok_def)
  note A = map_arith[OF p a_def b_def c_def d_def assms(3)]
  have ptr: "block_ptr inode i = Inr (blocks inode ! i)" if "i < 15" for i using that assms(2) by (simp add: block_ptr_def)
  have w: "get32 (read_disk_block fs m) i = Inr (word_at fs m i)" if "i < 1024" for m i by (rule get32_block[OF assms(1) that])
  have eq: "get_disk_block_number inode n fs =
     (if sint a < 0 then block_ptr inode (unat n)
         else if sint b < 0 then
           bindR (block_ptr inode 12) (\<lambda>n. get32 (read_disk_block fs n) (unat a))
         else if sint c < 0 then
           (let c = b div p; d = b - c * p
            in bindR (block_ptr inode 13)
                 (\<lambda>n. bindR (get32 (read_disk_block fs n) (unat c))
                 (\<lambda>n. get32 (read_disk_block fs n) (unat d))))
         else if sint d < 0 then
           (let e = c div (p * p); f = (c - e * p * p) div p; g = c - e * p * p - f * p
            in bindR (block_ptr inode 14)
                 (\<lambda>n. bindR (get32 (read_disk_block fs n) (unat e))
                 (\<lambda>n. bindR (get32 (read_disk_block fs n) (unat f))
                 (\<lambda>n. get32 (read_disk_block fs n) (unat g)))))
         else Inr 0)"
    unfolding get_disk_block_number_def by (simp only: Let_def p_def a_def b_def c_def d_def)
  consider "unat n < 12" | "12 \<le> unat n" "unat n < 1036" | "1036 \<le> unat n" "unat n < 1049612" | "1049612 \<le> unat n" by linarith
  then show ?thesis
  proof cases
    case 1
    then show ?thesis using A(1) eq ptr by (simp add: file_block_def block_path_def)
  next
    case 2
    then show ?thesis using A(1) A(3,4)[OF 2(1)] eq ptr w by (simp add: file_block_def block_path_def)
  next
    case 3
    then have "12 \<le> unat n" "unat b div 1024 < 1024" using A(6)[OF 3(1)] by (auto simp: div_less_iff_less_mult)
    then show ?thesis
      using 3 A(1) A(4) A(6,7)[OF 3(1)] eq ptr w by (simp add: file_block_def block_path_def Let_def p quotients)
  next
    case 4
    have "unat c div 1048576 < 1024" using A(9)[OF 4] assms(3) by (simp add: div_less_iff_less_mult max_blocks_def)
    moreover have "unat c mod 1048576 div 1024 < 1024" by (simp add: div_less_iff_less_mult)
    ultimately show ?thesis
      using 4 A(1) A(4) A(7) A(9,10)[OF 4] eq ptr w
      by (simp add: file_block_def block_path_def Let_def p quotients minus_mult_div_eq_mod unat_mod mod_mod_cancel)
  qed
qed

section \<open>Changing the block map\<close>

fun path_blocks :: "ext2 \<Rightarrow> u32 \<Rightarrow> nat list \<Rightarrow> u32 list" where
  "path_blocks fs n [] = []"
| "path_blocks fs n (i # is) = n # path_blocks fs (word_at fs n i) is"

definition path_ok :: "ext2 \<Rightarrow> u32 \<Rightarrow> nat list \<Rightarrow> bool" where
  "path_ok fs n is \<longleftrightarrow> distinct (path_blocks fs n is) \<and> (\<forall>b\<in>set (path_blocks fs n is). b \<noteq> 0 \<and> unat b < 2 ^ 29)"

lemma follow_update:
  assumes "\<forall>c\<in>set (butlast (path_blocks fs n is)). \<forall>i. word_at fs' c i = word_at fs c i" "is \<noteq> []"
    "word_at fs' (last (path_blocks fs n is)) (last is) = v"
  shows "follow fs' n is = v"
  using assms
proof (induction "is" arbitrary: n)
  case (Cons i "is")
  show ?case
  proof (cases "is")
    case Nil
    then show ?thesis using Cons.prems by simp
  next
    case (Cons j js)
    then show ?thesis using Cons.prems Cons.IH[of "word_at fs n i"] by auto
  qed
qed simp

lemma set_in_block_ok:
  assumes "disk_ok fs" "k < 1024" "unat m < 2 ^ 29"
  shows "\<exists>d. set_in_block m k v fs = Inr (fs\<lparr>sectors := d\<rparr>) \<and> disk_ok (fs\<lparr>sectors := d\<rparr>) \<and> word_at (fs\<lparr>sectors := d\<rparr>) m k = v \<and>
    (\<forall>j<1024. j \<noteq> k \<longrightarrow> word_at (fs\<lparr>sectors := d\<rparr>) m j = word_at fs m j) \<and>
    (\<forall>c. unat c < 2 ^ 29 \<and> c \<noteq> m \<longrightarrow> read_disk_block (fs\<lparr>sectors := d\<rparr>) c = read_disk_block fs c)"
proof -
  have l: "length (read_disk_block fs m) = 4096" by (rule length_read_disk_block[OF assms(1)])
  obtain buf where b: "put32 (read_disk_block fs m) k v = Inr buf" using l assms(2) by (auto simp: put32_def)
  note g = get32_put32[OF b]
  obtain d where d: "write_disk_block m buf fs = Inr (fs\<lparr>sectors := d\<rparr>)" "disk_ok (fs\<lparr>sectors := d\<rparr>)" "read_disk_block (fs\<lparr>sectors := d\<rparr>) m = buf"
    "\<forall>c. unat c < 2 ^ 29 \<and> c \<noteq> m \<longrightarrow> read_disk_block (fs\<lparr>sectors := d\<rparr>) c = read_disk_block fs c"
    using write_disk_block_ok[OF assms(1) _ assms(3), of buf] g(3) l by auto
  have "set_in_block m k v fs = Inr (fs\<lparr>sectors := d\<rparr>)" using b d(1) l assms(2) by (simp add: set_in_block_def Let_def)
  moreover have "word_at (fs\<lparr>sectors := d\<rparr>) m k = v"
    using g(1) get32_block[OF d(2) assms(2), of m] d(3) by simp
  moreover have "word_at (fs\<lparr>sectors := d\<rparr>) m j = word_at fs m j" if "j < 1024" "j \<noteq> k" for j
    using g(2)[OF that(2)] get32_block[OF d(2) that(1), of m] get32_block[OF assms(1) that(1), of m] d(3) by simp
  ultimately show ?thesis using d by blast
qed

lemma descend_ok:
  assumes "disk_ok fs" "i < 1024" "word_at fs n i \<noteq> 0"
  shows "descend n i fs = Inr (word_at fs n i, fs)"
  using assms by (simp add: descend_def alloc_buffer_pointer_def get32_block)

lemma alloc_inode_pointer_ok:
  assumes "i < length (blocks inode)" "blocks inode ! i \<noteq> 0"
  shows "alloc_inode_pointer i index inode fs = Inr (inode, fs)"
  using assms by (simp add: alloc_inode_pointer_def block_ptr_def)

lemma set_disk_block_number_writes:
  assumes "disk_ok fs" "length (blocks inode) = 15" "unat n < max_blocks" "12 < unat n" "unat n \<notin> {1036, 1049612}"
    and "block_path (unat n) = (i, is)" "path_ok fs (blocks inode ! i) is"
  shows "set_disk_block_number index n v inode fs =
    bindR (set_in_block (last (path_blocks fs (blocks inode ! i) is)) (last is) v fs) (\<lambda>fs. Inr (inode, fs))"
proof -
  define p :: u32 where "p = block_size fs div 4"
  define a b c d where "a = n - 12" and "b = a - p" and "c = b - p * p" and "d = c - p * p * p"
  have p: "p = 1024" using assms(1) by (simp add: p_def disk_ok_def)
  note A = map_arith[OF p a_def b_def c_def d_def assms(3)]
  have ptr: "alloc_inode_pointer k index inode fs = Inr (inode, fs)" if "k < 15" "blocks inode ! k \<noteq> 0" for k
    using that assms(2) by (intro alloc_inode_pointer_ok) auto
  have eq: "set_disk_block_number index n v inode fs =
     (if sint a \<le> 0 then
           (if unat n < length (blocks inode)
            then Inr (inode\<lparr>blocks := (blocks inode)[unat n := v]\<rparr>, fs) else Inl OutOfBounds)
         else if sint b \<le> 0 then
           bindR (alloc_inode_pointer 12 index inode fs)
             (\<lambda>(inode, fs). bindR (set_in_block (blocks inode ! 12) (unat a) v fs) (\<lambda>fs. Inr (inode, fs)))
         else if sint c \<le> 0 then
           (let c = b div p; d = b - c * p
            in bindR (alloc_inode_pointer 13 index inode fs)
                 (\<lambda>(inode, fs). bindR (descend (blocks inode ! 13) (unat c) fs)
                 (\<lambda>(n, fs). bindR (set_in_block n (unat d) v fs) (\<lambda>fs. Inr (inode, fs)))))
         else if sint d \<le> 0 then
           (let e = c div (p * p); f = (c - e * p * p) div p; g = c - e * p * p - f * p
            in bindR (alloc_inode_pointer 14 index inode fs)
                 (\<lambda>(inode, fs). bindR (descend (blocks inode ! 14) (unat e) fs)
                 (\<lambda>(n, fs). bindR (descend n (unat f) fs)
                 (\<lambda>(n, fs). bindR (set_in_block n (unat g) v fs) (\<lambda>fs. Inr (inode, fs))))))
         else Inr (inode, fs))"
    unfolding set_disk_block_number_def by (simp only: Let_def p_def a_def b_def c_def d_def)
  have 12: "12 \<le> unat n" using assms(4) by simp
  consider "unat n < 1036" | "1036 < unat n" "unat n < 1049612" | "1049612 < unat n" using assms(5) by fastforce
  then show ?thesis
  proof cases
    case 1
    then have "i = 12" "is = [unat n - 12]" using assms(4,6) by (auto simp: block_path_def)
    then show ?thesis using 1 A(2) A(3,5)[OF 12] eq ptr assms(4,7) by (simp add: path_ok_def)
  next
    case 2
    then have *: "1036 \<le> unat n" by simp
    have ix: "i = 13" "is = [(unat n - 1036) div 1024, (unat n - 1036) mod 1024]"
      using 2 assms(4,6) by (auto simp: block_path_def Let_def)
    have q: "(unat n - 1036) div 1024 < 1024" using 2 by (simp add: div_less_iff_less_mult)
    have ok: "blocks inode ! 13 \<noteq> 0" "word_at fs (blocks inode ! 13) ((unat n - 1036) div 1024) \<noteq> 0"
      using assms(7) ix by (simp_all add: path_ok_def)
    show ?thesis
      using 2 A(2) A(5)[OF 12] A(6,8)[OF *] assms(4) ptr[of 13] ok descend_ok[OF assms(1) q ok(2)] unfolding eq
      by (simp add: ix p quotients)
  next
    case 3
    then have *: "1036 \<le> unat n" "1049612 \<le> unat n" by simp_all
    let ?c = "unat n - 1049612"
    have ix: "i = 14" "is = [?c div 1048576, ?c mod 1048576 div 1024, ?c mod 1024]"
      using 3 assms(4,6) by (auto simp: block_path_def Let_def)
    have q: "?c div 1048576 < 1024" "?c mod 1048576 div 1024 < 1024" using assms(3) by (simp_all add: div_less_iff_less_mult max_blocks_def)
    have ok: "blocks inode ! 14 \<noteq> 0" "word_at fs (blocks inode ! 14) (?c div 1048576) \<noteq> 0"
      "word_at fs (word_at fs (blocks inode ! 14) (?c div 1048576)) (?c mod 1048576 div 1024) \<noteq> 0"
      using assms(7) ix by (simp_all add: path_ok_def)
    have sd: "sint d \<le> 0" using A(10)[OF *(2)] by simp
    show ?thesis
      using 3 A(2) A(5)[OF 12] A(8)[OF *(1)] A(9)[OF *(2)] sd assms(4) ptr[of 14] ok(1) descend_ok[OF assms(1) q(1) ok(2)] descend_ok[OF assms(1) q(2) ok(3)]
      unfolding eq by (simp add: ix p quotients minus_mult_div_eq_mod unat_mod mod_mod_cancel)
  qed
qed


lemma path_blocks_last: "is \<noteq> [] \<Longrightarrow> last (path_blocks fs n is) \<in> set (path_blocks fs n is)"
  by (cases "is") auto

lemma last_notin_butlast: "distinct xs \<Longrightarrow> c \<in> set (butlast xs) \<Longrightarrow> c \<noteq> last xs"
  by (metis append_butlast_last_id butlast.simps(1) distinct_append disjoint_iff list.set_intros(1) empty_iff list.set(1))

lemma block_path_index:
  assumes "block_path n = (i, is)" "n < max_blocks"
  shows "i < 15" "\<forall>k\<in>set is. k < 1024" "n < 12 \<longleftrightarrow> is = []"
  using assms
  by (auto simp: block_path_def Let_def max_blocks_def div_less_iff_less_mult split: if_splits)

text \<open>At index 12 the pointer to the indirect block itself is overwritten.\<close>

lemma set_block_12_breaks_map:
  assumes "disk_ok fs" "length (blocks inode) = 15"
  shows "set_disk_block_number index 12 v inode fs = Inr (inode\<lparr>blocks := (blocks inode)[12 := v]\<rparr>, fs) \<and>
    (\<forall>k<1024. get_disk_block_number (inode\<lparr>blocks := (blocks inode)[12 := v]\<rparr>) (12 + of_nat k) fs = Inr (word_at fs v k))"
proof
  show "set_disk_block_number index 12 v inode fs = Inr (inode\<lparr>blocks := (blocks inode)[12 := v]\<rparr>, fs)"
    using assms(2) by (simp add: set_disk_block_number_def Let_def)
  show "\<forall>k<1024. get_disk_block_number (inode\<lparr>blocks := (blocks inode)[12 := v]\<rparr>) (12 + of_nat k) fs = Inr (word_at fs v k)"
  proof (intro allI impI)
    fix k :: nat assume k: "k < 1024"
    have u: "unat (12 + of_nat k :: u32) = 12 + k" using k by (simp add: unat_word_ariths unat_of_nat)
    show "get_disk_block_number (inode\<lparr>blocks := (blocks inode)[12 := v]\<rparr>) (12 + of_nat k) fs = Inr (word_at fs v k)"
      using k assms u by (subst get_disk_block_number_follows) (auto simp: file_block_def block_path_def max_blocks_def)
  qed
qed


section \<open>File data\<close>

definition file_byte :: "ext2 \<Rightarrow> inode_base \<Rightarrow> nat \<Rightarrow> u8" where
  "file_byte fs inode i = read_disk_block fs (file_block fs inode (i div 4096)) ! (i mod 4096)"

lemma read_inode_block_ok:
  assumes "disk_ok fs" "length (blocks inode) = 15" "i < max_blocks"
  shows "read_inode_block inode (of_nat i) fs = Inr (read_disk_block fs (file_block fs inode i))"
proof -
  have u: "unat (of_nat i :: u32) = i" using assms(3) by (simp add: unat_of_nat max_blocks_def)
  have "get_disk_block_number inode (of_nat i) fs = Inr (file_block fs inode i)"
    using get_disk_block_number_follows[OF assms(1,2), of "of_nat i"] assms(3) u by simp
  then show ?thesis using assms(1) by (simp add: read_inode_block_def length_read_disk_block disk_ok_def[of fs])
qed

lemma slice_is_file_bytes:
  assumes "disk_ok fs" "left + len \<le> 4096"
  shows "slice left len (read_disk_block fs (file_block fs inode i)) = map (file_byte fs inode) [4096 * i + left..<4096 * i + left + len]"
proof (intro nth_equalityI)
  fix j assume "j < length (slice left len (read_disk_block fs (file_block fs inode i)))"
  then have j: "j < len" using assms by (simp add: length_read_disk_block)
  then have "(4096 * i + left + j) div 4096 = i" "(4096 * i + left + j) mod 4096 = left + j"
    using assms(2) div_mult_self4[of 4096 i "left + j"] mod_mult_self4[of 4096 i "left + j"] by (simp_all add: add.assoc)
  then show "slice left len (read_disk_block fs (file_block fs inode i)) ! j = map (file_byte fs inode) [4096 * i + left..<4096 * i + left + len] ! j"
    using assms j by (simp add: slice_def length_read_disk_block file_byte_def)
qed (use assms in \<open>simp add: length_read_disk_block\<close>)

lemma read_blocks_ok:
  assumes "disk_ok fs" "length (blocks inode) = 15" "offset \<le> end_offset" "end_offset < 2 ^ 32"
    and "unat start_blk = offset div 4096" "unat start_off = offset mod 4096"
    and "unat end_blk = end_offset div 4096" "unat end_size = end_offset mod 4096"
    and "unat start_blk \<le> i" "i + n = unat end_blk + 1"
  shows "read_blocks inode start_blk end_blk start_off end_size i n out fs =
    Inr (out @ map (file_byte fs inode) [max offset (4096 * i)..<end_offset])"
  using assms(9,10)
proof (induction n arbitrary: i out)
  case 0
  then have "end_offset \<le> 4096 * i" using assms(7) by simp
  then show ?case by simp
next
  case (Suc n)
  define left where "left = (if of_nat i = start_blk then start_off else 0 :: u32)"
  define right where "right = (if of_nat i = end_blk then end_size - 1 else block_size fs - 1)"
  define len where "len = unat (right - left + 1)"
  have bs: "block_size fs = 4096" using assms(1) by (simp add: disk_ok_def)
  have i: "i \<le> end_offset div 4096" using Suc.prems(2) assms(7) by simp
  then have im: "i < max_blocks" "i < 2 ^ 32" using assms(4) by (auto simp: max_blocks_def less_mult_imp_div_less)
  then have u: "unat (of_nat i :: u32) = i" by (simp add: unat_of_nat)
  then have ieq: "of_nat i = start_blk \<longleftrightarrow> i = offset div 4096" "of_nat i = end_blk \<longleftrightarrow> i = end_offset div 4096"
    using assms(5,7) by (simp_all add: word_unat_eq_iff)
  have lo: "4096 * i + unat left = max offset (4096 * i)"
  proof (cases "of_nat i = start_blk")
    case True
    moreover have "4096 * (offset div 4096) \<le> offset" by simp
    ultimately show ?thesis using assms(6) ieq(1) by (simp add: left_def max_def le_antisym)
  next
    case False
    then have "offset div 4096 < i" using Suc.prems(1) assms(5) ieq(1) by simp
    then have "offset \<le> 4096 * i" by (simp only: div_less_iff_less_mult zero_less_numeral mult.commute less_imp_le)
    then show ?thesis using False by (simp add: left_def)
  qed
  have hi: "unat left + len \<le> 4096 \<and> 4096 * i + unat left + len = min end_offset (4096 * (i + 1))"
  proof (cases "of_nat i = end_blk")
    case True
    then have ei: "4096 * i + unat end_size = end_offset" using ieq(2) assms(8) by simp
    have "max offset (4096 * i) \<le> end_offset" using ei assms(3) by simp
    then have e: "unat left \<le> unat end_size" using lo ei by linarith
    then have "len = unat end_size - unat left" using True by (simp add: len_def right_def unat_minus)
    moreover have "unat end_size \<le> 4096" "4096 * i + unat end_size = end_offset" using ieq(2) True assms(8) by auto
    ultimately show ?thesis using e by (simp add: min_def)
  next
    case False
    then have e: "unat left \<le> 4096" using assms(6) by (simp add: left_def)
    then have "len = 4096 - unat left" using False unat_minus[of left 4096] by (simp add: len_def right_def bs)
    moreover have "i + 1 \<le> end_offset div 4096" using False ieq(2) i by linarith
    then have "4096 * (i + 1) \<le> end_offset" by (simp only: less_eq_div_iff_mult_less_eq zero_less_numeral mult.commute)
    ultimately show ?thesis using e by (simp add: min_def)
  qed
  have "read_blocks inode start_blk end_blk start_off end_size i (Suc n) out fs =
    read_blocks inode start_blk end_blk start_off end_size (i + 1) n
      (out @ slice (unat left) len (read_disk_block fs (file_block fs inode i))) fs"
    using hi read_inode_block_ok[OF assms(1,2) im(1)]
    by (simp add: Let_def length_read_disk_block[OF assms(1)] flip: left_def right_def len_def)
  also have "... = Inr (out @ slice (unat left) len (read_disk_block fs (file_block fs inode i)) @
      map (file_byte fs inode) [max offset (4096 * (i + 1))..<end_offset])"
    using Suc.prems Suc.IH[of "i + 1"] by simp
  also have "slice (unat left) len (read_disk_block fs (file_block fs inode i)) = map (file_byte fs inode) [max offset (4096 * i)..<min end_offset (4096 * (i + 1))]"
    using slice_is_file_bytes[OF assms(1)] hi lo by metis
  also have "... @ map (file_byte fs inode) [max offset (4096 * (i + 1))..<end_offset] = map (file_byte fs inode) [max offset (4096 * i)..<end_offset]"
  proof -
    have "offset div 4096 < i + 1" using Suc.prems(1) assms(5) by simp
    then have oi: "offset \<le> 4096 * (i + 1)" by (simp only: div_less_iff_less_mult zero_less_numeral mult.commute less_imp_le)
    then have *: "[max offset (4096 * (i + 1))..<end_offset] = [min end_offset (4096 * (i + 1))..<end_offset]"
      using oi by (simp add: min_def max_def)
    have ij: "max offset (4096 * i) \<le> min end_offset (4096 * (i + 1))"
      using assms(3) i oi by (auto simp: less_eq_div_iff_mult_less_eq mult.commute)
    then have "[max offset (4096 * i)..<end_offset] = [max offset (4096 * i)..<min end_offset (4096 * (i + 1))] @ [min end_offset (4096 * (i + 1))..<end_offset]"
      using upt_add_eq_append[OF ij, of "end_offset - min end_offset (4096 * (i + 1))"] by simp
    then show ?thesis unfolding * by (simp only: map_append)
  qed
  finally show ?case .
qed

lemma read_inode_filedata_reads:
  assumes "disk_ok fs" "length (blocks inode) = 15" "offset \<le> size_lower inode" "unat offset + unat n < 2 ^ 32"
  shows "read_inode_filedata inode offset n fs =
    Inr (min n (size_lower inode - offset), map (file_byte fs inode) [unat offset..<min (unat offset + unat n) (unat (size_lower inode))])"
proof -
  define e where "e = end_of_read inode offset n"
  have bs: "block_size fs = 4096" using assms(1) by (simp add: disk_ok_def)
  have u: "unat (offset + n) = unat offset + unat n" using assms(4) by (simp add: unat_word_ariths)
  then have ue: "unat e = min (unat offset + unat n) (unat (size_lower inode))"
    by (auto simp: e_def end_of_read_def word_le_nat_alt min_def)
  have oe: "unat offset \<le> unat e" using ue assms(3) by (simp add: word_le_nat_alt)
  have em: "e - offset = min n (size_lower inode - offset)"
  proof -
    have "unat (e - offset) = unat (min n (size_lower inode - offset))"
      using oe ue assms(3) by (auto simp: unat_minus min_def word_le_nat_alt)
    then show ?thesis by (simp add: word_unat_eq_iff)
  qed
  have sb: "unat (offset div 4096) = unat offset div 4096" "unat (offset mod 4096) = unat offset mod 4096"
    "unat (e div 4096) = unat e div 4096" "unat (e - e div 4096 * 4096) = unat e mod 4096"
    by (simp_all add: unat_div unat_mod minus_div_mult_eq_mod)
  have le: "unat offset div 4096 \<le> unat e div 4096" using oe by (rule div_le_mono)
  have "read_blocks inode (offset div 4096) (e div 4096) (offset mod 4096) (e - e div 4096 * 4096)
      (unat (offset div 4096)) (unat (e div 4096) + 1 - unat (offset div 4096)) [] fs =
    Inr ([] @ map (file_byte fs inode) [max (unat offset) (4096 * unat (offset div 4096))..<unat e])"
    using le unsigned_less[of e] sb by (intro read_blocks_ok[OF assms(1,2) oe]) auto
  moreover have "max (unat offset) (4096 * unat (offset div 4096)) = unat offset" using sb(1) by simp
  ultimately show ?thesis using em ue by (simp add: read_inode_filedata_def Let_def bs flip: e_def)
qed

text \<open>An offset behind the end of the file: nothing is copied, or, in the last block, a negative length.\<close>

lemma read_inode_filedata_beyond:
  assumes "disk_ok fs" "length (blocks inode) = 15" "size_lower inode < offset" "unat offset + unat n < 2 ^ 32"
  shows "read_inode_filedata inode offset n fs =
    (if unat offset div 4096 = unat (size_lower inode) div 4096 then Inl OutOfBounds else Inr (size_lower inode - offset, []))"
proof -
  let ?e = "size_lower inode"
  have bs: "block_size fs = 4096" using assms(1) by (simp add: disk_ok_def)
  have u: "unat (offset + n) = unat offset + unat n" using assms(4) by (simp add: unat_word_ariths)
  have lt: "unat ?e < unat offset" using assms(3) by (simp add: word_less_nat_alt)
  then have e: "end_of_read inode offset n = ?e" using u by (simp add: end_of_read_def word_le_nat_alt)
  have d: "unat (offset div 4096) = unat offset div 4096" "unat (?e div 4096) = unat ?e div 4096" by (simp_all add: unat_div)
  show ?thesis
  proof (cases "unat offset div 4096 = unat ?e div 4096")
    case False
    then have "unat ?e div 4096 < unat offset div 4096" using lt div_le_mono[of "unat ?e" "unat offset" 4096] by linarith
    then show ?thesis using False by (simp add: read_inode_filedata_def Let_def bs e d)
  next
    case True
    define i where "i = unat offset div 4096"
    have i: "i < max_blocks" using unsigned_less[of offset, where 'a = nat] by (simp add: i_def max_blocks_def less_mult_imp_div_less)
    have "of_nat (unat (offset div 4096)) = offset div 4096" by simp
    then have w1: "of_nat i = offset div 4096" unfolding d(1) i_def .
    have w: "of_nat i = ?e div 4096" "offset div 4096 = ?e div 4096"
      using d True w1 by (simp_all add: word_unat_eq_iff)
    have em: "unat (?e - ?e div 4096 * 4096) = unat ?e mod 4096" by (simp add: minus_div_mult_eq_mod unat_mod)
    have om: "unat (offset mod 4096) = unat offset mod 4096" by (simp add: unat_mod)
    have "unat ?e mod 4096 < unat offset mod 4096"
      using lt True div_mult_mod_eq[of "unat ?e" 4096] div_mult_mod_eq[of "unat offset" 4096] by linarith
    then have sub: "unat ((?e - ?e div 4096 * 4096) - offset mod 4096) = 2 ^ 32 + unat ?e mod 4096 - unat offset mod 4096"
      by (subst unat_sub_if_size) (simp add: em om word_size)
    have "4096 < 2 ^ 32 + unat ?e mod 4096 - unat offset mod 4096"
      using mod_less_divisor[of 4096 "unat offset"] by (simp add: less_diff_conv)
    then have big: "4096 < unat ((?e - ?e div 4096 * 4096 - 1) - offset mod 4096 + 1)" using sub by (simp add: algebra_simps)
    have "unat (?e div 4096) + 1 - unat (offset div 4096) = Suc 0" using d True by simp
    moreover have "read_blocks inode (offset div 4096) (?e div 4096) (offset mod 4096) (?e - ?e div 4096 * 4096) i (Suc 0) [] fs = Inl OutOfBounds"
      using read_inode_block_ok[OF assms(1,2) i] big by (simp add: Let_def w length_read_disk_block[OF assms(1)] del: One_nat_def)
    ultimately show ?thesis using True d(1) by (simp add: read_inode_filedata_def Let_def bs e i_def)
  qed
qed

section \<open>The bitmaps\<close>

lemma write_disk_block_take:
  assumes "disk_ok fs" "4096 \<le> length buf"
  shows "write_disk_block b buf fs = write_disk_block b (take 4096 buf) fs"
proof -
  have n: "unat (block_size fs div 512) = 8" using assms(1) by (simp add: disk_ok_def)
  have "fold (\<lambda>i d. d(start_block fs + 8 * b + of_nat i := slice (512 * i) 512 buf)) [0..<8] (sectors fs) =
    fold (\<lambda>i d. d(start_block fs + 8 * b + of_nat i := slice (512 * i) 512 (take 4096 buf))) [0..<8] (sectors fs)"
    by (intro fold_cong refl) (auto simp: slice_def drop_take)
  then show ?thesis unfolding write_disk_block_def dev_write_def n using assms(2) by simp
qed

definition bgd_fits :: "ext2 \<Rightarrow> bool" where
  "bgd_fits fs \<longleftrightarrow> (\<forall>g\<in>set (BGD fs). length (bg_reserved g) = 12) \<and> 4096 * unat (bgd_blocks fs) \<le> 32 * length (BGD fs)"

text \<open>What a block reads as after the descriptor table was written: everything but block 2 is kept.\<close>

lemma write_bgd_ok:
  assumes "disk_ok fs" "bgd_fits fs"
  shows "\<exists>d. write_bgd fs = Inr (fs\<lparr>sectors := d\<rparr>) \<and> disk_ok (fs\<lparr>sectors := d\<rparr>) \<and>
    (\<forall>c. unat c < 2 ^ 29 \<and> c \<noteq> 2 \<longrightarrow> read_disk_block (fs\<lparr>sectors := d\<rparr>) c = read_disk_block fs c)"
proof -
  define tbl where "tbl = concat (map bgd_bytes (BGD fs))"
  have "length (bgd_bytes g) = 32" if "g \<in> set (BGD fs)" for g using assms(2) that by (simp add: bgd_fits_def bgd_bytes_def)
  then have "length tbl = sum_list (map (\<lambda>g. 32) (BGD fs))"
    unfolding tbl_def length_concat map_map comp_def by (intro arg_cong[where f = sum_list] map_cong) auto
  then have tbl: "length tbl = 32 * length (BGD fs)" by (simp add: sum_list_triv)
  have bs: "unat (block_size fs) = 4096" using assms(1) by (simp add: disk_ok_def)
  have "\<exists>d. fold (\<lambda>i r. bindR r (write_disk_block 2 (drop (i * 4096) tbl))) [0..<n] (Inr fs) = Inr (fs\<lparr>sectors := d\<rparr>) \<and>
      disk_ok (fs\<lparr>sectors := d\<rparr>) \<and>
      (\<forall>c. unat c < 2 ^ 29 \<and> c \<noteq> 2 \<longrightarrow> read_disk_block (fs\<lparr>sectors := d\<rparr>) c = read_disk_block fs c)"
    if "4096 * n \<le> length tbl" for n
    using that
  proof (induction n)
    case 0
    then show ?case using assms(1) by (intro exI[of _ "sectors fs"]) simp
  next
    case (Suc n)
    then obtain d where d: "fold (\<lambda>i r. bindR r (write_disk_block 2 (drop (i * 4096) tbl))) [0..<n] (Inr fs) = Inr (fs\<lparr>sectors := d\<rparr>)"
      "disk_ok (fs\<lparr>sectors := d\<rparr>)"
      "\<forall>c. unat c < 2 ^ 29 \<and> c \<noteq> 2 \<longrightarrow> read_disk_block (fs\<lparr>sectors := d\<rparr>) c = read_disk_block fs c" by auto
    have l: "4096 \<le> length (drop (n * 4096) tbl)" using Suc.prems by simp
    obtain d' where "write_disk_block 2 (drop (n * 4096) tbl) (fs\<lparr>sectors := d\<rparr>) = Inr (fs\<lparr>sectors := d, sectors := d'\<rparr>)"
      "disk_ok (fs\<lparr>sectors := d, sectors := d'\<rparr>)"
      "\<forall>c. unat c < 2 ^ 29 \<and> c \<noteq> 2 \<longrightarrow> read_disk_block (fs\<lparr>sectors := d, sectors := d'\<rparr>) c = read_disk_block (fs\<lparr>sectors := d\<rparr>) c"
      using write_disk_block_ok[OF d(2), of "take 4096 (drop (n * 4096) tbl)" 2] write_disk_block_take[OF d(2) l] l by auto
    then show ?case using d(1,3) by (intro exI[of _ d']) simp
  qed
  from this[of "unat (bgd_blocks fs)"] show ?thesis
    using assms(2) tbl by (simp add: write_bgd_def bs bgd_fits_def flip: tbl_def)
qed

definition taken :: "ext2 \<Rightarrow> u32 \<Rightarrow> nat \<Rightarrow> bool" where
  "taken fs b i \<longleftrightarrow> bit (word_at fs b (i div 32)) (i mod 32)"

lemma free_bit_iff: "free_bit w = Some k \<longleftrightarrow> k < 32 \<and> \<not> bit w k \<and> (\<forall>i<k. bit w i)"
proof -
  have "find (\<lambda>k. \<not> bit w k) [0..<n] = Some k \<longleftrightarrow> k < n \<and> \<not> bit w k \<and> (\<forall>i<k. bit w i)" for n
    unfolding find_Some_iff by auto
  then show ?thesis by (simp add: free_bit_def)
qed

lemma free_bit_full: "(w :: u32) = 0xFFFFFFFF \<longleftrightarrow> (\<forall>i<32. bit w i)"
proof -
  have f: "(0xFFFFFFFF :: u32) = - 1" by simp
  show ?thesis unfolding f by (auto intro!: bit_word_eqI)
qed

lemma free_bit_None: "free_bit w = None \<longleftrightarrow> (\<forall>i<32. bit w i)"
  by (auto simp: free_bit_def find_None_iff)

lemma all_bits_step:
  "(\<forall>i<32 * Suc n. P i) \<longleftrightarrow> (\<forall>i<32 * n. P i) \<and> (\<forall>i<32. P (32 * n + i :: nat))"
proof -
  have "\<exists>j<32. i = 32 * n + j" if "\<not> i < 32 * n" "i < 32 * Suc n" for i
    using that by (intro exI[of _ "i - 32 * n"]) auto
  then show ?thesis by auto
qed

lemma free_in_map_ok:
  assumes "disk_ok fs" "j + n \<le> 1024" "\<forall>i<32 * j. taken fs b i"
  shows "(free_in_map (read_disk_block fs b) j n = Inr None \<and> (\<forall>i<32 * (j + n). taken fs b i)) \<or>
    (\<exists>j' k. free_in_map (read_disk_block fs b) j n = Inr (Some (j', k)) \<and> j' < j + n \<and> k < 32 \<and>
      \<not> taken fs b (32 * j' + k) \<and> (\<forall>i<32 * j' + k. taken fs b i))"
  using assms(2,3)
proof (induction n arbitrary: j)
  case (Suc n)
  let ?w = "word_at fs b j"
  have g: "get32 (read_disk_block fs b) j = Inr ?w" using Suc.prems by (intro get32_block[OF assms(1)]) simp
  have t: "taken fs b (32 * j + i) \<longleftrightarrow> bit ?w i" if "i < 32" for i using that by (simp add: taken_def)
  show ?case
  proof (cases "\<forall>i<32. bit ?w i")
    case True
    then have "?w = 0xFFFFFFFF" by (simp only: free_bit_full)
    moreover have "\<forall>i<32 * (j + 1). taken fs b i"
      using all_bits_step[of j "taken fs b"] Suc.prems(2) t True by simp
    ultimately show ?thesis using g Suc.prems Suc.IH[of "j + 1"] by simp
  next
    case False
    then have nf: "?w \<noteq> 0xFFFFFFFF" "free_bit ?w \<noteq> None" by (simp_all only: free_bit_full free_bit_None) simp_all
    then obtain k where k: "free_bit ?w = Some k" by blast
    then have kk: "k < 32" "\<not> bit ?w k" "\<forall>i<k. bit ?w i" by (simp_all add: free_bit_iff)
    have "free_in_map (read_disk_block fs b) j (Suc n) = Inr (Some (j, k))" using g nf(1) k by simp
    moreover have "taken fs b i" if "i < 32 * j + k" for i
    proof (cases "i < 32 * j")
      case False
      then have "i = 32 * j + (i - 32 * j)" "i - 32 * j < k" using that by auto
      then show ?thesis using t[of "i - 32 * j"] kk by simp
    qed (use Suc.prems(2) in blast)
    ultimately show ?thesis using kk t[of k] by (intro disjI2 exI[of _ j] exI[of _ k]) auto
  qed
qed simp

text \<open>A word of a bitmap block is changed and the descriptors are written.\<close>

text \<open>Writing a bitmap and the descriptors.\<close>

lemma write_bitmap:
  assumes "disk_ok fs" "bgd_fits (fs\<lparr>BGD := gs\<rparr>)" "length buf = 4096" "unat b < 2 ^ 29" "b \<noteq> 2"
  shows "\<exists>fs1 d. write_disk_block b buf fs = Inr fs1 \<and> BGD fs1 = BGD fs \<and>
    write_bgd (fs1\<lparr>BGD := gs\<rparr>) = Inr (fs\<lparr>BGD := gs, sectors := d\<rparr>) \<and> disk_ok (fs\<lparr>BGD := gs, sectors := d\<rparr>) \<and>
    read_disk_block (fs\<lparr>BGD := gs, sectors := d\<rparr>) b = buf \<and>
    (\<forall>c. unat c < 2 ^ 29 \<and> c \<noteq> 2 \<and> c \<noteq> b \<longrightarrow> read_disk_block (fs\<lparr>BGD := gs, sectors := d\<rparr>) c = read_disk_block fs c)"
proof -
  obtain d1 where d1: "write_disk_block b buf fs = Inr (fs\<lparr>sectors := d1\<rparr>)" "disk_ok (fs\<lparr>sectors := d1\<rparr>)"
    "read_disk_block (fs\<lparr>sectors := d1\<rparr>) b = buf"
    "\<forall>c. unat c < 2 ^ 29 \<and> c \<noteq> b \<longrightarrow> read_disk_block (fs\<lparr>sectors := d1\<rparr>) c = read_disk_block fs c"
    using write_disk_block_ok[OF assms(1) _ assms(4), of buf] assms(3) by auto
  let ?f1 = "fs\<lparr>sectors := d1, BGD := gs\<rparr>"
  have r: "read_disk_block (f\<lparr>BGD := gs\<rparr>) c = read_disk_block f c" for f c by (simp add: read_disk_block_def dev_read_def)
  have "disk_ok ?f1" "bgd_fits ?f1" using d1(2) assms(2) by (simp_all add: disk_ok_def bgd_fits_def)
  from write_bgd_ok[OF this] obtain d where d: "write_bgd ?f1 = Inr (?f1\<lparr>sectors := d\<rparr>)" "disk_ok (?f1\<lparr>sectors := d\<rparr>)"
    "\<forall>c. unat c < 2 ^ 29 \<and> c \<noteq> 2 \<longrightarrow> read_disk_block (?f1\<lparr>sectors := d\<rparr>) c = read_disk_block ?f1 c" by blast
  let ?f2 = "fs\<lparr>BGD := gs, sectors := d\<rparr>"
  have e: "?f1\<lparr>sectors := d\<rparr> = ?f2" by simp
  have "read_disk_block ?f2 b = buf" using d(3) assms(4,5) d1(3) unfolding e r by simp
  moreover have "read_disk_block ?f2 c = read_disk_block fs c" if "unat c < 2 ^ 29" "c \<noteq> 2" "c \<noteq> b" for c
    using d(3) d1(4) that unfolding e r by simp
  ultimately show ?thesis using d1(1) d(1,2) e by (intro exI[of _ "fs\<lparr>sectors := d1\<rparr>"] exI[of _ d]) simp
qed

lemma change_bitmap_word:
  assumes "disk_ok fs" "bgd_fits (fs\<lparr>BGD := gs\<rparr>)" "j < 1024" "unat b < 2 ^ 29" "b \<noteq> 2"
  shows "\<exists>buf fs1 d. put32 (read_disk_block fs b) j v = Inr buf \<and> write_disk_block b buf fs = Inr fs1 \<and> BGD fs1 = BGD fs \<and>
    write_bgd (fs1\<lparr>BGD := gs\<rparr>) = Inr (fs\<lparr>BGD := gs, sectors := d\<rparr>) \<and> disk_ok (fs\<lparr>BGD := gs, sectors := d\<rparr>) \<and>
    word_at (fs\<lparr>BGD := gs, sectors := d\<rparr>) b j = v \<and>
    (\<forall>i<1024. i \<noteq> j \<longrightarrow> word_at (fs\<lparr>BGD := gs, sectors := d\<rparr>) b i = word_at fs b i) \<and>
    (\<forall>c. unat c < 2 ^ 29 \<and> c \<noteq> 2 \<and> c \<noteq> b \<longrightarrow> read_disk_block (fs\<lparr>BGD := gs, sectors := d\<rparr>) c = read_disk_block fs c)"
proof -
  have l: "length (read_disk_block fs b) = 4096" by (rule length_read_disk_block[OF assms(1)])
  obtain buf where b: "put32 (read_disk_block fs b) j v = Inr buf" using l assms(3) by (auto simp: put32_def)
  note g = get32_put32[OF b]
  have "length buf = 4096" using g(3) l by simp
  from write_bitmap[OF assms(1,2) this assms(4,5)] obtain fs1 d where
    w: "write_disk_block b buf fs = Inr fs1" "BGD fs1 = BGD fs" "write_bgd (fs1\<lparr>BGD := gs\<rparr>) = Inr (fs\<lparr>BGD := gs, sectors := d\<rparr>)"
      "disk_ok (fs\<lparr>BGD := gs, sectors := d\<rparr>)" "read_disk_block (fs\<lparr>BGD := gs, sectors := d\<rparr>) b = buf"
      "\<forall>c. unat c < 2 ^ 29 \<and> c \<noteq> 2 \<and> c \<noteq> b \<longrightarrow> read_disk_block (fs\<lparr>BGD := gs, sectors := d\<rparr>) c = read_disk_block fs c" by blast
  let ?f2 = "fs\<lparr>BGD := gs, sectors := d\<rparr>"
  have v: "Inr (word_at ?f2 b i) = get32 buf i" if "i < 1024" for i using get32_block[OF w(4) that, of b] w(5) by simp
  have "word_at ?f2 b j = v" using v[OF assms(3)] g(1) by simp
  moreover have "word_at ?f2 b i = word_at fs b i" if "i < 1024" "i \<noteq> j" for i
    using v[OF that(1)] g(2)[OF that(2)] get32_block[OF assms(1) that(1), of b] by simp
  ultimately show ?thesis using b w by blast
qed

lemma bit_index: "k < 32 \<Longrightarrow> i = 32 * j + k \<longleftrightarrow> i div 32 = j \<and> i mod 32 = k" for i :: nat
  by (metis div_mult_mod_eq div_mult_self4 add.commute mod_less mod_mult_self4 div_less add_cancel_right_left mult.commute zero_neq_numeral)

lemma set_bit_word: "k < 32 \<Longrightarrow> bit (w OR push_bit k 1 :: u32) i \<longleftrightarrow> bit w i \<or> i = k"
  by (auto simp: bit_or_iff bit_exp_iff)

lemma clear_bit_word: "k < 32 \<Longrightarrow> bit (w AND NOT (push_bit k 1) :: u32) i \<longleftrightarrow> bit w i \<and> i \<noteq> k"
  by (auto simp: bit_and_iff bit_not_iff bit_exp_iff dest: bit_imp_le_length)

definition groups_ok :: "(block_group_descriptor \<Rightarrow> u32) \<Rightarrow> ext2 \<Rightarrow> bool" where
  "groups_ok bitmap fs \<longleftrightarrow> bgd_fits fs \<and> (\<forall>g\<in>set (BGD fs). unat (bitmap g) < 2 ^ 29 \<and> bitmap g \<noteq> 2)"

text \<open>The group \<open>g\<close> has nothing to give: it says so, or its bitmap is full.\<close>

definition group_full :: "(block_group_descriptor \<Rightarrow> u16) \<Rightarrow> (block_group_descriptor \<Rightarrow> u32) \<Rightarrow> ext2 \<Rightarrow> nat \<Rightarrow> bool" where
  "group_full count bitmap fs g \<longleftrightarrow> count (BGD fs ! g) = 0 \<or> (\<forall>i<32768. taken fs (bitmap (BGD fs ! g)) i)"

text \<open>The bit \<open>i\<close> of group \<open>g\<close> was free and is taken, and nothing else on the disk has changed but block 2.\<close>

definition took :: "(block_group_descriptor \<Rightarrow> u32) \<Rightarrow> (block_group_descriptor \<Rightarrow> block_group_descriptor) \<Rightarrow>
    nat \<Rightarrow> nat \<Rightarrow> ext2 \<Rightarrow> ext2 \<Rightarrow> bool" where
  "took bitmap upd g i fs fs' \<longleftrightarrow>
     (let b = bitmap (BGD fs ! g)
      in i < 32768 \<and> \<not> taken fs b i \<and> (\<forall>k<i. taken fs b k) \<and> (\<forall>k<32768. taken fs' b k \<longleftrightarrow> k = i \<or> taken fs b k) \<and>
         (\<forall>c. unat c < 2 ^ 29 \<and> c \<noteq> 2 \<and> c \<noteq> b \<longrightarrow> read_disk_block fs' c = read_disk_block fs c) \<and>
         BGD fs' = (BGD fs)[g := upd (BGD fs ! g)] \<and> disk_ok fs')"

lemma take_bit_of_ok:
  assumes "disk_ok fs" "groups_ok bitmap fs" "g < length (BGD fs)" "j < 1024" "k < 32"
    and "\<not> taken fs (bitmap (BGD fs ! g)) (32 * j + k)" "\<forall>i<32 * j + k. taken fs (bitmap (BGD fs ! g)) i"
    and "\<And>x. bg_reserved (upd x) = bg_reserved x"
  shows "\<exists>fs'. take_bit_of upd (bitmap (BGD fs ! g)) (read_disk_block fs (bitmap (BGD fs ! g))) g j k fs = Inr fs' \<and>
    took bitmap upd g (32 * j + k) fs fs'"
proof -
  let ?b = "bitmap (BGD fs ! g)" and ?gs = "(BGD fs)[g := upd (BGD fs ! g)]"
  have "bgd_fits (fs\<lparr>BGD := ?gs\<rparr>)"
    using assms(2,3,8) by (auto simp: groups_ok_def bgd_fits_def dest!: set_update_subset_insert[THEN subsetD])
  moreover have "unat ?b < 2 ^ 29" "?b \<noteq> 2" using assms(2,3) by (simp_all add: groups_ok_def)
  ultimately obtain buf fs1 d where c: "put32 (read_disk_block fs ?b) j (word_at fs ?b j OR push_bit k 1) = Inr buf"
    "write_disk_block ?b buf fs = Inr fs1" "BGD fs1 = BGD fs"
    "write_bgd (fs1\<lparr>BGD := ?gs\<rparr>) = Inr (fs\<lparr>BGD := ?gs, sectors := d\<rparr>)" "disk_ok (fs\<lparr>BGD := ?gs, sectors := d\<rparr>)"
    "word_at (fs\<lparr>BGD := ?gs, sectors := d\<rparr>) ?b j = word_at fs ?b j OR push_bit k 1"
    "\<forall>i<1024. i \<noteq> j \<longrightarrow> word_at (fs\<lparr>BGD := ?gs, sectors := d\<rparr>) ?b i = word_at fs ?b i"
    "\<forall>c. unat c < 2 ^ 29 \<and> c \<noteq> 2 \<and> c \<noteq> ?b \<longrightarrow> read_disk_block (fs\<lparr>BGD := ?gs, sectors := d\<rparr>) c = read_disk_block fs c"
    using change_bitmap_word[OF assms(1) _ assms(4)] by metis
  let ?fs = "fs\<lparr>BGD := ?gs, sectors := d\<rparr>"
  have "take_bit_of upd ?b (read_disk_block fs ?b) g j k fs = Inr ?fs"
    using c(1-4) get32_block[OF assms(1,4)] by (simp add: take_bit_of_def)
  moreover have "taken ?fs ?b i \<longleftrightarrow> i = 32 * j + k \<or> taken fs ?b i" if "i < 32768" for i
  proof -
    have "i div 32 < 1024" using that by (simp add: div_less_iff_less_mult)
    then show ?thesis using c(6,7) set_bit_word[OF assms(5)] unfolding bit_index[OF assms(5)] taken_def by (cases "i div 32 = j") auto
  qed
  ultimately show ?thesis using c(5,8) assms(4-7) unfolding took_def Let_def by simp
qed

text \<open>What the search over the groups from \<open>g\<close> to \<open>m\<close> gives: the first free bit of the first group that has one, or -1.\<close>

definition alloc_spec :: "(block_group_descriptor \<Rightarrow> u16) \<Rightarrow> (block_group_descriptor \<Rightarrow> u32) \<Rightarrow>
    (block_group_descriptor \<Rightarrow> block_group_descriptor) \<Rightarrow> u32 \<Rightarrow> ext2 \<Rightarrow> nat \<Rightarrow> nat \<Rightarrow> (u32 \<times> ext2) result \<Rightarrow> bool" where
  "alloc_spec count bitmap upd per_group fs g m r \<longleftrightarrow>
     r = Inr (- 1, fs) \<and> (\<forall>h\<in>{g..<m}. group_full count bitmap fs h) \<or>
     (\<exists>h\<in>{g..<m}. \<exists>i fs'. r = Inr (of_nat h * per_group + of_nat i, fs') \<and> count (BGD fs ! h) \<noteq> 0 \<and>
        (\<forall>h'\<in>{g..<h}. group_full count bitmap fs h') \<and> took bitmap upd h i fs fs')"

lemma alloc_spec_Suc:
  assumes "alloc_spec count bitmap upd per_group fs (Suc g) m r" "group_full count bitmap fs g"
  shows "alloc_spec count bitmap upd per_group fs g m r"
proof -
  have f: "\<forall>h\<in>{g..<k}. group_full count bitmap fs h" if "\<forall>h\<in>{Suc g..<k}. group_full count bitmap fs h" for k
  proof
    fix h assume "h \<in> {g..<k}"
    then show "group_full count bitmap fs h" using that assms(2) by (cases "h = g") auto
  qed
  from assms(1) show ?thesis unfolding alloc_spec_def
  proof (elim disjE conjE bexE exE)
    assume "r = Inr (- 1, fs)" "\<forall>h\<in>{Suc g..<m}. group_full count bitmap fs h"
    then show "r = Inr (- 1, fs) \<and> (\<forall>h\<in>{g..<m}. group_full count bitmap fs h) \<or>
     (\<exists>h\<in>{g..<m}. \<exists>i fs'. r = Inr (of_nat h * per_group + of_nat i, fs') \<and> count (BGD fs ! h) \<noteq> 0 \<and>
        (\<forall>h'\<in>{g..<h}. group_full count bitmap fs h') \<and> took bitmap upd h i fs fs')" using f by blast
  next
    fix h i fs'
    assume h: "h \<in> {Suc g..<m}" "r = Inr (of_nat h * per_group + of_nat i, fs')" "count (BGD fs ! h) \<noteq> 0"
      "\<forall>h'\<in>{Suc g..<h}. group_full count bitmap fs h'" "took bitmap upd h i fs fs'"
    moreover have "h \<in> {g..<m}" using h(1) by simp
    ultimately show "r = Inr (- 1, fs) \<and> (\<forall>h\<in>{g..<m}. group_full count bitmap fs h) \<or>
     (\<exists>h\<in>{g..<m}. \<exists>i fs'. r = Inr (of_nat h * per_group + of_nat i, fs') \<and> count (BGD fs ! h) \<noteq> 0 \<and>
        (\<forall>h'\<in>{g..<h}. group_full count bitmap fs h') \<and> took bitmap upd h i fs fs')" using f[OF h(4)] by blast
  qed
qed

lemma alloc_from_ok:
  assumes "disk_ok fs" "groups_ok bitmap fs" "g + n \<le> length (BGD fs)" "\<And>x. bg_reserved (upd x) = bg_reserved x"
  shows "alloc_spec count bitmap upd per_group fs g (g + n) (alloc_from count bitmap upd per_group g n fs)"
  using assms(3)
proof (induction n arbitrary: g)
  case 0
  then show ?case by (simp add: alloc_spec_def)
next
  case (Suc n)
  let ?b = "bitmap (BGD fs ! g)"
  have gr: "group_of fs g = Inr (BGD fs ! g)" using Suc.prems by (simp add: group_of_def)
  have skip: "alloc_spec count bitmap upd per_group fs g (g + Suc n) (alloc_from count bitmap upd per_group g (Suc n) fs)"
    if "alloc_from count bitmap upd per_group g (Suc n) fs = alloc_from count bitmap upd per_group (g + 1) n fs" "group_full count bitmap fs g"
    using alloc_spec_Suc[OF _ that(2)] Suc.IH[of "Suc g"] Suc.prems that(1) by simp
  show ?case
  proof (cases "count (BGD fs ! g) = 0")
    case True
    then show ?thesis using gr by (intro skip) (simp_all add: group_full_def)
  next
    case False
    have nb: "unat (block_size fs div 4) = 1024" using assms(1) by (simp add: disk_ok_def)
    consider (full) "free_in_map (read_disk_block fs ?b) 0 1024 = Inr None" "\<forall>i<32768. taken fs ?b i"
      | (free) j k where "free_in_map (read_disk_block fs ?b) 0 1024 = Inr (Some (j, k))" "j < 1024" "k < 32"
          "\<not> taken fs ?b (32 * j + k)" "\<forall>i<32 * j + k. taken fs ?b i"
      using free_in_map_ok[OF assms(1), of 0 1024 ?b] by auto
    then show ?thesis
    proof cases
      case full
      then show ?thesis using gr False nb by (intro skip) (simp_all add: group_full_def)
    next
      case free
      obtain fs' where f: "take_bit_of upd ?b (read_disk_block fs ?b) g j k fs = Inr fs'" "took bitmap upd g (32 * j + k) fs fs'"
        using take_bit_of_ok[OF assms(1,2) _ free(2-5) assms(4)] Suc.prems by auto
      then have "alloc_from count bitmap upd per_group g (Suc n) fs = Inr (of_nat g * per_group + of_nat (32 * j + k), fs')"
        using gr False nb free(1) by (simp add: mult.commute add.assoc)
      moreover have "g \<in> {g..<g + Suc n}" by simp
      ultimately show ?thesis using f(2) False unfolding alloc_spec_def by (metis atLeastLessThan_empty ball_empty order_refl)
    qed
  qed
qed

text \<open>The contract of \<^verbatim>\<open>alloc_inode\<close>.\<close>

lemma alloc_inode_first_free:
  assumes "disk_ok fs" "groups_ok inode_bitmap_addr fs" "unat (n_groups fs) \<le> length (BGD fs)"
  shows "alloc_spec n_unalloc_inodes inode_bitmap_addr dec_inodes (inodes_per_group fs) fs 0 (unat (n_groups fs)) (alloc_inode fs)"
  unfolding alloc_inode_def
  using alloc_from_ok[OF assms(1,2), of 0 "unat (n_groups fs)" dec_inodes] assms(3) by (simp add: dec_inodes_def)

text \<open>Releasing number \<open>n\<close> with index \<open>r\<close> in its group clears bit \<open>32 (r div 4) + r mod 4\<close>; from 4096 on there is no such
  bit, and from 16384 on the word is behind the buffer.\<close>

lemma release_clears:
  assumes "disk_ok fs" "groups_ok bitmap fs" "\<And>x. bg_reserved (upd x) = bg_reserved x"
    and "per_group \<noteq> 0" "g = unat n div unat per_group" "r = unat n mod unat per_group" "g < length (BGD fs)"
  shows "r < 16384 \<Longrightarrow> \<exists>fs'. release bitmap upd per_group n fs = Inr fs' \<and>
      (\<forall>i<32768. taken fs' (bitmap (BGD fs ! g)) i \<longleftrightarrow> taken fs (bitmap (BGD fs ! g)) i \<and> i \<noteq> 32 * (r div 4) + r mod 4)"
    and "16384 \<le> r \<Longrightarrow> release bitmap upd per_group n fs = Inl OutOfBounds"
proof -
  let ?b = "bitmap (BGD fs ! g)" and ?gs = "(BGD fs)[g := upd (BGD fs ! g)]" and ?j = "r div 4" and ?k = "r mod 4"
  have "n - per_group * (n div per_group) = n mod per_group" by (simp add: minus_mult_div_eq_mod)
  then have ix: "unat (n div per_group) = g" "unat ((n - per_group * (n div per_group)) div 4) = ?j"
    "unat ((n - per_group * (n div per_group)) mod 4) = ?k"
    using assms(5,6) by (simp_all add: unat_div unat_mod)
  have bs: "unat (block_size fs) = 4096" using assms(1) by (simp add: disk_ok_def)
  have l: "length (read_disk_block fs ?b) = 4096" by (rule length_read_disk_block[OF assms(1)])
  have k: "?k < 32" by (auto intro: less_trans[of _ 4])
  have fit: "bgd_fits (fs\<lparr>BGD := ?gs\<rparr>)"
    using assms(2,3,7) by (auto simp: groups_ok_def bgd_fits_def dest!: set_update_subset_insert[THEN subsetD])
  have b: "unat ?b < 2 ^ 29" "?b \<noteq> 2" using assms(2,7) by (simp_all add: groups_ok_def)
  note unf = release_def Let_def ix bs
  show "\<exists>fs'. release bitmap upd per_group n fs = Inr fs' \<and>
      (\<forall>i<32768. taken fs' ?b i \<longleftrightarrow> taken fs ?b i \<and> i \<noteq> 32 * ?j + ?k)" if "r < 16384"
  proof (cases "r < 4096")
    case True
    then have j: "?j < 1024" by (simp add: div_less_iff_less_mult)
    obtain buf fs1 d where c: "put32 (read_disk_block fs ?b) ?j (word_at fs ?b ?j AND NOT (push_bit ?k 1)) = Inr buf"
      "write_disk_block ?b buf fs = Inr fs1" "BGD fs1 = BGD fs"
      "write_bgd (fs1\<lparr>BGD := ?gs\<rparr>) = Inr (fs\<lparr>BGD := ?gs, sectors := d\<rparr>)"
      "word_at (fs\<lparr>BGD := ?gs, sectors := d\<rparr>) ?b ?j = word_at fs ?b ?j AND NOT (push_bit ?k 1)"
      "\<forall>i<1024. i \<noteq> ?j \<longrightarrow> word_at (fs\<lparr>BGD := ?gs, sectors := d\<rparr>) ?b i = word_at fs ?b i"
      using change_bitmap_word[OF assms(1) fit j b] by metis
    let ?fs = "fs\<lparr>BGD := ?gs, sectors := d\<rparr>"
    have "release bitmap upd per_group n fs = Inr ?fs"
      using c(1-4) get32_block[OF assms(1) j] assms(7) l j unfolding unf by (simp add: group_of_def)
    moreover have "taken ?fs ?b i \<longleftrightarrow> taken fs ?b i \<and> i \<noteq> 32 * ?j + ?k" if i: "i < 32768" for i
    proof -
      have "i div 32 < 1024" using i by (simp add: div_less_iff_less_mult)
      then show ?thesis using c(5,6) clear_bit_word[OF k] unfolding bit_index[OF k] taken_def by (cases "i div 32 = ?j") auto
    qed
    ultimately show ?thesis by blast
  next
    case False
    then have j: "1024 \<le> ?j" "?j < 4096" using that by (simp_all add: div_less_iff_less_mult less_eq_div_iff_mult_less_eq)
    obtain fs1 d where c: "write_disk_block ?b (read_disk_block fs ?b) fs = Inr fs1" "BGD fs1 = BGD fs"
      "write_bgd (fs1\<lparr>BGD := ?gs\<rparr>) = Inr (fs\<lparr>BGD := ?gs, sectors := d\<rparr>)"
      "read_disk_block (fs\<lparr>BGD := ?gs, sectors := d\<rparr>) ?b = read_disk_block fs ?b"
      using write_bitmap[OF assms(1) fit l b] by blast
    have "release bitmap upd per_group n fs = Inr (fs\<lparr>BGD := ?gs, sectors := d\<rparr>)"
      using c(1-3) assms(7) l j unfolding unf by (simp add: group_of_def)
    moreover have "32768 \<le> 32 * ?j + ?k" using j by linarith
    ultimately show ?thesis using c(4) by (auto simp: taken_def word_at_def)
  qed
  show "release bitmap upd per_group n fs = Inl OutOfBounds" if "16384 \<le> r"
  proof -
    have "4096 \<le> ?j" using that by (simp add: less_eq_div_iff_mult_less_eq)
    then show ?thesis using assms(7) l unfolding unf by (simp add: group_of_def get32_def)
  qed
qed

section \<open>Inodes\<close>

lemma slice_skip: "length xs \<le> a \<Longrightarrow> slice a n (xs @ ys) = slice (a - length xs) n ys"
  by (simp add: slice_def)

lemma slice_head: "n = length xs \<Longrightarrow> slice 0 n (xs @ ys) = xs"
  by (simp add: slice_def)

lemma length_words: "length (concat (map (le_bytes n) ws)) = n * length ws"
  by (induction ws) simp_all

lemma slice_words: "i < length ws \<Longrightarrow> slice (4 * i) 4 (concat (map (le_bytes 4) ws) @ ys) = le_bytes 4 (ws ! i)"
proof (induction ws arbitrary: i)
  case (Cons w ws)
  then show ?case by (cases i) (auto simp: slice_head slice_skip)
qed simp

lemmas le_word_le_bytes_len = le_word_le_bytes[where 'a = 16 and n = 2, simplified] le_word_le_bytes[where 'a = 32 and n = 4, simplified]

lemma inode_of_bytes_inode_bytes:
  assumes "length (blocks n) = 15" "length (OS_Val_2 n) = 12"
  shows "inode_of_bytes (inode_bytes n) = n" "length (inode_bytes n) = 128"
proof -
  have "map (\<lambda>i. le_word (slice (40 + 4 * i) 4 (inode_bytes n))) [0..<15] = map (\<lambda>i. blocks n ! i) [0..<length (blocks n)]"
    unfolding assms(1)
    by (intro map_cong refl) (use assms in \<open>simp add: inode_bytes_def slice_skip slice_words le_word_le_bytes_len\<close>)
  then have b: "map (\<lambda>i. le_word (slice (40 + 4 * i) 4 (inode_bytes n))) [0..<15] = blocks n" by (simp only: map_nth)
  show "length (inode_bytes n) = 128" using assms by (simp add: inode_bytes_def length_words)
  show "inode_of_bytes (inode_bytes n) = n" unfolding inode_of_bytes_def b
    using assms by (simp add: inode_bytes_def slice_skip slice_head le_word_le_bytes_len length_words) (simp add: slice_def)
qed

lemma unat_ucast_u32: "unat (ucast w :: u32) = unat w" for w :: u16
proof -
  have "unat w < 2 ^ 32" using unsigned_less[of w, where 'a = nat] by simp
  then show ?thesis by (simp add: unsigned_ucast_eq take_bit_nat_eq_self)
qed

text \<open>With inodes of 128 bytes there are 32 in a block, but only the first sector of the block is read.\<close>

lemma read_first_sector:
  assumes "disk_ok fs"
  shows "dev_read fs 1 (start_block fs + b * 8) = take 512 (read_disk_block fs b)"
proof -
  have l: "length (sectors fs s) = 512" for s using assms by (simp add: disk_ok_def)
  have "[0..<unat (8 :: u32)] = 0 # [1..<8]" by (simp add: upt_conv_Cons)
  then show ?thesis by (simp add: read_disk_block_def dev_read_def l mult.commute)
qed

lemma slice_take: "a + n \<le> m \<Longrightarrow> slice a n (take m xs) = slice a n xs"
  by (simp add: slice_def drop_take)

lemma read_inode_metadata_first_sector:
  assumes "disk_ok fs" "inode_size fs = 128" "length (blocks inode) = 15" "length (OS_Val_2 inode) = 12"
    and "group_of fs (unat (index - 1) div unat (inodes_per_group fs)) = Inr g"
    and "idx = unat (index - 1) mod unat (inodes_per_group fs)" "idx < 2 ^ 25"
  shows "read_inode_metadata index inode fs =
    (if idx mod 32 < 4 then Inr (inode_of_bytes (slice (128 * (idx mod 32)) 128 (read_disk_block fs (inode_table_addr g + of_nat (idx div 32)))))
     else Inl OutOfBounds)"
proof -
  let ?i = "(index - 1) mod inodes_per_group fs"
  have bs: "block_size fs = 4096" using assms(1) by (simp add: disk_ok_def)
  have ui: "unat ?i = idx" using assms(6) by (simp add: unat_mod)
  have m: "unat (?i * 128) = 128 * idx" using assms(7) ui by (simp add: unat_word_ariths)
  have q: "?i * 128 div 4096 = of_nat (idx div 32)"
  proof (rule word_unat_eq_iff[THEN iffD2])
    show "unat (?i * 128 div 4096) = unat (of_nat (idx div 32) :: u32)"
      using assms(7) by (simp only: unat_div m) (simp add: unat_of_nat)
  qed
  have "128 * idx mod (128 * 32) = 128 * (idx mod 32)" by (rule mult_mod_right[symmetric])
  then have o': "unat (?i * 128 mod 4096) = 128 * (idx mod 32)" by (simp only: unat_mod m) simp
  have l: "length (take 512 (read_disk_block fs b)) = 512" for b using assms(1) by (simp add: length_read_disk_block)
  have ow: "overwrite 0 ys (inode_bytes inode) = ys" if "length ys = 128" for ys
    using that inode_of_bytes_inode_bytes(2)[OF assms(3,4)] by (simp add: overwrite_def)
  have "idx mod 32 < 4 \<longleftrightarrow> \<not> 512 < 128 * (idx mod 32) + 128" by auto
  moreover have "slice (128 * (idx mod 32)) 128 (take 512 xs) = slice (128 * (idx mod 32)) 128 xs" if "idx mod 32 < 4" for xs :: "u8 list"
    using that by (intro slice_take) simp
  moreover have "(ucast (128 :: u16) :: u32) = 128" "128 div 512 + 1 = (1 :: u32)" by simp_all
  ultimately show ?thesis using assms(5) ow length_slice[of "128 * (idx mod 32)" 128 "read_disk_block fs b" for b]
    by (auto simp: read_inode_metadata_def inode_table_of_def Let_def assms(2) bs q o' unat_div l read_first_sector[OF assms(1)]
        length_read_disk_block[OF assms(1)] simp del: distrib_right_numeral)
qed


section \<open>Files\<close>

lemma length_inode_blocks: "length (blocks (inode_of_bytes bs)) = 15"
  by (simp add: inode_of_bytes_def)

section \<open>An example\<close>

text \<open>A file system of one group: the bitmaps are blocks 3 and 4, the inode table is block 5, and inode 2 is a file of
  five bytes in block 7 with an indirect block 9.\<close>

definition example_group :: block_group_descriptor where
  "example_group = \<lparr>block_bitmap_addr = 3, inode_bitmap_addr = 4, inode_table_addr = 5, n_unalloc_blocks = 10,
     n_unalloc_inodes = 10, n_dir = 1, pad1 = 0, bg_reserved = replicate 12 0\<rparr>"

definition example_inode :: inode_base where
  "example_inode = \<lparr>inode_type_perm = 0x8000, user_ID = 0, size_lower = 5, last_access_time = 0, creation_time = 0,
     last_mod_time = 0, deletion_time = 0, group_ID = 0, n_hard_links = 1, n_sectors = 8, flags = 0, OS_Val_1 = 0,
     blocks = [7, 0, 0, 0, 0, 0, 0, 0, 0, 0, 0, 0, 9, 0, 0], gen_num = 0, ext_attr_block = 0, f_size_dir_acl = 0,
     frag_block_addr = 0, OS_Val_2 = replicate 12 0\<rparr>"

definition example_fs :: ext2 where
  "example_fs = \<lparr>sectors = (\<lambda>s. if s = 40 then replicate 128 0 @ inode_bytes example_inode @ replicate 256 0 else replicate 512 0),
     inode_size = 128, BGD = [example_group], start_block = 0, block_size = 4096, blocks_per_group = 32768,
     inodes_per_group = 32768, n_groups = 1, bgd_blocks = 0\<rparr>"

lemma example_inode_ok: "length (blocks example_inode) = 15" "length (OS_Val_2 example_inode) = 12"
  by (simp_all add: example_inode_def)

lemma example_disk_ok: "disk_ok example_fs"
  by (simp add: disk_ok_def example_fs_def inode_of_bytes_inode_bytes(2) example_inode_ok)

lemma example_groups_ok: "groups_ok block_bitmap_addr example_fs"
  by (simp add: groups_ok_def bgd_fits_def example_fs_def example_group_def)

lemma example_values:
  "blocks_per_group example_fs = 32768" "length (BGD example_fs) = 1" "block_bitmap_addr (BGD example_fs ! 0) = 3"
  by (simp_all add: example_fs_def example_group_def)

lemma example_inode_read: "inode_of_bytes (slice 128 128 (read_disk_block example_fs 5)) = example_inode"
proof -
  note l = inode_of_bytes_inode_bytes[OF example_inode_ok]
  have "read_disk_block example_fs 5 = sectors example_fs 40 @ concat (map (\<lambda>i. sectors example_fs (40 + of_nat i)) [1..<8])"
    by (simp add: read_disk_block_def dev_read_def upt_conv_Cons example_fs_def)
  then have "slice 128 128 (read_disk_block example_fs 5) = inode_bytes example_inode"
    using l(2) by (simp add: example_fs_def slice_skip slice_head)
  then show ?thesis using l(1) by simp
qed

section \<open>The properties\<close>

text \<open>C25: Changing the number of a block of a file and reading it back, when all the blocks on the way to it exist: no
  pointer on the path of indices is 0, and the blocks it visits are different. For every block index below the capacity
  of the block map, except the three first indices of the indirect ranges, \<^verbatim>\<open>set_disk_block_number\<close> then returns,
  \<^verbatim>\<open>get_disk_block_number\<close> returns the new number afterwards, and no block off the path with a number below \<open>2 ^ 29\<close> has changed (blocks of 4096 bytes).\<close>

theorem set_then_get_block_number:
  assumes "disk_ok fs" "length (blocks inode) = 15" "unat n < max_blocks" "unat n \<notin> {12, 1036, 1049612}"
    and "block_path (unat n) = (i, is)" "path_ok fs (blocks inode ! i) is"
  shows "\<exists>inode' fs'. set_disk_block_number index n v inode fs = Inr (inode', fs') \<and>
    get_disk_block_number inode' n fs' = Inr v \<and> disk_ok fs' \<and>
    (\<forall>c. unat c < 2 ^ 29 \<and> c \<notin> set (path_blocks fs (blocks inode ! i) is) \<longrightarrow> read_disk_block fs' c = read_disk_block fs c)"
proof (cases "unat n < 12")
  case True
  have "sint (n - 12) = int (unat n) - 12" using True by (subst sint_sub) auto
  then have "sint (n - 12) \<le> 0" using True by linarith
  then have "set_disk_block_number index n v inode fs = Inr (inode\<lparr>blocks := (blocks inode)[unat n := v]\<rparr>, fs)"
    using True assms(2) by (simp add: set_disk_block_number_def Let_def)
  moreover have "get_disk_block_number (inode\<lparr>blocks := (blocks inode)[unat n := v]\<rparr>) n fs = Inr v"
    using True assms(1-3) by (subst get_disk_block_number_follows) (auto simp: file_block_def block_path_def)
  ultimately show ?thesis using assms(1) by blast
next
  case False
  note ix = block_path_index[OF assms(5,3)]
  have ne: "is \<noteq> []" using False ix(3) by simp
  let ?ps = "path_blocks fs (blocks inode ! i) is"
  let ?m = "last ?ps"
  have m: "?m \<in> set ?ps" by (rule path_blocks_last[OF ne])
  have b: "unat b < 2 ^ 29" if "b \<in> set ?ps" for b using that assms(6) by (simp add: path_ok_def)
  have k: "last is < 1024" using ix(2) ne by simp
  obtain d where d: "set_in_block ?m (last is) v fs = Inr (fs\<lparr>sectors := d\<rparr>)" "disk_ok (fs\<lparr>sectors := d\<rparr>)"
    "word_at (fs\<lparr>sectors := d\<rparr>) ?m (last is) = v"
    and other: "\<And>c. unat c < 2 ^ 29 \<Longrightarrow> c \<noteq> ?m \<Longrightarrow> read_disk_block (fs\<lparr>sectors := d\<rparr>) c = read_disk_block fs c"
    using set_in_block_ok[OF assms(1) k b[OF m], of v] by blast
  have "12 < unat n" using False assms(4) by fastforce
  then have s: "set_disk_block_number index n v inode fs = Inr (inode, fs\<lparr>sectors := d\<rparr>)"
    using assms(4) d(1) by (subst set_disk_block_number_writes[OF assms(1-3) _ _ assms(5,6)]) auto
  have "follow (fs\<lparr>sectors := d\<rparr>) (blocks inode ! i) is = v"
  proof (rule follow_update[OF _ ne d(3)])
    show "\<forall>c\<in>set (butlast ?ps). \<forall>j. word_at (fs\<lparr>sectors := d\<rparr>) c j = word_at fs c j"
    proof (intro ballI allI)
      fix c j assume c: "c \<in> set (butlast ?ps)"
      have "c \<noteq> ?m" using assms(6) c by (intro last_notin_butlast) (simp_all add: path_ok_def)
      then show "word_at (fs\<lparr>sectors := d\<rparr>) c j = word_at fs c j"
        using other b[OF in_set_butlastD[OF c]] by (simp add: word_at_def)
    qed
  qed
  then have "get_disk_block_number inode n (fs\<lparr>sectors := d\<rparr>) = Inr v"
    using get_disk_block_number_follows[OF d(2) assms(2,3)] assms(5) by (simp add: file_block_def)
  moreover have "c \<noteq> ?m" if "c \<notin> set ?ps" for c using m that by metis
  ultimately show ?thesis using s d(2) other by blast
qed

theorem set_then_get_block_number_witness:
  "\<exists>inode' fs'. set_disk_block_number 2 13 77 example_inode example_fs = Inr (inode', fs') \<and>
    get_disk_block_number inode' 13 fs' = Inr 77 \<and> disk_ok fs' \<and>
    (\<forall>c. unat c < 2 ^ 29 \<and> c \<notin> set (path_blocks example_fs (blocks example_inode ! 12) [1]) \<longrightarrow>
       read_disk_block fs' c = read_disk_block example_fs c)"
  by (rule set_then_get_block_number[OF example_disk_ok example_inode_ok(1)])
    (simp_all add: max_blocks_def block_path_def path_ok_def example_inode_def)

text \<open>C26: Reading a file, with blocks of 4096 bytes, inodes of 128 bytes and a range that ends below \<open>2 ^ 32\<close>. One inode in eight lies in the first sector of its block of the inode table (those with an index in
  the table of 0 to 3 modulo 32). For a file with such an inode and an offset within the file, \<^verbatim>\<open>ext2_read\<close> returns
  exactly the bytes of the file from the offset to the smaller of offset plus size and the size of the file: byte
  \<open>i\<close> of the file is byte \<open>i mod 4096\<close> of the block that the path of indices of block \<open>i div 4096\<close> leads to. The result is
  the size that was asked for even when less is there. With an offset behind the end of the file it copies nothing, or,
  in the last block, a length that wraps, and for every other inode it copies from behind the sector it has read.\<close>

theorem ext2_read_reads_file:
  assumes "disk_ok fs" "inode_size fs = 128" "length (blocks mem) = 15" "length (OS_Val_2 mem) = 12"
    and "group_of fs (unat (index - 1) div unat (inodes_per_group fs)) = Inr g"
    and "idx = unat (index - 1) mod unat (inodes_per_group fs)" "idx < 2 ^ 25"
    and "inode = inode_of_bytes (slice (128 * (idx mod 32)) 128 (read_disk_block fs (inode_table_addr g + of_nat (idx div 32))))"
    and "unat offset + unat n < 2 ^ 32"
  shows "ext2_read index offset n mem fs =
    (if idx mod 32 < 4
     then (if offset \<le> size_lower inode
           then Inr (n, map (file_byte fs inode) [unat offset..<min (unat offset + unat n) (unat (size_lower inode))])
           else if unat offset div 4096 = unat (size_lower inode) div 4096 then Inl OutOfBounds else Inr (n, []))
     else Inl OutOfBounds)"
  using read_inode_metadata_first_sector[OF assms(1-7)] read_inode_filedata_reads[OF assms(1) _ _ assms(9), of inode]
    read_inode_filedata_beyond[OF assms(1) _ _ assms(9), of inode] assms(8)
  by (auto simp: ext2_read_def length_inode_blocks not_le)

theorem ext2_read_reads_file_witness:
  "ext2_read 2 1 10 example_inode example_fs = Inr (10, map (file_byte example_fs example_inode) [1..<5])"
proof -
  have "inode_size example_fs = 128" "unat (2 - 1 :: u32) = 1" "unat (inodes_per_group example_fs) = 32768"
    "group_of example_fs 0 = Inr example_group" "inode_table_addr example_group = 5"
    by (simp_all add: example_fs_def example_group_def group_of_def)
  note e = this
  have i: "example_inode = inode_of_bytes (slice (128 * (1 mod 32)) 128 (read_disk_block example_fs (inode_table_addr example_group + of_nat (1 div 32))))"
    using example_inode_read e(5) by simp
  have gr: "group_of example_fs (unat (2 - 1 :: u32) div unat (inodes_per_group example_fs)) = Inr example_group"
    and ix: "(1 :: nat) = unat (2 - 1 :: u32) mod unat (inodes_per_group example_fs)"
    using e(3,4) unfolding e(2) by simp_all
  have "(1 :: nat) < 2 ^ 25" "unat (1 :: u32) + unat (10 :: u32) < 2 ^ 32" "(1 :: u32) \<le> size_lower example_inode"
    by (simp_all add: example_inode_def)
  from ext2_read_reads_file[OF example_disk_ok e(1) example_inode_ok gr ix this(1) i this(2)] this(3)
  show ?thesis by (simp add: example_inode_def)
qed

text \<open>C27: \<^verbatim>\<open>ext2_alloc_block\<close> takes the first free block of the first group that has one: the bit was clear, every
  bit before it and every group before it is full, it is set now and no other bit of the bitmap changes, the free
  count of the group goes down by one, no block but the bitmap and block 2 (the descriptors) is written, and the
  number returned is that of the bit. When no group has a free block the result is -1 and nothing changes.\<close>

theorem ext2_alloc_block_first_free:
  assumes "disk_ok fs" "groups_ok block_bitmap_addr fs" "unat (n_groups fs) \<le> length (BGD fs)"
  shows "alloc_spec n_unalloc_blocks block_bitmap_addr dec_blocks (blocks_per_group fs) fs 0 (unat (n_groups fs)) (ext2_alloc_block fs)"
  unfolding ext2_alloc_block_def
  using alloc_from_ok[OF assms(1,2), of 0 "unat (n_groups fs)" dec_blocks] assms(3) by (simp add: dec_blocks_def)

theorem ext2_alloc_block_first_free_witness:
  "alloc_spec n_unalloc_blocks block_bitmap_addr dec_blocks 32768 example_fs 0 1 (ext2_alloc_block example_fs)"
proof -
  have "unat (n_groups example_fs) = 1" "length (BGD example_fs) = 1" "blocks_per_group example_fs = 32768"
    by (simp_all add: example_fs_def)
  then show ?thesis using ext2_alloc_block_first_free[OF example_disk_ok example_groups_ok] by simp
qed

text \<open>C28: \<^verbatim>\<open>ext2_free_block\<close> does not release the block it is given: it divides the index \<open>r\<close> in the group by 4 instead of 32.
  In a group of at most 32768 blocks (of 4096 bytes; the bitmap is not block 2, where the descriptors
  go), for an index from 4 to 16383 the only bit of the bitmap that is cleared is \<open>32 * (r div 4) + r mod 4\<close>, another one, and
  from 4096 on there is none, so nothing is released; the bit of the block itself keeps its value. From 16384 on the
  word that is changed lies behind the buffer.\<close>

theorem ext2_free_block_wrong_bit:
  assumes "disk_ok fs" "groups_ok block_bitmap_addr fs" "blocks_per_group fs \<noteq> 0"
    and "g = unat n div unat (blocks_per_group fs)" "r = unat n mod unat (blocks_per_group fs)" "g < length (BGD fs)" "4 \<le> r" "r < 32768"
  shows "if r < 16384
    then \<exists>fs'. ext2_free_block n fs = Inr fs' \<and>
      taken fs' (block_bitmap_addr (BGD fs ! g)) r = taken fs (block_bitmap_addr (BGD fs ! g)) r \<and>
      (\<forall>i<32768. taken fs' (block_bitmap_addr (BGD fs ! g)) i \<longleftrightarrow>
         taken fs (block_bitmap_addr (BGD fs ! g)) i \<and> i \<noteq> 32 * (r div 4) + r mod 4)
    else ext2_free_block n fs = Inl OutOfBounds"
proof -
  have "4 * (r div 4) + r mod 4 = r" "0 < r div 4" using assms(7) by auto
  then have "r \<noteq> 32 * (r div 4) + r mod 4" by linarith
  moreover have "\<And>x. bg_reserved (x\<lparr>n_unalloc_blocks := n_unalloc_blocks x + 1\<rparr>) = bg_reserved x" by simp
  note rel = release_clears[OF assms(1,2) this assms(3-6)]
  ultimately show ?thesis using rel assms(8) unfolding ext2_free_block_def by (auto simp: not_less)
qed

theorem ext2_free_block_wrong_bit_witness:
  "(\<exists>fs'. ext2_free_block 5 example_fs = Inr fs' \<and> taken fs' 3 5 = taken example_fs 3 5 \<and> \<not> taken fs' 3 33) \<and>
   ext2_free_block 20000 example_fs = Inl OutOfBounds"
proof -
  have h: "blocks_per_group example_fs \<noteq> 0" "0 < length (BGD example_fs)"
    "0 = unat (5 :: u32) div unat (blocks_per_group example_fs)" "5 = unat (5 :: u32) mod unat (blocks_per_group example_fs)"
    "0 = unat (20000 :: u32) div unat (blocks_per_group example_fs)" "20000 = unat (20000 :: u32) mod unat (blocks_per_group example_fs)"
    unfolding example_values by simp_all
  have "32 * (5 div 4) + 5 mod 4 = (33 :: nat)" by simp
  then show ?thesis
    using ext2_free_block_wrong_bit[OF example_disk_ok example_groups_ok h(1,3,4,2)]
      ext2_free_block_wrong_bit[OF example_disk_ok example_groups_ok h(1,5,6,2)] unfolding example_values by auto
qed

text \<open>\<^verbatim>\<open>write_inode_metadata\<close> writes no inode of up to 512 bytes: the number of sectors is computed as
  \<open>inode_size div (512 + 1)\<close>, which is 0, so the buffer has no room and the copy of the inode goes behind its end, for
  every inode of every group.\<close>

theorem write_inode_metadata_faults:
  assumes "0 < inode_size fs" "inode_size fs \<le> 512" "unat ((index - 1) div inodes_per_group fs) < length (BGD fs)"
  shows "write_inode_metadata index inode fs = Inl OutOfBounds"
proof -
  have u: "unat (ucast (inode_size fs) :: u32) = unat (inode_size fs)" by (simp add: unat_ucast_u32)
  have i: "0 < unat (inode_size fs)" "unat (inode_size fs) \<le> 512" using assms(1,2) by (simp_all add: word_less_nat_alt word_le_nat_alt)
  have "unat ((ucast (inode_size fs) :: u32) div 513) = 0" unfolding unat_div u using i by simp
  then have "(ucast (inode_size fs) :: u32) div (512 + 1) = 0" by (simp add: unat_eq_zero)
  then show ?thesis using i u assms(3)
    by (simp add: write_inode_metadata_def inode_table_of_def group_of_def Let_def dev_read_def)
qed

theorem write_inode_metadata_faults_witness: "write_inode_metadata 2 example_inode example_fs = Inl OutOfBounds"
  using write_inode_metadata_faults[of example_fs 2] by (simp add: example_fs_def)

end
