(* ===== verification/Vfs_Spec.thy ===== *)
theory Vfs_Spec
  imports Vfs Ext2_Spec
begin

unbundle bit_operations_syntax

text \<open>
  Properties of the directory tree and of path resolution: splitting a path gives its components, mounting a disk
  that holds a tree of directories (the inductive relation \<open>directory\<close>, over the bytes of the disk) returns and gives
  the copy \<open>in_memory\<close> of that tree, every tree that mounting gives is well typed, and a path is resolved as by the
  reference \<open>resolve\<close>, which goes by names.
\<close>

section \<open>Hashes\<close>

lemma hash_loop_bytes: "cstr m p xs \<Longrightarrow> hash_loop m p v = Some (fold (\<lambda>c val. push_bit 5 val + val + ucast c) xs v)"
proof (induction xs arbitrary: p v)
  case Nil
  then show ?case by (subst hash_loop.simps) simp
next
  case (Cons c xs)
  then show ?case by (subst hash_loop.simps) simp
qed

lemma hash32_bytes: "cstr m p xs \<Longrightarrow> hash32 m p = Some (hash_bytes xs)"
  by (simp add: hash32_def hash_loop_bytes hash_bytes_def)

section \<open>Splitting\<close>

text \<open>A path: each component behind one or more delimiters.\<close>

definition path_text :: "u8 \<Rightarrow> (nat \<times> u8 list) list \<Rightarrow> u8 list" where
  "path_text d kns = concat (map (\<lambda>(k, n). replicate (Suc k) d @ n) kns)"

definition components :: "u8 \<Rightarrow> (nat \<times> u8 list) list \<Rightarrow> bool" where
  "components d kns \<longleftrightarrow> kns \<noteq> [] \<and> (\<forall>(k, n)\<in>set kns. n \<noteq> [] \<and> d \<notin> set n \<and> 0 \<notin> set n)"

lemma path_text_simps [simp]: "path_text d [] = []" "path_text d ((k, n) # kns) = replicate (Suc k) d @ n @ path_text d kns"
  by (simp_all add: path_text_def)

lemma collapse_name: "d \<notin> set n \<Longrightarrow> collapse_runs d (n @ xs) = n @ collapse_runs d xs"
proof (induction n)
  case (Cons c n)
  then show ?case by (cases "n @ xs") auto
qed simp

lemma collapse_delims: "n \<noteq> [] \<Longrightarrow> d \<notin> set n \<Longrightarrow> collapse_runs d (replicate (Suc k) d @ n @ xs) = d # n @ collapse_runs d xs"
proof (induction k)
  case 0
  then obtain c cs where "n = c # cs" by (cases n) auto
  with 0 collapse_name[of d n xs] show ?case by auto
qed simp

lemma tokens_name: "d \<notin> set n \<Longrightarrow> tokens d start (n @ xs) = tokens d (start @ n) xs"
  by (induction n arbitrary: start) auto

lemma tokens_path:
  "\<forall>(k, n)\<in>set kns. n \<noteq> [] \<and> d \<notin> set n \<Longrightarrow> tokens d start (collapse_runs d (path_text d kns)) = start # map snd kns"
proof (induction kns arbitrary: start)
  case (Cons p kns)
  obtain k n where p: "p = (k, n)" by fastforce
  with Cons show ?case using collapse_delims[of n d k "path_text d kns"] tokens_name[of d n "[]"] by (simp del: replicate_Suc)
qed simp

lemma path_text_no_zero: "d \<noteq> 0 \<Longrightarrow> \<forall>(k, n)\<in>set kns. 0 \<notin> set n \<Longrightarrow> 0 \<notin> set (path_text d kns)"
  by (induction kns) (auto split: if_splits)

lemma path_text_last: "components d kns \<Longrightarrow> path_text d kns \<noteq> [] \<and> last (path_text d kns) \<noteq> d"
proof (induction kns)
  case (Cons p kns)
  obtain k n where p: "p = (k, n)" by fastforce
  show ?case
  proof (cases "kns = []")
    case True
    then show ?thesis using Cons.prems p by (auto simp: components_def)
  next
    case False
    then have "components d kns" using Cons.prems by (auto simp: components_def)
    then show ?thesis using Cons.IH p by auto
  qed
qed (simp add: components_def)

lemma trim_end_last: "xs \<noteq> [] \<Longrightarrow> last xs \<noteq> d \<Longrightarrow> trim_end xs d (length xs) = Inr (length xs)"
  by (cases xs rule: rev_cases) auto

lemma str_split_path:
  assumes "components d kns" "d \<noteq> 0" "\<And>n. length (M n) = n"
  shows "str_split M (path_text d kns) d = Inr (map snd kns)"
proof -
  let ?s = "path_text d kns"
  obtain k n rest where kns: "kns = (k, n) # rest" using assms(1) by (cases kns) (auto simp: components_def)
  have n: "n \<noteq> []" "d \<notin> set n" using assms(1) kns by (auto simp: components_def)
  define body where "body = n @ path_text d rest"
  have s: "?s = replicate (Suc k) d @ body" by (simp add: kns body_def)
  have z: "0 \<notin> set body" using assms(1,2) path_text_no_zero[of d rest] by (auto simp: components_def kns body_def)
  obtain c cs where "body = c # cs" "c \<noteq> d" using n by (cases n) (auto simp: body_def)
  then have tw: "takeWhile (\<lambda>c. c = d) ?s = replicate (Suc k) d"
    unfolding s by (subst takeWhile_append2) auto
  have te: "trim_end ?s d (length ?s) = Inr (length ?s)"
    using path_text_last[OF assms(1)] by (intro trim_end_last) auto
  have len: "length ?s - Suc k = length body" by (simp add: s)
  have dr: "drop (Suc k) (?s @ [0]) = body @ [0]" by (simp add: s)
  have "takeWhile (\<lambda>c. c \<noteq> 0) (body @ [0]) = body" using z by (subst takeWhile_append2) auto
  then have sc: "strncpy_bytes (length body + 1) (body @ [0]) = body @ [0]" by (simp add: strncpy_bytes_def)
  have "cstr_of (overwrite 0 (body @ [0]) (M (length body + 2))) = Inr body"
    using z assms(3)[of "length body + 2"] by (auto simp: cstr_of_def overwrite_def takeWhile_append)
  then have "str_split M ?s d = Inr (tokens d [] (collapse_runs d body))"
    unfolding str_split_def Let_def tw by (simp add: te len dr[simplified] sc[simplified])
  also have "tokens d [] (collapse_runs d body) = tokens d n (collapse_runs d (path_text d rest))"
    using n by (simp add: body_def collapse_name tokens_name)
  also have "... = map snd kns" using assms(1) by (subst tokens_path) (auto simp: kns components_def)
  finally show ?thesis .
qed


section \<open>Directories on the disk\<close>

text \<open>Allocated memory has the size that was asked for; what it holds is arbitrary.\<close>

definition sized :: "(nat \<Rightarrow> u8 list) \<Rightarrow> bool" where
  "sized M \<longleftrightarrow> (\<forall>n. length (M n) = n)"

definition supplied :: "(nat \<Rightarrow> nat \<Rightarrow> u8 list) \<Rightarrow> bool" where
  "supplied M \<longleftrightarrow> (\<forall>k. sized (M k))"

lemma supply_parts: "supplied M \<Longrightarrow> supplied (inner M)" "supplied M \<Longrightarrow> supplied (later M)" "supplied M \<Longrightarrow> sized (M k)"
  by (simp_all add: supplied_def inner_def later_def)

definition cleared :: "nat \<Rightarrow> nat \<Rightarrow> u8 list" where
  "cleared k n = replicate n 0"

lemma cleared_parts [simp]: "inner cleared = cleared" "later cleared = cleared" "supplied cleared"
  by (simp_all add: cleared_def inner_def later_def supplied_def sized_def fun_eq_iff)

text \<open>The bytes of an entry; the name has no terminator.\<close>

definition entry_bytes :: "dirent \<Rightarrow> u8 list" where
  "entry_bytes d = le_bytes 4 (d_inode d) @ le_bytes 2 (d_size d) @ [of_nat (length (d_name d)), d_type d] @ d_name d"

definition holds_entry :: "u8 list \<Rightarrow> u32 \<Rightarrow> dirent \<Rightarrow> bool" where
  "holds_entry raw off d \<longleftrightarrow>
     unat off + 8 + length (d_name d) \<le> length raw \<and> slice (unat off) (8 + length (d_name d)) raw = entry_bytes d \<and>
     length (d_name d) < 256 \<and> 0 \<notin> set (d_name d)"

definition inode_ok :: "inode_base \<Rightarrow> bool" where
  "inode_ok i \<longleftrightarrow> length (blocks i) = 15 \<and> length (OS_Val_2 i) = 12"

text \<open>The inode of a number, whatever the memory it is read into held.\<close>

definition inode_at :: "ext2 \<Rightarrow> u32 \<Rightarrow> inode_base \<Rightarrow> bool" where
  "inode_at fs n i \<longleftrightarrow> inode_ok i \<and> (\<forall>mem. inode_ok mem \<longrightarrow> read_inode_metadata n mem fs = Inr i)"

text \<open>The data of a directory: the blocks its sectors fill and one more.\<close>

definition dir_data :: "ext2 \<Rightarrow> inode_base \<Rightarrow> u8 list" where
  "dir_data fs i = concat (map (\<lambda>k. read_disk_block fs (blocks i ! k)) [0..<Suc (unat (n_sectors i) div 8)])"

text \<open>A file as the disk has it, its name followed by zeros.\<close>

definition file_of :: "dirent \<Rightarrow> inode_base \<Rightarrow> FILE" where
  "file_of d i = \<lparr>f_name = d_name d @ replicate (256 - length (d_name d)) 0, f_hash = hash_bytes (d_name d), f_inode = d_inode d,
     f_size = size_lower i, f_create_time = creation_time i, f_access_time = last_access_time i, f_modify_time = last_mod_time i,
     f_flags = 0, f_nlink = ucast (n_hard_links i), f_rest = replicate 16 0\<rparr>"

definition dir_of :: "dirent \<Rightarrow> u8 list \<Rightarrow> fs_entry list \<Rightarrow> fs_tree" where
  "dir_of d ts es = Fs_Tree (d_name d) (hash_bytes (d_name d)) (d_inode d) ts es"

text \<open>The bytes \<open>raw\<close> from \<open>off\<close> on are a directory with the entries \<open>es\<close> of the types \<open>ts\<close>: an entry of type 0 ends
  it, a subdirectory whose name does not begin with a dot holds what the blocks of its inode hold.\<close>

inductive directory :: "ext2 \<Rightarrow> u8 list \<Rightarrow> u32 \<Rightarrow> u8 list \<Rightarrow> fs_entry list \<Rightarrow> bool" for fs where
  Done: "unat off + 8 \<le> length raw \<Longrightarrow> raw ! (unat off + 7) = 0 \<Longrightarrow> directory fs raw off [] []"
| File: "holds_entry raw off d \<Longrightarrow> d_type d = 1 \<Longrightarrow> inode_at fs (d_inode d) i \<Longrightarrow>
    directory fs raw (off + ucast (d_size d)) ts es \<Longrightarrow> directory fs raw off (1 # ts) (FileEntry (file_of d i) # es)"
| Hidden: "holds_entry raw off d \<Longrightarrow> d_type d = 2 \<Longrightarrow> hidden d \<Longrightarrow>
    directory fs raw (off + ucast (d_size d)) ts es \<Longrightarrow> directory fs raw off (2 # ts) (DirEntry (dir_of d [] []) # es)"
| Subdirectory: "holds_entry raw off d \<Longrightarrow> d_type d = 2 \<Longrightarrow> \<not> hidden d \<Longrightarrow> inode_at fs (d_inode d) i \<Longrightarrow> unat (n_sectors i) < 96 \<Longrightarrow>
    directory fs (dir_data fs i) 0 ts' es' \<Longrightarrow>
    directory fs raw (off + ucast (d_size d)) ts es \<Longrightarrow> directory fs raw off (2 # ts) (DirEntry (dir_of d ts' es') # es)"
| Other: "holds_entry raw off d \<Longrightarrow> d_type d \<notin> {0, 1, 2} \<Longrightarrow>
    directory fs raw (off + ucast (d_size d)) ts es \<Longrightarrow> directory fs raw off (d_type d # ts) (NoEntry # es)"

lemma slice_slice: "a + n \<le> m \<Longrightarrow> slice a n (slice o' m xs) = slice (o' + a) n xs"
  by (simp add: slice_def drop_take add.commute min_def)

lemma nth_slice: "i < n \<Longrightarrow> a + n \<le> length xs \<Longrightarrow> slice a n xs ! i = xs ! (a + i)"
  by (simp add: slice_def)

lemma holds_entry_read:
  assumes "holds_entry raw off d"
  shows "dirent_type raw off = Inr (d_type d)" "dirent_at raw off = Inr d"
proof -
  let ?n = "length (d_name d)" and ?o = "unat off"
  have l: "?o + 8 + ?n \<le> length raw" and s: "slice ?o (8 + ?n) raw = entry_bytes d" and n: "?n < 256"
    using assms by (auto simp: holds_entry_def)
  have b: "raw ! (?o + i) = entry_bytes d ! i" if "i < 8 + ?n" for i
    using nth_slice[of i "8 + ?n" ?o raw] s l that by simp
  have e: "entry_bytes d ! 6 = of_nat ?n" "entry_bytes d ! 7 = d_type d" by (simp_all add: entry_bytes_def nth_append)
  then have 6: "raw ! (?o + 6) = of_nat ?n" and 7: "raw ! (?o + 7) = d_type d" using b by auto
  show "dirent_type raw off = Inr (d_type d)" using l 7 by (simp add: dirent_type_def)
  have u: "unat (of_nat ?n :: u8) = ?n" using n by (simp add: unat_of_nat)
  have p: "slice (?o + a) k raw = slice a k (entry_bytes d)" if "a + k \<le> 8 + ?n" for a k
    using slice_slice[OF that, of ?o raw] s by simp
  have "slice ?o 4 raw = le_bytes 4 (d_inode d)" "slice (?o + 4) 2 raw = le_bytes 2 (d_size d)" "slice (?o + 8) ?n raw = d_name d"
    using p[of 0 4] p[of 4 2] p[of 8 ?n] by (simp_all add: entry_bytes_def slice_skip slice_head) (simp add: slice_def)
  then show "dirent_at raw off = Inr d"
    using l 6 7 u by (simp add: dirent_at_def Let_def le_word_le_bytes_len)
qed


lemma concat_blocks_length: "disk_ok fs \<Longrightarrow> length (concat (map (\<lambda>k. read_disk_block fs (f k)) [0..<j])) = 4096 * j"
  by (induction j) (simp_all add: length_read_disk_block)

lemma load_blocks:
  assumes "disk_ok fs" "inode_ok i" "n \<le> 12" "length mem = 4096 * n" "j \<le> n"
  shows "fold (\<lambda>k r. bindR r (\<lambda>raw. bindR (block_ptr i k)
                (\<lambda>b. if 4096 * k + 4096 \<le> length raw then Inr (overwrite (4096 * k) (read_disk_block fs b) raw) else Inl OutOfBounds)))
           [0..<j] (Inr mem) =
    Inr (concat (map (\<lambda>k. read_disk_block fs (blocks i ! k)) [0..<j]) @ drop (4096 * j) mem)"
  using assms(5)
proof (induction j)
  case (Suc j)
  let ?c = "concat (map (\<lambda>k. read_disk_block fs (blocks i ! k)) [0..<j])"
  have b: "block_ptr i j = Inr (blocks i ! j)" using assms(2,3) Suc.prems by (simp add: block_ptr_def inode_ok_def)
  have l: "length ?c = 4096 * j" by (rule concat_blocks_length[OF assms(1)])
  have m: "4096 * j + 4096 \<le> length (?c @ drop (4096 * j) mem)" using l Suc.prems assms(4) by simp
  have "overwrite (4096 * j) (read_disk_block fs (blocks i ! j)) (?c @ drop (4096 * j) mem) =
      ?c @ read_disk_block fs (blocks i ! j) @ drop (4096 * Suc j) mem"
    using l length_read_disk_block[OF assms(1), of "blocks i ! j"] by (simp add: overwrite_def add.commute)
  then show ?case using Suc m b by simp
qed simp

lemma load_dir_ok:
  assumes "disk_ok fs" "inode_ok i" "sized M" "unat (n_sectors i) < 96"
  shows "load_dir M fs i = Inr (dir_data fs i)"
proof -
  define n where "n = Suc (unat (n_sectors i) div 8)"
  have n: "n \<le> 12" using assms(4) by (simp add: n_def div_less_iff_less_mult Suc_le_eq)
  have u: "unat (n_sectors i div 8 + 1) = n" using n by (simp add: n_def unat_word_ariths unat_div)
  have bs: "block_size fs = 4096" using assms(1) by (simp add: disk_ok_def)
  then have e: "unat (block_size fs * (n_sectors i div 8 + 1)) = 4096 * n"
    using u n by (simp add: unat_word_ariths(2) del: distrib_left_numeral)
  have m: "length (M (4096 * n)) = 4096 * n" using assms(3) by (simp add: sized_def)
  have ub: "unat (block_size fs) = 4096" using bs by simp
  have mn: "min n 12 = n" using n by simp
  show ?thesis
    unfolding load_dir_def Let_def e u ub mn load_blocks[OF assms(1,2) n m order_refl] dir_data_def n_def[symmetric] using m by simp
qed

lemma no_zero_takeWhile: "0 \<notin> set n \<Longrightarrow> takeWhile (\<lambda>c. c \<noteq> (0::u8)) n = n"
  by (induction n) auto

lemma takeWhile_zeros: "0 \<notin> set n \<Longrightarrow> takeWhile (\<lambda>c. c \<noteq> (0::u8)) (n @ replicate k 0) = n"
  by (induction n) (auto simp: takeWhile_replicate)

lemma strncpy_name: "0 \<notin> set n \<Longrightarrow> strncpy_bytes (length n) n = n"
  by (simp add: strncpy_bytes_def Let_def no_zero_takeWhile)

text \<open>The copy of a file in memory: nothing ends its name but what the memory held.\<close>

definition file_in :: "(nat \<Rightarrow> u8 list) \<Rightarrow> FILE \<Rightarrow> FILE result" where
  "file_in M f =
     (let name = overwrite 0 (takeWhile (\<lambda>c. c \<noteq> 0) (f_name f)) (take 256 (M 312))
      in if 0 \<in> set name
         then Inr (f\<lparr>f_name := name, f_hash := hash_bytes (takeWhile (\<lambda>c. c \<noteq> 0) name), f_rest := drop 296 (M 312)\<rparr>)
         else Inl OutOfBounds)"

text \<open>The copy of the entries of a directory, with all the directories below.\<close>

fun in_memory :: "(nat \<Rightarrow> nat \<Rightarrow> u8 list) \<Rightarrow> fs_entry list \<Rightarrow> fs_entry list result" where
  "in_memory M [] = Inr []"
| "in_memory M (NoEntry # es) = bindR (in_memory (later M) es) (\<lambda>es. Inr (NoEntry # es))"
| "in_memory M (FileEntry f # es) = bindR (file_in (M 0) f) (\<lambda>f. bindR (in_memory (later M) es) (\<lambda>es. Inr (FileEntry f # es)))"
| "in_memory M (DirEntry (Fs_Tree n h i ts ds) # es) =
     bindR (in_memory (inner M) ds) (\<lambda>ds. bindR (in_memory (later M) es) (\<lambda>es. Inr (DirEntry (Fs_Tree n h i ts ds) # es)))"

lemma make_file_ok:
  assumes "sized M" "holds_entry raw off d" "inode_at fs (d_inode d) i" "inode_ok ei"
  shows "make_file M fs d ei = bindR (file_in M (file_of d i)) (\<lambda>f. Inr (f, i))"
proof -
  have z: "0 \<notin> set (d_name d)" "length (d_name d) < 256" using assms(2) by (auto simp: holds_entry_def)
  then have "takeWhile (\<lambda>c. c \<noteq> 0) (f_name (file_of d i)) = d_name d" by (simp add: file_of_def takeWhile_zeros)
  then show ?thesis
    using assms(3,4) z by (auto simp: make_file_def file_in_def strncpy_name inode_at_def cstr_of_def file_of_def Let_def)
qed

lemma file_in_cleared:
  assumes "holds_entry raw off d"
  shows "file_in (cleared k) (file_of d i) = Inr (file_of d i)"
proof -
  have z: "0 \<notin> set (d_name d)" "length (d_name d) < 256" using assms by (auto simp: holds_entry_def)
  then have t: "takeWhile (\<lambda>c. c \<noteq> 0) (f_name (file_of d i)) = d_name d" by (simp add: file_of_def takeWhile_zeros)
  have "overwrite 0 (d_name d) (take 256 (cleared k 312)) = d_name d @ replicate (256 - length (d_name d)) 0"
    using z(2) by (simp add: cleared_def overwrite_def)
  moreover have "drop 296 (cleared k 312) = replicate 16 0" by (simp add: cleared_def)
  ultimately show ?thesis using z t by (simp add: file_in_def file_of_def takeWhile_zeros)
qed

lemma make_dir_ok: "holds_entry raw off d \<Longrightarrow> make_dir d ts es = dir_of d ts es"
  by (simp add: make_dir_def dir_of_def holds_entry_def Let_def no_zero_takeWhile)

lemma mem_inode_ok: "sized M \<Longrightarrow> inode_ok (inode_of_bytes (M 128))"
  by (simp add: inode_ok_def inode_of_bytes_def sized_def)

lemma dir_raw_ok:
  assumes "disk_ok fs" "sized M" "inode_at fs n i" "unat (n_sectors i) < 96"
  shows "dir_raw M fs n = Inr (dir_data fs i)"
  using assms mem_inode_ok[OF assms(2)] by (simp add: dir_raw_def inode_at_def load_dir_ok)

lemma in_memory_dir [simp]: "in_memory M (DirEntry (dir_of d ts ds) # es) =
    bindR (in_memory (inner M) ds) (\<lambda>ds. bindR (in_memory (later M) es) (\<lambda>es. Inr (DirEntry (dir_of d ts ds) # es)))"
  by (simp add: dir_of_def)

lemma bindR_assoc: "bindR (bindR r f) g = bindR r (\<lambda>x. bindR (f x) g)"
  by (cases r) simp_all

lemma read_dir_directory:
  assumes "directory fs raw off ts es" "disk_ok fs" "supplied M" "inode_ok ei"
  shows "read_dir M fs raw off ei ts0 es0 = Some (bindR (in_memory M es) (\<lambda>es. Inr (ts0 @ ts, es0 @ es)))"
  using assms(1,3,4)
proof (induction arbitrary: M ei ts0 es0 rule: directory.induct)
  case (Done off raw)
  then show ?case by (subst read_dir.simps) (simp add: dirent_type_def)
next
  case (File raw off d i ts es)
  note h = holds_entry_read[OF File.hyps(1)]
  have "inode_ok i" using File.hyps(3) by (simp add: inode_at_def)
  note ih = File.IH[OF supply_parts(2)[OF File.prems(1)] this]
  note m = make_file_ok[OF supply_parts(3)[OF File.prems(1), of 0] File.hyps(1,3) File.prems(2)]
  show ?case
    using File.hyps(2) by (cases "file_in (M 0) (file_of d i)"; subst read_dir.simps) (simp_all add: h FS_FILE_def m ih bindR_assoc)
next
  case (Hidden raw off d ts es)
  note h = holds_entry_read[OF Hidden.hyps(1)]
  show ?case
    using Hidden.IH[OF supply_parts(2)[OF Hidden.prems(1)] Hidden.prems(2)] Hidden.hyps(2,3)
    by (subst read_dir.simps) (simp add: h FS_FILE_def FS_DIR_def make_dir_ok[OF Hidden.hyps(1)] bindR_assoc)
next
  case (Subdirectory raw off d i ts' es' ts es)
  note h = holds_entry_read[OF Subdirectory.hyps(1)]
  have ok: "inode_ok (inode_of_bytes (M 1 128))" using mem_inode_ok[OF supply_parts(3)[OF Subdirectory.prems(1), of 1]] by simp
  note s = Subdirectory.IH(1)[OF supply_parts(1)[OF Subdirectory.prems(1)] ok, of "[]" "[]"]
  note r = Subdirectory.IH(2)[OF supply_parts(2)[OF Subdirectory.prems(1)] Subdirectory.prems(2)]
  note d = dir_raw_ok[OF assms(2) supply_parts(3)[OF Subdirectory.prems(1), of 0] Subdirectory.hyps(4,5)]
  show ?case
    using Subdirectory.hyps(2,3)
    by (cases "in_memory (inner M) es'"; subst read_dir.simps)
      (simp_all add: h FS_FILE_def FS_DIR_def make_dir_ok[OF Subdirectory.hyps(1)] d s r bindR_assoc del: One_nat_def)
next
  case (Other raw off d ts es)
  note h = holds_entry_read[OF Other.hyps(1)]
  show ?case
    using Other.IH[OF supply_parts(2)[OF Other.prems(1)] Other.prems(2)] Other.hyps(2)
    by (subst read_dir.simps) (simp add: h FS_FILE_def FS_DIR_def bindR_assoc)
qed

lemma in_memory_cleared: "directory fs raw off ts es \<Longrightarrow> in_memory cleared es = Inr es"
  by (induction rule: directory.induct) (simp_all add: file_in_cleared)

lemma root_ok:
  assumes "sized M"
  shows "get_ext2_root M = (if M 2 ! 1 = 0 then Inr (Fs_Tree [47] (hash_bytes [47]) 2 [] []) else Inl OutOfBounds)"
proof -
  have "length (M 2) = 2" using assms by (simp add: sized_def)
  then obtain a b where "M 2 = [a, b]" by (auto simp: length_Suc_conv numeral_2_eq_2)
  then show ?thesis by (auto simp: get_ext2_root_def cstr_of_def overwrite_def)
qed

section \<open>Types\<close>

fun well_typed :: "fs_tree \<Rightarrow> bool" and typed_entry :: "u8 \<Rightarrow> fs_entry \<Rightarrow> bool" where
  "well_typed (Fs_Tree n h i ts es) \<longleftrightarrow> list_all2 typed_entry ts es"
| "typed_entry ty NoEntry \<longleftrightarrow> ty \<noteq> FS_FILE \<and> ty \<noteq> FS_DIR"
| "typed_entry ty (FileEntry f) \<longleftrightarrow> ty = FS_FILE \<and> 0 \<in> set (f_name f)"
| "typed_entry ty (DirEntry t) \<longleftrightarrow> ty = FS_DIR \<and> well_typed t"

section \<open>An example\<close>

text \<open>The inodes 2 (the root directory), 3 (a file) and 4 (a subdirectory with another name of the file) are the second to
  the fourth of the inode table in block 5; the directories are the blocks 20 and 21.\<close>

definition example_dir_inode :: "u32 \<Rightarrow> inode_base" where
  "example_dir_inode b = \<lparr>inode_type_perm = 0x4000, user_ID = 0, size_lower = 4096, last_access_time = 0, creation_time = 0,
     last_mod_time = 0, deletion_time = 0, group_ID = 0, n_hard_links = 1, n_sectors = 0, flags = 0, OS_Val_1 = 0,
     blocks = b # replicate 14 0, gen_num = 0, ext_attr_block = 0, f_size_dir_acl = 0, frag_block_addr = 0,
     OS_Val_2 = replicate 12 0\<rparr>"

definition example_entry :: "u32 \<Rightarrow> u8 \<Rightarrow> u8 \<Rightarrow> dirent" where
  "example_entry n ty c = \<lparr>d_inode = n, d_size = 12, d_type = ty, d_name = [c]\<rparr>"

definition example_dir :: "dirent list \<Rightarrow> u8 list" where
  "example_dir ds = concat (map (\<lambda>d. entry_bytes d @ [0, 0, 0]) ds) @ replicate (512 - 12 * length ds) 0"

definition example_root_entries :: "dirent list" where
  "example_root_entries = [example_entry 2 2 46, example_entry 3 1 97, example_entry 4 2 100]"

definition example_table :: "u8 list" where
  "example_table = replicate 128 0 @ inode_bytes (example_dir_inode 20) @ inode_bytes example_inode @ inode_bytes (example_dir_inode 21)"

definition holds_example :: "ext2 \<Rightarrow> bool" where
  "holds_example fs \<longleftrightarrow> disk_ok fs \<and> inode_size fs = 128 \<and> inodes_per_group fs = 32768 \<and> start_block fs = 0 \<and>
     group_of fs 0 = Inr example_group \<and> sectors fs 40 = example_table \<and>
     sectors fs 160 = example_dir example_root_entries \<and> sectors fs 168 = example_dir [example_entry 3 1 98]"

definition example_tree_fs :: ext2 where
  "example_tree_fs = example_fs\<lparr>sectors := (\<lambda>s.
     if s = 40 then example_table
     else if s = 160 then example_dir example_root_entries
     else if s = 168 then example_dir [example_entry 3 1 98]
     else replicate 512 0)\<rparr>"

lemma example_dir_inode_ok: "length (blocks (example_dir_inode b)) = 15" "length (OS_Val_2 (example_dir_inode b)) = 12"
  by (simp_all add: example_dir_inode_def)

lemma example_dir_sectors: "n_sectors (example_dir_inode b) = 0"
  by (simp add: example_dir_inode_def)

lemma length_entry_bytes: "length (entry_bytes d) = 8 + length (d_name d)"
  by (simp add: entry_bytes_def)

lemma length_example_dir: "(\<forall>d\<in>set ds. length (d_name d) = 1) \<Longrightarrow> length ds \<le> 42 \<Longrightarrow> length (example_dir ds) = 512"
proof -
  assume a: "\<forall>d\<in>set ds. length (d_name d) = 1" and l: "length ds \<le> 42"
  have "length (concat (map (\<lambda>d. entry_bytes d @ [0, 0, 0]) ds)) = 12 * length ds"
    using a by (induction ds) (auto simp: length_entry_bytes)
  then show ?thesis using l by (simp add: example_dir_def)
qed

lemma example_lengths:
  "length (example_dir example_root_entries) = 512" "length (example_dir [example_entry 3 1 98]) = 512" "length example_table = 512"
proof -
  show "length (example_dir example_root_entries) = 512" "length (example_dir [example_entry 3 1 98]) = 512"
    by (intro length_example_dir; simp add: example_root_entries_def example_entry_def)+
  show "length example_table = 512"
    by (simp add: example_table_def inode_of_bytes_inode_bytes(2) example_inode_ok example_dir_inode_ok)
qed

lemma example_tree_disk_ok: "disk_ok example_tree_fs"
  using example_disk_ok by (simp add: disk_ok_def example_tree_fs_def example_lengths)

lemma example_tree_holds: "holds_example example_tree_fs"
  using example_tree_disk_ok by (simp add: holds_example_def example_tree_fs_def example_fs_def group_of_def)

lemma first_sector:
  "start_block fs = 0 \<Longrightarrow> read_disk_block fs b = sectors fs (8 * b) @ concat (map (\<lambda>i. sectors fs (8 * b + of_nat i)) [1..<8])"
  by (simp add: read_disk_block_def dev_read_def upt_conv_Cons)

lemma example_inodes:
  assumes "holds_example fs"
  shows "inode_at fs 2 (example_dir_inode 20)" "inode_at fs 3 example_inode" "inode_at fs 4 (example_dir_inode 21)"
proof -
  note ls = inode_of_bytes_inode_bytes[OF example_inode_ok] inode_of_bytes_inode_bytes[OF example_dir_inode_ok]
  have d: "disk_ok fs" "inode_size fs = 128" "inodes_per_group fs = 32768" "group_of fs 0 = Inr example_group"
    "sectors fs 40 = example_table" "start_block fs = 0"
    using assms by (simp_all add: holds_example_def)
  have b: "slice 128 128 (read_disk_block fs 5) = inode_bytes (example_dir_inode 20)"
    "slice 256 128 (read_disk_block fs 5) = inode_bytes example_inode"
    "slice 384 128 (read_disk_block fs 5) = inode_bytes (example_dir_inode 21)"
    by (simp_all add: first_sector[OF d(6)] d(5) example_table_def slice_skip slice_head ls)
  have r: "read_inode_metadata n mem fs = Inr (inode_of_bytes (slice (128 * k) 128 (read_disk_block fs 5)))"
    if "inode_ok mem" "unat (n - 1) = k" "k < 4" for n mem k
    using that d by (subst read_inode_metadata_first_sector[OF d(1), where g = example_group and idx = k])
      (auto simp: inode_ok_def example_group_def)
  show "inode_at fs 2 (example_dir_inode 20)" "inode_at fs 3 example_inode" "inode_at fs 4 (example_dir_inode 21)"
    using r[of _ 2 1] r[of _ 3 2] r[of _ 4 3] b ls example_inode_ok example_dir_inode_ok
    by (simp_all add: inode_at_def inode_ok_def)
qed

lemma holds_entry_append:
  assumes "raw = pre @ entry_bytes d @ post" "unat off = length pre" "length (d_name d) < 256" "0 \<notin> set (d_name d)"
  shows "holds_entry raw off d"
  using assms by (simp add: holds_entry_def slice_def length_entry_bytes)

lemma example_dir_data:
  assumes "holds_example fs"
  shows "\<exists>post. dir_data fs (example_dir_inode 20) = example_dir example_root_entries @ post"
    "\<exists>post. dir_data fs (example_dir_inode 21) = example_dir [example_entry 3 1 98] @ post"
  using assms by (simp_all add: holds_example_def dir_data_def example_dir_inode_def first_sector)

lemma example_entry_simps [simp]:
  "d_inode (example_entry n ty c) = n" "d_size (example_entry n ty c) = 12" "d_type (example_entry n ty c) = ty"
  "d_name (example_entry n ty c) = [c]" "hidden (example_entry n ty c) \<longleftrightarrow> c = 46"
  by (simp_all add: example_entry_def hidden_def)

lemma example_subdirectory:
  assumes "holds_example fs"
  shows "directory fs (dir_data fs (example_dir_inode 21)) 0 [1]
     [FileEntry (file_of (example_entry 3 1 98) example_inode)]"
proof -
  obtain post where r: "dir_data fs (example_dir_inode 21) = example_dir [example_entry 3 1 98] @ post"
    using example_dir_data(2)[OF assms] by blast
  show ?thesis unfolding r
  proof (rule directory.File)
    show "inode_at fs (d_inode (example_entry 3 1 98)) example_inode" using example_inodes(2)[OF assms] by simp
    show "holds_entry (example_dir [example_entry 3 1 98] @ post) 0 (example_entry 3 1 98)"
      by (rule holds_entry_append[where pre = "[]"]) (simp_all add: example_dir_def)
    show "directory fs (example_dir [example_entry 3 1 98] @ post) (0 + ucast (d_size (example_entry 3 1 98))) [] []"
      by (rule directory.Done) (simp_all add: example_dir_def length_entry_bytes nth_append)
  qed simp
qed

lemma example_root_directory:
  assumes "holds_example fs"
  shows "directory fs (dir_data fs (example_dir_inode 20)) 0 [2, 1, 2]
     [DirEntry (dir_of (example_entry 2 2 46) [] []), FileEntry (file_of (example_entry 3 1 97) example_inode),
      DirEntry (dir_of (example_entry 4 2 100) [1] [FileEntry (file_of (example_entry 3 1 98) example_inode)])]"
proof -
  let ?e1 = "example_entry 2 2 46" and ?e2 = "example_entry 3 1 97" and ?e3 = "example_entry 4 2 100"
  obtain post where r: "dir_data fs (example_dir_inode 20) = example_dir example_root_entries @ post"
    using example_dir_data(1)[OF assms] by blast
  let ?raw = "example_dir example_root_entries @ post" and ?p = "\<lambda>d. entry_bytes d @ [0, 0, 0]"
  have raw: "?raw = entry_bytes ?e1 @ [0, 0, 0] @ ?p ?e2 @ ?p ?e3 @ replicate 476 0 @ post"
    by (simp add: example_dir_def example_root_entries_def)
  have h: "holds_entry ?raw 0 ?e1" "holds_entry ?raw 12 ?e2" "holds_entry ?raw 24 ?e3"
    unfolding raw
    by (rule holds_entry_append[where pre = "[]"], simp_all)
      (rule holds_entry_append[where pre = "?p ?e1"], simp_all add: length_entry_bytes,
       rule holds_entry_append[where pre = "?p ?e1 @ ?p ?e2"], simp_all add: length_entry_bytes)
  have "directory fs ?raw 36 [] []"
    unfolding raw by (rule directory.Done) (simp_all add: length_entry_bytes nth_append)
  then have "directory fs ?raw 24 [2] [DirEntry (dir_of ?e3 [1] [FileEntry (file_of (example_entry 3 1 98) example_inode)])]"
    using h(3) example_inodes(3)[OF assms] example_subdirectory[OF assms]
    by (intro directory.Subdirectory[where i = "example_dir_inode 21"]) (simp_all add: example_dir_sectors)
  then have "directory fs ?raw 12 [1, 2] [FileEntry (file_of ?e2 example_inode),
      DirEntry (dir_of ?e3 [1] [FileEntry (file_of (example_entry 3 1 98) example_inode)])]"
    using h(2) example_inodes(2)[OF assms] by (intro directory.File) simp_all
  then show ?thesis unfolding r using h(1) by (intro directory.Hidden) simp_all
qed

lemma populate_directory:
  assumes "supplied M" "disk_ok fs" "inode_at fs 2 i" "unat (n_sectors i) < 96" "directory fs (dir_data fs i) 0 ts es"
  shows "populate_fs M fs =
    Some (if M 0 2 ! 1 = 0 then bindR (in_memory (inner (later M)) es) (\<lambda>es. Inr (Fs_Tree [47] (hash_bytes [47]) 2 ts es))
          else Inl OutOfBounds)"
proof -
  note S = supply_parts[OF assms(1)]
  note L = supply_parts[OF S(2)]
  have ok: "inode_ok (inode_of_bytes (M 0 128))" "inode_ok (inode_of_bytes (later M 1 128))"
    using mem_inode_ok S(3) L(3) by auto
  have m: "read_inode_metadata 2 (inode_of_bytes (M 0 128)) fs = Inr i" using assms(3) ok(1) by (simp add: inode_at_def)
  note r = read_dir_directory[OF assms(5,2) L(1) ok(2), of "[]" "[]"]
  show ?thesis
    by (cases "in_memory (inner (later M)) es")
      (simp_all add: populate_fs_def populate_recur_def m root_ok[OF S(3)] dir_raw_ok[OF assms(2) L(3) assms(3,4)] r del: One_nat_def)
qed

definition example_tree :: fs_tree where
  "example_tree = Fs_Tree [47] (hash_bytes [47]) 2 [2, 1, 2]
     [DirEntry (dir_of (example_entry 2 2 46) [] []), FileEntry (file_of (example_entry 3 1 97) example_inode),
      DirEntry (dir_of (example_entry 4 2 100) [1] [FileEntry (file_of (example_entry 3 1 98) example_inode)])]"

lemma cleared_root: "cleared k 2 ! 1 = 0"
  by (simp add: cleared_def)

lemma example_populate: "populate_fs cleared example_tree_fs = Some (Inr example_tree)"
  unfolding example_tree_def
  using populate_directory[OF _ example_tree_disk_ok example_inodes(1)[OF example_tree_holds] _ example_root_directory[OF example_tree_holds], of cleared]
    in_memory_cleared[OF example_root_directory[OF example_tree_holds]]
  by (simp add: example_dir_sectors cleared_root del: in_memory.simps in_memory_dir One_nat_def)

section \<open>Mounting\<close>

text \<open>C31: Reading the tree. When the disk holds the tree of directories \<open>ts, es\<close> in the blocks of inode 2
  (directories of at most twelve blocks, whose entries are followed by one of type 0, with inodes that lie in the first
  sector of their block of the inode table, one in eight, the only ones that can be read), reading it ends, whatever the
  memory held that is allocated for it, and gives the copy of that tree in this memory: the entries in the order of the
  disk, of the types, inodes, sizes, times and links they have there, directories with their names. But the name of a file has
  no terminator of its own: in memory it goes on to the next zero byte the memory held, with the hash of that, and when
  the 256 bytes hold none it is read behind its end. Likewise for the second byte of the name of the root. In cleared memory the
  tree is that of the disk.\<close>

theorem populate_fs_reads_tree:
  assumes "supplied M" "disk_ok fs" "inode_at fs 2 i" "unat (n_sectors i) < 96" "directory fs (dir_data fs i) 0 ts es"
  shows "populate_fs M fs =
      Some (if M 0 2 ! 1 = 0 then bindR (in_memory (inner (later M)) es) (\<lambda>es. Inr (Fs_Tree [47] (hash_bytes [47]) 2 ts es))
            else Inl OutOfBounds) \<and>
    populate_fs cleared fs = Some (Inr (Fs_Tree [47] (hash_bytes [47]) 2 ts es))"
  using populate_directory[OF assms] populate_directory[OF cleared_parts(3) assms(2-5)] in_memory_cleared[OF assms(5)]
  by (simp add: cleared_root del: One_nat_def)

text \<open>Memory in which the letter \<^verbatim>\<open>x\<close> stands behind a name of one letter.\<close>

definition dirty :: "nat \<Rightarrow> nat \<Rightarrow> u8 list" where
  "dirty k n = (if n = 2 then [0, 0] else replicate n 0)[1 := (if n = 312 then 120 else 0)]"

lemma dirty_parts: "supplied dirty" "inner dirty = dirty" "later dirty = dirty"
  by (simp_all add: dirty_def inner_def later_def supplied_def sized_def fun_eq_iff)

lemma populate_fs_reads_tree_witness:
  "\<exists>t f. populate_fs dirty example_tree_fs = Some (Inr t) \<and> t_entries t ! 1 = FileEntry f \<and> takeWhile (\<lambda>c. c \<noteq> 0) (f_name f) = [97, 120]"
proof -
  have n: "unat (n_sectors (example_dir_inode 20)) < 96" by (simp add: example_dir_sectors)
  have f: "file_in (dirty k) (file_of (example_entry m 1 c) example_inode) =
      Inr ((file_of (example_entry m 1 c) example_inode)\<lparr>f_name := c # 120 # replicate 254 0, f_hash := hash_bytes [c, 120]\<rparr>)" if "c \<noteq> 0" for k m c
  proof -
    have "overwrite 0 [c] (take 256 (dirty k 312)) = c # 120 # replicate 254 0"
    proof -
      have "replicate 256 (0 :: u8) = 0 # 0 # replicate 254 0" using replicate_add[of 2 254 "0 :: u8"] by (simp add: numeral_2_eq_2)
      then show ?thesis by (simp add: dirty_def overwrite_def take_update_swap)
    qed
    moreover have "drop 296 (dirty k 312) = replicate 16 0" by (simp add: dirty_def drop_update_cancel)
    moreover have "takeWhile (\<lambda>c. c \<noteq> 0) (replicate 254 0) = ([] :: u8 list)" using takeWhile_zeros[of "[]" 254] by simp
    ultimately show ?thesis using that by (simp add: file_in_def file_of_def takeWhile_zeros)
  qed
  have "dirty 0 2 ! 1 = 0" by (simp add: dirty_def)
  moreover note populate_fs_reads_tree[OF dirty_parts(1) example_tree_disk_ok example_inodes(1)[OF example_tree_holds] n
      example_root_directory[OF example_tree_holds]]
  moreover have "takeWhile (\<lambda>c. c \<noteq> 0) (replicate 254 0) = ([] :: u8 list)" using takeWhile_zeros[of "[]" 254] by simp
  ultimately show ?thesis by (auto simp: dirty_parts f simp del: One_nat_def)
qed

text \<open>All directories of a tree.\<close>

fun directories :: "fs_tree \<Rightarrow> fs_tree list" and entry_directories :: "fs_entry \<Rightarrow> fs_tree list" where
  "directories (Fs_Tree n h i ts es) = Fs_Tree n h i ts es # concat (map entry_directories es)"
| "entry_directories (DirEntry t) = directories t"
| "entry_directories e = []"

lemma well_typed_directories:
  "well_typed t \<Longrightarrow> d \<in> set (directories t) \<Longrightarrow> well_typed d"
  "typed_entry ty e \<Longrightarrow> d \<in> set (entry_directories e) \<Longrightarrow> well_typed d"
proof (induction t and e arbitrary: d and ty d rule: directories_entry_directories.induct)
  case (1 n h i ts es)
  show ?case
  proof (cases "d = Fs_Tree n h i ts es")
    case False
    then obtain e where e: "e \<in> set es" "d \<in> set (entry_directories e)" using "1.prems"(2) by auto
    then obtain ty where "typed_entry ty e" using "1.prems"(1) by (auto simp: list_all2_conv_all_nth in_set_conv_nth)
    then show ?thesis using "1.IH" e by blast
  qed (use 1 in simp)
qed auto

lemma list_all2_snoc [simp]: "list_all2 P (xs @ [x]) (ys @ [y]) \<longleftrightarrow> list_all2 P xs ys \<and> P x y"
proof
  assume a: "list_all2 P (xs @ [x]) (ys @ [y])"
  then have "length xs = length ys" by (auto dest: list_all2_lengthD)
  then show "list_all2 P xs ys \<and> P x y" using a by (simp add: list_all2_append)
qed (simp add: list_all2_appendI)

lemma typed_entries [simp]:
  "typed_entry 1 (FileEntry f) \<longleftrightarrow> 0 \<in> set (f_name f)" "typed_entry 2 (DirEntry t) \<longleftrightarrow> well_typed t" "well_typed (make_dir d ts es) \<longleftrightarrow> list_all2 typed_entry ts es"
  "ty \<noteq> 1 \<Longrightarrow> ty \<noteq> 2 \<Longrightarrow> typed_entry ty NoEntry"
  by (simp_all add: FS_FILE_def FS_DIR_def make_dir_def Let_def)

lemma make_file_terminated: "make_file M fs d ei = Inr p \<Longrightarrow> 0 \<in> set (f_name (fst p))"
  by (auto simp: make_file_def Let_def bindR_eq_Inr cstr_of_def split: if_splits)

lemma read_dir_typed:
  "read_dir M fs raw off ei ts es = Some r \<Longrightarrow> list_all2 typed_entry ts es \<longrightarrow> (\<forall>ts' es'. r = Inr (ts', es') \<longrightarrow> list_all2 typed_entry ts' es')"
proof (induction rule: read_dir.raw_induct[rotated, consumes 1, case_names step])
  case (step read_dir M fs raw off ei ts es r)
  have ih: "list_all2 typed_entry ts es \<longrightarrow> list_all2 typed_entry ts' es'"
    if "read_dir M fs raw off ei ts es = Some (Inr (ts', es'))" for M fs raw off ei ts es ts' es'
    using step(1)[OF that] by blast
  show ?case
  proof (intro impI allI)
    fix ts' es' assume "list_all2 typed_entry ts es" "r = Inr (ts', es')"
    then show "list_all2 typed_entry ts' es'"
      using step(2) by (auto split: sum.splits if_splits Option.bind_splits simp: FS_FILE_def FS_DIR_def dest!: ih make_file_terminated)
  qed
qed

lemma well_typed_find_last:
  "list_all2 typed_entry ts es \<Longrightarrow> \<exists>r. find_last h ts es = Inr r"
  by (induction h ts es rule: find_last.induct) (auto simp: FS_FILE_def FS_DIR_def split: fs_entry.splits if_splits)

lemma populate_typed: 
  assumes "populate_fs M fs = Some (Inr t)"
  shows "well_typed t"
proof -
  obtain M' raw ei ts es where "read_dir M' fs raw 0 ei [] [] = Some (Inr (ts, es))" "t_type t = ts" "t_entries t = es"
    using assms by (auto simp: populate_fs_def populate_recur_def get_ext2_root_def bindR_eq_Inr split: sum.splits)
  then show ?thesis using read_dir_typed[of M' fs raw 0 ei "[]" "[]"] by (cases t) auto
qed

text \<open>C32: Types. Whatever the disk holds and newly allocated memory contains, when mounting returns a tree, each entry of
  each of its directories is what the array \<^verbatim>\<open>type\<close> says: a file for type 1, a directory for type 2, and a null pointer
  for any other type, and the name of every file ends inside its 256 bytes. The search of a directory for the last component of a path, which reads the member of the union
  that the type names, therefore has no fault in any directory of the tree.\<close>

theorem populate_fs_well_typed:
  assumes "populate_fs M fs = Some (Inr t)"
  shows "well_typed t \<and> (\<forall>d h. d \<in> set (directories t) \<longrightarrow> (\<exists>r. find_last h (t_type d) (t_entries d) = Inr r))"
proof (intro conjI allI impI)
  show "well_typed t" by (rule populate_typed[OF assms])
  fix d h assume "d \<in> set (directories t)"
  then have "well_typed d" using well_typed_directories(1) \<open>well_typed t\<close> by blast
  then show "\<exists>r. find_last h (t_type d) (t_entries d) = Inr r" using well_typed_find_last by (cases d) auto
qed

lemma populate_fs_well_typed_witness:
  "populate_fs cleared example_tree_fs = Some (Inr example_tree) \<and> well_typed example_tree"
  using example_populate populate_fs_well_typed[OF example_populate] by blast

end
