(* ===== verification/Path_Spec.thy ===== *)
theory Path_Spec
  imports Vfs_Spec
begin

unbundle bit_operations_syntax

text \<open>
  Properties of path resolution: \<^verbatim>\<open>traverse_fs\<close> against the reference \<open>resolve\<close>, which goes by the names of the entries
  where the code compares hashes, and what the code does with a component that does not exist.
\<close>

section \<open>The reference\<close>

fun entry_name :: "fs_entry \<Rightarrow> u8 list" where
  "entry_name NoEntry = []"
| "entry_name (FileEntry f) = takeWhile (\<lambda>c. c \<noteq> 0) (f_name f)"
| "entry_name (DirEntry t) = t_name t"

fun is_dir :: "fs_entry \<Rightarrow> bool" where
  "is_dir (DirEntry t) = True"
| "is_dir e = False"

definition subdirectory :: "u8 list \<Rightarrow> fs_tree \<Rightarrow> fs_tree option" where
  "subdirectory n t =
     (case find (\<lambda>e. is_dir e \<and> entry_name e = n) (t_entries t) of Some (DirEntry d) \<Rightarrow> Some d | _ \<Rightarrow> None)"

definition entry_of :: "u8 list \<Rightarrow> fs_tree \<Rightarrow> (fs_entry \<times> u8) option" where
  "entry_of n t = find (\<lambda>(e, ty). entry_name e = n) (zip (t_entries t) (t_type t))"

fun resolve :: "u8 list list \<Rightarrow> fs_tree \<Rightarrow> (fs_entry \<times> u8) option" where
  "resolve [] t = None"
| "resolve [n] t = entry_of n t"
| "resolve (n # n' # ns) t = Option.bind (subdirectory n t) (resolve (n' # ns))"

text \<open>What the code compares with the hash of an intermediate component, and of the last one.\<close>

fun hash_seen :: "fs_entry \<Rightarrow> u32" where
  "hash_seen NoEntry = 0"
| "hash_seen (FileEntry f) = hash_as_dir f"
| "hash_seen (DirEntry t) = t_hash t"

fun entry_hash :: "fs_entry \<Rightarrow> u32" where
  "entry_hash NoEntry = 0"
| "entry_hash (FileEntry f) = f_hash f"
| "entry_hash (DirEntry t) = t_hash t"

text \<open>The hashes tell the names on the way apart: there are no null entries, every directory on the way has two entries or
  more, and no other entry looks like a component of the path.\<close>

fun clear :: "u8 list list \<Rightarrow> fs_tree \<Rightarrow> bool" where
  "clear [] t \<longleftrightarrow> False"
| "clear [n] t \<longleftrightarrow> (\<forall>e\<in>set (t_entries t). e \<noteq> NoEntry \<and> (entry_hash e = hash_bytes n \<longleftrightarrow> entry_name e = n))"
| "clear (n # n' # ns) t \<longleftrightarrow>
     2 \<le> length (t_entries t) \<and>
     (\<forall>e\<in>set (t_entries t). e \<noteq> NoEntry \<and> (hash_seen e = hash_bytes n \<longleftrightarrow> is_dir e \<and> entry_name e = n)) \<and>
     (case subdirectory n t of None \<Rightarrow> False | Some d \<Rightarrow> clear (n' # ns) d)"

section \<open>Searching a directory\<close>

lemma find_dir_named:
  assumes "\<forall>e\<in>set es. e \<noteq> NoEntry \<and> (hash_seen e = h \<longleftrightarrow> is_dir e \<and> entry_name e = n)"
  shows "find_dir h es = Inr (find (\<lambda>e. is_dir e \<and> entry_name e = n) es)"
  using assms
proof (induction es)
  case (Cons e es)
  then show ?case by (cases e) auto
qed simp

lemma find_last_named:
  assumes "list_all2 typed_entry ts es" "\<forall>e\<in>set es. e \<noteq> NoEntry \<and> (entry_hash e = h \<longleftrightarrow> entry_name e = n)"
  shows "find_last h ts es = Inr (E_NOERR, find (\<lambda>(e, ty). entry_name e = n) (zip es ts))"
  using assms
proof (induction ts es rule: list_all2_induct)
  case (Cons ty ts e es)
  then show ?case by (cases e) (auto simp: FS_FILE_def FS_DIR_def)
qed simp

lemma subdirectory_member: "subdirectory n t = Some d \<Longrightarrow> DirEntry d \<in> set (t_entries t)"
  unfolding subdirectory_def by (auto simp: find_Some_iff in_set_conv_nth split: option.splits fs_entry.splits)

lemma subdirectory_typed: "well_typed t \<Longrightarrow> subdirectory n t = Some d \<Longrightarrow> well_typed d"
  using subdirectory_member[of n t d] by (cases t) (auto simp: list_all2_conv_all_nth in_set_conv_nth)

lemma walk_clear:
  assumes "clear ns t" "well_typed t"
  shows "\<exists>d. walk (butlast ns) t found = Inr (Some (d, found \<or> length ns \<noteq> 1)) \<and> resolve ns t = entry_of (last ns) d \<and>
    clear [last ns] d \<and> well_typed d"
  using assms
proof (induction ns t arbitrary: found rule: clear.induct)
  case (3 n n' ns t)
  obtain d where d: "subdirectory n t = Some d" "clear (n' # ns) d" using "3.prems"(1) by (auto split: option.splits)
  have "find_dir (hash_bytes n) (t_entries t) = Inr (find (\<lambda>e. is_dir e \<and> entry_name e = n) (t_entries t))"
    using "3.prems"(1) by (intro find_dir_named) simp
  moreover have "find (\<lambda>e. is_dir e \<and> entry_name e = n) (t_entries t) = Some (DirEntry d)"
    using d(1) by (simp add: subdirectory_def split: option.splits fs_entry.splits)
  ultimately have "walk (butlast (n # n' # ns)) t found = walk (butlast (n' # ns)) d True" using "3.prems"(1) by simp
  then show ?case using "3.IH"[OF d subdirectory_typed[OF "3.prems"(2) d(1)], of True] d(1) by simp
qed auto

section \<open>Whole paths\<close>

lemma path_text_head: "components 47 kns \<Longrightarrow> path_text 47 kns \<noteq> [] \<and> hd (path_text 47 kns) = 47"
  by (cases kns) (auto simp: components_def)

lemma traverse_fs_path:
  assumes "components 47 kns" "\<And>n. length (M n) = n"
  shows "traverse_fs M uninit root pwd (path_text 47 kns) =
    bindR (walk (butlast (map snd kns)) root False) (search_last uninit (map snd kns))"
  using path_text_head[OF assms(1)] str_split_path[OF assms(1) _ assms(2)]
  by (simp add: traverse_fs_def Let_def)

lemma traverse_clear:
  assumes "components 47 kns" "\<And>n. length (M n) = n" "well_typed root" "clear (map snd kns) root"
  shows "traverse_fs M uninit root pwd (path_text 47 kns) =
    Inr (case resolve (map snd kns) root of
           Some (e, ty) \<Rightarrow> \<lparr>ei_entry = e, ei_type = ty, ei_ret = E_NOERR\<rparr>
         | None \<Rightarrow> uninit\<lparr>ei_ret := E_NOERR\<rparr>)"
proof -
  have "\<exists>d. walk (butlast (map snd kns)) root False = Inr (Some (d, length kns \<noteq> 1)) \<and>
      resolve (map snd kns) root = entry_of (last (map snd kns)) d \<and> clear [last (map snd kns)] d \<and> well_typed d"
    using walk_clear[OF assms(4,3), of False] by simp
  then obtain d where d: "walk (butlast (map snd kns)) root False = Inr (Some (d, length kns \<noteq> 1))"
    "resolve (map snd kns) root = entry_of (last (map snd kns)) d" "clear [last (map snd kns)] d" "well_typed d" by blast
  have "find_last (hash_bytes (last (map snd kns))) (t_type d) (t_entries d) = Inr (E_NOERR, entry_of (last (map snd kns)) d)"
    using d(3,4) unfolding entry_of_def by (intro find_last_named) (cases d; simp)+
  then show ?thesis using d(1,2) by (simp add: traverse_fs_path[OF assms(1,2)] search_last_def split: option.split)
qed

lemma walk_skips:
  "2 \<le> length (t_entries t) \<Longrightarrow> \<forall>e\<in>set (t_entries t). e \<noteq> NoEntry \<and> hash_seen e \<noteq> hash_bytes n \<Longrightarrow>
    walk (n # ns) t found = walk ns t False"
proof -
  have "\<forall>e\<in>set es. e \<noteq> NoEntry \<and> hash_seen e \<noteq> h \<Longrightarrow> find_dir h es = Inr None" for es h
  proof (induction es)
    case (Cons e es)
    then show ?case by (cases e) auto
  qed simp
  then show "2 \<le> length (t_entries t) \<Longrightarrow> \<forall>e\<in>set (t_entries t). e \<noteq> NoEntry \<and> hash_seen e \<noteq> hash_bytes n \<Longrightarrow> ?thesis" by simp
qed

section \<open>The properties\<close>

lemma example_well_typed: "well_typed example_tree"
  by (rule populate_typed[OF example_populate])

text \<open>C33: Path resolution. For a path of components, each behind one or more slashes, in a well typed tree where the
  hashes tell the names on the way apart and all components but the last are directories, \<^verbatim>\<open>traverse_fs\<close> gives the entry that
  the names lead to, with its type. A last component that does not exist is not reported: the result code is
  \<^verbatim>\<open>E_NOERR\<close> and the entry is whatever the local variable held.\<close>

theorem traverse_fs_resolves:
  assumes "components 47 kns" "\<And>n. length (M n) = n" "well_typed root" "clear (map snd kns) root"
  shows "traverse_fs M uninit root pwd (path_text 47 kns) =
    Inr (case resolve (map snd kns) root of
           Some (e, ty) \<Rightarrow> \<lparr>ei_entry = e, ei_type = ty, ei_ret = E_NOERR\<rparr>
         | None \<Rightarrow> uninit\<lparr>ei_ret := E_NOERR\<rparr>)"
  using assms by (rule traverse_clear)

lemma le_word_zeros [simp]: "le_word (replicate n 0) = 0"
  by (induction n) simp_all

lemma example_clear: "clear [[100], [98]] example_tree" "resolve [[100], [98]] example_tree = Some (FileEntry (file_of (example_entry 3 1 98) example_inode), 1)"
  by (simp_all add: example_tree_def subdirectory_def entry_of_def dir_of_def file_of_def hash_as_dir_def hash_bytes_def slice_def takeWhile_zeros)

lemma traverse_fs_resolves_witness:
  "\<forall>u. \<exists>e. traverse_fs (\<lambda>n. replicate n 0) u example_tree [47] [47, 100, 47, 47, 98] =
    Inr \<lparr>ei_entry = FileEntry e, ei_type = 1, ei_ret = 0\<rparr> \<and> f_inode e = 3"
proof
  fix u
  have p: "path_text 47 [(0, [100]), (1, [98])] = [47, 100, 47, 47, 98]" by simp
  show "\<exists>e. traverse_fs (\<lambda>n. replicate n 0) u example_tree [47] [47, 100, 47, 47, 98] =
      Inr \<lparr>ei_entry = FileEntry e, ei_type = 1, ei_ret = 0\<rparr> \<and> f_inode e = 3"
    using traverse_fs_resolves[of "[(0, [100]), (1, [98])]" "\<lambda>n. replicate n 0" example_tree u "[47]"] example_clear example_well_typed
    unfolding p by (simp add: components_def E_NOERR_def file_of_def)
qed

text \<open>C34: A directory that does not exist. When a path of three or more components begins with one that no entry of the root
  matches, that component is ignored: the result is the same as for the path without it, because the loop stays in the
  directory where it is and only the outcome of the last search is looked at behind it.\<close>

theorem missing_directory_ignored:
  assumes "components 47 ((k, n) # kns)" "2 \<le> length kns" "\<And>n. length (M n) = n"
    and "2 \<le> length (t_entries root)" "\<forall>e\<in>set (t_entries root). e \<noteq> NoEntry \<and> hash_seen e \<noteq> hash_bytes n"
  shows "traverse_fs M uninit root pwd (path_text 47 ((k, n) # kns)) = traverse_fs M uninit root pwd (path_text 47 kns)"
proof -
  have c: "components 47 kns" using assms(1,2) by (auto simp: components_def)
  have "map snd kns \<noteq> []" "length (map snd kns) \<noteq> 1" using assms(2) by auto
  then have "search_last uninit (n # map snd kns) = search_last uninit (map snd kns)"
    by (intro ext) (simp add: search_last_def split: option.split)
  moreover have "walk (butlast (n # map snd kns)) root False = walk (butlast (map snd kns)) root False"
    using walk_skips[OF assms(4,5)] \<open>map snd kns \<noteq> []\<close> by (simp del: walk.simps)
  ultimately show ?thesis
    using traverse_fs_path[OF assms(1,3)] traverse_fs_path[OF c assms(3)] by (simp del: path_text_simps)
qed

lemma missing_directory_ignored_witness:
  "\<forall>u. traverse_fs (\<lambda>n. replicate n 0) u example_tree [47] [47, 120, 47, 100, 47, 98] =
   traverse_fs (\<lambda>n. replicate n 0) u example_tree [47] [47, 100, 47, 98]"
proof
  fix u
  have e: "2 \<le> length (t_entries example_tree)" "\<forall>e\<in>set (t_entries example_tree). e \<noteq> NoEntry \<and> hash_seen e \<noteq> hash_bytes [120]"
    by (simp_all add: example_tree_def dir_of_def file_of_def hash_as_dir_def hash_bytes_def slice_def)
  show "traverse_fs (\<lambda>n. replicate n 0) u example_tree [47] [47, 120, 47, 100, 47, 98] =
      traverse_fs (\<lambda>n. replicate n 0) u example_tree [47] [47, 100, 47, 98]"
    using missing_directory_ignored[of 0 "[120]" "[(0, [100]), (0, [98])]" "\<lambda>n. replicate n 0" example_tree u "[47]", OF _ _ _ e]
    by (simp add: components_def)
qed

end
