(* ===== verification/File_Spec.thy ===== *)
theory File_Spec
  imports File_Ops Path_Spec
begin

unbundle bit_operations_syntax

text \<open>
  Properties of open files. A file is used by a sequence of operations, the step relation \<open>file_step\<close>; \<open>file_content\<close> is
  what its buffer holds when it was opened. The shape of the reachable states is proved by rule induction: the buffer
  holds the content until it is released, and a released buffer is never replaced.
\<close>

section \<open>The content\<close>

text \<open>The bytes of the file, as long as its size was at mount time; behind the end that it has now, what the memory held.\<close>

definition file_content :: "(nat \<Rightarrow> u8 list) \<Rightarrow> ext2 \<Rightarrow> FILE \<Rightarrow> inode_base \<Rightarrow> u8 list" where
  "file_content M fs f i =
     overwrite 0 (map (file_byte fs i) [0..<min (unat (f_size f)) (unat (size_lower i))]) (M (unat (f_size f)))"

lemma sized_inode_ok: "sized M \<Longrightarrow> inode_ok (inode_of_bytes (M 128))"
  by (simp add: sized_def inode_ok_def inode_of_bytes_def)

lemma length_file_content: "sized M \<Longrightarrow> length (file_content M fs f i) = unat (f_size f)"
  by (simp add: file_content_def sized_def)

lemma ext2_read_content:
  assumes "disk_ok fs" "inode_at fs (f_inode f) i" "inode_ok mem"
  shows "ext2_read (f_inode f) 0 (f_size f) mem fs =
    Inr (f_size f, map (file_byte fs i) [0..<min (unat (f_size f)) (unat (size_lower i))])"
  using assms read_inode_filedata_reads[OF assms(1), of i 0 "f_size f"] unsigned_less[of "f_size f", where 'a = nat]
  by (simp add: ext2_read_def inode_at_def inode_ok_def)

lemma ext2_open_content:
  assumes "disk_ok fs" "inode_at fs (f_inode f) i" "sized M"
  shows "ext2_open M fs f h =
    Inr (if file_buffer h = No_buffer then h\<lparr>file_buffer := Buffer (file_content M fs f i)\<rparr> else h)"
  using ext2_read_content[OF assms(1,2) sized_inode_ok[OF assms(3)]] by (simp add: ext2_open_def file_content_def)

section \<open>Sequences of operations\<close>

datatype operation = Open | Read u32 | Close

inductive file_step :: "(nat \<Rightarrow> u8 list) \<Rightarrow> ext2 \<Rightarrow> u32 \<Rightarrow> FILE \<Rightarrow> open_file \<Rightarrow> operation \<Rightarrow> open_file \<Rightarrow> bool" for M fs gret f where
  Open: "fs_open M fs f h = Inr h' \<Longrightarrow> file_step M fs gret f h Open h'"
| Read: "f_read M fs gret f n h = Inr (r, out, h') \<Longrightarrow> file_step M fs gret f h (Read n) h'"
| Close: "f_close h = Inr h' \<Longrightarrow> file_step M fs gret f h Close h'"

inductive file_run :: "(nat \<Rightarrow> u8 list) \<Rightarrow> ext2 \<Rightarrow> u32 \<Rightarrow> FILE \<Rightarrow> open_file \<Rightarrow> operation list \<Rightarrow> open_file \<Rightarrow> bool" for M fs gret f where
  Nil: "file_run M fs gret f h [] h"
| Cons: "file_step M fs gret f h x h' \<Longrightarrow> file_run M fs gret f h' xs h'' \<Longrightarrow> file_run M fs gret f h (x # xs) h''"

inductive_simps file_step_simps [simp]:
  "file_step M fs gret f h Open h'" "file_step M fs gret f h (Read n) h'" "file_step M fs gret f h Close h'"

inductive_simps file_run_simps [simp]: "file_run M fs gret f h [] h'" "file_run M fs gret f h (x # xs) h'"

text \<open>The state of a file that was not released: it holds the content or nothing, and in the second case the count is 0,
  or -1 when it was closed without having been opened.\<close>

definition handle_ok :: "u8 list \<Rightarrow> open_file \<Rightarrow> bool" where
  "handle_ok c h \<longleftrightarrow> refcount h \<in> {- (2 ^ 31)..<2 ^ 31} \<and>
     (case file_buffer h of No_buffer \<Rightarrow> refcount h \<in> {0, - 1} | Buffer b \<Rightarrow> b = c \<and> refcount h \<noteq> 0 | Released \<Rightarrow> True | Wild \<Rightarrow> False)"

lemma int32_range: "int32 k \<in> {- (2 ^ 31)..<2 ^ 31}"
  using sint_range_size[of "word_of_int k :: u32"] by (simp add: int32_def word_size)

lemma int32_small [simp]: "int32 0 = 0" "int32 1 = 1" "int32 (- 1) = - 1"
  by (simp_all add: int32_def)

lemma int32_inc:
  assumes "0 \<le> k" "k < 2 ^ 31"
  shows "int32 (k + 1) \<noteq> 0"
proof
  assume "int32 (k + 1) = 0"
  then have "(word_of_int (k + 1) :: u32) = 0" unfolding int32_def by (simp only: signed_eq_0_iff)
  then have "(k + 1) mod 2 ^ 32 = 0" using uint_word_of_int[of "k + 1", where 'a = 32] by simp
  moreover have "(k + 1) mod 2 ^ 32 = k + 1" using assms by (intro mod_pos_pos_trivial) auto
  ultimately show False using assms by simp
qed

lemma int32_dec:
  assumes "k \<in> {- (2 ^ 31)..<2 ^ 31}"
  shows "int32 (k - 1) = 0 \<longleftrightarrow> k = 1"
proof
  assume "int32 (k - 1) = 0"
  then have "(word_of_int (k - 1) :: u32) = 0" unfolding int32_def by (simp only: signed_eq_0_iff)
  then have m: "(k - 1) mod 2 ^ 32 = 0" using uint_word_of_int[of "k - 1", where 'a = 32] by simp
  show "k = 1"
  proof (cases "0 \<le> k - 1")
    case True
    then have "(k - 1) mod 2 ^ 32 = k - 1" using assms by (intro mod_pos_pos_trivial) auto
    then show ?thesis using m by simp
  next
    case False
    have "(k - 1 + 2 ^ 32) mod 2 ^ 32 = k - 1 + 2 ^ 32" using False assms by (intro mod_pos_pos_trivial) auto
    moreover have "(k - 1 + 2 ^ 32) mod 2 ^ 32 = (k - 1) mod 2 ^ 32" by (rule mod_add_self2)
    ultimately show ?thesis using m False assms by simp
  qed
qed simp

lemma fs_open_count: "fs_open M fs f h = Inr h' \<Longrightarrow> refcount h' = (if 0 \<le> refcount h then int32 (refcount h + 1) else refcount h)"
  by (auto simp: fs_open_def ext2_open_def Let_def bindR_eq_Inr split: if_splits)

lemma f_close_count: "f_close h = Inr h' \<Longrightarrow> refcount h' = (if refcount h = - 1 then - 1 else int32 (refcount h - 1))"
  by (auto simp: f_close_def ext2_close_def Let_def split: if_splits buffer.splits)

text \<open>The file system, the file and the memory of a group of lemmas.\<close>

definition file_on_disk :: "(nat \<Rightarrow> u8 list) \<Rightarrow> ext2 \<Rightarrow> FILE \<Rightarrow> inode_base \<Rightarrow> bool" where
  "file_on_disk M fs f i \<longleftrightarrow> disk_ok fs \<and> inode_at fs (f_inode f) i \<and> sized M"

lemma fs_open_opens:
  assumes "file_on_disk M fs f i"
  shows "fs_open M fs f h =
    Inr (h\<lparr>refcount := (if 0 \<le> refcount h then int32 (refcount h + 1) else refcount h), cur_offset := 0,
           file_buffer := (if file_buffer h = No_buffer then Buffer (file_content M fs f i) else file_buffer h)\<rparr>)"
proof -
  have "disk_ok fs" "inode_at fs (f_inode f) i" "sized M" using assms by (simp_all add: file_on_disk_def)
  from ext2_open_content[OF this] show ?thesis by (simp add: fs_open_def Let_def)
qed

lemma fs_open_ok:
  assumes "file_on_disk M fs f i" "handle_ok (file_content M fs f i) h" "fs_open M fs f h = Inr h'"
  shows "handle_ok (file_content M fs f i) h'"
  using assms(2,3) int32_range int32_inc[of "refcount h"]
  by (auto simp: fs_open_opens[OF assms(1)] handle_ok_def split: buffer.splits if_splits)

lemma f_close_ok: "handle_ok c h \<Longrightarrow> f_close h = Inr h' \<Longrightarrow> handle_ok c h'"
  using int32_range by (auto simp: f_close_def Let_def ext2_close_def handle_ok_def split: buffer.splits if_splits)

lemma f_read_cases:
  assumes "f_read M fs gret f n h = Inr (r, out, h')"
  obtains "h' = h" | g where "file_buffer h \<noteq> No_buffer" "h' = h\<lparr>cur_offset := g\<rparr>"
    | h1 g where "file_buffer h = No_buffer" "fs_open M fs f h = Inr h1" "h' = h1\<lparr>cur_offset := g\<rparr>"
  using assms by (fastforce simp: f_read_def Let_def bindR_eq_Inr split: if_splits)

lemma handle_ok_offset [simp]: "handle_ok c (h\<lparr>cur_offset := g\<rparr>) \<longleftrightarrow> handle_ok c h"
  by (simp add: handle_ok_def split: buffer.split)

lemma file_step_ok:
  assumes "file_on_disk M fs f i" "handle_ok (file_content M fs f i) h" "file_step M fs gret f h x h'"
  shows "handle_ok (file_content M fs f i) h'"
  using assms(3,2)
proof cases
  case (Read n r out)
  from Read(2) show ?thesis
    by (rule f_read_cases) (use assms(2) fs_open_ok[OF assms(1,2)] in auto)
qed (auto intro: fs_open_ok[OF assms(1)] f_close_ok)

lemma file_run_ok:
  "file_run M fs gret f h xs h' \<Longrightarrow> file_on_disk M fs f i \<Longrightarrow> handle_ok (file_content M fs f i) h \<Longrightarrow>
    handle_ok (file_content M fs f i) h'"
  by (induction rule: file_run.induct) (auto intro: file_step_ok)

lemma file_step_released:
  assumes "file_step M fs gret f h x h'" "file_buffer h = Released"
  shows "file_buffer h' = Released"
  using assms
proof cases
  case (Read n r out)
  from Read(2) show ?thesis by (rule f_read_cases) (use assms(2) in auto)
qed (auto simp: fs_open_def ext2_open_def f_close_def ext2_close_def Let_def split: if_splits)

lemma file_run_released: "file_run M fs gret f h xs h' \<Longrightarrow> file_buffer h = Released \<Longrightarrow> file_buffer h' = Released"
  by (induction rule: file_run.induct) (auto intro: file_step_released)

text \<open>The count stays in the range of \<^verbatim>\<open>int\<close>.\<close>

lemma file_step_count:
  assumes "file_step M fs gret f h x h'" "refcount h \<in> {- (2 ^ 31)..<2 ^ 31}"
  shows "refcount h' \<in> {- (2 ^ 31)..<2 ^ 31}"
  using assms(1)
proof cases
  case (Read n r out)
  from Read(2) show ?thesis
    by (rule f_read_cases) (use assms(2) int32_range in \<open>auto dest!: fs_open_count\<close>)
next
  case Open
  then show ?thesis using assms(2) int32_range by (auto dest!: fs_open_count)
next
  case Close
  then show ?thesis using assms(2) int32_range by (auto dest!: f_close_count)
qed

lemma file_run_count:
  "file_run M fs gret f h xs h' \<Longrightarrow> refcount h \<in> {- (2 ^ 31)..<2 ^ 31} \<Longrightarrow> refcount h' \<in> {- (2 ^ 31)..<2 ^ 31}"
  by (induction rule: file_run.induct) (auto dest: file_step_count)

text \<open>A file that was mounted and not used yet, in cleared memory.\<close>

definition unused_file :: open_file where
  "unused_file = \<lparr>file_buffer = No_buffer, cur_offset = 0, refcount = 0\<rparr>"

lemma unused_ok: "handle_ok c unused_file"
  by (simp add: handle_ok_def unused_file_def)

lemma within_size: "unat n + unat off \<le> unat s \<Longrightarrow> \<not> n + off > s" for n off s :: u32
  using unsigned_less[of s, where 'a = nat] by (simp add: word_less_nat_alt unat_word_ariths)

lemma hd_strncpy: "xs \<noteq> [] \<Longrightarrow> 0 < n \<Longrightarrow> hd (strncpy_bytes n xs) = hd xs"
  by (cases xs; cases n) (auto simp: strncpy_bytes_def Let_def)

lemma gets_skip_overruns:
  assumes "file_buffer h = Buffer b" "\<forall>c\<in>set b. c < 0x80" "length b < 2 ^ 32 - 8" "unat off \<le> length b + 4"
  shows "gets_skip M fs gret f off 1 h = Some (Inl OutOfBounds)"
  using assms(4)
proof (induction "length b + 4 - unat off" arbitrary: off rule: less_induct)
  case less
  show ?case
  proof (cases "unat off < length b")
    case False
    then have "four_bytes h off = Inl OutOfBounds" using assms(1) by (simp add: four_bytes_def)
    then show ?thesis by (subst gets_skip.simps) simp
  next
    case True
    have u: "unat (off + 4) = unat off + 4" using True assms(3) by (simp add: unat_word_ariths)
    have "drop (unat off) b \<noteq> []" using True by simp
    moreover from this have "hd (drop (unat off) b) \<in> set b" by (meson hd_in_set in_set_dropD)
    ultimately have c: "hd (strncpy_bytes 4 (drop (unat off) b)) < 0x80" using assms(2) by (simp add: hd_strncpy)
    have "gets_skip M fs gret f (off + 4) 1 h = Some (Inl OutOfBounds)" using True u by (intro less.hyps) auto
    then show ?thesis using c assms(1) by (subst gets_skip.simps) (simp add: four_bytes_def)
  qed
qed

section \<open>An example\<close>

text \<open>The file \<^verbatim>\<open>/a\<close> of the example disk.\<close>

definition example_file :: FILE where
  "example_file = file_of (example_entry 3 1 97) example_inode"

lemma example_file_on_disk: "file_on_disk (\<lambda>n. replicate n 0) example_tree_fs example_file example_inode"
  using example_tree_disk_ok example_inodes(2)[OF example_tree_holds] by (simp add: file_on_disk_def example_file_def file_of_def sized_def)

lemma example_file_size: "f_size example_file = 5"
  by (simp add: example_file_def file_of_def example_inode_def)

lemma example_opened:
  "fs_open (\<lambda>n. replicate n 0) example_tree_fs example_file unused_file =
    Inr \<lparr>file_buffer = Buffer (file_content (\<lambda>n. replicate n 0) example_tree_fs example_file example_inode), cur_offset = 0, refcount = 1\<rparr>"
  by (simp add: fs_open_opens[OF example_file_on_disk] unused_file_def)

section \<open>The properties\<close>

text \<open>C36: Reading. In every state that a file reaches from the unused one by opening, reading and closing in any order, as
  long as its buffer was not released, a read within the size stores exactly the bytes of the file from the current
  offset on, opening the file when that was not done. But what it returns, and how far the offset moves, is the global
  error code: with the code 0 the next read gives the same bytes again.\<close>

theorem f_read_reads_content:
  assumes "file_on_disk M fs f i" "file_run M fs gret f unused_file xs h" "file_buffer h \<noteq> Released"
    and "unat n + unat (cur_offset h) \<le> unat (f_size f)"
  shows "\<exists>h'. f_read M fs gret f n h = Inr (gret, slice (unat (cur_offset h)) (unat n) (file_content M fs f i), h') \<and>
    file_buffer h' = Buffer (file_content M fs f i) \<and> cur_offset h' = (if file_buffer h = No_buffer then 0 else cur_offset h) + gret"
proof -
  have "handle_ok (file_content M fs f i) h" using file_run_ok[OF assms(2,1) unused_ok] .
  then have b: "file_buffer h = No_buffer \<or> file_buffer h = Buffer (file_content M fs f i)"
    using assms(3) by (cases "file_buffer h") (auto simp: handle_ok_def)
  have l: "unat (cur_offset h) + unat n \<le> length (file_content M fs f i)"
    using assms(1,4) by (simp add: file_on_disk_def length_file_content)
  show ?thesis
    using b l within_size[OF assms(4)] by (auto simp: f_read_def Let_def fs_open_opens[OF assms(1)] live_bytes_def)
qed

lemma f_read_reads_content_witness:
  "\<exists>h h'. file_run (\<lambda>n. replicate n 0) example_tree_fs 0 example_file unused_file [Open] h \<and>
    f_read (\<lambda>n. replicate n 0) example_tree_fs 0 example_file 5 h =
      Inr (0, slice 0 5 (file_content (\<lambda>n. replicate n 0) example_tree_fs example_file example_inode), h')"
proof -
  obtain h where h: "fs_open (\<lambda>n. replicate n 0) example_tree_fs example_file unused_file = Inr h"
    "file_buffer h \<noteq> Released" "cur_offset h = 0"
    using example_opened by simp
  then have r: "file_run (\<lambda>n. replicate n 0) example_tree_fs 0 example_file unused_file [Open] h" by simp
  have "unat (5 :: u32) + unat (cur_offset h) \<le> unat (f_size example_file)" by (simp add: h(3) example_file_size)
  from f_read_reads_content[OF example_file_on_disk r h(2) this] r h(3) show ?thesis by auto
qed

text \<open>C37: Use after release. Once a file that had no buffer and the count 0 was opened and closed, whatever is done with it afterwards, its buffer stays
  released: opening it again does not read it again, and every read within the size accesses the released memory.
  Closing it releases the memory a second time when its count is 1, as after it was opened again; directly after the
  first close the count is 0, and closing it then only counts down, which does nothing any more once the count is -1.\<close>

theorem closed_file_is_dead:
  assumes "file_run M fs gret f unused_file (Open # Close # xs) h"
  shows "file_buffer h = Released \<and> (\<forall>n. \<not> n + cur_offset h > f_size f \<longrightarrow> f_read M fs gret f n h = Inl OutOfBounds) \<and>
    f_close h = (if refcount h = 1 then Inl OutOfBounds else if refcount h = - 1 then Inr h
                 else Inr (h\<lparr>refcount := int32 (refcount h - 1)\<rparr>)) \<and>
    (xs = [] \<longrightarrow> refcount h = 0) \<and> (xs = [Open] \<longrightarrow> refcount h = 1)"
proof -
  obtain h1 h2 where o: "fs_open M fs f unused_file = Inr h1" and c: "f_close h1 = Inr h2" and r: "file_run M fs gret f h2 xs h"
    using assms by auto
  have h1: "refcount h1 = 1 \<and> file_buffer h1 \<noteq> No_buffer"
    using o by (auto simp: fs_open_def ext2_open_def Let_def unused_file_def bindR_eq_Inr split: if_splits)
  then have h2: "file_buffer h2 = Released" "refcount h2 = 0"
    using c f_close_count[OF c] by (auto simp: f_close_def ext2_close_def Let_def split: buffer.splits)
  have b: "file_buffer h = Released" by (rule file_run_released[OF r h2(1)])
  have "refcount h \<in> {- (2 ^ 31)..<2 ^ 31}" by (rule file_run_count[OF r]) (simp add: h2)
  then have "f_close h = (if refcount h = 1 then Inl OutOfBounds else if refcount h = - 1 then Inr h
      else Inr (h\<lparr>refcount := int32 (refcount h - 1)\<rparr>))"
    using int32_dec[of "refcount h"] b by (simp add: f_close_def Let_def ext2_close_def)
  moreover have "xs = [Open] \<longrightarrow> refcount h = 1" using r h2(2) fs_open_count[of M fs f h2 h] by auto
  ultimately show ?thesis using b r h2(2) by (auto simp: f_read_def Let_def live_bytes_def)
qed

lemma closed_file_is_dead_witness:
  "\<exists>h. file_run (\<lambda>n. replicate n 0) example_tree_fs 0 example_file unused_file [Open, Close, Open] h \<and>
    f_read (\<lambda>n. replicate n 0) example_tree_fs 0 example_file 5 h = Inl OutOfBounds \<and> f_close h = Inl OutOfBounds"
proof -
  have c: "f_close \<lparr>file_buffer = Buffer b, cur_offset = 0, refcount = 1\<rparr> = Inr \<lparr>file_buffer = Released, cur_offset = 0, refcount = 0\<rparr>" for b
    by (simp add: f_close_def ext2_close_def)
  have o: "fs_open (\<lambda>n. replicate n 0) example_tree_fs example_file \<lparr>file_buffer = Released, cur_offset = 0, refcount = 0\<rparr> =
      Inr \<lparr>file_buffer = Released, cur_offset = 0, refcount = 1\<rparr>"
    by (simp add: fs_open_def ext2_open_def)
  have r: "file_run (\<lambda>n. replicate n 0) example_tree_fs 0 example_file unused_file [Open, Close, Open]
      \<lparr>file_buffer = Released, cur_offset = 0, refcount = 1\<rparr>"
    using example_opened c o by simp
  from closed_file_is_dead[OF r] r show ?thesis by (auto simp: example_file_size)
qed

text \<open>Reading a line. On a file of bytes below 128, whatever its content and the global error code, \<^verbatim>\<open>f_gets\<close> with a
  positive length does not return a line: its first loop, which only looks for multi-byte characters, runs past the end
  of the buffer of the file.\<close>

theorem f_gets_overruns:
  assumes "file_buffer h = Buffer b" "\<forall>c\<in>set b. c < 0x80" "length b < 2 ^ 32 - 8" "0 < len"
  shows "f_gets M fs gret f len h = Some (Inl OutOfBounds)"
  using assms(4) gets_skip_overruns[OF assms(1-3), of 0] by (simp add: f_gets_def)

lemma f_gets_overruns_witness:
  "f_gets (\<lambda>n. replicate n 0) example_tree_fs 0 example_file 80 \<lparr>file_buffer = Buffer [104, 105, 10], cur_offset = 0, refcount = 1\<rparr> =
    Some (Inl OutOfBounds)"
  by (rule f_gets_overruns[where b = "[104, 105, 10]"]) simp_all

end
