(* ===== verification/Shell_Spec.thy ===== *)
theory Shell_Spec
  imports Shell File_Spec
begin

unbundle bit_operations_syntax

text \<open>
  Properties of the shell: the loop against a reference that works on lines instead of a buffer (a client of the interface
  \<open>line_input\<close>), and what \<^verbatim>\<open>ls\<close> and \<^verbatim>\<open>cat\<close> print for a path, by the names of the entries.
\<close>

section \<open>Lines\<close>

text \<open>The reference: a line of characters, the last result, the echo and the machine.\<close>

fun line_keys ::
  "'w services \<Rightarrow> u8 list \<Rightarrow> u8 list \<Rightarrow> int \<Rightarrow> u8 list \<Rightarrow> 'w \<Rightarrow> ((u8 list \<times> int \<times> u8 list \<times> 'w) \<times> bool) result" where
  "line_keys S [] l ret out w = Inr ((l, ret, out, w), False)"
| "line_keys S (ch # ks) l ret out w =
     (if ends_line ch then
        bindR (run S (l @ replicate (4096 - length l) 0) w)
          (\<lambda>(ret, w). if ret = SHUTDOWN_CODE then Inr ((l, ret, out, w), True) else line_keys S ks [] ret (out @ [ch]) w)
      else if erases ch \<or> length l < 4096 then line_keys S ks (type_key ch l) ret (out @ [ch]) w
      else Inl OutOfBounds)"

definition shell_view :: "'w shell \<Rightarrow> u8 list \<times> int \<times> u8 list \<times> 'w" where
  "shell_view st = (line_of (line st), last_ret st, echoed st, world st)"

definition shown :: "('w shell \<times> bool) result \<Rightarrow> ((u8 list \<times> int \<times> u8 list \<times> 'w) \<times> bool) result" where
  "shown r = bindR r (\<lambda>(st, left). Inr (shell_view st, left))"

lemma shown_simps [simp]: "shown (Inl e) = Inl e" "shown (Inr (st, left)) = Inr (shell_view st, left)"
  by (simp_all add: shown_def)

lemma shell_keys_lines:
  "line_ok (line st) \<Longrightarrow>
    shown (shell_keys S ks st) =
    line_keys S ks (line_of (line st)) (last_ret st) (echoed st) (world st)"
proof (induction ks arbitrary: st)
  case (Cons ch ks)
  show ?case
  proof (cases "ends_line ch")
    case True
    have IH: "shown (shell_keys S ks (st\<lparr>line := empty_line, last_ret := r, echoed := e, world := w\<rparr>)) =
        line_keys S ks [] r e w" for r e w
      using Cons.IH[of "st\<lparr>line := empty_line, last_ret := r, echoed := e, world := w\<rparr>"] keys.start_valid by simp
    show ?thesis
    proof (cases "run S (lb_buf (line st)) (world st)")
      case (Inr rw)
      obtain r w where "rw = (r, w)" by fastforce
      then show ?thesis using True Inr IH Cons.prems by (simp add: shell_key_def line_buffer_text shell_view_def)
    qed (use True Cons.prems in \<open>simp add: shell_key_def line_buffer_text\<close>)
  next
    case False
    show ?thesis
    proof (cases "erases ch \<or> length (line_of (line st)) < 4096")
      case True
      then obtain b' where b': "put_key ch (line st) = Inr b'" "line_ok b'" "line_of b' = type_key ch (line_of (line st))"
        using keys.put_room[OF Cons.prems] by blast
      show ?thesis using False True b' Cons.IH[of "st\<lparr>line := b', echoed := echoed st @ [ch]\<rparr>"] by (simp add: shell_key_def)
    next
      case full: False
      then have "put_key ch (line st) = Inl OutOfBounds" using Cons.prems by (intro keys.put_full) simp_all
      then show ?thesis using False full by (simp add: shell_key_def)
    qed
  qed
qed (simp add: shell_view_def)

text \<open>C38: The shell loop. For all commands and all keys, the shell does what the reference does on lines: backspace removes the
  last character, a newline runs the line, followed by zeros up to 4096 bytes, with the machine as the commands before
  left it, and begins an empty line, and the shutdown code leaves the shell. It faults exactly where the reference does:
  when a command faults, or when a character is typed behind a line of 4096 characters.\<close>

theorem shell_runs_lines:
  "shown (shell S ks w) = line_keys S ks [] 0 [] w"
  unfolding shell_def using shell_keys_lines[of "\<lparr>line = empty_line, last_ret = 0, echoed = [], world = w\<rparr>" S ks] keys.start_valid
  by simp

section \<open>Files\<close>

text \<open>What \<^verbatim>\<open>ls\<close> shows of an entry.\<close>

fun ls_info :: "u8 \<Rightarrow> fs_entry \<Rightarrow> u8 \<times> (u8 list \<times> u32) option" where
  "ls_info ty NoEntry = (ty, None)"
| "ls_info ty (FileEntry f) = (ty, Some (entry_name (FileEntry f), f_size f))"
| "ls_info ty (DirEntry d) = (ty, Some (t_name d, of_nat (length (t_entries d))))"

lemma ls_line_typed: "typed_entry ty e \<Longrightarrow> ls_line ty e = Inr (ls_info ty e)"
  by (cases e) (auto simp: cstr_of_def FS_FILE_def FS_DIR_def)

lemma ls_lines_typed: "list_all2 typed_entry ts es \<Longrightarrow> ls_lines ts es = Inr (map2 ls_info ts es)"
  by (induction rule: list_all2_induct) (simp_all add: ls_line_typed del: ls_line.simps)

lemma bytes_of_simps [simp]: "length (bytes_of s) = length s" "bytes_of (s @ t) = bytes_of s @ bytes_of t"
  by (simp_all add: bytes_of_def)

lemma fs_helper_path:
  assumes "components 47 kns" "length cmd = len + 1"
  shows "fs_helper M uninit root pwd (cmd @ path_text 47 kns) len = traverse_fs M uninit root pwd (path_text 47 kns)"
proof -
  have "2 \<le> length (path_text 47 kns)" using assms(1) by (cases kns) (auto simp: components_def Suc_le_eq)
  then show ?thesis using assms(2) by (auto simp: fs_helper_def Let_def simp del: path_text_simps)
qed

lemma fs_helper_root:
  "length cmd = len + 1 \<Longrightarrow> fs_helper M uninit root pwd (cmd @ [47]) len = Inr \<lparr>ei_entry = DirEntry root, ei_type = FS_DIR, ei_ret = 0\<rparr>"
  by (simp add: fs_helper_def)

lemma ls_root:
  assumes "well_typed root"
  shows "ls M uninit root pwd (bytes_of ''ls /'') = Inr (0, map2 ls_info (t_type root) (t_entries root))"
proof -
  have b: "bytes_of ''ls /'' = bytes_of ''ls '' @ [47]" by (simp add: bytes_of_def)
  have "fs_helper M uninit root pwd (bytes_of ''ls /'') 2 = Inr \<lparr>ei_entry = DirEntry root, ei_type = FS_DIR, ei_ret = 0\<rparr>"
    unfolding b by (rule fs_helper_root) simp
  moreover have "list_all2 typed_entry (t_type root) (t_entries root)" using assms by (cases root) simp
  ultimately show ?thesis by (simp add: ls_def E_NOERR_def ls_lines_typed)
qed

lemma cat_file:
  assumes "fs_helper M uninit root pwd buf 3 = Inr \<lparr>ei_entry = FileEntry f, ei_type = FS_FILE, ei_ret = E_NOERR\<rparr>"
    and "file_on_disk M fs f i" "mem f = unused_file"
  shows "cat M fs 0 uninit root pwd mem buf =
    (if 0 \<in> set (file_content M fs f i)
     then Inr (0, takeWhile (\<lambda>c. c \<noteq> 0) (file_content M fs f i), Some (f, \<lparr>file_buffer = Released, cur_offset = 0, refcount = 0\<rparr>))
     else Inl OutOfBounds)"
proof -
  let ?c = "file_content M fs f i"
  have l: "length ?c = unat (f_size f)" using assms(2) by (simp add: file_on_disk_def length_file_content)
  have "f_read M fs 0 f (f_size f) unused_file = Inr (0, ?c, \<lparr>file_buffer = Buffer ?c, cur_offset = 0, refcount = 1\<rparr>)"
    using l by (simp add: f_read_def Let_def fs_open_opens[OF assms(2)] unused_file_def live_bytes_def slice_def)
  moreover have "overwrite 0 ?c (M (unat (f_size f))) = ?c"
    using l assms(2) by (simp add: overwrite_def file_on_disk_def sized_def)
  moreover have "f_close \<lparr>file_buffer = Buffer ?c, cur_offset = 0, refcount = 1\<rparr> = Inr \<lparr>file_buffer = Released, cur_offset = 0, refcount = 0\<rparr>"
    by (simp add: f_close_def ext2_close_def)
  ultimately show ?thesis using assms(1,3) by (simp add: cat_def cstr_of_def)
qed

lemma cat_released:
  assumes "fs_helper M uninit root pwd buf 3 = Inr \<lparr>ei_entry = FileEntry f, ei_type = FS_FILE, ei_ret = E_NOERR\<rparr>"
    and "mem f = \<lparr>file_buffer = Released, cur_offset = 0, refcount = 0\<rparr>"
  shows "cat M fs 0 uninit root pwd mem buf = Inl OutOfBounds"
  using assms by (simp add: cat_def f_read_def Let_def live_bytes_def)

lemma cat_wild:
  assumes "fs_helper M uninit root pwd buf 3 = Inr \<lparr>ei_entry = FileEntry f, ei_type = FS_FILE, ei_ret = E_NOERR\<rparr>"
    and "file_buffer (mem f) = Wild" "cur_offset (mem f) = 0"
  shows "cat M fs 0 uninit root pwd mem buf = Inl OutOfBounds"
  using assms by (simp add: cat_def f_read_def Let_def live_bytes_def)

lemma cat_path:
  assumes "components 47 kns" "\<And>n. length (M n) = n" "well_typed root" "clear (map snd kns) root"
    and "resolve (map snd kns) root = Some (FileEntry f, FS_FILE)"
  shows "fs_helper M uninit root pwd (bytes_of ''cat '' @ path_text 47 kns) 3 =
    Inr \<lparr>ei_entry = FileEntry f, ei_type = FS_FILE, ei_ret = E_NOERR\<rparr>"
  using traverse_clear[OF assms(1-4), of uninit pwd] assms(5) by (simp add: fs_helper_path[OF assms(1)])

text \<open>C39: Printing a file. For the path of a file that was not used yet, \<^verbatim>\<open>cat\<close> prints the content of the file up to its first
  zero byte; when it has none, as a text has, the string that is printed runs past the end of the buffer. It leaves the
  file with a released buffer, so that a second \<^verbatim>\<open>cat\<close> of the same file reads released memory.\<close>

theorem cat_works_once:
  assumes "components 47 kns" "file_on_disk M fs f i" "well_typed root" "clear (map snd kns) root"
    and "resolve (map snd kns) root = Some (FileEntry f, FS_FILE)" "files f = unused_file"
  shows "cat M fs 0 uninit root pwd files (bytes_of ''cat '' @ path_text 47 kns) =
      (if 0 \<in> set (file_content M fs f i)
       then Inr (0, takeWhile (\<lambda>c. c \<noteq> 0) (file_content M fs f i), Some (f, \<lparr>file_buffer = Released, cur_offset = 0, refcount = 0\<rparr>))
       else Inl OutOfBounds) \<and>
    cat M fs 0 uninit root pwd (files(f := \<lparr>file_buffer = Released, cur_offset = 0, refcount = 0\<rparr>)) (bytes_of ''cat '' @ path_text 47 kns) =
      Inl OutOfBounds"
proof -
  have "\<And>n. length (M n) = n" using assms(2) by (simp add: file_on_disk_def sized_def)
  note p = cat_path[OF assms(1) this assms(3-5)]
  show ?thesis using cat_file[where mem = files, OF p assms(2,6)] cat_released[OF p] by simp
qed

section \<open>An example\<close>

lemma example_a: "components 47 [(0, [97])]" "clear [[97]] example_tree" "resolve [[97]] example_tree = Some (FileEntry example_file, FS_FILE)"
  by (simp_all add: components_def example_tree_def entry_of_def dir_of_def file_of_def hash_bytes_def takeWhile_zeros example_file_def FS_FILE_def)

lemma example_content: "file_content (\<lambda>n. replicate n 0) example_tree_fs example_file example_inode = replicate 5 0"
proof -
  have b: "file_block example_tree_fs example_inode 0 = 7" by (simp add: file_block_def block_path_def example_inode_def)
  have "read_disk_block example_tree_fs 7 = replicate 512 0 @ concat (map (\<lambda>i. sectors example_tree_fs (56 + of_nat i)) [1..<8])"
    by (subst first_sector) (simp_all add: example_tree_fs_def example_fs_def)
  then have "file_byte example_tree_fs example_inode k = 0" if "k < 5" for k
    using that by (simp add: file_byte_def b nth_append)
  then have "map (file_byte example_tree_fs example_inode) [0..<5] = replicate 5 0"
    by (intro nth_equalityI) simp_all
  moreover have "min (unat (f_size example_file)) (unat (size_lower example_inode)) = 5"
    by (simp add: example_file_size) (simp add: example_inode_def)
  ultimately show ?thesis by (simp add: file_content_def example_file_size overwrite_def)
qed

lemma cat_works_once_witness:
  "\<forall>u. cat (\<lambda>n. replicate n 0) example_tree_fs 0 u example_tree [47] (\<lambda>f. unused_file) (bytes_of ''cat /a'') =
    Inr (0, [], Some (example_file, \<lparr>file_buffer = Released, cur_offset = 0, refcount = 0\<rparr>))"
proof
  fix u
  have b: "bytes_of ''cat /a'' = bytes_of ''cat '' @ path_text 47 [(0, [97])]" by (simp add: bytes_of_def)
  show "cat (\<lambda>n. replicate n 0) example_tree_fs 0 u example_tree [47] (\<lambda>f. unused_file) (bytes_of ''cat /a'') =
      Inr (0, [], Some (example_file, \<lparr>file_buffer = Released, cur_offset = 0, refcount = 0\<rparr>))"
    unfolding b using cat_works_once[OF example_a(1) example_file_on_disk example_well_typed, of "\<lambda>f. unused_file" u "[47]"] example_a
    by (simp add: example_content)
qed

end
