(* ===== verification/Mount.thy ===== *)
theory Mount
  imports Vfs
begin

unbundle bit_operations_syntax

text \<open>
  Mounting at boot: the partition table (\<^verbatim>\<open>print_MBR_table\<close> of \<^verbatim>\<open>fs/ext2/part.c\<close>), the superblock and the table of block
  groups (\<^verbatim>\<open>initial_fs\<close>, \<^verbatim>\<open>assign_superblock\<close>, \<^verbatim>\<open>read_BGD\<close> of \<^verbatim>\<open>fs/ext2/ext2.c\<close>), called by \<^verbatim>\<open>main/kernel_main.c\<close> before
  \<^verbatim>\<open>populate_fs\<close>. Messages are not modelled.
\<close>

section \<open>The superblock\<close>

record superblock =
  s_n_inodes :: u32
  s_n_blocks :: u32
  s_n_superuser :: u32
  s_n_unalloc_blocks :: u32
  s_n_unalloc_inodes :: u32
  s_block_number_super :: u32
  s_block_shift :: u32
  s_frag_shift :: u32
  s_n_block_in_group :: u32
  s_n_frag_in_group :: u32
  s_n_inode_in_group :: u32
  s_last_mount_time :: u32
  s_last_write_time :: u32
  s_n_mount_nocheck :: u16
  s_n_mount_nocheck_max :: u16
  s_signature :: u16
  s_FS_state :: u16
  s_error_action :: u16
  s_minor_ver :: u16
  s_last_check_time :: u32
  s_check_interval :: u32
  s_OS_ID :: u32
  s_major_ver :: u32
  s_res_user_ID :: u16
  s_res_group_ID :: u16
  s_first_non_res_inode :: u32
  s_inode_size :: u16
  s_host_block_group :: u16
  s_opt_features :: u32
  s_req_features :: u32
  s_rd_only_features :: u32
  s_blkid_FS_ID :: "u8 list"
  s_vol_name :: "u8 list"
  s_last_mnt_path :: "u8 list"
  s_compression_type :: u32
  s_n_blocks_files :: u8
  s_n_blocks_dir :: u8
  s_unused :: u16
  s_journal_ID :: "u8 list"
  s_journal_inode :: u32
  s_journal_device :: u32
  s_head_orphan_inode_list :: u32

text \<open>The 236 bytes of the structure.\<close>

definition superblock_bytes :: "superblock \<Rightarrow> u8 list" where
  "superblock_bytes s =
     le_bytes 4 (s_n_inodes s) @ le_bytes 4 (s_n_blocks s) @ le_bytes 4 (s_n_superuser s) @
     le_bytes 4 (s_n_unalloc_blocks s) @ le_bytes 4 (s_n_unalloc_inodes s) @ le_bytes 4 (s_block_number_super s) @
     le_bytes 4 (s_block_shift s) @ le_bytes 4 (s_frag_shift s) @ le_bytes 4 (s_n_block_in_group s) @
     le_bytes 4 (s_n_frag_in_group s) @ le_bytes 4 (s_n_inode_in_group s) @ le_bytes 4 (s_last_mount_time s) @
     le_bytes 4 (s_last_write_time s) @ le_bytes 2 (s_n_mount_nocheck s) @ le_bytes 2 (s_n_mount_nocheck_max s) @
     le_bytes 2 (s_signature s) @ le_bytes 2 (s_FS_state s) @ le_bytes 2 (s_error_action s) @
     le_bytes 2 (s_minor_ver s) @ le_bytes 4 (s_last_check_time s) @ le_bytes 4 (s_check_interval s) @
     le_bytes 4 (s_OS_ID s) @ le_bytes 4 (s_major_ver s) @ le_bytes 2 (s_res_user_ID s) @
     le_bytes 2 (s_res_group_ID s) @ le_bytes 4 (s_first_non_res_inode s) @ le_bytes 2 (s_inode_size s) @
     le_bytes 2 (s_host_block_group s) @ le_bytes 4 (s_opt_features s) @ le_bytes 4 (s_req_features s) @
     le_bytes 4 (s_rd_only_features s) @ s_blkid_FS_ID s @ s_vol_name s @ s_last_mnt_path s @
     le_bytes 4 (s_compression_type s) @ le_bytes 1 (s_n_blocks_files s) @ le_bytes 1 (s_n_blocks_dir s) @
     le_bytes 2 (s_unused s) @ s_journal_ID s @ le_bytes 4 (s_journal_inode s) @ le_bytes 4 (s_journal_device s) @
     le_bytes 4 (s_head_orphan_inode_list s)"

definition superblock_of_bytes :: "u8 list \<Rightarrow> superblock" where
  "superblock_of_bytes bs =
     \<lparr>s_n_inodes = le_word (slice 0 4 bs), s_n_blocks = le_word (slice 4 4 bs),
      s_n_superuser = le_word (slice 8 4 bs), s_n_unalloc_blocks = le_word (slice 12 4 bs),
      s_n_unalloc_inodes = le_word (slice 16 4 bs), s_block_number_super = le_word (slice 20 4 bs),
      s_block_shift = le_word (slice 24 4 bs), s_frag_shift = le_word (slice 28 4 bs),
      s_n_block_in_group = le_word (slice 32 4 bs), s_n_frag_in_group = le_word (slice 36 4 bs),
      s_n_inode_in_group = le_word (slice 40 4 bs), s_last_mount_time = le_word (slice 44 4 bs),
      s_last_write_time = le_word (slice 48 4 bs), s_n_mount_nocheck = le_word (slice 52 2 bs),
      s_n_mount_nocheck_max = le_word (slice 54 2 bs), s_signature = le_word (slice 56 2 bs),
      s_FS_state = le_word (slice 58 2 bs), s_error_action = le_word (slice 60 2 bs),
      s_minor_ver = le_word (slice 62 2 bs), s_last_check_time = le_word (slice 64 4 bs),
      s_check_interval = le_word (slice 68 4 bs), s_OS_ID = le_word (slice 72 4 bs),
      s_major_ver = le_word (slice 76 4 bs), s_res_user_ID = le_word (slice 80 2 bs),
      s_res_group_ID = le_word (slice 82 2 bs), s_first_non_res_inode = le_word (slice 84 4 bs),
      s_inode_size = le_word (slice 88 2 bs), s_host_block_group = le_word (slice 90 2 bs),
      s_opt_features = le_word (slice 92 4 bs), s_req_features = le_word (slice 96 4 bs),
      s_rd_only_features = le_word (slice 100 4 bs), s_blkid_FS_ID = slice 104 16 bs, s_vol_name = slice 120 16 bs,
      s_last_mnt_path = slice 136 64 bs, s_compression_type = le_word (slice 200 4 bs),
      s_n_blocks_files = le_word (slice 204 1 bs), s_n_blocks_dir = le_word (slice 205 1 bs),
      s_unused = le_word (slice 206 2 bs), s_journal_ID = slice 208 16 bs,
      s_journal_inode = le_word (slice 224 4 bs), s_journal_device = le_word (slice 228 4 bs),
      s_head_orphan_inode_list = le_word (slice 232 4 bs)\<rparr>"

definition bgd_of_bytes :: "u8 list \<Rightarrow> block_group_descriptor" where
  "bgd_of_bytes bs =
     \<lparr>block_bitmap_addr = le_word (slice 0 4 bs), inode_bitmap_addr = le_word (slice 4 4 bs),
      inode_table_addr = le_word (slice 8 4 bs), n_unalloc_blocks = le_word (slice 12 2 bs),
      n_unalloc_inodes = le_word (slice 14 2 bs), n_dir = le_word (slice 16 2 bs), pad1 = le_word (slice 18 2 bs),
      bg_reserved = slice 20 12 bs\<rparr>"

section \<open>The steps\<close>

text \<open>The start of the second of the four partitions in the first sector.\<close>

definition print_MBR_table :: "disk \<Rightarrow> u32" where
  "print_MBR_table dev = le_word (slice (446 + 16 * 1 + 8) 4 (dev 0))"

text \<open>\<open>mem\<close> is what the memory of the structure holds; the path is the root.\<close>

definition initial_fs :: "disk \<Rightarrow> ext2 \<Rightarrow> ext2 \<times> u8 list" where
  "initial_fs dev mem = (mem\<lparr>sectors := dev\<rparr>, [of_char (CHR ''/'')])"

text \<open>The fields that are computed from the superblock; the record has its \<^verbatim>\<open>inode_size\<close> as a field of its own.\<close>

definition superblock_fields :: "superblock \<Rightarrow> ext2 \<Rightarrow> ext2" where
  "superblock_fields s fs =
     (let fs = fs\<lparr>inode_size := s_inode_size s\<rparr>;
          fs = fs\<lparr>block_size := push_bit (unat (s_block_shift s) mod 32) 1024\<rparr>;
          fs = fs\<lparr>blocks_per_group := s_n_block_in_group s\<rparr>;
          fs = fs\<lparr>inodes_per_group := s_n_inode_in_group s\<rparr>
      in fs\<lparr>n_groups := 1 + (s_n_blocks s - 1) div blocks_per_group fs\<rparr>)"

text \<open>Two sectors are read into the memory of a superblock of 236 bytes. A wrong signature is only printed.\<close>

definition assign_superblock :: "(nat \<Rightarrow> u8 list) \<Rightarrow> u32 \<Rightarrow> ext2 \<Rightarrow> (ext2 \<times> superblock) result" where
  "assign_superblock M super_sector fs =
     (let fs = fs\<lparr>start_block := super_sector\<rparr>;
          raw = dev_read fs 2 (start_block fs + 2)
      in if 236 < length raw then Inl OutOfBounds
         else (let s = superblock_of_bytes (overwrite 0 raw (M 236)) in Inr (superblock_fields s fs, s)))"

text \<open>The product with the size of a descriptor is computed in 64 bits.\<close>

definition read_BGD :: "(nat \<Rightarrow> u8 list) \<Rightarrow> ext2 \<Rightarrow> ext2 result" where
  "read_BGD M fs =
     (let bgd_block = 2048 div block_size fs + 1;
          n_blocks = ucast ((ucast (n_groups fs) * 32 :: u64) div ucast (block_size fs) + 1) :: u32;
          tmp = M (unat (n_blocks * block_size fs))
      in bindR (fold (\<lambda>i r. bindR r (\<lambda>buf.
                    let off = unat (block_size fs * of_nat i);
                        data = dev_read fs (block_size fs div 512) (start_block fs + (bgd_block + of_nat i) * 8)
                    in if off + length data \<le> length buf then Inr (overwrite off data buf) else Inl OutOfBounds))
                  [0..<unat n_blocks] (Inr tmp))
           (\<lambda>buf. Inr (fs\<lparr>BGD := map (\<lambda>k. bgd_of_bytes (slice (32 * k) 32 buf)) [0..<length buf div 32]\<rparr>)))"

text \<open>The part of \<^verbatim>\<open>kernel_main\<close>: the file system, the tree and the path.\<close>

definition mount :: "(nat \<Rightarrow> nat \<Rightarrow> u8 list) \<Rightarrow> disk \<Rightarrow> ext2 \<Rightarrow> (ext2 \<times> fs_tree \<times> u8 list) result option" where
  "mount M dev mem =
     (let super_sector = print_MBR_table dev;
          (fs, pwd) = initial_fs dev mem
      in case bindR (assign_superblock (M 0) super_sector fs) (\<lambda>(fs, s). read_BGD (M 0) fs) of
           Inl e \<Rightarrow> Some (Inl e)
         | Inr fs \<Rightarrow> map_option (\<lambda>r. bindR r (\<lambda>root. Inr (fs, root, pwd))) (populate_fs (later M) fs))"

end
