(* ===== verification/Mount_Spec.thy ===== *)
theory Mount_Spec
  imports Mount Vfs_Spec
begin

unbundle bit_operations_syntax

text \<open>
  Properties of mounting: the structures on the disk are read back as they were written; the superblock is read behind its
  memory, whatever the disk holds; and with the fields of a superblock for blocks of 4096 bytes the table of descriptors
  that is read is the one on the disk.
\<close>

section \<open>Structures\<close>

definition superblock_ok :: "superblock \<Rightarrow> bool" where
  "superblock_ok s \<longleftrightarrow> length (s_blkid_FS_ID s) = 16 \<and> length (s_vol_name s) = 16 \<and> length (s_last_mnt_path s) = 64 \<and>
     length (s_journal_ID s) = 16"

lemma le_word_le_byte: "le_word (le_bytes (Suc 0) w) = (w :: u8)"
  using le_word_le_bytes[where 'a = 8 and n = 1, of w] by simp

lemma length_superblock_bytes: "superblock_ok s \<Longrightarrow> length (superblock_bytes s) = 236"
  by (simp add: superblock_bytes_def superblock_ok_def)

lemma superblock_of_bytes_superblock_bytes: "superblock_ok s \<Longrightarrow> superblock_of_bytes (superblock_bytes s) = s"
  unfolding superblock_of_bytes_def superblock_ok_def
  by (simp add: superblock_bytes_def slice_skip slice_head le_word_le_bytes_len le_word_le_byte) (simp add: slice_def le_word_le_bytes_len)

lemma bgd_of_bytes_bgd_bytes: "length (bg_reserved g) = 12 \<Longrightarrow> bgd_of_bytes (bgd_bytes g) = g"
  unfolding bgd_of_bytes_def
  by (simp add: bgd_bytes_def slice_skip slice_head le_word_le_bytes_len) (simp add: slice_def)

section \<open>The table of descriptors\<close>

text \<open>The number of block groups, and block \<open>b\<close> of the partition at \<open>start\<close>.\<close>

definition group_count :: "superblock \<Rightarrow> u32" where
  "group_count s = 1 + (s_n_blocks s - 1) div s_n_block_in_group s"

definition block_at :: "disk \<Rightarrow> u32 \<Rightarrow> u32 \<Rightarrow> u8 list" where
  "block_at dev start b = concat (map (\<lambda>i. dev (start + 8 * b + of_nat i)) [0..<8])"

lemma concat_blocks_slice:
  assumes "\<And>i. length (f i) = 4096" "k < 128 * n"
  shows "slice (32 * k) 32 (concat (map f [0..<n])) = slice (32 * (k mod 128)) 32 (f (k div 128))"
  using assms(2)
proof (induction n)
  case (Suc n)
  have l: "length (concat (map f [0..<n])) = 4096 * n" for n using assms(1) by (induction n) simp_all
  show ?case
  proof (cases "k < 128 * n")
    case True
    then have "slice (32 * k) 32 (concat (map f [0..<Suc n])) = slice (32 * k) 32 (concat (map f [0..<n]))"
      using l[of n] by (simp add: slice_def)
    then show ?thesis using Suc.IH[OF True] by simp
  next
    case False
    define r where "r = k - 128 * n"
    have k: "k = 128 * n + r" "r < 128" using False Suc.prems by (simp_all add: r_def)
    then have d: "k div 128 = n" "k mod 128 = r" by simp_all
    have "slice (32 * k) 32 (concat (map f [0..<n]) @ f n) = slice (32 * r) 32 (f n)"
      using l[of n] k by (simp add: slice_skip)
    then show ?thesis by (simp add: d)
  qed
qed simp

lemma read_blocks_fold:
  assumes "\<And>i. length (f i) = 4096" "j \<le> n" "n < 2 ^ 19" "length tmp = 4096 * n"
  shows "fold (\<lambda>i r. bindR r (\<lambda>buf. if unat (4096 * of_nat i :: u32) + length (f i) \<le> length buf
           then Inr (overwrite (unat (4096 * of_nat i :: u32)) (f i) buf) else Inl OutOfBounds))
       [0..<j] (Inr tmp) =
    Inr (concat (map f [0..<j]) @ drop (4096 * j) tmp)"
  using assms(2)
proof (induction j)
  case (Suc j)
  have l: "length (concat (map f [0..<j])) = 4096 * j" using assms(1) by (induction j) simp_all
  have u: "unat (4096 * of_nat j :: u32) = 4096 * j"
    using Suc.prems assms(3) by (simp add: unat_word_ariths unat_of_nat)
  have ow: "overwrite (4096 * j) (f j) (concat (map f [0..<j]) @ drop (4096 * j) tmp) = concat (map f [0..<Suc j]) @ drop (4096 * Suc j) tmp"
    using l assms(1)[of j] by (simp add: overwrite_def add.commute)
  have "4096 * j + 4096 \<le> length (concat (map f [0..<j]) @ drop (4096 * j) tmp)" using l Suc.prems assms(4) by simp
  then show ?case using Suc ow by (simp add: u assms(1) del: concat_append map_append)
qed simp

lemma length_block_at: "\<forall>n. length (dev n) = 512 \<Longrightarrow> length (block_at dev start b) = 4096"
  by (simp add: block_at_def length_concat comp_def sum_list_triv)

lemma read_BGD_image:
  assumes "\<forall>n. length (sectors fs n) = 512" "\<And>n. length (M n) = n" "block_size fs = 4096" "unat (n_groups fs) < 2 ^ 20"
  shows "read_BGD M fs = Inr (fs\<lparr>BGD := map (\<lambda>k. bgd_of_bytes (slice (32 * (k mod 128)) 32
      (block_at (sectors fs) (start_block fs) (of_nat (1 + k div 128))))) [0..<128 * (unat (n_groups fs) div 128 + 1)]\<rparr>)"
proof -
  define n where "n = unat (n_groups fs) div 128 + 1"
  have n: "n < 2 ^ 19" using assms(4) by (simp add: n_def div_less_iff_less_mult)
  define f where "f i = block_at (sectors fs) (start_block fs) (of_nat (1 + i))" for i
  have lf: "length (f i) = 4096" for i using assms(1) by (simp add: f_def length_block_at)
  have g: "unat (ucast (n_groups fs) :: u64) = unat (n_groups fs)" proof -
    have "unat (n_groups fs) < 2 ^ 64" using assms(4) by simp
    then show ?thesis by (simp add: unsigned_ucast_eq take_bit_nat_eq_self)
  qed
  have "unat (ucast (n_groups fs) * 32 :: u64) = 32 * unat (n_groups fs)" using assms(4) by (simp add: unat_word_ariths g)
  then have "unat ((ucast (n_groups fs) * 32 :: u64) div 4096) = 32 * unat (n_groups fs) div (32 * 128)" by (simp add: unat_div)
  then have "unat ((ucast (n_groups fs) * 32 :: u64) div 4096) = n - 1" by (simp only: div_mult_mult1_if n_def) simp
  then have u: "unat ((ucast (n_groups fs) * 32 :: u64) div 4096 + 1) = n" using n by (simp add: unat_word_ariths n_def)
  have "ucast ((ucast (n_groups fs) * 32 :: u64) div 4096 + 1) = (of_nat n :: u32)" unfolding u[symmetric] by simp
  then have nb: "ucast ((ucast (n_groups fs) * 32 :: u64) div ucast (4096 :: u32) + 1) = (of_nat n :: u32)" by simp
  have un: "unat (of_nat n :: u32) = n" using n by (simp add: unat_of_nat)
  have tmp: "length (M (unat ((of_nat n :: u32) * 4096))) = 4096 * n"
    using assms(2) n un by (simp add: unat_word_ariths)
  have e: "(4096 :: u32) div 512 = 8" "(2048 :: u32) div 4096 + 1 = 1" by simp_all
  have d: "dev_read fs (4096 div 512) (start_block fs + ((2048 :: u32) div 4096 + 1 + of_nat i) * 8) = f i" for i
  proof -
    have "unat (8 :: u32) = 8" by simp
    moreover have "start_block fs + (1 + of_nat i) * 8 + of_nat k = start_block fs + 8 * of_nat (1 + i) + of_nat k" for k
      by (simp add: algebra_simps)
    ultimately show ?thesis unfolding e dev_read_def f_def block_at_def by presburger
  qed
  have fo: "fold (\<lambda>i r. bindR r (\<lambda>buf. if unat (4096 * of_nat i :: u32) + length (f i) \<le> length buf
           then Inr (overwrite (unat (4096 * of_nat i :: u32)) (f i) buf) else Inl OutOfBounds))
       [0..<n] (Inr (M (unat ((of_nat n :: u32) * 4096)))) = Inr (concat (map f [0..<n]))"
    using read_blocks_fold[of f n n, OF lf order_refl n tmp] tmp by simp
  have lc: "length (concat (map f [0..<n])) div 32 = 128 * n" using lf by (induction n) simp_all
  have sl: "map (\<lambda>k. bgd_of_bytes (slice (32 * k) 32 (concat (map f [0..<n])))) [0..<128 * n] =
      map (\<lambda>k. bgd_of_bytes (slice (32 * (k mod 128)) 32 (f (k div 128)))) [0..<128 * n]"
    using concat_blocks_slice[of f, OF lf] by (intro map_cong) auto
  show ?thesis
    unfolding read_BGD_def Let_def assms(3) nb un d fo bindR_simps lc sl n_def[symmetric] f_def[symmetric] ..
qed

text \<open>The number of groups is the number of blocks divided by the size of a group, rounded up.\<close>

lemma group_count_rounds_up:
  assumes "s_n_blocks s \<noteq> 0" "s_n_block_in_group s \<noteq> 0"
  shows "unat (group_count s) = (unat (s_n_blocks s) + unat (s_n_block_in_group s) - 1) div unat (s_n_block_in_group s)"
proof -
  let ?n = "unat (s_n_blocks s)" and ?p = "unat (s_n_block_in_group s)"
  have n: "0 < ?n" "0 < ?p" using assms by (simp_all add: unat_gt_0)
  have "unat (s_n_blocks s - 1) = ?n - 1" using assms(1) by (simp add: unat_minus_one)
  then have u: "unat ((s_n_blocks s - 1) div s_n_block_in_group s) = (?n - 1) div ?p" by (simp add: unat_div)
  have "(?n - 1) div ?p \<le> ?n - 1" by (rule div_le_dividend)
  moreover have "?n < 2 ^ 32" using unsigned_less[of "s_n_blocks s", where 'a = nat] by simp
  ultimately have "1 + (?n - 1) div ?p < 2 ^ 32" using n(1) by linarith
  then have "unat (group_count s) = 1 + (?n - 1) div ?p"
    unfolding group_count_def unat_word_ariths(1) u by (simp del: One_nat_def)
  also have "... = (?n - 1 + ?p) div ?p" by (subst div_add_self2) (use n(2) in auto)
  finally show ?thesis using n by simp
qed

lemma below_blocks: "g < c \<Longrightarrow> g < 128 * (c div 128 + 1)" for g c :: nat
  by presburger

lemma superblock_fields_simps [simp]:
  "sectors (superblock_fields s fs) = sectors fs" "start_block (superblock_fields s fs) = start_block fs"
  "n_groups (superblock_fields s fs) = group_count s" "s_block_shift s = 2 \<Longrightarrow> block_size (superblock_fields s fs) = 4096"
  by (simp_all add: superblock_fields_def group_count_def push_bit_eq_mult)

text \<open>The boot never mounts within its memory: the two sectors of the superblock go into an object of 236 bytes, whatever
  the disk holds.\<close>

theorem mount_overruns:
  assumes "\<forall>n. length (dev n) = 512"
  shows "mount M dev mem = Some (Inl OutOfBounds)"
proof -
  have "length (dev_read fs 2 n) = 1024" if "sectors fs = dev" for fs n
    using assms that by (simp add: dev_read_def upt_conv_Cons)
  then show ?thesis by (simp add: mount_def assign_superblock_def initial_fs_def)
qed

section \<open>An example\<close>

text \<open>A superblock, and a partition at sector 0 with the descriptor in sector 8.\<close>

definition example_superblock :: superblock where
  "example_superblock = (superblock_of_bytes (replicate 236 0))\<lparr>s_n_blocks := 1000, s_block_shift := 2, s_n_block_in_group := 32768,
     s_n_inode_in_group := 32768, s_inode_size := 128, s_signature := 0xef53\<rparr>"

definition example_groups_fs :: ext2 where
  "example_groups_fs = example_tree_fs\<lparr>BGD := [], sectors := (sectors example_tree_fs)(8 := bgd_bytes example_group @ replicate 480 0)\<rparr>"

lemma example_group_count: "group_count example_superblock = 1"
  by (simp add: group_count_def example_superblock_def)

lemma example_block: "slice 0 32 (block_at (sectors example_groups_fs) 0 1) = bgd_bytes example_group"
proof -
  have b: "length (bgd_bytes example_group) = 32" by (simp add: bgd_bytes_def example_group_def)
  have "block_at (sectors example_groups_fs) 0 1 =
      sectors example_groups_fs 8 @ concat (map (\<lambda>i. sectors example_groups_fs (8 + of_nat i)) [1..<8])"
    by (simp add: block_at_def upt_conv_Cons)
  then show ?thesis using b by (simp add: example_groups_fs_def slice_def)
qed

section \<open>The property\<close>

text \<open>C35: The table of group descriptors. With the fields of a superblock for blocks of 4096 bytes, at least one block,
  groups that are not empty and fewer than \<open>2 ^ 20\<close> of them, the number of groups is the number of blocks divided by the size of a group, rounded up, and
  \<^verbatim>\<open>read_BGD\<close> returns, whatever its buffer held before: the descriptor of every group is the one on the disk, in block
  \<open>1 + g div 128\<close> of the partition, and nothing but the table changes.\<close>

theorem read_BGD_reads_descriptors:
  assumes "\<forall>n. length (sectors fs n) = 512" "sized M" "s_block_shift s = 2" "unat (group_count s) < 2 ^ 20"
    and "s_n_blocks s \<noteq> 0" "s_n_block_in_group s \<noteq> 0" "fs' = superblock_fields s fs"
  shows "unat (n_groups fs') = (unat (s_n_blocks s) + unat (s_n_block_in_group s) - 1) div unat (s_n_block_in_group s) \<and>
    (\<exists>gs. read_BGD M fs' = Inr (fs'\<lparr>BGD := gs\<rparr>) \<and>
       (\<forall>g d. g < unat (n_groups fs') \<and> length (bg_reserved d) = 12 \<and>
          slice (32 * (g mod 128)) 32 (block_at (sectors fs) (start_block fs) (of_nat (1 + g div 128))) = bgd_bytes d \<longrightarrow>
          group_of (fs'\<lparr>BGD := gs\<rparr>) g = Inr d))"
proof -
  have l: "\<And>n. length (M n) = n" using assms(2) by (simp add: sized_def)
  define gs where "gs = map (\<lambda>k. bgd_of_bytes (slice (32 * (k mod 128)) 32
      (block_at (sectors fs) (start_block fs) (of_nat (1 + k div 128))))) [0..<128 * (unat (group_count s) div 128 + 1)]"
  have "read_BGD M fs' = Inr (fs'\<lparr>BGD := gs\<rparr>)"
    using read_BGD_image[of fs' M, OF _ l] assms(1,3,4,7) by (simp add: gs_def)
  moreover have "group_of (fs'\<lparr>BGD := gs\<rparr>) g = Inr d"
    if "g < unat (n_groups fs')" "length (bg_reserved d) = 12"
      "slice (32 * (g mod 128)) 32 (block_at (sectors fs) (start_block fs) (of_nat (1 + g div 128))) = bgd_bytes d" for g d
    using that below_blocks[of g "unat (group_count s)"] bgd_of_bytes_bgd_bytes[OF that(2)] assms(7) by (simp add: group_of_def gs_def)
  ultimately show ?thesis using group_count_rounds_up[OF assms(5,6)] assms(7) by auto
qed

lemma read_BGD_reads_descriptors_witness:
  "\<exists>gs. read_BGD (cleared 0) (superblock_fields example_superblock example_groups_fs) =
      Inr (superblock_fields example_superblock example_groups_fs\<lparr>BGD := gs\<rparr>) \<and>
    group_of (superblock_fields example_superblock example_groups_fs\<lparr>BGD := gs\<rparr>) 0 = Inr example_group"
proof -
  have "length (bgd_bytes example_group) = 32" by (simp add: bgd_bytes_def example_group_def)
  then have l: "\<forall>n. length (sectors example_groups_fs n) = 512"
    using example_tree_disk_ok by (simp add: example_groups_fs_def disk_ok_def)
  have s: "s_block_shift example_superblock = 2" "unat (group_count example_superblock) < 2 ^ 20"
    "s_n_blocks example_superblock \<noteq> 0" "s_n_block_in_group example_superblock \<noteq> 0"
    unfolding example_group_count by (simp_all add: example_superblock_def)
  have z: "sized (cleared 0)" by (simp add: sized_def cleared_def)
  have "length (bg_reserved example_group) = 12" "start_block example_groups_fs = 0"
    by (simp_all add: example_group_def example_groups_fs_def example_tree_fs_def example_fs_def)
  with read_BGD_reads_descriptors[OF l z s refl] example_block show ?thesis
    by (auto simp: example_group_count)
qed

end
