(* ===== verification/Ext2_Dir.thy ===== *)
theory Ext2_Dir
  imports Vfs
begin

unbundle bit_operations_syntax

text \<open>
  The operations of \<^verbatim>\<open>fs/ext2/ext2.c\<close> on directories: listing, searching, adding and removing entries, making and
  unlinking files. They read the entries of a block through \<^verbatim>\<open>dirent_t\<close>, whose last member \<^verbatim>\<open>name\<close> is a pointer: its
  value is the first eight bytes of the name on the disk. What lies at such an address is the memory \<open>m\<close>, where it is
  mapped (\<open>valid\<close>).
\<close>

section \<open>Entries\<close>

definition wild_read :: "(addr \<Rightarrow> bool) \<Rightarrow> mem \<Rightarrow> addr \<Rightarrow> nat \<Rightarrow> u8 list result" where
  "wild_read valid m a n =
     (if list_all (\<lambda>i. valid (at a i)) [0..<n] then Inr (map (\<lambda>i. m (at a i)) [0..<n]) else Inl OutOfBounds)"

definition wild_write :: "(addr \<Rightarrow> bool) \<Rightarrow> addr \<Rightarrow> u8 list \<Rightarrow> mem \<Rightarrow> mem result" where
  "wild_write valid a bs m =
     (if list_all (\<lambda>i. valid (at a i)) [0..<length bs] then Inr (fold (\<lambda>i m. m(at a i := bs ! i)) [0..<length bs] m)
      else Inl OutOfBounds)"

record dir_entry =
  e_inode :: u32
  e_size :: u16
  e_name_len :: u8
  e_type :: u8

definition dirent_fields :: "u8 list \<Rightarrow> u32 \<Rightarrow> dir_entry result" where
  "dirent_fields buf off =
     (let o' = unat off
      in if o' + 8 \<le> length buf
         then Inr \<lparr>e_inode = le_word (slice o' 4 buf), e_size = le_word (slice (o' + 4) 2 buf), e_name_len = buf ! (o' + 6), e_type = buf ! (o' + 7)\<rparr>
         else Inl OutOfBounds)"

definition put_dirent :: "u8 list \<Rightarrow> u32 \<Rightarrow> dir_entry \<Rightarrow> u8 list" where
  "put_dirent buf off e = overwrite (unat off) (le_bytes 4 (e_inode e) @ le_bytes 2 (e_size e) @ [e_name_len e, e_type e]) buf"

definition name_ptr :: "u8 list \<Rightarrow> u32 \<Rightarrow> addr result" where
  "name_ptr buf off = (if unat off + 16 \<le> length buf then Inr (le_word (slice (unat off + 8) 8 buf)) else Inl OutOfBounds)"

definition name_at :: "(addr \<Rightarrow> bool) \<Rightarrow> mem \<Rightarrow> u8 list \<Rightarrow> u32 \<Rightarrow> nat \<Rightarrow> u8 list result" where
  "name_at valid m buf off n = bindR (name_ptr buf off) (\<lambda>a. wild_read valid m a n)"

text \<open>The size of an entry: 16 bytes for the structure and the name, rounded up; all but \<^verbatim>\<open>ext2_finddir\<close> always round up
  by at least one.\<close>

definition expected_size :: "u8 \<Rightarrow> u32" where
  "expected_size name_len = ((16 + ucast name_len) AND 0xfffffffc) + 4"

definition expected_size_finddir :: "u8 \<Rightarrow> u32" where
  "expected_size_finddir name_len =
     (if (16 + ucast name_len :: u32) AND 3 \<noteq> 0 then ((16 + ucast name_len) AND 0xfffffffc) + 4
      else (16 + ucast name_len) AND 0xfffffffc)"

text \<open>\<^verbatim>\<open>!strcmp(buf, name)\<close>, where the buffer is not terminated.\<close>

fun same_string :: "u8 list \<Rightarrow> u8 list \<Rightarrow> bool result" where
  "same_string (c # cs) (n # ns) = (if c \<noteq> n then Inr False else if c = 0 then Inr True else same_string cs ns)"
| "same_string cs ns = Inl OutOfBounds"

text \<open>The step to the next block at the start of each loop.\<close>

definition at_block :: "inode_base \<Rightarrow> ext2 \<Rightarrow> u32 \<Rightarrow> u32 \<Rightarrow> u8 list \<Rightarrow> (u32 \<times> u32 \<times> u8 list) result" where
  "at_block p_inode fs block_offset in_block_offset block_buf =
     (if in_block_offset \<ge> block_size fs
      then bindR (read_inode_block p_inode (block_offset + 1) fs) (\<lambda>buf. Inr (block_offset + 1, 0, buf))
      else Inr (block_offset, in_block_offset, block_buf))"

section \<open>Listing and searching\<close>

partial_function (option) listdir_loop ::
  "(addr \<Rightarrow> bool) \<Rightarrow> mem \<Rightarrow> (nat \<Rightarrow> u8 list) \<Rightarrow> inode_base \<Rightarrow> ext2 \<Rightarrow> u32 \<Rightarrow> u32 \<Rightarrow> u32 \<Rightarrow> u8 list \<Rightarrow> u8 list list \<Rightarrow> u8 list list result option" where
  "listdir_loop valid m M p_inode fs cur_offset block_offset in_block_offset block_buf ll =
     (if \<not> cur_offset < size_lower p_inode then Some (Inr ll)
      else
        (case bindR (at_block p_inode fs block_offset in_block_offset block_buf)
                (\<lambda>(blk, off, buf). bindR (dirent_fields buf off)
                (\<lambda>d. bindR (if e_inode d \<noteq> 0 then name_at valid m buf off (unat (e_name_len d)) else Inr [])
                (\<lambda>name. Inr (blk, off, buf, d,
                   if e_inode d \<noteq> 0 then ll @ [overwrite 0 name (M (unat (e_name_len d) + 1))] else ll)))) of
           Inl e \<Rightarrow> Some (Inl e)
         | Inr r \<Rightarrow>
             if ucast (e_size (fst (snd (snd (snd r))))) \<noteq> expected_size (e_name_len (fst (snd (snd (snd r)))))
             then Some (Inr (snd (snd (snd (snd r)))))
             else listdir_loop valid m M p_inode fs (cur_offset + ucast (e_size (fst (snd (snd (snd r)))))) (fst r)
                    (fst (snd r) + ucast (e_size (fst (snd (snd (snd r)))))) (fst (snd (snd r))) (snd (snd (snd (snd r))))))"

definition ext2_listdir :: "(addr \<Rightarrow> bool) \<Rightarrow> mem \<Rightarrow> (nat \<Rightarrow> u8 list) \<Rightarrow> u32 \<Rightarrow> ext2 \<Rightarrow> u8 list list result option" where
  "ext2_listdir valid m M inode fs =
     (case bindR (read_inode_metadata inode (inode_of_bytes (M 128)) fs) (\<lambda>p. bindR (read_inode_block p 0 fs) (\<lambda>buf. Inr (p, buf))) of
        Inl e \<Rightarrow> Some (Inl e)
      | Inr r \<Rightarrow> listdir_loop valid m M (fst r) fs 0 0 0 (snd r) [])"

text \<open>The members that are not assigned keep what the memory held.\<close>

definition file_from_dirent :: "(nat \<Rightarrow> u8 list) \<Rightarrow> dir_entry \<Rightarrow> u8 list \<Rightarrow> inode_base \<Rightarrow> FILE" where
  "file_from_dirent M d name inode =
     \<lparr>f_name = overwrite 0 name (take 256 (M 312)), f_hash = le_word (slice 256 4 (M 312)), f_inode = e_inode d,
      f_size = size_lower inode, f_create_time = creation_time inode, f_access_time = last_access_time inode,
      f_modify_time = last_mod_time inode, f_flags = 0, f_nlink = ucast (n_hard_links inode), f_rest = drop 296 (M 312)\<rparr>"

partial_function (option) finddir_loop ::
  "(addr \<Rightarrow> bool) \<Rightarrow> mem \<Rightarrow> (nat \<Rightarrow> u8 list) \<Rightarrow> u8 list \<Rightarrow> inode_base \<Rightarrow> ext2 \<Rightarrow> u32 \<Rightarrow> u32 \<Rightarrow> u32 \<Rightarrow> u8 list \<Rightarrow> FILE option result option" where
  "finddir_loop valid m M name p_inode fs cur_offset block_offset in_block_offset block_buf =
     (if \<not> cur_offset < size_lower p_inode then Some (Inr None)
      else
        (case bindR (at_block p_inode fs block_offset in_block_offset block_buf)
                (\<lambda>(blk, off, buf). bindR (dirent_fields buf off)
                (\<lambda>d. bindR (name_at valid m buf off (unat (e_name_len d)))
                (\<lambda>n. bindR (if e_inode d \<noteq> 0 then same_string (overwrite 0 n (M (unat (e_name_len d) + 1))) (name @ [0]) else Inr False)
                (\<lambda>found. if found
                   then bindR (read_inode_metadata (e_inode d) (inode_of_bytes (M 128)) fs)
                          (\<lambda>inode. Inr (blk, off, buf, d, Some (file_from_dirent M d n inode)))
                   else Inr (blk, off, buf, d, None))))) of
           Inl e \<Rightarrow> Some (Inl e)
         | Inr r \<Rightarrow>
             if snd (snd (snd (snd r))) \<noteq> None then Some (Inr (snd (snd (snd (snd r)))))
             else if ucast (e_size (fst (snd (snd (snd r))))) \<noteq> expected_size_finddir (e_name_len (fst (snd (snd (snd r)))))
             then Some (Inr None)
             else finddir_loop valid m M name p_inode fs (cur_offset + ucast (e_size (fst (snd (snd (snd r)))))) (fst r)
                    (fst (snd r) + ucast (e_size (fst (snd (snd (snd r)))))) (fst (snd (snd r)))))"

definition ext2_finddir :: "(addr \<Rightarrow> bool) \<Rightarrow> mem \<Rightarrow> (nat \<Rightarrow> u8 list) \<Rightarrow> u32 \<Rightarrow> u8 list \<Rightarrow> ext2 \<Rightarrow> FILE option result option" where
  "ext2_finddir valid m M inode name fs =
     (case bindR (read_inode_metadata inode (inode_of_bytes (M 128)) fs) (\<lambda>p. bindR (read_inode_block p 0 fs) (\<lambda>buf. Inr (p, buf))) of
        Inl e \<Rightarrow> Some (Inl e)
      | Inr r \<Rightarrow> finddir_loop valid m M name (fst r) fs 0 0 0 (snd r))"

text \<open>\<^verbatim>\<open>finddir\<close> of \<^verbatim>\<open>file.c\<close>.\<close>

definition finddir :: "(addr \<Rightarrow> bool) \<Rightarrow> mem \<Rightarrow> (nat \<Rightarrow> u8 list) \<Rightarrow> FILE option \<Rightarrow> u8 list \<Rightarrow> ext2 \<Rightarrow> FILE option result option" where
  "finddir valid m M f name fs =
     (case f of
        Some f \<Rightarrow> if f_flags f AND ucast FS_DIR \<noteq> 0 then ext2_finddir valid m M (f_inode f) name fs else Some (Inr None)
      | None \<Rightarrow> Some (Inr None))"

section \<open>Adding and removing\<close>

text \<open>An entry whose size is not the expected one is the last: its size is corrected in the buffer and what is behind it is
  overwritten. The name is stored at the address that the place of the name holds. \<open>check\<close> is the buffer for comparing.\<close>

definition new_entry ::
  "(addr \<Rightarrow> bool) \<Rightarrow> u8 list \<Rightarrow> u32 \<Rightarrow> inode_base \<Rightarrow> u32 \<Rightarrow> u32 \<Rightarrow> u8 list \<Rightarrow> mem \<times> ext2 \<Rightarrow> (mem \<times> ext2) result" where
  "new_entry valid name inode p_inode blk off buf = (\<lambda>(m, fs).
     let d = \<lparr>e_inode = inode, e_size = ucast (block_size fs), e_name_len = of_nat (length name), e_type = 0\<rparr>;
         buf = put_dirent buf off d
     in bindR (name_ptr buf off)
          (\<lambda>a. bindR (wild_write valid a name m)
          (\<lambda>m. bindR (write_inode_block p_inode blk buf fs)
          (\<lambda>fs. bindR (at_block p_inode fs blk (off + ucast (e_size d)) buf)
          (\<lambda>(blk, off, buf). if length buf < unat off + 16 then Inl OutOfBounds
             else bindR (write_inode_block p_inode blk (overwrite (unat off) (replicate 16 0) buf) fs) (\<lambda>fs. Inr (m, fs)))))))"

definition is_entry ::
  "(addr \<Rightarrow> bool) \<Rightarrow> mem \<Rightarrow> u8 list \<Rightarrow> u8 list \<Rightarrow> u32 \<Rightarrow> dir_entry \<Rightarrow> u8 list \<Rightarrow> (u8 list \<times> bool) result" where
  "is_entry valid m name buf off d check =
     (if unat (e_name_len d) = length name
      then bindR (name_at valid m buf off (length name))
             (\<lambda>n. let check = overwrite 0 n check
                  in if e_inode d \<noteq> 0 then bindR (same_string (name @ [0]) check) (\<lambda>same. Inr (check, same)) else Inr (check, False))
      else Inr (check, False))"

text \<open>The result of one round: the work is done, or the position, the buffers and whether the last entry was found.\<close>

datatype round = Finished mem ext2 | Next u32 u32 u32 "u8 list" "u8 list" bool

definition create_round ::
  "(addr \<Rightarrow> bool) \<Rightarrow> u8 list \<Rightarrow> u32 \<Rightarrow> inode_base \<Rightarrow> mem \<Rightarrow> ext2 \<Rightarrow> u32 \<Rightarrow> u32 \<Rightarrow> u32 \<Rightarrow> u8 list \<Rightarrow> u8 list \<Rightarrow> bool \<Rightarrow> round result" where
  "create_round valid name inode p_inode m fs cur_offset block_offset in_block_offset block_buf check found =
     bindR (at_block p_inode fs block_offset in_block_offset block_buf)
       (\<lambda>(blk, off, buf). bindR (dirent_fields buf off)
       (\<lambda>d. bindR (is_entry valid m name buf off d check)
       (\<lambda>(check, same).
          if same then Inr (Finished m fs)
          else if found then bindR (new_entry valid name inode p_inode blk off buf (m, fs)) (\<lambda>(m, fs). Inr (Finished m fs))
          else
            (let size' = expected_size (e_name_len d)
             in if ucast (e_size d) \<noteq> size'
                then Inr (Next (cur_offset + size') blk (off + size') (put_dirent buf off (d\<lparr>e_size := ucast size'\<rparr>)) check True)
                else Inr (Next (cur_offset + ucast (e_size d)) blk (off + ucast (e_size d)) buf check found)))))"

partial_function (option) create_loop ::
  "(addr \<Rightarrow> bool) \<Rightarrow> u8 list \<Rightarrow> u32 \<Rightarrow> inode_base \<Rightarrow> mem \<Rightarrow> ext2 \<Rightarrow> u32 \<Rightarrow> u32 \<Rightarrow> u32 \<Rightarrow> u8 list \<Rightarrow> u8 list \<Rightarrow> bool \<Rightarrow> (mem \<times> ext2) result option" where
  "create_loop valid name inode p_inode m fs cur_offset block_offset in_block_offset block_buf check found =
     (if \<not> cur_offset < size_lower p_inode then Some (Inr (m, fs))
      else
        (case create_round valid name inode p_inode m fs cur_offset block_offset in_block_offset block_buf check found of
           Inl e \<Rightarrow> Some (Inl e)
         | Inr r \<Rightarrow>
             (case r of
                Finished m' fs' \<Rightarrow> Some (Inr (m', fs'))
              | Next cur blk off buf check' found' \<Rightarrow> create_loop valid name inode p_inode m fs cur blk off buf check' found')))"

definition ext2_create_entry ::
  "(addr \<Rightarrow> bool) \<Rightarrow> (nat \<Rightarrow> u8 list) \<Rightarrow> u32 \<Rightarrow> u8 list \<Rightarrow> u32 \<Rightarrow> mem \<times> ext2 \<Rightarrow> (mem \<times> ext2) result option" where
  "ext2_create_entry valid M dir name inode = (\<lambda>(m, fs).
     case bindR (read_inode_metadata dir (inode_of_bytes (M 128)) fs) (\<lambda>p. bindR (read_inode_block p 0 fs) (\<lambda>buf. Inr (p, buf))) of
       Inl e \<Rightarrow> Some (Inl e)
     | Inr r \<Rightarrow> create_loop valid name inode (fst r) m fs 0 0 0 (snd r) (M (length name + 1)) False)"

definition remove_round ::
  "(addr \<Rightarrow> bool) \<Rightarrow> u8 list \<Rightarrow> inode_base \<Rightarrow> mem \<Rightarrow> ext2 \<Rightarrow> u32 \<Rightarrow> u32 \<Rightarrow> u32 \<Rightarrow> u8 list \<Rightarrow> u8 list \<Rightarrow> round result" where
  "remove_round valid name p_inode m fs cur_offset block_offset in_block_offset block_buf check =
     bindR (at_block p_inode fs block_offset in_block_offset block_buf)
       (\<lambda>(blk, off, buf). bindR (dirent_fields buf off)
       (\<lambda>d. bindR (is_entry valid m name buf off d check)
       (\<lambda>(check, same).
          if same then bindR (write_inode_block p_inode blk (put_dirent buf off (d\<lparr>e_inode := 0\<rparr>)) fs) (\<lambda>fs. Inr (Finished m fs))
          else if ucast (e_size d) \<noteq> expected_size (e_name_len d) then Inr (Finished m fs)
          else Inr (Next (cur_offset + ucast (e_size d)) blk (off + ucast (e_size d)) buf check False))))"

partial_function (option) remove_loop ::
  "(addr \<Rightarrow> bool) \<Rightarrow> u8 list \<Rightarrow> inode_base \<Rightarrow> mem \<Rightarrow> ext2 \<Rightarrow> u32 \<Rightarrow> u32 \<Rightarrow> u32 \<Rightarrow> u8 list \<Rightarrow> u8 list \<Rightarrow> ext2 result option" where
  "remove_loop valid name p_inode m fs cur_offset block_offset in_block_offset block_buf check =
     (if \<not> cur_offset < size_lower p_inode then Some (Inr fs)
      else
        (case remove_round valid name p_inode m fs cur_offset block_offset in_block_offset block_buf check of
           Inl e \<Rightarrow> Some (Inl e)
         | Inr r \<Rightarrow>
             (case r of
                Finished m' fs' \<Rightarrow> Some (Inr fs')
              | Next cur blk off buf check' found' \<Rightarrow> remove_loop valid name p_inode m fs cur blk off buf check')))"

definition ext2_remove_entry ::
  "(addr \<Rightarrow> bool) \<Rightarrow> mem \<Rightarrow> (nat \<Rightarrow> u8 list) \<Rightarrow> u32 \<Rightarrow> u8 list \<Rightarrow> ext2 \<Rightarrow> ext2 result option" where
  "ext2_remove_entry valid m M dir name fs =
     (case bindR (read_inode_metadata dir (inode_of_bytes (M 128)) fs) (\<lambda>p. bindR (read_inode_block p 0 fs) (\<lambda>buf. Inr (p, buf))) of
        Inl e \<Rightarrow> Some (Inl e)
      | Inr r \<Rightarrow> remove_loop valid name (fst r) m fs 0 0 0 (snd r) (M (length name + 1)))"

section \<open>Making and unlinking files\<close>

definition INODE_DIR :: u16 where "INODE_DIR = 0x4000"
definition INODE_FILE :: u16 where "INODE_FILE = 0x8000"

text \<open>The fields of a new inode.\<close>

definition new_inode :: "u16 \<Rightarrow> u16 \<Rightarrow> u32 \<Rightarrow> inode_base \<Rightarrow> inode_base" where
  "new_inode kind perm bs inode =
     inode\<lparr>inode_type_perm := kind OR (0xFFF AND perm), last_access_time := 0, creation_time := 0, deletion_time := 0,
       group_ID := 0, user_ID := 0, frag_block_addr := 0, n_sectors := 0, size_lower := bs, n_hard_links := 2, flags := 0,
       ext_attr_block := 0, f_size_dir_acl := 0, gen_num := 0, OS_Val_1 := 0, blocks := replicate 15 0, OS_Val_2 := replicate 12 0\<rparr>"

text \<open>The count of links of a directory, and the descriptors.\<close>

definition count_link :: "(u16 \<Rightarrow> u16) \<Rightarrow> (nat \<Rightarrow> u8 list) \<Rightarrow> u32 \<Rightarrow> ext2 \<Rightarrow> ext2 result" where
  "count_link f M dir fs =
     bindR (read_inode_metadata dir (inode_of_bytes (M 128)) fs)
       (\<lambda>p. bindR (write_inode_metadata dir (p\<lparr>n_hard_links := f (n_hard_links p)\<rparr>) fs) write_bgd)"

definition make_node ::
  "u16 \<Rightarrow> (addr \<Rightarrow> bool) \<Rightarrow> (nat \<Rightarrow> u8 list) \<Rightarrow> u32 \<Rightarrow> u8 list \<Rightarrow> u16 \<Rightarrow> mem \<times> ext2 \<Rightarrow> (mem \<times> ext2) result option" where
  "make_node kind valid M dir name perm = (\<lambda>(m, fs).
     case bindR (alloc_inode fs)
            (\<lambda>(index, fs). bindR (read_inode_metadata index (inode_of_bytes (M 128)) fs)
            (\<lambda>inode. bindR (alloc_inode_block index 0 (new_inode kind perm (block_size fs) inode) fs)
            (\<lambda>(inode, fs). bindR (write_inode_metadata index inode fs) (\<lambda>fs. Inr (index, fs))))) of
       Inl e \<Rightarrow> Some (Inl e)
     | Inr r \<Rightarrow>
         (case ext2_create_entry valid M dir name (fst r) (m, snd r) of
            None \<Rightarrow> None
          | Some (Inl e) \<Rightarrow> Some (Inl e)
          | Some (Inr (m, fs)) \<Rightarrow> Some (bindR (count_link (\<lambda>n. n + 1) M dir fs) (\<lambda>fs. Inr (m, fs)))))"

definition ext2_mkdir ::
  "(addr \<Rightarrow> bool) \<Rightarrow> (nat \<Rightarrow> u8 list) \<Rightarrow> u32 \<Rightarrow> u8 list \<Rightarrow> u16 \<Rightarrow> mem \<times> ext2 \<Rightarrow> (mem \<times> ext2) result option" where
  "ext2_mkdir = make_node INODE_DIR"

definition ext2_mkfile ::
  "(addr \<Rightarrow> bool) \<Rightarrow> (nat \<Rightarrow> u8 list) \<Rightarrow> u32 \<Rightarrow> u8 list \<Rightarrow> u16 \<Rightarrow> mem \<times> ext2 \<Rightarrow> (mem \<times> ext2) result option" where
  "ext2_mkfile = make_node INODE_FILE"

definition ext2_unlink :: "(addr \<Rightarrow> bool) \<Rightarrow> mem \<Rightarrow> (nat \<Rightarrow> u8 list) \<Rightarrow> u32 \<Rightarrow> u8 list \<Rightarrow> ext2 \<Rightarrow> ext2 result option" where
  "ext2_unlink valid m M dir name fs =
     (case ext2_remove_entry valid m M dir name fs of
        None \<Rightarrow> None
      | Some (Inl e) \<Rightarrow> Some (Inl e)
      | Some (Inr fs) \<Rightarrow> Some (count_link (\<lambda>n. n - 1) M dir fs))"

section \<open>Strings in allocated memory\<close>

text \<open>\<^verbatim>\<open>strdup\<close> and \<^verbatim>\<open>list2str\<close> of \<^verbatim>\<open>stdlib/string.c\<close>: the buffer they return. \<^verbatim>\<open>strdup\<close> copies the string without its
  terminator. \<^verbatim>\<open>list2str\<close> takes the strings from the end of the list; it counts a length only when the buffer grows.\<close>

definition strdup :: "(nat \<Rightarrow> u8 list) \<Rightarrow> u8 list \<Rightarrow> u8 list" where
  "strdup M src = overwrite 0 src (M (length src + 1))"

definition strncat_bytes :: "u8 list \<Rightarrow> u8 list \<Rightarrow> u8 list result" where
  "strncat_bytes src buf =
     bindR (cstr_of buf)
       (\<lambda>s. if length s + length src + 1 \<le> length buf then Inr (overwrite (length s) (src @ [0]) buf) else Inl OutOfBounds)"

fun list2str_loop :: "(nat \<Rightarrow> u8 list) \<Rightarrow> u8 list \<Rightarrow> u8 list list \<Rightarrow> nat \<Rightarrow> nat \<Rightarrow> u8 list \<Rightarrow> u8 list result" where
  "list2str_loop M delim [] len val_len val = Inr val"
| "list2str_loop M delim (temp # ts) len val_len val =
     (let len_temp = length temp;
          (val_len, val, len) =
            (if len + len_temp + 1 + 1 > val_len
             then (val_len * 2, overwrite 0 val (M (val_len * 2)), len + len_temp + 1) else (val_len, val, len))
      in bindR (strncat_bytes delim val)
           (\<lambda>val. bindR (strncat_bytes temp val) (list2str_loop M delim ts len val_len)))"

definition list2str :: "(nat \<Rightarrow> u8 list) \<Rightarrow> u8 list list \<Rightarrow> u8 list \<Rightarrow> u8 list result" where
  "list2str M vals delim = list2str_loop M delim (rev vals) 0 256 (replicate 256 0)"

end
