(* ===== verification/Ext2_Dir_Spec.thy ===== *)
theory Ext2_Dir_Spec
  imports Ext2_Dir Ext2_Spec
begin

unbundle bit_operations_syntax

text \<open>
  Properties of the operations on directories. They expect entries of 16 bytes and the name, an entry on a disk has 8 and
  the name: a search looks at the first entry of a directory only. Making a file or directory never gets past the writing
  of its inode.
\<close>

section \<open>Sizes\<close>

lemma round_down: "unat (x AND 0xfffffffc) = 4 * (unat x div 4)" for x :: u32
proof -
  have "(0xfffffffc :: u32) = NOT 3" by (rule word_uint_eqI) (simp add: uint_word_ariths)
  then have "x AND 0xfffffffc = x AND NOT 3" by (rule arg_cong)
  also have "... = push_bit 2 (drop_bit 2 x)"
  proof (rule bit_word_eqI)
    fix k assume "k < LENGTH(32)"
    have "(3 :: u32) = Bit_Operations.mask 2" by (simp add: mask_eq_exp_minus_1)
    then have b: "bit (3 :: u32) k \<longleftrightarrow> k < 2" by (simp only: bit_mask_iff) auto
    have c: "Suc (Suc (k - 2)) = k" if "2 \<le> k" using that by simp
    have "bit (x AND NOT 3) k \<longleftrightarrow> bit x k \<and> 2 \<le> k"
      using \<open>k < LENGTH(32)\<close> by (simp only: bit_and_iff bit_not_iff b) auto
    then show "bit (x AND NOT 3) k = bit (push_bit 2 (drop_bit 2 x)) k"
      using \<open>k < LENGTH(32)\<close> c by (cases "2 \<le> k") (simp_all add: bit_push_bit_iff bit_drop_bit_eq)
  qed
  also have "... = drop_bit 2 x * 4" by (simp add: push_bit_eq_mult)
  also have "unat ... = unat x div 4 * 4"
  proof -
    have d: "unat (drop_bit 2 x) = unat x div 4" by (simp add: drop_bit_eq_div unat_div)
    have "unat x div 4 * 4 \<le> unat x" by simp
    also have "unat x < 2 ^ 32" using unsigned_less[of x, where 'a = nat] by simp
    finally show ?thesis by (simp add: unat_word_ariths d)
  qed
  finally show ?thesis by simp
qed

text \<open>The size of an entry as it is on a disk.\<close>

definition standard_size :: "dir_entry \<Rightarrow> bool" where
  "standard_size d \<longleftrightarrow> unat (e_size d) = 4 * ((unat (e_name_len d) + 8 + 3) div 4)"

lemma standard_unexpected:
  assumes "standard_size d"
  shows "ucast (e_size d) \<noteq> expected_size_finddir (e_name_len d)" "ucast (e_size d) \<noteq> expected_size (e_name_len d)"
proof -
  let ?n = "unat (e_name_len d)"
  have n: "?n < 256" using unsigned_less[of "e_name_len d", where 'a = nat] by simp
  have u: "unat (16 + ucast (e_name_len d) :: u32) = 16 + ?n" using n by (simp add: unat_word_ariths unsigned_ucast_eq take_bit_nat_eq_self)
  have s: "unat (ucast (e_size d) :: u32) = 4 * ((?n + 11) div 4)" using assms by (simp add: standard_size_def unat_ucast_u32)
  have r: "unat ((16 + ucast (e_name_len d)) AND 0xfffffffc :: u32) = 4 * ((16 + ?n) div 4)" by (simp only: round_down u)
  have r4: "unat (((16 + ucast (e_name_len d)) AND 0xfffffffc) + 4 :: u32) = 4 * ((16 + ?n) div 4) + 4"
    using n by (simp only: unat_word_ariths r) simp
  have "4 * ((?n + 11) div 4) < 4 * ((16 + ?n) div 4)" by presburger
  then show "ucast (e_size d) \<noteq> expected_size_finddir (e_name_len d)" "ucast (e_size d) \<noteq> expected_size (e_name_len d)"
    using r r4 s by (auto simp: expected_size_finddir_def expected_size_def)
qed

lemma write_inode_metadata_never:
  assumes "0 < inode_size fs" "inode_size fs \<le> 512"
  shows "\<exists>e. write_inode_metadata index inode fs = Inl e"
proof (cases "unat ((index - 1) div inodes_per_group fs) < length (BGD fs)")
  case True
  then show ?thesis using write_inode_metadata_faults[OF assms] by blast
next
  case False
  then show ?thesis by (simp add: write_inode_metadata_def inode_table_of_def group_of_def)
qed

lemma dev_write_inode_size: "dev_write buf n s fs = Inr fs' \<Longrightarrow> inode_size fs' = inode_size fs"
  by (auto simp: dev_write_def split: if_splits)

lemma write_bgd_inode_size: "write_bgd fs = Inr fs' \<Longrightarrow> inode_size fs' = inode_size fs"
proof -
  have all: "\<forall>fs'. fold (\<lambda>i r. bindR r (write_disk_block 2 (f i))) xs (Inr fs) = Inr fs' \<longrightarrow> inode_size fs' = inode_size fs"
    for f :: "nat \<Rightarrow> u8 list" and xs
  proof (induction xs rule: rev_induct)
    case (snoc i xs)
    show ?case
    proof (intro allI impI)
      fix fs'
      assume "fold (\<lambda>i r. bindR r (write_disk_block 2 (f i))) (xs @ [i]) (Inr fs) = Inr fs'"
      then obtain fs1 where f: "fold (\<lambda>i r. bindR r (write_disk_block 2 (f i))) xs (Inr fs) = Inr fs1"
        and w: "write_disk_block 2 (f i) fs1 = Inr fs'" by (auto simp: bindR_eq_Inr)
      show "inode_size fs' = inode_size fs"
        using snoc.IH f dev_write_inode_size[OF w[unfolded write_disk_block_def]] by simp
    qed
  qed simp
  assume "write_bgd fs = Inr fs'"
  then show ?thesis
    using all[of "\<lambda>i. drop (i * unat (block_size fs)) (concat (map bgd_bytes (BGD fs)))" "[0..<unat (bgd_blocks fs)]"]
    unfolding write_bgd_def by simp
qed

lemma take_bit_of_inode_size: "take_bit_of upd b buf i j k fs = Inr fs' \<Longrightarrow> inode_size fs' = inode_size fs"
  by (auto simp: take_bit_of_def bindR_eq_Inr write_disk_block_def dest!: write_bgd_inode_size dev_write_inode_size)

lemma alloc_from_inode_size: "alloc_from count bitmap upd pg i n fs = Inr (b, fs') \<Longrightarrow> inode_size fs' = inode_size fs"
proof (induction n arbitrary: i)
  case (Suc n)
  from Suc.prems show ?case
    by (auto simp: bindR_eq_Inr Let_def split: if_splits option.splits dest: Suc.IH take_bit_of_inode_size)
qed simp

section \<open>Making nodes\<close>

text \<open>The first block of a new node is entered in its inode, whose writing faults.\<close>

lemma alloc_first_block_never:
  assumes "0 < inode_size fs" "inode_size fs \<le> 512"
  shows "\<exists>e. alloc_inode_block index 0 inode fs = Inl e"
proof (rule ccontr)
  assume "\<not> ?thesis"
  then obtain r where "alloc_inode_block index 0 inode fs = Inr r" by (cases "alloc_inode_block index 0 inode fs") auto
  then obtain n fs1 i2 fs2 i3 fs3 where a: "ext2_alloc_block fs = Inr (n, fs1)"
    and s: "set_disk_block_number index 0 n inode fs1 = Inr (i2, fs2)"
    and w: "write_inode_metadata index i3 fs2 = Inr fs3"
    unfolding alloc_inode_block_def Let_def by (auto simp: bindR_eq_Inr)
  have "sint (0 - 12 :: u32) \<le> 0" by simp
  then have "fs2 = fs1" using s unfolding set_disk_block_number_def Let_def by (auto split: if_splits)
  moreover have "inode_size fs1 = inode_size fs" using a alloc_from_inode_size unfolding ext2_alloc_block_def by blast
  ultimately show False using write_inode_metadata_never[of fs2 index i3] assms w by auto
qed

lemma make_node_faults:
  assumes "0 < inode_size fs" "inode_size fs \<le> 512"
  shows "\<exists>e. make_node kind valid M dir name perm (m, fs) = Some (Inl e)"
proof (cases "alloc_inode fs")
  case (Inr r)
  obtain index fs1 where r: "alloc_inode fs = Inr (index, fs1)" using Inr by (cases r) auto
  have "inode_size fs1 = inode_size fs" using r alloc_from_inode_size unfolding alloc_inode_def by blast
  then have n: "\<exists>e. alloc_inode_block index 0 inode fs1 = Inl e" for inode using alloc_first_block_never assms by metis
  show ?thesis
  proof (cases "read_inode_metadata index (inode_of_bytes (M 128)) fs1")
    case (Inr inode)
    obtain e where "alloc_inode_block index 0 (new_inode kind perm (block_size fs1) inode) fs1 = Inl e" using n by blast
    then show ?thesis using Inr r by (simp add: make_node_def)
  qed (simp add: make_node_def r)
qed (simp add: make_node_def)

text \<open>C29: \<^verbatim>\<open>ext2_mkdir\<close> and \<^verbatim>\<open>ext2_mkfile\<close> never make anything. For inodes of at most 512 bytes (those of ext2
  have 128) every call runs into a fault, whatever the disk, the name, the directory and the memory hold: the first block of
  the new node is entered by writing its inode, and that writes behind the block that was read, so the call never gets to the
  entry in the directory.\<close>

theorem make_node_never:
  assumes "0 < inode_size fs" "inode_size fs \<le> 512"
  shows "(\<exists>e. ext2_mkdir valid M dir name perm (m, fs) = Some (Inl e)) \<and> (\<exists>e. ext2_mkfile valid M dir name perm (m, fs) = Some (Inl e))"
  unfolding ext2_mkdir_def ext2_mkfile_def using make_node_faults[OF assms] by blast

theorem make_node_never_witness:
  "\<exists>e. ext2_mkfile (\<lambda>_. False) (\<lambda>n. replicate n 0) 2 [97] 0x1ff (\<lambda>_. 0, example_fs) = Some (Inl e)"
  using make_node_never[of example_fs "\<lambda>_. False" "\<lambda>n. replicate n 0" 2 "[97]" "0x1ff" "\<lambda>_. 0"] by (simp add: example_fs_def)

section \<open>Directories as other systems write them\<close>

text \<open>What the first block of a directory gives: its first entry, of the size it has on a disk.\<close>

definition first_entry :: "ext2 \<Rightarrow> inode_base \<Rightarrow> u8 list \<Rightarrow> dir_entry \<Rightarrow> bool" where
  "first_entry fs p buf d \<longleftrightarrow> 0 < block_size fs \<and> 0 < size_lower p \<and> read_inode_block p 0 fs = Inr buf \<and>
     dirent_fields buf 0 = Inr d \<and> standard_size d"

lemma at_first_block: "0 < block_size fs \<Longrightarrow> at_block p fs 0 0 buf = Inr (0, 0, buf)"
  by (simp add: at_block_def not_le[symmetric])

theorem listdir_first_only:
  assumes "read_inode_metadata inode (inode_of_bytes (M 128)) fs = Inr p" "first_entry fs p buf d"
  shows "ext2_listdir valid m M inode fs =
     Some (if e_inode d = 0 then Inr []
           else bindR (name_at valid m buf 0 (unat (e_name_len d))) (\<lambda>name. Inr [overwrite 0 name (M (unat (e_name_len d) + 1))]))"
proof -
  have f: "0 < block_size fs" "0 < size_lower p" "read_inode_block p 0 fs = Inr buf" "dirent_fields buf 0 = Inr d" "standard_size d"
    using assms(2) by (simp_all add: first_entry_def)
  note ne = standard_unexpected(2)[OF f(5)]
  show ?thesis
    by (cases "name_at valid m buf 0 (unat (e_name_len d))"; cases "e_inode d = 0")
      (simp_all add: ext2_listdir_def assms(1) f(3) listdir_loop.simps[of _ _ _ _ _ 0 0 0] f(2) at_first_block[OF f(1)] f(4) ne)
qed

theorem finddir_first_only:
  assumes "read_inode_metadata inode (inode_of_bytes (M 128)) fs = Inr p" "first_entry fs p buf d"
    and "name_at valid m buf 0 (unat (e_name_len d)) = Inr n"
    and "same_string (overwrite 0 n (M (unat (e_name_len d) + 1))) (name @ [0]) = Inr False"
  shows "ext2_finddir valid m M inode name fs = Some (Inr None)"
proof -
  have f: "0 < block_size fs" "0 < size_lower p" "read_inode_block p 0 fs = Inr buf" "dirent_fields buf 0 = Inr d" "standard_size d"
    using assms(2) by (simp_all add: first_entry_def)
  note ne = standard_unexpected(1)[OF f(5)]
  show ?thesis
    by (cases "e_inode d = 0")
      (simp_all add: ext2_finddir_def assms(1) f(3) finddir_loop.simps[of _ _ _ _ _ _ 0 0 0] f(2) at_first_block[OF f(1)] f(4) assms(3)
        assms(4)[simplified] ne)
qed

end
