(* ===== verification/Linked_List.thy ===== *)
theory Linked_List
  imports Prelude
begin

text \<open>
  The doubly linked lists of \<^verbatim>\<open>kernel/src/stdlib/list.c\<close> and the trees built from them
  (\<^verbatim>\<open>tree.c\<close>), over one store per structure type.

  An operation that allocates takes as its argument \<open>t\<close> the address that \<^verbatim>\<open>new\<close> obtained
  from the heap (\<open>NULL\<close> when there was none); \<^verbatim>\<open>new\<close> does not clear the memory, so the
  fields of the object at \<open>t\<close> keep what the store has there. \<^verbatim>\<open>del\<close> passes an address to
  \<^verbatim>\<open>cull\<close>; the addresses are collected in order in \<open>culled\<close> (the heap pointer that the macro
  tests afterwards is not \<open>NULL\<close>). A dereference of \<open>NULL\<close> is
  the fault \<open>NullDeref\<close>.
\<close>

section \<open>Lists\<close>

record listnode =
  prev :: addr
  nxt :: addr
  val :: addr

record list_t =
  l_head :: addr
  l_tail :: addr
  l_len :: u32

record treenode =
  children :: addr
  tvalue :: addr

record store =
  node :: "addr \<Rightarrow> listnode"
  lst :: "addr \<Rightarrow> list_t"
  tnode :: "addr \<Rightarrow> treenode"
  troot :: "addr \<Rightarrow> addr"
  culled :: "addr list"

definition set_node :: "addr \<Rightarrow> (listnode \<Rightarrow> listnode) \<Rightarrow> store \<Rightarrow> store" where
  "set_node a f s = s\<lparr>node := (node s)(a := f (node s a))\<rparr>"

definition set_list :: "addr \<Rightarrow> (list_t \<Rightarrow> list_t) \<Rightarrow> store \<Rightarrow> store" where
  "set_list l f s = s\<lparr>lst := (lst s)(l := f (lst s l))\<rparr>"

definition del :: "addr \<Rightarrow> store \<Rightarrow> store" where
  "del a s = s\<lparr>culled := culled s @ [a]\<rparr>"

lemmas stores = set_node_def set_list_def del_def

definition list_create :: "addr \<Rightarrow> addr" where
  "list_create t = t"

definition list_size :: "store \<Rightarrow> addr \<Rightarrow> u32" where
  "list_size s l = (if l = NULL then 0 else l_len (lst s l))"

definition list_insert_front :: "addr \<Rightarrow> addr \<Rightarrow> addr \<Rightarrow> store \<Rightarrow> (addr \<times> store) result" where
  "list_insert_front l v t s =
     (if t = NULL then Inr (t, s)
      else if l_head (lst s l) = NULL then Inl NullDeref
      else
        (let s = set_node (l_head (lst s l)) (prev_update (\<lambda>_. t)) s;
             s = set_node t (nxt_update (\<lambda>_. l_head (lst s l))) s;
             s = set_node t (val_update (\<lambda>_. v)) s;
             s = (if l_head (lst s l) = NULL then set_list l (l_tail_update (\<lambda>_. t)) s else s);
             s = set_list l (l_head_update (\<lambda>_. t)) s;
             s = set_list l (l_len_update (\<lambda>n. n + 1)) s
         in Inr (t, s)))"

definition list_insert_back :: "addr \<Rightarrow> addr \<Rightarrow> addr \<Rightarrow> store \<Rightarrow> store" where
  "list_insert_back l v t s =
     (if t = NULL then s
      else
        (let s = set_node t (prev_update (\<lambda>_. l_tail (lst s l))) s;
             s = (if l_tail (lst s l) \<noteq> NULL then set_node (l_tail (lst s l)) (nxt_update (\<lambda>_. t)) s else s);
             s = set_node t (val_update (\<lambda>_. v)) s;
             s = (if l_head (lst s l) = NULL then set_list l (l_head_update (\<lambda>_. t)) s else s);
             s = set_list l (l_tail_update (\<lambda>_. t)) s
         in set_list l (l_len_update (\<lambda>n. n + 1)) s))"

definition list_remove_front :: "addr \<Rightarrow> store \<Rightarrow> addr \<times> store" where
  "list_remove_front l s =
     (if l_head (lst s l) = NULL then (NULL, s)
      else
        (let t = l_head (lst s l);
             v = val (node s t);
             s = set_list l (l_head_update (\<lambda>_. nxt (node s t))) s;
             s = (if l_head (lst s l) \<noteq> NULL then set_node (l_head (lst s l)) (prev_update (\<lambda>_. NULL)) s else s);
             s = del t s
         in (v, set_list l (l_len_update (\<lambda>n. n - 1)) s)))"

definition list_remove_back :: "addr \<Rightarrow> store \<Rightarrow> (addr \<times> store) result" where
  "list_remove_back l s =
     (if l_head (lst s l) = NULL then Inr (NULL, s)
      else if l_tail (lst s l) = NULL then Inl NullDeref
      else
        (let t = l_tail (lst s l);
             v = val (node s t);
             s = set_list l (l_tail_update (\<lambda>_. prev (node s t))) s;
             s = (if l_tail (lst s l) \<noteq> NULL then set_node (l_tail (lst s l)) (nxt_update (\<lambda>_. NULL)) s else s);
             s = del t s
         in Inr (v, set_list l (l_len_update (\<lambda>n. n - 1)) s)))"

definition list_remove_node :: "addr \<Rightarrow> addr \<Rightarrow> store \<Rightarrow> (addr \<times> store) result" where
  "list_remove_node l n s =
     (if n = NULL then Inl NullDeref
      else
        (let v = val (node s n)
         in if l_head (lst s l) = n then Inr (list_remove_front l s)
            else if l_tail (lst s l) = n then list_remove_back l s
            else if nxt (node s n) = NULL \<or> prev (node s n) = NULL then Inl NullDeref
            else
              (let s = set_node (nxt (node s n)) (prev_update (\<lambda>_. prev (node s n))) s;
                   s = set_node (prev (node s n)) (nxt_update (\<lambda>_. nxt (node s n))) s;
                   s = set_list l (l_len_update (\<lambda>n. n - 1)) s
               in Inr (v, del n s))))"

definition list_push :: "addr \<Rightarrow> addr \<Rightarrow> addr \<Rightarrow> store \<Rightarrow> store" where
  "list_push l v t s = list_insert_back l v t s"

definition list_pop :: "addr \<Rightarrow> store \<Rightarrow> (addr \<times> store) result" where
  "list_pop l s =
     (if l_head (lst s l) = NULL then Inr (NULL, s)
      else if l_tail (lst s l) = NULL then Inl NullDeref
      else
        (let t = l_tail (lst s l);
             s = set_list l (l_tail_update (\<lambda>_. prev (node s t))) s;
             s = (if l_tail (lst s l) \<noteq> NULL then set_node (l_tail (lst s l)) (nxt_update (\<lambda>_. NULL)) s else s)
         in Inr (t, set_list l (l_len_update (\<lambda>n. n - 1)) s)))"

definition list_enqueue :: "addr \<Rightarrow> addr \<Rightarrow> addr \<Rightarrow> store \<Rightarrow> store result" where
  "list_enqueue l v t s = (case list_insert_front l v t s of Inl e \<Rightarrow> Inl e | Inr (_, s) \<Rightarrow> Inr s)"

definition list_dequeue :: "addr \<Rightarrow> store \<Rightarrow> (addr \<times> store) result" where
  "list_dequeue l s = list_pop l s"

definition list_peek_front :: "addr \<Rightarrow> store \<Rightarrow> addr" where
  "list_peek_front l s = (if l_head (lst s l) = NULL then NULL else val (node s (l_head (lst s l))))"

definition list_peek_back :: "addr \<Rightarrow> store \<Rightarrow> addr" where
  "list_peek_back l s = (if l_tail (lst s l) = NULL then NULL else val (node s (l_tail (lst s l))))"

text \<open>The \<^verbatim>\<open>foreach\<close> loops; a cyclic list is \<open>None\<close>.\<close>

partial_function (option) contain_loop :: "store \<Rightarrow> addr \<Rightarrow> addr \<Rightarrow> int \<Rightarrow> int option" where
  "contain_loop s n v idx =
     (if n = NULL then Some (- 1)
      else if val (node s n) = v then Some idx
      else contain_loop s (nxt (node s n)) v (idx + 1))"

definition list_contain :: "store \<Rightarrow> addr \<Rightarrow> addr \<Rightarrow> int option" where
  "list_contain s l v = contain_loop s (l_head (lst s l)) v 0"

partial_function (option) index_loop :: "store \<Rightarrow> addr \<Rightarrow> int \<Rightarrow> int \<Rightarrow> addr option" where
  "index_loop s n index cur =
     (if n = NULL then Some NULL
      else if index = cur then Some n
      else index_loop s (nxt (node s n)) index (cur + 1))"

text \<open>The bound is compared as an unsigned number, after the test for negative ones.\<close>

definition list_get_node_by_index :: "store \<Rightarrow> addr \<Rightarrow> int \<Rightarrow> addr option" where
  "list_get_node_by_index s l index =
     (if index < 0 \<or> (word_of_int index :: u32) \<ge> list_size s l then Some NULL
      else index_loop s (l_head (lst s l)) index 0)"

definition list_remove_by_index :: "addr \<Rightarrow> int \<Rightarrow> store \<Rightarrow> (addr \<times> store) result option" where
  "list_remove_by_index l index s =
     map_option (\<lambda>n. list_remove_node l n s) (list_get_node_by_index s l index)"

partial_function (option) destroy_loop :: "addr \<Rightarrow> store \<Rightarrow> store option" where
  "destroy_loop n s = (if n \<noteq> NULL then destroy_loop (nxt (node s n)) (del n s) else Some s)"

definition list_destroy :: "addr \<Rightarrow> store \<Rightarrow> store option" where
  "list_destroy l s = map_option (del l) (destroy_loop (l_head (lst s l)) s)"

definition listnode_destroy :: "addr \<Rightarrow> store \<Rightarrow> store" where
  "listnode_destroy n s = del n s"

section \<open>Trees\<close>

text \<open>\<open>t\<close> is the address of the new node, \<open>c\<close> that of its list of children, \<open>e\<close> that of the
  list element \<^verbatim>\<open>list_insert_front\<close> allocates.\<close>

definition set_tnode :: "addr \<Rightarrow> (treenode \<Rightarrow> treenode) \<Rightarrow> store \<Rightarrow> store" where
  "set_tnode a f s = s\<lparr>tnode := (tnode s)(a := f (tnode s a))\<rparr>"

definition treenode_create :: "addr \<Rightarrow> addr \<Rightarrow> addr \<Rightarrow> store \<Rightarrow> addr \<times> store" where
  "treenode_create v t c s =
     (if t = NULL then (t, s)
      else (t, set_tnode t (children_update (\<lambda>_. list_create c)) (set_tnode t (tvalue_update (\<lambda>_. v)) s)))"

definition tree_insert :: "addr \<Rightarrow> addr \<Rightarrow> addr \<Rightarrow> addr \<Rightarrow> addr \<Rightarrow> addr \<Rightarrow> store \<Rightarrow> (addr \<times> store) result" where
  "tree_insert tree subroot v t c e s =
     (if t = NULL then Inr (t, s)
      else
        (let s = set_tnode t (children_update (\<lambda>_. list_create c)) s;
             s = set_tnode t (tvalue_update (\<lambda>_. v)) s
         in if troot s tree = NULL then Inr (t, s\<lparr>troot := (troot s)(tree := t)\<rparr>)
            else if subroot = NULL then Inl NullDeref
            else (case list_insert_front (children (tnode s subroot)) t e s of
                    Inl f \<Rightarrow> Inl f
                  | Inr (_, s) \<Rightarrow> Inr (t, s))))"

text \<open>The recursion of \<^verbatim>\<open>tree_find_parent_recur\<close> over a node and, in its loop, over the
  remaining children; the result carries \<^verbatim>\<open>*child_index\<close>.\<close>

datatype walk = Subroot addr | Siblings addr

lemma walk_mono [partial_function_mono]:
  assumes "\<And>r. mono_option (\<lambda>f. F f r)" and "\<And>c. mono_option (\<lambda>f. G f c)"
  shows "mono_option (\<lambda>f. case w of Subroot r \<Rightarrow> F f r | Siblings c \<Rightarrow> G f c)"
  using assms by (cases w) simp_all

partial_function (option) tree_find_parent_recur :: "store \<Rightarrow> addr \<Rightarrow> int \<Rightarrow> walk \<Rightarrow> (addr \<times> int) option" where
  "tree_find_parent_recur s rm ci w =
     (case w of
        Subroot r \<Rightarrow>
          (case list_contain s (children (tnode s r)) rm of
             None \<Rightarrow> None
           | Some idx \<Rightarrow>
               if idx \<noteq> - 1 then Some (r, idx)
               else tree_find_parent_recur s rm ci (Siblings (l_head (lst s (children (tnode s r))))))
      | Siblings c \<Rightarrow>
          if c = NULL then Some (NULL, ci)
          else Option.bind (tree_find_parent_recur s rm ci (Subroot (val (node s c))))
                 (\<lambda>p. if fst p \<noteq> NULL then Some p
                      else tree_find_parent_recur s rm ci (Siblings (nxt (node s c)))))"

definition tree_find_parent :: "store \<Rightarrow> addr \<Rightarrow> addr \<Rightarrow> int \<Rightarrow> (addr \<times> int) option" where
  "tree_find_parent s tree rm ci =
     (if rm = troot s tree then Some (NULL, ci) else tree_find_parent_recur s rm ci (Subroot (troot s tree)))"

definition tree_remove :: "addr \<Rightarrow> addr \<Rightarrow> store \<Rightarrow> store result option" where
  "tree_remove tree rm s =
     (case tree_find_parent s tree rm (- 1) of
        None \<Rightarrow> None
      | Some (p, i) \<Rightarrow>
          if p = NULL then Some (Inr s)
          else (case list_remove_by_index (children (tnode s p)) i s of
                  None \<Rightarrow> None
                | Some (Inl e) \<Rightarrow> Some (Inl e)
                | Some (Inr (x, s)) \<Rightarrow> Some (Inr (del x s))))"

text \<open>\<^verbatim>\<open>tree2array\<close>: \<open>out\<close> is the array up to \<^verbatim>\<open>*size\<close>.\<close>

partial_function (option) tree2array_recur :: "store \<Rightarrow> walk \<Rightarrow> addr list \<Rightarrow> addr list option" where
  "tree2array_recur s w out =
     (case w of
        Subroot r \<Rightarrow>
          if r = NULL then Some out
          else tree2array_recur s (Siblings (l_head (lst s (children (tnode s r))))) (out @ [tvalue (tnode s r)])
      | Siblings c \<Rightarrow>
          if c = NULL then Some out
          else Option.bind (tree2array_recur s (Subroot (val (node s c))) out)
                 (tree2array_recur s (Siblings (nxt (node s c)))))"

definition tree2array :: "store \<Rightarrow> addr \<Rightarrow> addr list \<Rightarrow> addr list option" where
  "tree2array s tree out = tree2array_recur s (Subroot (troot s tree)) out"

text \<open>
  \<^verbatim>\<open>tree2list\<close> appends the values to the list at \<open>l\<close>; \<open>ts\<close> are the addresses that the calls
  of \<^verbatim>\<open>new\<close> return one after the other.
\<close>

partial_function (option) tree2list_recur :: "addr \<Rightarrow> walk \<Rightarrow> store \<times> addr list \<Rightarrow> (store \<times> addr list) option" where
  "tree2list_recur l w st =
     (case w of
        Subroot r \<Rightarrow>
          if r = NULL then Some st
          else tree2list_recur l (Siblings (l_head (lst (fst st) (children (tnode (fst st) r))))) st
      | Siblings c \<Rightarrow>
          if c = NULL then Some st
          else
            (let (s, ts) = st;
                 t = (case ts of [] \<Rightarrow> NULL | t # _ \<Rightarrow> t);
                 s = list_insert_back l (tvalue (tnode s (val (node s c)))) t s
             in Option.bind (tree2list_recur l (Subroot (val (node s c))) (s, tl ts))
                  (\<lambda>st. tree2list_recur l (Siblings (nxt (node (fst st) c))) st)))"

definition tree2list :: "addr \<Rightarrow> addr \<Rightarrow> store \<times> addr list \<Rightarrow> (store \<times> addr list) option" where
  "tree2list tree l st = tree2list_recur l (Subroot (troot (fst st) tree)) st"

section \<open>Well-formed lists\<close>

definition first_of :: "addr list \<Rightarrow> addr \<Rightarrow> addr" where
  "first_of xs q = (case xs of [] \<Rightarrow> q | x # _ \<Rightarrow> x)"

definition last_of :: "addr \<Rightarrow> addr list \<Rightarrow> addr" where
  "last_of p xs = (if xs = [] then p else last xs)"

fun dseg :: "(addr \<Rightarrow> listnode) \<Rightarrow> addr \<Rightarrow> addr list \<Rightarrow> addr \<Rightarrow> bool" where
  "dseg n p [] q \<longleftrightarrow> True"
| "dseg n p (x # xs) q \<longleftrightarrow> x \<noteq> NULL \<and> prev (n x) = p \<and> nxt (n x) = first_of xs q \<and> dseg n x xs q"

text \<open>The list at \<open>l\<close> has the cells \<open>xs\<close>, and \<open>q\<close> is what the last one links to: \<open>NULL\<close> in a well-formed list.\<close>

definition list_to :: "store \<Rightarrow> addr \<Rightarrow> addr list \<Rightarrow> addr \<Rightarrow> bool" where
  "list_to s l xs q \<longleftrightarrow> dseg (node s) NULL xs q \<and> distinct xs \<and> l_head (lst s l) = first_of xs NULL \<and>
     l_tail (lst s l) = last_of NULL xs \<and> l_len (lst s l) = of_nat (length xs)"

definition list_ok :: "store \<Rightarrow> addr \<Rightarrow> addr list \<Rightarrow> bool" where
  "list_ok s l xs \<longleftrightarrow> dseg (node s) NULL xs NULL \<and> distinct xs \<and> l_head (lst s l) = first_of xs NULL \<and>
     l_tail (lst s l) = last_of NULL xs \<and> l_len (lst s l) = of_nat (length xs)"

lemma list_ok_to: "list_ok s l xs \<longleftrightarrow> list_to s l xs NULL"
  by (simp add: list_ok_def list_to_def)

definition vals :: "store \<Rightarrow> addr list \<Rightarrow> addr list" where
  "vals s xs = map (\<lambda>x. val (node s x)) xs"

lemma ends_simps [simp]:
  "first_of [] q = q" "first_of (x # xs) q = x" "first_of (xs @ ys) q = first_of xs (first_of ys q)"
  "last_of p [] = p" "last_of p (xs @ ys) = last_of (last_of p xs) ys" "last_of p (x # xs) = last_of x xs"
  by (simp_all add: first_of_def last_of_def split: list.split)

lemma first_of_nonnull: "NULL \<notin> set xs \<Longrightarrow> q \<noteq> NULL \<Longrightarrow> first_of xs q \<noteq> NULL"
  by (cases xs) auto

lemma dseg_append: "dseg n p (xs @ ys) q \<longleftrightarrow> dseg n p xs (first_of ys q) \<and> dseg n (last_of p xs) ys q"
  by (induction xs arbitrary: p) auto

lemma dseg_fresh [simp]: "x \<notin> set xs \<Longrightarrow> dseg (n(x := v)) p xs q = dseg n p xs q"
  by (induction xs arbitrary: p) auto

lemma dseg_nonnull: "dseg n p xs q \<Longrightarrow> NULL \<notin> set xs"
  by (induction xs arbitrary: p) auto

lemma dseg_cong: "(\<And>x. x \<in> set xs \<Longrightarrow> prev (n x) = prev (n' x) \<and> nxt (n x) = nxt (n' x)) \<Longrightarrow> dseg n p xs q = dseg n' p xs q"
  by (induction xs arbitrary: p) auto

lemma first_of_NULL: "dseg n p xs NULL \<Longrightarrow> first_of xs NULL = NULL \<longleftrightarrow> xs = []"
  by (cases xs) auto

lemma last_of_NULL: "dseg n p xs q \<Longrightarrow> last_of NULL xs = NULL \<longleftrightarrow> xs = []"
  using dseg_nonnull[of n p xs q] by (cases xs rule: rev_cases) auto

text \<open>A node outside the list. Its links hold what the memory held: \<^verbatim>\<open>list_insert_back\<close> sets \<^verbatim>\<open>prev\<close> but not \<^verbatim>\<open>next\<close>.\<close>

definition new_node :: "addr list \<Rightarrow> addr \<Rightarrow> bool" where
  "new_node xs t \<longleftrightarrow> t \<noteq> NULL \<and> t \<notin> set xs"

lemma dseg_end: "xs \<noteq> [] \<Longrightarrow> dseg n p xs q \<Longrightarrow> nxt (n (last xs)) = q"
  by (induction xs arbitrary: p) (auto simp: neq_Nil_conv)

lemma insert_back_ok:
  assumes "list_to s l xs q" "new_node xs t"
  shows "list_to (list_insert_back l v t s) l (xs @ [t]) (nxt (node s t))" "vals (list_insert_back l v t s) (xs @ [t]) = vals s xs @ [v]"
    "l' \<noteq> l \<Longrightarrow> lst (list_insert_back l v t s) l' = lst s l'"
    "x \<notin> set xs \<Longrightarrow> x \<noteq> t \<Longrightarrow> node (list_insert_back l v t s) x = node s x"
    "tnode (list_insert_back l v t s) = tnode s" "troot (list_insert_back l v t s) = troot s"
    "x \<noteq> t \<Longrightarrow> val (node (list_insert_back l v t s) x) = val (node s x)"
proof -
  have "list_to (list_insert_back l v t s) l (xs @ [t]) (nxt (node s t)) \<and> vals (list_insert_back l v t s) (xs @ [t]) = vals s xs @ [v] \<and>
    (l' \<noteq> l \<longrightarrow> lst (list_insert_back l v t s) l' = lst s l') \<and> (x \<notin> set xs \<longrightarrow> x \<noteq> t \<longrightarrow> node (list_insert_back l v t s) x = node s x)"
    using assms
  proof (cases xs rule: rev_cases)
    case Nil
    then show ?thesis using assms
      by (simp add: list_to_def list_insert_back_def stores new_node_def Let_def vals_def)
  next
    case (snoc ys y)
    then have "y \<noteq> NULL" "y \<notin> set ys" "first_of ys y \<noteq> NULL" using assms dseg_nonnull[of "node s" NULL "ys @ [y]" q]
      by (auto simp: list_to_def first_of_nonnull)
    with snoc assms show ?thesis
      by (auto simp: list_to_def list_insert_back_def stores new_node_def Let_def vals_def dseg_append first_of_NULL split: if_splits list.splits)
  qed
  then show "list_to (list_insert_back l v t s) l (xs @ [t]) (nxt (node s t))" "vals (list_insert_back l v t s) (xs @ [t]) = vals s xs @ [v]"
    "l' \<noteq> l \<Longrightarrow> lst (list_insert_back l v t s) l' = lst s l'"
    "x \<notin> set xs \<Longrightarrow> x \<noteq> t \<Longrightarrow> node (list_insert_back l v t s) x = node s x" by auto
qed (simp_all add: list_insert_back_def stores Let_def)

lemma insert_front_ok:
  assumes "list_to s l xs q" "new_node xs t" "prev (node s t) = NULL" "xs \<noteq> []"
  obtains s' where "list_insert_front l v t s = Inr (t, s')" "list_to s' l (t # xs) q" "vals s' (t # xs) = v # vals s xs"
proof -
  obtain x ys where xs: "xs = x # ys" using assms(4) by (cases xs) auto
  with assms have "\<exists>s'. list_insert_front l v t s = Inr (t, s') \<and> list_to s' l (t # xs) q \<and> vals s' (t # xs) = v # vals s xs"
    by (auto simp: list_to_def list_insert_front_def stores new_node_def Let_def vals_def)
  then show ?thesis using that by blast
qed

lemma insert_front_empty:
  "list_ok s l [] \<Longrightarrow> t \<noteq> NULL \<Longrightarrow> list_insert_front l v t s = Inl NullDeref"
  by (simp add: list_insert_front_def list_ok_def)

lemma remove_front_ok:
  assumes "list_ok s l (x # y # xs)"
  shows "\<exists>s'. list_remove_front l s = (val (node s x), s') \<and> list_ok s' l (y # xs) \<and> vals s' (y # xs) = vals s (y # xs) \<and>
    culled s' = culled s @ [x]"
  using assms by (auto simp: list_ok_def list_remove_front_def stores Let_def vals_def)

lemma pop_ok:
  assumes "list_ok s l (xs @ [y, x])"
  shows "\<exists>s'. list_pop l s = Inr (x, s') \<and> list_ok s' l (xs @ [y]) \<and> vals s' (xs @ [y]) = vals s (xs @ [y]) \<and>
    val (node s' x) = val (node s x)"
proof -
  have "NULL \<notin> set (xs @ [y, x])" using assms dseg_nonnull by (auto simp only: list_ok_def)
  then show ?thesis using assms
    by (auto simp: list_ok_def list_pop_def stores Let_def vals_def dseg_append first_of_nonnull)
qed

lemma remove_back_ok:
  assumes "list_ok s l (xs @ [y, x])"
  shows "\<exists>s'. list_remove_back l s = Inr (val (node s x), s') \<and> list_ok s' l (xs @ [y]) \<and> vals s' (xs @ [y]) = vals s (xs @ [y]) \<and>
    culled s' = culled s @ [x]"
proof -
  have "NULL \<notin> set (xs @ [y, x])" using assms dseg_nonnull by (auto simp only: list_ok_def)
  then show ?thesis using assms
    by (auto simp: list_ok_def list_remove_back_def stores Let_def vals_def dseg_append first_of_nonnull)
qed

lemma remove_middle_ok:
  assumes "list_ok s l (xs @ y # x # z # zs)"
  shows "\<exists>s'. list_remove_node l x s = Inr (val (node s x), s') \<and> list_ok s' l (xs @ y # z # zs) \<and>
    vals s' (xs @ y # z # zs) = vals s (xs @ y # z # zs) \<and> culled s' = culled s @ [x]"
proof -
  have nn: "NULL \<notin> set (xs @ y # x # z # zs)" using assms dseg_nonnull by (auto simp only: list_ok_def)
  have d: "distinct (xs @ y # x # z # zs)" using assms by (simp add: list_ok_def)
  have "first_of xs y \<noteq> x" using d by (cases xs) auto
  moreover have "last_of z zs \<noteq> x" using d by (auto simp: last_of_def)
  ultimately show ?thesis using assms nn
    by (auto simp: list_ok_def list_remove_node_def stores Let_def vals_def dseg_append)
qed

section \<open>Searches\<close>

lemma contain_loop_eq:
  "dseg (node s) p xs NULL \<Longrightarrow>
     contain_loop s (first_of xs NULL) v i =
       Some (if v \<in> set (vals s xs) then i + int (length (takeWhile (\<lambda>w. w \<noteq> v) (vals s xs))) else - 1)"
proof (induction xs arbitrary: p i)
  case Nil
  then show ?case by (simp add: contain_loop.simps vals_def)
next
  case (Cons x xs)
  then show ?case
    using Cons.IH[of x "i + 1"] by (subst contain_loop.simps) (auto simp: vals_def)
qed

lemma list_contain_eq:
  "list_ok s l xs \<Longrightarrow> list_contain s l v =
     Some (if v \<in> set (vals s xs) then int (length (takeWhile (\<lambda>w. w \<noteq> v) (vals s xs))) else - 1)"
  unfolding list_contain_def list_ok_def using contain_loop_eq[of s NULL xs v 0] by simp

lemma index_loop_eq:
  "dseg (node s) p xs NULL \<Longrightarrow> k < length xs \<Longrightarrow> index_loop s (first_of xs NULL) (c + int k) c = Some (xs ! k)"
proof (induction xs arbitrary: p c k)
  case (Cons x xs)
  then show ?case
    using Cons.IH[of x "k - 1" "c + 1"]
    by (subst index_loop.simps) (auto simp: nth_Cons' split: if_splits)
qed simp

lemma get_node_by_index_eq:
  assumes "list_ok s l xs" "l \<noteq> NULL" "length xs < 2 ^ 31" "k < length xs"
  shows "list_get_node_by_index s l (int k) = Some (xs ! k)"
proof -
  have "k < 2 ^ 32" "length xs < 2 ^ 32" using assms by simp_all
  then have "unat (of_nat k :: u32) = k" "unat (of_nat (length xs) :: u32) = length xs"
    by (simp_all add: unsigned_of_nat take_bit_nat_eq_self)
  then have "\<not> (of_nat k :: u32) \<ge> of_nat (length xs)" using assms(4) by (simp add: word_le_nat_alt)
  then show ?thesis
    using assms index_loop_eq[of s NULL xs k 0]
    by (simp add: list_get_node_by_index_def list_size_def list_ok_def)
qed

lemma position_cases:
  assumes "k < length xs" "2 \<le> length xs"
  obtains (front) x y zs where "k = 0" "xs = x # y # zs"
    | (rear) ys y x where "xs = ys @ [y, x]" "k = Suc (length ys)"
    | (mid) ys y x z zs where "xs = ys @ y # x # z # zs" "k = Suc (length ys)"
proof (cases k)
  case 0
  then show ?thesis using that(1) assms by (cases xs; cases "tl xs") auto
next
  case (Suc j)
  then have xs: "xs = take j xs @ xs ! j # xs ! k # drop (Suc k) xs"
    using assms by (metis Cons_nth_drop_Suc Suc_lessD id_take_nth_drop)
  show ?thesis
  proof (cases "drop (Suc k) xs")
    case Nil
    then show ?thesis using xs Suc assms by (intro that(2)[of "take j xs" "xs ! j" "xs ! k"]) auto
  next
    case (Cons z zs)
    then show ?thesis using xs Suc assms by (intro that(3)[of "take j xs" "xs ! j" "xs ! k" z zs]) auto
  qed
qed

lemma remove_nth_ok:
  assumes "list_ok s l xs" "k < length xs" "2 \<le> length xs"
  shows "\<exists>s'. list_remove_node l (xs ! k) s = Inr (val (node s (xs ! k)), s') \<and> list_ok s' l (take k xs @ drop (Suc k) xs) \<and>
    vals s' (take k xs @ drop (Suc k) xs) = take k (vals s xs) @ drop (Suc k) (vals s xs) \<and> culled s' = culled s @ [xs ! k]"
  using assms(2,3)
proof (cases rule: position_cases)
  case (front x y zs)
  then have "l_head (lst s l) = x" "x \<noteq> NULL" using assms(1) by (auto simp: list_ok_def)
  then show ?thesis using remove_front_ok[of s l x y zs] assms(1) front by (auto simp: list_remove_node_def vals_def)
next
  case (rear ys y x)
  have x: "l_head (lst s l) \<noteq> x" "l_tail (lst s l) = x" "x \<noteq> NULL"
    using assms(1) rear dseg_nonnull by (cases ys; auto simp: list_ok_def dseg_append)+
  then show ?thesis
    using remove_back_ok[of s l ys y x] assms(1) rear by (auto simp: list_remove_node_def vals_def nth_append)
next
  case (mid ys y x z zs)
  then show ?thesis
    using remove_middle_ok[of s l ys y x z zs] assms(1) by (auto simp: vals_def nth_append)
qed

section \<open>Appending many values\<close>

text \<open>The contract of appending at the end that clients rely on: the cells \<open>xs\<close> of the sequence, their
  elements, and cells that are still unused.\<close>

locale appendable =
  fixes ok :: "'s \<Rightarrow> 'c list \<Rightarrow> bool"
    and elems :: "'s \<Rightarrow> 'c list \<Rightarrow> 'v list"
    and unused :: "'s \<Rightarrow> 'c list \<Rightarrow> 'c \<Rightarrow> bool"
    and snoc :: "'v \<Rightarrow> 'c \<Rightarrow> 's \<Rightarrow> 's"
  assumes snoc_ok: "ok s xs \<Longrightarrow> unused s xs t \<Longrightarrow> ok (snoc v t s) (xs @ [t])"
    and snoc_elems: "ok s xs \<Longrightarrow> unused s xs t \<Longrightarrow> elems (snoc v t s) (xs @ [t]) = elems s xs @ [v]"
    and snoc_unused: "ok s xs \<Longrightarrow> unused s xs t \<Longrightarrow> unused s xs u \<Longrightarrow> u \<noteq> t \<Longrightarrow> unused (snoc v t s) (xs @ [t]) u"
begin

lemma snoc_all:
  assumes "ok s xs" "distinct ts" "\<forall>t\<in>set ts. unused s xs t" "length vs \<le> length ts"
  shows "ok (fold (\<lambda>(v, t). snoc v t) (zip vs ts) s) (xs @ take (length vs) ts) \<and>
    elems (fold (\<lambda>(v, t). snoc v t) (zip vs ts) s) (xs @ take (length vs) ts) = elems s xs @ vs \<and>
    (\<forall>t\<in>set (drop (length vs) ts). unused (fold (\<lambda>(v, t). snoc v t) (zip vs ts) s) (xs @ take (length vs) ts) t)"
  using assms
proof (induction vs arbitrary: ts xs s)
  case (Cons v vs)
  then obtain t us where ts: "ts = t # us" by (cases ts) auto
  have "ok (snoc v t s) (xs @ [t])" "\<forall>u\<in>set us. unused (snoc v t s) (xs @ [t]) u"
    "elems (snoc v t s) (xs @ [t]) = elems s xs @ [v]"
    using Cons.prems ts by (auto intro!: snoc_ok snoc_elems snoc_unused)
  then show ?case using Cons.IH[of "snoc v t s" "xs @ [t]" us] Cons.prems ts by simp
qed simp

end

text \<open>The link of the last cell is that of the last new cell, as it was before.\<close>

definition cells_of :: "addr \<Rightarrow> store \<Rightarrow> addr list \<Rightarrow> bool" where
  "cells_of l s xs \<longleftrightarrow> (\<exists>q. list_to s l xs q)"

interpretation list_cells: appendable "cells_of l" vals "\<lambda>s. new_node" "\<lambda>v t. list_insert_back l v t" for l
proof unfold_locales
  fix s xs t v assume "cells_of l s xs" "new_node xs t"
  then obtain q where "list_to s l xs q" by (auto simp: cells_of_def)
  note i = insert_back_ok[OF this \<open>new_node xs t\<close>]
  show "cells_of l (list_insert_back l v t s) (xs @ [t])" unfolding cells_of_def using i(1) by blast
  show "vals (list_insert_back l v t s) (xs @ [t]) = vals s xs @ [v]" using i(2) by blast
qed (auto simp: new_node_def)

definition push_all :: "addr \<Rightarrow> addr list \<Rightarrow> addr list \<Rightarrow> store \<Rightarrow> store" where
  "push_all l vs ts s = fold (\<lambda>(v, t). list_insert_back l v t) (zip vs ts) s"

definition ready :: "addr \<Rightarrow> addr list \<Rightarrow> addr list \<Rightarrow> store \<Rightarrow> bool" where
  "ready l xs ts s \<longleftrightarrow> cells_of l s xs \<and> distinct ts \<and> (\<forall>t\<in>set ts. new_node xs t)"

lemma push_all_ready:
  assumes "ready l xs ts s" "length vs \<le> length ts"
  shows "ready l (xs @ take (length vs) ts) (drop (length vs) ts) (push_all l vs ts s)"
    and "vals (push_all l vs ts s) (xs @ take (length vs) ts) = vals s xs @ vs"
  using list_cells.snoc_all[of l s xs ts vs] assms by (auto simp: ready_def push_all_def)

lemma push_all_frame:
  assumes "ready l xs ts s" "length vs \<le> length ts"
  shows "tnode (push_all l vs ts s) = tnode s" "troot (push_all l vs ts s) = troot s"
    "l' \<noteq> l \<Longrightarrow> lst (push_all l vs ts s) l' = lst s l'"
    "x \<notin> set xs \<Longrightarrow> x \<notin> set ts \<Longrightarrow> node (push_all l vs ts s) x = node s x"
proof -
  have "tnode (push_all l vs ts s) = tnode s \<and> troot (push_all l vs ts s) = troot s \<and> (l' \<noteq> l \<longrightarrow> lst (push_all l vs ts s) l' = lst s l') \<and>
    (x \<notin> set xs \<longrightarrow> x \<notin> set ts \<longrightarrow> node (push_all l vs ts s) x = node s x)"
    using assms
  proof (induction vs arbitrary: ts xs s)
    case Nil
    then show ?case by (simp add: push_all_def)
  next
    case (Cons v vs)
    then obtain t us where ts: "ts = t # us" by (cases ts) auto
    obtain q where p: "list_to s l xs q" "new_node xs t" using Cons.prems ts by (auto simp: ready_def cells_of_def)
    have "push_all l [v] [t] s = list_insert_back l v t s" by (simp add: push_all_def)
    then have "ready l (xs @ [t]) us (list_insert_back l v t s)"
      using push_all_ready(1)[of l xs ts s "[v]"] Cons.prems ts by (simp add: push_all_def)
    then show ?case
      using Cons.IH[of "xs @ [t]" us "list_insert_back l v t s"] Cons.prems ts insert_back_ok[OF p]
      by (auto simp: push_all_def)
  qed
  then show "tnode (push_all l vs ts s) = tnode s" "troot (push_all l vs ts s) = troot s"
    "l' \<noteq> l \<Longrightarrow> lst (push_all l vs ts s) l' = lst s l'"
    "x \<notin> set xs \<Longrightarrow> x \<notin> set ts \<Longrightarrow> node (push_all l vs ts s) x = node s x" by auto
qed

lemma push_all_to:
  assumes "ready l xs (ts @ [t]) s" "length vs = length ts"
  shows "list_to (push_all l (vs @ [v]) (ts @ [t]) s) l (xs @ ts @ [t]) (nxt (node s t))"
proof -
  have t: "t \<notin> set xs" "t \<notin> set ts" "t \<noteq> NULL" using assms(1) by (auto simp: ready_def new_node_def)
  have r: "ready l xs ts s" using assms(1) by (simp add: ready_def)
  let ?s = "push_all l vs ts s"
  have e: "push_all l (vs @ [v]) (ts @ [t]) s = list_insert_back l v t ?s" using assms(2) by (simp add: push_all_def)
  have "node ?s t = node s t" using push_all_frame(4)[OF r] assms(2) t by simp
  moreover obtain q where "list_to ?s l (xs @ ts) q"
    using push_all_ready(1)[OF r, of vs] assms(2) by (auto simp: ready_def cells_of_def)
  ultimately show ?thesis using insert_back_ok(1)[of ?s l "xs @ ts" q t v] t by (simp add: e new_node_def)
qed

lemma push_all_append:
  "length vs \<le> length ts \<Longrightarrow> push_all l (vs @ ws) ts s = push_all l ws (drop (length vs) ts) (push_all l vs ts s)"
proof (induction vs arbitrary: ts s)
  case (Cons v vs)
  then show ?case by (cases ts) (simp_all add: push_all_def)
qed (simp add: push_all_def)

section \<open>Well-formed trees\<close>

datatype shape = Shape (root: addr) (kids: "(addr \<times> shape) list")

lemma kid_size [termination_simp]: "c \<in> set cs \<Longrightarrow> size (snd c) < Suc (size_list (size_prod (\<lambda>x. 0) size) cs)"
  by (induction cs) auto

fun tree_ok :: "store \<Rightarrow> shape \<Rightarrow> bool" where
  "tree_ok s (Shape r cs) \<longleftrightarrow> r \<noteq> NULL \<and> list_ok s (children (tnode s r)) (map fst cs) \<and>
     (\<forall>c\<in>set cs. val (node s (fst c)) = root (snd c) \<and> tree_ok s (snd c))"

fun preorder :: "(addr \<Rightarrow> treenode) \<Rightarrow> shape \<Rightarrow> addr list" where
  "preorder n (Shape r cs) = tvalue (n r) # concat (map (\<lambda>c. preorder n (snd c)) cs)"

text \<open>The list elements and the lists of children of a tree avoid the list \<open>l\<close> and the cells \<open>X\<close>.\<close>

fun apart :: "(addr \<Rightarrow> treenode) \<Rightarrow> addr \<Rightarrow> addr set \<Rightarrow> shape \<Rightarrow> bool" where
  "apart n l X (Shape r cs) \<longleftrightarrow> children (n r) \<noteq> l \<and> fst ` set cs \<inter> X = {} \<and> (\<forall>c\<in>set cs. apart n l X (snd c))"

lemma list_ok_cong:
  assumes "lst s' l = lst s l" "\<And>x. x \<in> set xs \<Longrightarrow> node s' x = node s x"
  shows "list_ok s' l xs = list_ok s l xs"
  using assms dseg_cong[of xs "node s'" "node s" NULL NULL] by (simp add: list_ok_def)

lemma tree_ok_frame:
  assumes "tree_ok s t" "apart (tnode s) l X t" "tnode s' = tnode s" "\<And>l'. l' \<noteq> l \<Longrightarrow> lst s' l' = lst s l'"
    "\<And>x. x \<notin> X \<Longrightarrow> node s' x = node s x"
  shows "tree_ok s' t"
  using assms(1,2)
proof (induction t rule: shape.induct)
  case (Shape r cs)
  have kid: "tree_ok s' (snd c)" if "c \<in> set cs" for c
    using Shape.IH[OF that, of "snd c"] Shape.prems that by (cases c) force
  have "node s' (fst c) = node s (fst c)" if "c \<in> set cs" for c
    using Shape.prems that by (intro assms(5)) auto
  moreover have "list_ok s' (children (tnode s r)) (map fst cs) = list_ok s (children (tnode s r)) (map fst cs)"
    using Shape.prems by (intro list_ok_cong assms(4,5)) auto
  ultimately show ?case using Shape.prems assms(3) kid by auto
qed

lemma tree2array_kids:
  assumes "\<And>c out. c \<in> set cs \<Longrightarrow> tree2array_recur s (Subroot (root (snd c))) out = Some (out @ preorder (tnode s) (snd c))"
    and "dseg (node s) p (map fst cs) NULL" "\<And>c. c \<in> set cs \<Longrightarrow> val (node s (fst c)) = root (snd c)"
  shows "tree2array_recur s (Siblings (first_of (map fst cs) NULL)) out =
    Some (out @ concat (map (\<lambda>c. preorder (tnode s) (snd c)) cs))"
  using assms
proof (induction cs arbitrary: p out)
  case Nil
  then show ?case by (simp add: tree2array_recur.simps)
next
  case (Cons c cs)
  then have "tree2array_recur s (Siblings (first_of (map fst cs) NULL)) out' =
      Some (out' @ concat (map (\<lambda>c. preorder (tnode s) (snd c)) cs))" for out'
    by (intro Cons.IH[where p = "fst c"]) auto
  then show ?case using Cons.prems by (subst tree2array_recur.simps) simp
qed

lemma tree2array_recur_eq:
  "tree_ok s t \<Longrightarrow> tree2array_recur s (Subroot (root t)) out = Some (out @ preorder (tnode s) t)"
proof (induction t arbitrary: out rule: shape.induct)
  case (Shape r cs)
  have "tree2array_recur s (Subroot (root (snd c))) out = Some (out @ preorder (tnode s) (snd c))" if "c \<in> set cs" for c out
    using Shape.IH[OF that, of "snd c"] Shape.prems that by (cases c) auto
  then have "tree2array_recur s (Siblings (first_of (map fst cs) NULL)) (out @ [tvalue (tnode s r)]) =
      Some ((out @ [tvalue (tnode s r)]) @ concat (map (\<lambda>c. preorder (tnode s) (snd c)) cs))"
    using Shape.prems by (intro tree2array_kids[where p = NULL]) (auto simp: list_ok_def)
  then show ?case using Shape.prems by (subst tree2array_recur.simps) (simp add: list_ok_def)
qed

lemma tree2list_kids:
  assumes "\<And>c s xs ts. c \<in> set cs \<Longrightarrow> tnode s = n \<Longrightarrow> tree_ok s (snd c) \<Longrightarrow> ready l xs ts s \<Longrightarrow> apart n l (set xs \<union> set ts) (snd c) \<Longrightarrow>
      length (tl (preorder n (snd c))) \<le> length ts \<Longrightarrow>
      tree2list_recur l (Subroot (root (snd c))) (s, ts) =
        Some (push_all l (tl (preorder n (snd c))) ts s, drop (length (tl (preorder n (snd c)))) ts)"
    and "tnode s = n" "ready l xs ts s" "dseg (node s) p (map fst cs) NULL" "fst ` set cs \<inter> (set xs \<union> set ts) = {}"
    and "\<And>c. c \<in> set cs \<Longrightarrow> val (node s (fst c)) = root (snd c) \<and> tree_ok s (snd c) \<and> apart n l (set xs \<union> set ts) (snd c)"
    and "length (concat (map (\<lambda>c. preorder n (snd c)) cs)) \<le> length ts"
  shows "tree2list_recur l (Siblings (first_of (map fst cs) NULL)) (s, ts) =
    Some (push_all l (concat (map (\<lambda>c. preorder n (snd c)) cs)) ts s, drop (length (concat (map (\<lambda>c. preorder n (snd c)) cs))) ts)"
  using assms
proof (induction cs arbitrary: p s xs ts)
  case Nil
  then show ?case by (simp add: tree2list_recur.simps push_all_def)
next
  case (Cons c cs)
  obtain e t where c: "c = (e, t)" by (cases c)
  obtain v vs where pre: "preorder n t = v # vs" "tvalue (n (root t)) = v" by (cases t) auto
  obtain u us where ts: "ts = u # us" using Cons.prems(7) c pre by (cases ts) auto
  let ?s1 = "list_insert_back l v u s"
  have s1: "push_all l [v] ts s = ?s1" by (simp add: push_all_def ts)
  have r1: "ready l (xs @ [u]) us ?s1" using push_all_ready(1)[of l xs ts s "[v]"] Cons.prems(3) s1 ts by simp
  note f1 = push_all_frame[of l xs ts s "[v]", unfolded s1]
  let ?k = "length vs" and ?s2 = "push_all l vs us ?s1"
  have s2: "?s2 = push_all l (v # vs) ts s" by (simp add: push_all_def ts)
  have k: "length (v # vs) \<le> length ts" using Cons.prems(7) c pre by simp
  have r2: "ready l (xs @ take (length (v # vs)) ts) (drop (length (v # vs)) ts) ?s2"
    unfolding s2 using Cons.prems(3) k by (rule push_all_ready)
  note f2 = push_all_frame[of l xs ts s "v # vs", folded s2]
  have U: "set (xs @ [u]) \<union> set us = set xs \<union> set ts" "set (xs @ take j ts) \<union> set (drop j ts) = set xs \<union> set ts" for j
    using set_append[of "take j ts" "drop j ts"] by (auto simp: ts)
  have d: "e \<noteq> NULL" "nxt (node s e) = first_of (map fst cs) NULL" "dseg (node s) e (map fst cs) NULL"
    "e \<notin> set xs" "e \<notin> set ts" "val (node s e) = root t" "tree_ok s t" "apart n l (set xs \<union> set ts) t"
    using Cons.prems(4,5) Cons.prems(6)[of c] c by auto
  have fr1: "node ?s1 x = node s x" "node ?s2 x = node s x" if "x \<notin> set xs \<union> set ts" for x
    using that f1(4) f2(4) Cons.prems(3) k ts by auto
  have fl1: "lst ?s1 l' = lst s l'" "lst ?s2 l' = lst s l'" if "l' \<noteq> l" for l'
    using that f1(3) f2(3) Cons.prems(3) k ts by auto
  have tn: "tnode ?s1 = n" "tnode ?s2 = n" using f1(1) f2(1) Cons.prems(2,3) k ts by auto
  have keep: "tree_ok ?s1 t'" "tree_ok ?s2 t'" if "tree_ok s t'" "apart n l (set xs \<union> set ts) t'" for t'
    using that tn fl1 fr1 Cons.prems(2) tree_ok_frame[of s t' l "set xs \<union> set ts"] by auto
  have one: "tree2list_recur l (Subroot (root t)) (?s1, us) = Some (?s2, drop ?k us)"
    using Cons.prems(1)[of c ?s1 "xs @ [u]" us] c tn r1 d keep U(1) k pre ts by simp
  have two: "tree2list_recur l (Siblings (first_of (map fst cs) NULL)) (?s2, drop ?k us) =
    Some (push_all l (concat (map (\<lambda>c. preorder n (snd c)) cs)) (drop ?k us) ?s2,
          drop (length (concat (map (\<lambda>c. preorder n (snd c)) cs))) (drop ?k us))"
  proof (rule Cons.IH[where p = e and xs = "xs @ take (length (v # vs)) ts"])
    show "ready l (xs @ take (length (v # vs)) ts) (drop ?k us) ?s2" using r2 ts by simp
    show "dseg (node ?s2) e (map fst cs) NULL"
      using d(3) fr1(2) Cons.prems(5) dseg_cong[of "map fst cs" "node ?s2" "node s" e NULL] by force
    show "fst ` set cs \<inter> (set (xs @ take (length (v # vs)) ts) \<union> set (drop ?k us)) = {}"
      using Cons.prems(5) U(2)[of "Suc ?k"] ts by auto
    show "val (node ?s2 (fst c')) = root (snd c') \<and> tree_ok ?s2 (snd c') \<and>
        apart n l (set (xs @ take (length (v # vs)) ts) \<union> set (drop ?k us)) (snd c')" if "c' \<in> set cs" for c'
    proof -
      have "fst c' \<notin> set xs \<union> set ts" using that Cons.prems(5) by auto
      then show ?thesis using that Cons.prems(6)[of c'] keep fr1(2) U(2)[of "Suc ?k"] ts by simp
    qed
  qed (use Cons.prems(1,7) tn c pre ts in auto)
  have "tree2list_recur l (Siblings e) (s, ts) = Option.bind (tree2list_recur l (Subroot (root t)) (?s1, us))
      (\<lambda>st. tree2list_recur l (Siblings (nxt (node (fst st) e))) st)"
    using d pre Cons.prems(2) fr1(1)[of e] ts by (subst tree2list_recur.simps) simp
  also have "\<dots> = tree2list_recur l (Siblings (first_of (map fst cs) NULL)) (?s2, drop ?k us)"
    using one fr1(2)[of e] d by simp
  finally show ?case
    using two c pre ts k push_all_append[of "v # vs" ts l "concat (map (\<lambda>c. preorder n (snd c)) cs)" s]
    by (simp add: s2 add.commute)
qed

lemma tree2list_recur_eq:
  "tnode s = n \<Longrightarrow> tree_ok s t \<Longrightarrow> ready l xs ts s \<Longrightarrow> apart n l (set xs \<union> set ts) t \<Longrightarrow> length (tl (preorder n t)) \<le> length ts \<Longrightarrow>
     tree2list_recur l (Subroot (root t)) (s, ts) = Some (push_all l (tl (preorder n t)) ts s, drop (length (tl (preorder n t))) ts)"
proof (induction t arbitrary: s xs ts rule: shape.induct)
  case (Shape r cs)
  have kid: "tree2list_recur l (Subroot (root (snd c))) (s', ts') =
        Some (push_all l (tl (preorder n (snd c))) ts' s', drop (length (tl (preorder n (snd c)))) ts')"
    if "c \<in> set cs" "tnode s' = n" "tree_ok s' (snd c)" "ready l xs' ts' s'" "apart n l (set xs' \<union> set ts') (snd c)"
      "length (tl (preorder n (snd c))) \<le> length ts'" for c s' xs' ts'
    using Shape.IH[OF that(1), of "snd c" s' xs' ts'] that by (cases c) auto
  have "tree2list_recur l (Siblings (first_of (map fst cs) NULL)) (s, ts) =
    Some (push_all l (concat (map (\<lambda>c. preorder n (snd c)) cs)) ts s, drop (length (concat (map (\<lambda>c. preorder n (snd c)) cs))) ts)"
    using Shape.prems by (intro tree2list_kids[where p = NULL and xs = xs] kid) (auto simp: list_ok_def)
  then show ?case using Shape.prems by (subst tree2list_recur.simps) (simp add: list_ok_def)
qed

lemma remove_only:
  assumes "list_ok s l [x]"
  shows "\<exists>s'. list_remove_node l x s = Inr (val (node s x), s') \<and> l_head (lst s' l) = NULL \<and> l_tail (lst s' l) = x \<and>
    l_len (lst s' l) = 0 \<and> culled s' = culled s @ [x]"
  using assms by (auto simp: list_ok_def list_remove_node_def list_remove_front_def stores Let_def)

section \<open>Properties\<close>

text \<open>
  Pushing values on a list with \<^verbatim>\<open>list_push\<close>, one new cell per value, links the new cells behind the old ones in both
  directions with head, tail and length, and the values are the old ones followed by the pushed ones in order, starting
  from the empty list as well.\<close>

theorem list_push_appends:
  assumes "list_to s l xs q" "distinct ts" "\<forall>t\<in>set ts. new_node xs t" "length vs = length ts"
  shows "(\<exists>q. list_to (fold (\<lambda>(v, t). list_push l v t) (zip vs ts) s) l (xs @ ts) q) \<and>
    vals (fold (\<lambda>(v, t). list_push l v t) (zip vs ts) s) (xs @ ts) = vals s xs @ vs"
  using list_cells.snoc_all[of l s xs ts vs] assms by (auto simp: list_push_def[abs_def] cells_of_def)

definition demo_store :: store where
  "demo_store = \<lparr>node = \<lambda>_. \<lparr>prev = NULL, nxt = NULL, val = NULL\<rparr>, lst = \<lambda>_. \<lparr>l_head = NULL, l_tail = NULL, l_len = 0\<rparr>,
     tnode = \<lambda>_. \<lparr>children = NULL, tvalue = NULL\<rparr>, troot = \<lambda>_. NULL, culled = []\<rparr>"

lemma demo_list: "list_to demo_store l [] q"
  by (simp add: list_to_def demo_store_def)

text \<open>The list of 5, 6 and 7 at address 8.\<close>

definition demo_three :: store where
  "demo_three = push_all 8 [5, 6, 7] [16, 32, 48] demo_store"

lemma demo_three_ok: "list_ok demo_three 8 [16, 32, 48]" "vals demo_three [16, 32, 48] = [5, 6, 7]"
proof -
  have r: "ready 8 [] [16, 32, 48] demo_store" using demo_list by (auto simp: ready_def cells_of_def new_node_def)
  show "vals demo_three [16, 32, 48] = [5, 6, 7]" using push_all_ready(2)[OF r, of "[5, 6, 7]"] by (simp add: demo_three_def) (simp add: vals_def)
  have "nxt (node demo_store 48) = NULL" by (simp add: demo_store_def)
  then show "list_ok demo_three 8 [16, 32, 48]"
    using push_all_to[of 8 "[]" "[16, 32]" 48 demo_store "[5, 6]" 7] r by (simp add: demo_three_def list_ok_to)
qed

theorem list_push_appends_witness:
  "vals (fold (\<lambda>(v, t). list_push 8 v t) (zip [5, 6, 7] [16, 32, 48]) demo_store) [16, 32, 48] = [5, 6, 7]"
  using list_push_appends[of demo_store 8 "[]" NULL "[16, 32, 48]" "[5, 6, 7]"] demo_list by (simp add: new_node_def vals_def)

text \<open>
  C14: \<^verbatim>\<open>list_remove_by_index\<close> with an index in range on a well-formed list (of fewer than \<open>2 ^ 31\<close> cells, in an object
  that is not \<open>NULL\<close>) returns the value at that index and culls its cell. When the list has two elements or more, it leaves a well-formed list without that cell, whether the cell was at
  the front, at the back or in between. When the cell is the only one, the list is not well formed afterwards: the head
  is \<open>NULL\<close> and the length 0, but the tail still points to the cell that was culled.\<close>

theorem list_remove_by_index_removes:
  assumes "list_ok s l xs" "l \<noteq> NULL" "length xs < 2 ^ 31" "k < length xs"
  shows "\<exists>s'. list_remove_by_index l (int k) s = Some (Inr (vals s xs ! k, s')) \<and> culled s' = culled s @ [xs ! k] \<and>
    (if 2 \<le> length xs
     then list_ok s' l (take k xs @ drop (Suc k) xs) \<and> vals s' (take k xs @ drop (Suc k) xs) = take k (vals s xs) @ drop (Suc k) (vals s xs)
     else l_head (lst s' l) = NULL \<and> l_len (lst s' l) = 0 \<and> l_tail (lst s' l) = xs ! k)"
proof (cases "2 \<le> length xs")
  case True
  then show ?thesis using remove_nth_ok[of s l xs k] get_node_by_index_eq[of s l xs k] assms
    by (auto simp: list_remove_by_index_def vals_def)
next
  case False
  then obtain x where x: "xs = [x]" "k = 0" using assms(4) by (cases xs; cases "tl xs") auto
  then show ?thesis using remove_only[of s l x] get_node_by_index_eq[OF assms] assms(1)
    by (auto simp: list_remove_by_index_def vals_def)
qed

theorem list_remove_by_index_removes_witness:
  "\<exists>s'. list_remove_by_index 8 1 demo_three = Some (Inr (6, s')) \<and> list_ok s' 8 [16, 48] \<and> vals s' [16, 48] = [5, 7]"
  using list_remove_by_index_removes[OF demo_three_ok(1), of 1] demo_three_ok(2) by auto

text \<open>
  Taking the only element of a list leaves the list broken. After \<^verbatim>\<open>list_pop\<close> of a singleton
  the tail is \<open>NULL\<close> and the length 0, but the head still points to the popped cell, so the next
  \<^verbatim>\<open>list_pop\<close> dereferences the \<open>NULL\<close> tail; and \<^verbatim>\<open>list_enqueue\<close> on an empty list
  dereferences its \<open>NULL\<close> head.\<close>

theorem list_pop_singleton_breaks:
  assumes "list_ok s l [x]"
  shows "\<exists>s'. list_pop l s = Inr (x, s') \<and> l_head (lst s' l) = x \<and> l_tail (lst s' l) = NULL \<and> l_len (lst s' l) = 0 \<and>
    list_pop l s' = Inl NullDeref \<and> (\<forall>e v t. list_ok e l [] \<longrightarrow> t \<noteq> NULL \<longrightarrow> list_enqueue l v t e = Inl NullDeref)"
  using assms insert_front_empty by (auto simp: list_ok_def list_pop_def list_enqueue_def stores Let_def)

text \<open>
  C15: \<^verbatim>\<open>tree2array\<close> of a well-formed tree (whose lists of children end with \<open>NULL\<close>) terminates and writes the values of
  all nodes in preorder behind what the array held, while \<^verbatim>\<open>tree2list\<close>, given exactly as many cells as it needs and a list apart
  from the tree, terminates and appends the same sequence without its first value, the root's. Whatever the new cells held, they
  are linked in both directions, with head, tail and length. But nothing sets the link of the last one: it is what the
  memory of the cell held, so the list ends with \<open>NULL\<close> only when that was \<open>NULL\<close>.\<close>

theorem tree_flattening:
  assumes "tree_ok s t" "troot s tree = root t"
    and "list_ok s l xs" "distinct ts" "\<forall>u\<in>set ts. new_node xs u"
    and "apart (tnode s) l (set xs \<union> set ts) t" "Suc (length ts) = length (preorder (tnode s) t)"
  shows "tree2array s tree out = Some (out @ preorder (tnode s) t) \<and>
    (\<exists>s'. tree2list tree l (s, ts) = Some (s', []) \<and> vals s' (xs @ ts) = vals s xs @ tl (preorder (tnode s) t) \<and>
       list_to s' l (xs @ ts) (if ts = [] then NULL else nxt (node s (last ts))))"
proof -
  let ?vs = "tl (preorder (tnode s) t)"
  have r: "ready l xs ts s" using assms(3-5) by (auto simp: ready_def cells_of_def list_ok_to)
  have l: "length ?vs = length ts" using assms(7) by simp
  have "list_to (push_all l ?vs ts s) l (xs @ ts) (if ts = [] then NULL else nxt (node s (last ts)))"
  proof (cases ts rule: rev_cases)
    case Nil
    then show ?thesis using assms(3) l by (simp add: push_all_def list_ok_to)
  next
    case (snoc us u)
    then obtain ws w where "?vs = ws @ [w]" using l by (cases ?vs rule: rev_cases) auto
    then show ?thesis using push_all_to[of l xs us u s ws w] r l snoc by simp
  qed
  then show ?thesis
    using tree2array_recur_eq[OF assms(1)] tree2list_recur_eq[OF refl assms(1) r assms(6)] assms(2) l push_all_ready(2)[OF r, of ?vs]
    by (auto simp: tree2array_def tree2list_def)
qed

theorem tree_flattening_witness:
  "\<exists>s s'. tree2array s 8 [] = Some [1, 2] \<and> tree2list 8 64 (s, [80]) = Some (s', []) \<and> vals s' [80] = [2] \<and> list_to s' 64 [80] 7"
proof -
  let ?s0 = "demo_store\<lparr>node := (\<lambda>_. \<lparr>prev = NULL, nxt = NULL, val = NULL\<rparr>)(80 := \<lparr>prev = 3, nxt = 7, val = 9\<rparr>),
    tnode := (\<lambda>_. \<lparr>children = NULL, tvalue = NULL\<rparr>)(16 := \<lparr>children = 24, tvalue = 1\<rparr>, 32 := \<lparr>children = 40, tvalue = 2\<rparr>),
    troot := \<lambda>_. 16\<rparr>"
  define s where "s = list_insert_back 24 32 48 ?s0"
  have "list_ok s 24 [48]" "val (node s 48) = 32" "list_ok s 40 []" "list_ok s 64 []" "new_node [] 80"
    "tnode s = tnode ?s0" "troot s 8 = 16" "nxt (node s 80) = 7"
    by (simp_all add: s_def list_insert_back_def stores Let_def demo_store_def list_ok_def new_node_def)
  then have "tree_ok s (Shape 16 [(48, Shape 32 [])])" "list_ok s 64 []" "new_node [] 80" "tnode s = tnode ?s0" "troot s 8 = 16"
    "nxt (node s 80) = 7" by simp_all
  then show ?thesis
    using tree_flattening[of s "Shape 16 [(48, Shape 32 [])]" 8 64 "[]" "[80]" "[]"]
    by (auto simp: vals_def)
qed

end
