(* ===== verification/Mailbox.thy ===== *)
theory Mailbox
  imports Prelude
begin

text \<open>
  The property mailbox of \<^verbatim>\<open>kernel/src/drivers/mailbox.c\<close>: every function fills a buffer of 32-bit
  words, passes its address to the firmware of the graphics processor, waits for the answer in the same
  buffer and takes the results from it.

  The firmware and the mailbox registers are not part of the source. They are the parameter \<open>D\<close>: what a
  read of the status register, a read of the mailbox and a write to it return and do to the state \<open>'d\<close> of
  the device and to memory. The loops that wait for the device are partial functions; \<open>None\<close> stands for a
  call that does not return. Printed messages are not modelled.
\<close>

section \<open>The state\<close>

record framebuffer =
  fb_width :: u32
  fb_height :: u32
  fb_depth :: u32
  virtWidth :: u32
  virtHeight :: u32
  pixel_order :: u32
  palette :: addr
  fb_buf :: addr
  buf_size :: u32
  fb_pitch :: u32

record 'd machine =
  words :: "addr \<Rightarrow> u32"
  early_mbox :: addr
  mbox :: addr
  arm_base_address :: u32
  arm_size :: u32
  vc_base_address :: u32
  vc_size :: u32
  fb :: framebuffer
  dev :: 'd

record 'd mailbox_dev =
  mail_stat :: "'d \<Rightarrow> (addr \<Rightarrow> u32) \<Rightarrow> u32 \<times> 'd \<times> (addr \<Rightarrow> u32)"
  mail_read :: "'d \<Rightarrow> (addr \<Rightarrow> u32) \<Rightarrow> u32 \<times> 'd \<times> (addr \<Rightarrow> u32)"
  mail_write :: "u32 \<Rightarrow> 'd \<Rightarrow> (addr \<Rightarrow> u32) \<Rightarrow> 'd \<times> (addr \<Rightarrow> u32)"

definition MAIL_FULL :: u32 where "MAIL_FULL = 0x80000000"
definition MAIL_EMPTY :: u32 where "MAIL_EMPTY = 0x40000000"
definition ARM_MEMORY :: u32 where "ARM_MEMORY = 0x00010005"
definition VC_MEMORY :: u32 where "VC_MEMORY = 0x00010006"
definition GET_POWER_STATE :: u32 where "GET_POWER_STATE = 0x00020001"
definition SET_POWER_STATE :: u32 where "SET_POWER_STATE = 0x00028001"
definition EMMC_CLOCK_ID :: u32 where "EMMC_CLOCK_ID = 0x00000001"
definition GET_CLOCK_STATE :: u32 where "GET_CLOCK_STATE = 0x00030001"
definition SET_CLOCK_STATE :: u32 where "SET_CLOCK_STATE = 0x00038001"
definition GET_CLOCK_RATE :: u32 where "GET_CLOCK_RATE = 0x00030002"
definition SET_CLOCK_RATE :: u32 where "SET_CLOCK_RATE = 0x00038002"
definition ALLOCATE_MEMORY :: u32 where "ALLOCATE_MEMORY = 0x0003000c"
definition ALLOCATE_FRAME_BUFFER :: u32 where "ALLOCATE_FRAME_BUFFER = 0x00040001"
definition RELEASE_FRAME_BUFFER :: u32 where "RELEASE_FRAME_BUFFER = 0x00040002"
definition BLANK_SCREEN :: u32 where "BLANK_SCREEN = 0x00040002"
definition GET_DISPLAY :: u32 where "GET_DISPLAY = 0x00040003"
definition SET_DISPLAY :: u32 where "SET_DISPLAY = 0x00048003"
definition SET_VIRTUAL :: u32 where "SET_VIRTUAL = 0x00048004"
definition GET_DEPTH :: u32 where "GET_DEPTH = 0x00040005"
definition SET_DEPTH :: u32 where "SET_DEPTH = 0x00048005"
definition GET_PIXEL_ORDER :: u32 where "GET_PIXEL_ORDER = 0x00040006"
definition SET_PIXEL_ORDER :: u32 where "SET_PIXEL_ORDER = 0x00048006"
definition GET_PITCH :: u32 where "GET_PITCH = 0x00040008"
definition SET_VIRT_OFFSET :: u32 where "SET_VIRT_OFFSET = 0x00048009"

section \<open>One exchange\<close>

text \<open>The word that goes into the mailbox: the low half of the buffer address and the channel 8.\<close>

definition mail_word :: "addr \<Rightarrow> u32" where
  "mail_word a = (ucast a AND NOT 0xF) OR 0x8"

text \<open>The assignments \<^verbatim>\<open>mbox[0] = w0; mbox[1] = w1; ...\<close>, and \<^verbatim>\<open>mbox[i]\<close>.\<close>

fun put_words :: "addr \<Rightarrow> u32 list \<Rightarrow> (addr \<Rightarrow> u32) \<Rightarrow> addr \<Rightarrow> u32" where
  "put_words a [] m = m"
| "put_words a (w # ws) m = put_words (a + 4) ws (m(a := w))"

definition mb :: "'d machine \<Rightarrow> addr \<Rightarrow> nat \<Rightarrow> u32" where
  "mb s a i = words s (a + 4 * of_nat i)"

definition read_stat :: "'d mailbox_dev \<Rightarrow> 'd machine \<Rightarrow> u32 \<times> 'd machine" where
  "read_stat D s = (case mail_stat D (dev s) (words s) of (v, d, m) \<Rightarrow> (v, s\<lparr>dev := d, words := m\<rparr>))"

definition read_mail :: "'d mailbox_dev \<Rightarrow> 'd machine \<Rightarrow> u32 \<times> 'd machine" where
  "read_mail D s = (case mail_read D (dev s) (words s) of (v, d, m) \<Rightarrow> (v, s\<lparr>dev := d, words := m\<rparr>))"

definition write_mail :: "'d mailbox_dev \<Rightarrow> u32 \<Rightarrow> 'd machine \<Rightarrow> 'd machine" where
  "write_mail D r s = (case mail_write D r (dev s) (words s) of (d, m) \<Rightarrow> s\<lparr>dev := d, words := m\<rparr>)"

text \<open>\<^verbatim>\<open>do { nop } while (chip_read(MAIL_STAT) & flag)\<close>\<close>

partial_function (option) mail_wait :: "'d mailbox_dev \<Rightarrow> u32 \<Rightarrow> 'd machine \<Rightarrow> 'd machine option" where
  "mail_wait D flag s =
     (let (v, s') = read_stat D s in if v AND flag \<noteq> 0 then mail_wait D flag s' else Some s')"

text \<open>The loop \<^verbatim>\<open>while (1)\<close> up to the answer for this buffer.\<close>

partial_function (option) mail_await :: "'d mailbox_dev \<Rightarrow> addr \<Rightarrow> u32 \<Rightarrow> 'd machine \<Rightarrow> 'd machine option" where
  "mail_await D a r s =
     Option.bind (mail_wait D MAIL_EMPTY s)
       (\<lambda>s. let (v, s) = read_mail D s
            in if r = v \<and> mb s a 1 = 0x80000000 then Some s else mail_await D a r s)"

text \<open>The request, up to the write of its address.\<close>

definition mail_request :: "'d mailbox_dev \<Rightarrow> addr \<Rightarrow> u32 list \<Rightarrow> 'd machine \<Rightarrow> 'd machine option" where
  "mail_request D a ws s =
     map_option (write_mail D (mail_word a)) (mail_wait D MAIL_FULL (s\<lparr>words := put_words a ws (words s)\<rparr>))"

definition mail_call :: "'d mailbox_dev \<Rightarrow> addr \<Rightarrow> u32 list \<Rightarrow> 'd machine \<Rightarrow> 'd machine option" where
  "mail_call D a ws s = Option.bind (mail_request D a ws s) (mail_await D a (mail_word a))"

section \<open>The functions\<close>

definition get_arm_address :: "'d mailbox_dev \<Rightarrow> 'd machine \<Rightarrow> 'd machine option" where
  "get_arm_address D s =
     map_option (\<lambda>t. t\<lparr>arm_base_address := mb t (early_mbox s) 5 + 0x100000, arm_size := mb t (early_mbox s) 6\<rparr>)
       (mail_call D (early_mbox s) [4 * 8, 0, ARM_MEMORY, 8, 8, 0, 0, 0] s)"

definition get_vc_address :: "'d mailbox_dev \<Rightarrow> 'd machine \<Rightarrow> 'd machine option" where
  "get_vc_address D s =
     map_option (\<lambda>t. t\<lparr>vc_base_address := mb t (early_mbox s) 5 + 0x800000, vc_size := mb t (early_mbox s) 6\<rparr>)
       (mail_call D (early_mbox s) [4 * 8, 0, VC_MEMORY, 8, 8, 0, 0, 0] s)"

definition bcm_2708_power_off :: "'d mailbox_dev \<Rightarrow> 'd machine \<Rightarrow> (int \<times> 'd machine) option" where
  "bcm_2708_power_off D s =
     map_option (\<lambda>t. (0, t)) (mail_call D (mbox s) [4 * 8, 0, SET_POWER_STATE, 8, 8, 0, 2, 0] s)"

definition bcm_2708_power_on :: "'d mailbox_dev \<Rightarrow> 'd machine \<Rightarrow> (int \<times> 'd machine) option" where
  "bcm_2708_power_on D s =
     map_option (\<lambda>t. (0, t)) (mail_call D (mbox s) [4 * 8, 0, SET_POWER_STATE, 8, 8, 0, 3, 0] s)"

definition bcm_2708_get_state :: "'d mailbox_dev \<Rightarrow> 'd machine \<Rightarrow> (int \<times> 'd machine) option" where
  "bcm_2708_get_state D s =
     map_option (\<lambda>t. (0, t)) (mail_call D (mbox s) [4 * 8, 0, GET_POWER_STATE, 8, 8, 0, 0, 0] s)"

definition sd_get_base_clock_hz :: "'d mailbox_dev \<Rightarrow> 'd machine \<Rightarrow> (u32 \<times> 'd machine) option" where
  "sd_get_base_clock_hz D s =
     map_option (\<lambda>t. (mb t (mbox s) 6, t)) (mail_call D (mbox s) [4 * 8, 0, GET_CLOCK_RATE, 8, 4, EMMC_CLOCK_ID, 0] s)"

definition sd_set_base_clock_hz :: "'d mailbox_dev \<Rightarrow> u32 \<Rightarrow> u32 \<Rightarrow> u32 \<Rightarrow> 'd machine \<Rightarrow> (u32 \<times> 'd machine) option" where
  "sd_set_base_clock_hz D clock val1 val2 s =
     map_option (\<lambda>t. (mb t (mbox s) 6, t)) (mail_call D (mbox s) [4 * 9, 0, SET_CLOCK_RATE, 8, 8, clock, val1, val2, 0] s)"

definition sd_get_clock_state :: "'d mailbox_dev \<Rightarrow> 'd machine \<Rightarrow> (u32 \<times> 'd machine) option" where
  "sd_get_clock_state D s =
     map_option (\<lambda>t. (mb t (mbox s) 6, t)) (mail_call D (mbox s) [4 * 8, 0, GET_CLOCK_STATE, 8, 4, EMMC_CLOCK_ID, 0] s)"

definition sd_set_clock_state :: "'d mailbox_dev \<Rightarrow> u32 \<Rightarrow> 'd machine \<Rightarrow> (u32 \<times> 'd machine) option" where
  "sd_set_clock_state D state s =
     map_option (\<lambda>t. (mb t (mbox s) 6, t)) (mail_call D (mbox s) [4 * 8, 0, SET_CLOCK_STATE, 8, 8, EMMC_CLOCK_ID, state, 0] s)"

definition allocate_GPU_memory :: "'d mailbox_dev \<Rightarrow> u32 \<Rightarrow> u32 \<Rightarrow> u32 \<Rightarrow> 'd machine \<Rightarrow> (u32 \<times> 'd machine) option" where
  "allocate_GPU_memory D sz alignment flags s =
     map_option (\<lambda>t. (mb t (mbox s) 5, t)) (mail_call D (mbox s) [4 * 9, 0, ALLOCATE_MEMORY, 8, 8, sz, alignment, flags, 0] s)"

definition set_fb :: "(framebuffer \<Rightarrow> framebuffer) \<Rightarrow> 'd machine \<Rightarrow> 'd machine" where
  "set_fb f s = s\<lparr>fb := f (fb s)\<rparr>"

definition allocate_framebuffer :: "'d mailbox_dev \<Rightarrow> u32 \<Rightarrow> 'd machine \<Rightarrow> (u32 \<times> 'd machine) option" where
  "allocate_framebuffer D alignment s =
     map_option (\<lambda>t. (0, set_fb (\<lambda>f. f\<lparr>fb_buf := ucast (mb t (mbox s) 5 AND 0x3FFFFFFF), buf_size := mb t (mbox s) 6\<rparr>) t))
       (mail_call D (mbox s) [4 * 8, 0, ALLOCATE_FRAME_BUFFER, 8, 8, alignment, 0, 0] s)"

definition release_framebuffer :: "'d mailbox_dev \<Rightarrow> 'd machine \<Rightarrow> (u32 \<times> 'd machine) option" where
  "release_framebuffer D s =
     map_option (\<lambda>t. (0, set_fb (\<lambda>f. f\<lparr>fb_buf := 0, buf_size := 0\<rparr>) t))
       (mail_call D (mbox s) [4 * 8, 0, RELEASE_FRAME_BUFFER, 8, 8, 0, 0, 0] s)"

definition blank_screen :: "'d mailbox_dev \<Rightarrow> u32 \<Rightarrow> 'd machine \<Rightarrow> (u32 \<times> 'd machine) option" where
  "blank_screen D state s =
     map_option (\<lambda>t. (0, t)) (mail_call D (mbox s) [4 * 8, 0, BLANK_SCREEN, 8, 8, state, 0, 0] s)"

definition get_display_wh :: "'d mailbox_dev \<Rightarrow> 'd machine \<Rightarrow> (u32 \<times> 'd machine) option" where
  "get_display_wh D s =
     map_option (\<lambda>t. (0, set_fb (\<lambda>f. f\<lparr>fb_width := mb t (mbox s) 5, fb_height := mb t (mbox s) 6\<rparr>) t))
       (mail_call D (mbox s) [4 * 8, 0, GET_DISPLAY, 8, 8, 0, 0, 0] s)"

definition set_display_wh :: "'d mailbox_dev \<Rightarrow> u32 \<Rightarrow> u32 \<Rightarrow> 'd machine \<Rightarrow> (u32 \<times> 'd machine) option" where
  "set_display_wh D width height s =
     map_option (\<lambda>t. (if width = mb t (mbox s) 5 \<and> height = mb t (mbox s) 6 then 0 else 1,
                      set_fb (\<lambda>f. f\<lparr>fb_width := mb t (mbox s) 5, fb_height := mb t (mbox s) 6\<rparr>) t))
       (mail_call D (mbox s) [4 * 8, 0, SET_DISPLAY, 8, 0, width, height, 0] s)"

text \<open>The loop of \<^verbatim>\<open>get_display_depth\<close> has no \<^verbatim>\<open>return\<close>.\<close>

partial_function (option) depth_loop :: "'d mailbox_dev \<Rightarrow> addr \<Rightarrow> u32 \<Rightarrow> 'd machine \<Rightarrow> (u32 \<times> 'd machine) option" where
  "depth_loop D a r s =
     Option.bind (mail_wait D MAIL_EMPTY s)
       (\<lambda>s. let (v, s) = read_mail D s
            in if r = v \<and> mb s a 1 = 0x80000000 then depth_loop D a r (set_fb (\<lambda>f. f\<lparr>fb_depth := mb s a 5\<rparr>) s)
               else depth_loop D a r s)"

definition get_display_depth :: "'d mailbox_dev \<Rightarrow> 'd machine \<Rightarrow> (u32 \<times> 'd machine) option" where
  "get_display_depth D s =
     Option.bind (mail_request D (mbox s) [4 * 8, 0, GET_DEPTH, 8, 8, 0, 0, 0] s)
       (depth_loop D (mbox s) (mail_word (mbox s)))"

definition set_display_depth :: "'d mailbox_dev \<Rightarrow> u32 \<Rightarrow> 'd machine \<Rightarrow> (u32 \<times> 'd machine) option" where
  "set_display_depth D depth s =
     map_option (\<lambda>t. (if depth = mb t (mbox s) 5 then 0 else 1, set_fb (\<lambda>f. f\<lparr>fb_depth := mb t (mbox s) 5\<rparr>) t))
       (mail_call D (mbox s) [4 * 8, 0, SET_DEPTH, 4, 4, depth, 0, 0] s)"

definition get_pitch :: "'d mailbox_dev \<Rightarrow> 'd machine \<Rightarrow> (u32 \<times> 'd machine) option" where
  "get_pitch D s =
     map_option (\<lambda>t. (0, set_fb (\<lambda>f. f\<lparr>fb_pitch := mb t (mbox s) 5\<rparr>) t))
       (mail_call D (mbox s) [4 * 8, 0, GET_PITCH, 4, 4, 0, 0, 0] s)"

definition set_virt_wh :: "'d mailbox_dev \<Rightarrow> u32 \<Rightarrow> u32 \<Rightarrow> 'd machine \<Rightarrow> (u32 \<times> 'd machine) option" where
  "set_virt_wh D vw vh s =
     map_option (\<lambda>t. (if vw = mb t (mbox s) 5 \<and> vh = mb t (mbox s) 6 then 0 else 1,
                      set_fb (\<lambda>f. f\<lparr>virtWidth := mb t (mbox s) 5, virtHeight := mb t (mbox s) 6\<rparr>) t))
       (mail_call D (mbox s) [4 * 8, 0, SET_VIRTUAL, 8, 8, vw, vh, 0] s)"

definition set_virt_offset :: "'d mailbox_dev \<Rightarrow> u32 \<Rightarrow> u32 \<Rightarrow> 'd machine \<Rightarrow> (u32 \<times> 'd machine) option" where
  "set_virt_offset D x y s =
     map_option (\<lambda>t. (0, t)) (mail_call D (mbox s) [4 * 8, 0, SET_VIRT_OFFSET, 8, 8, x, y, 0] s)"

definition get_pixel_order :: "'d mailbox_dev \<Rightarrow> 'd machine \<Rightarrow> (u32 \<times> 'd machine) option" where
  "get_pixel_order D s =
     map_option (\<lambda>t. (0, set_fb (\<lambda>f. f\<lparr>pixel_order := mb t (mbox s) 5\<rparr>) t))
       (mail_call D (mbox s) [4 * 8, 0, GET_PIXEL_ORDER, 8, 8, 0, 0, 0] s)"

definition set_pixel_order :: "'d mailbox_dev \<Rightarrow> u32 \<Rightarrow> 'd machine \<Rightarrow> (u32 \<times> 'd machine) option" where
  "set_pixel_order D state s =
     map_option (\<lambda>t. (if state = mb t (mbox s) 5 then 1 else 0, set_fb (\<lambda>f. f\<lparr>pixel_order := mb t (mbox s) 5\<rparr>) t))
       (mail_call D (mbox s) [4 * 8, 0, SET_PIXEL_ORDER, 4, 4, state, 0, 0] s)"

definition sd_disable_low_power :: "'d mailbox_dev \<Rightarrow> 'd machine \<Rightarrow> 'd machine option" where
  "sd_disable_low_power D s = mail_call D (mbox s) [4 * 8, 0, 0x00038041, 8, 8, 0x84, 0, 0] s"

definition sd_power_off :: "'d mailbox_dev \<Rightarrow> 'd machine \<Rightarrow> 'd machine option" where
  "sd_power_off D s = mail_call D (mbox s) [4 * 8, 0, SET_POWER_STATE, 8, 8, 0, 0, 0] s"

section \<open>The protocol of the firmware\<close>

definition buffer_addr :: "addr \<Rightarrow> bool" where
  "buffer_addr a \<longleftrightarrow> a AND 0xF = 0 \<and> a < 2 ^ 32"

definition word_buffer :: "u32 \<Rightarrow> addr" where
  "word_buffer r = ucast (r AND NOT 0xF)"

lemma word_buffer_mail_word:
  assumes "buffer_addr a"
  shows "word_buffer (mail_word a) = a"
proof (rule bit_word_eqI)
  fix n assume n: "n < LENGTH(64)"
  have hi: "\<not> bit a n" if "n \<ge> 32"
  proof
    assume "bit a n"
    moreover have "a AND mask 32 = a" using assms by (intro less_mask_eq) (simp add: buffer_addr_def)
    ultimately have "bit (a AND mask 32) n" by simp
    then show False using that by (simp add: bit_simps)
  qed
  have F: "(0xF :: 64 word) = mask 4" "(0xF :: u32) = mask 4" by (simp_all add: mask_eq_exp_minus_1)
  have lo: "\<not> bit a n" if "n < 4"
  proof
    assume "bit a n"
    then have "bit (a AND 0xF) n" using that by (simp add: F bit_simps)
    then show False using assms by (simp add: buffer_addr_def)
  qed
  show "bit (word_buffer (mail_word a)) n = bit a n"
  proof (cases "n < 32")
    case True
    moreover have "\<not> bit (8 :: u32) n" if "n \<ge> 4"
    proof -
      have "(8 :: u32) = push_bit 3 1" by simp
      then show ?thesis using that by (simp only: bit_simps) auto
    qed
    ultimately show ?thesis using hi lo by (cases "n < 4") (auto simp: word_buffer_def mail_word_def F bit_simps)
  next
    case False
    then show ?thesis using hi by (auto simp: word_buffer_def bit_simps)
  qed
qed

text \<open>
  What the calls rely on. An idle mailbox accepts a word after finitely many reads of the status; then
  the device is busy with it for finitely many reads, answers in the buffer the word names, with the code of
  success in its second word, and returns the same word from the mailbox. \<open>respond r m\<close> is
  memory after the answer to the word \<open>r\<close>.
\<close>

definition mailbox_protocol ::
  "'d mailbox_dev \<Rightarrow> ('d \<Rightarrow> bool) \<Rightarrow> (u32 \<Rightarrow> 'd \<Rightarrow> bool) \<Rightarrow> (u32 \<Rightarrow> 'd \<Rightarrow> bool) \<Rightarrow> ('d \<Rightarrow> nat) \<Rightarrow>
   (u32 \<Rightarrow> (addr \<Rightarrow> u32) \<Rightarrow> addr \<Rightarrow> u32) \<Rightarrow> bool" where
  "mailbox_protocol D idle busy answered rank respond \<longleftrightarrow>
     (\<forall>d m. idle d \<longrightarrow> (case mail_stat D d m of (v, d', m') \<Rightarrow>
        m' = m \<and> idle d' \<and> (v AND MAIL_FULL \<noteq> 0 \<longrightarrow> rank d' < rank d))) \<and>
     (\<forall>r d m. idle d \<longrightarrow> (case mail_write D r d m of (d', m') \<Rightarrow> m' = m \<and> busy r d')) \<and>
     (\<forall>r d m. busy r d \<longrightarrow> (case mail_stat D d m of (v, d', m') \<Rightarrow>
        if v AND MAIL_EMPTY \<noteq> 0 then m' = m \<and> busy r d' \<and> rank d' < rank d else m' = respond r m \<and> answered r d')) \<and>
     (\<forall>r d m. answered r d \<longrightarrow> (case mail_read D d m of (v, d', m') \<Rightarrow> v = r \<and> m' = m \<and> idle d')) \<and>
     (\<forall>r m. respond r m (word_buffer r + 4) = 0x80000000)"

lemma protocol_laws:
  assumes P: "mailbox_protocol D idle busy answered rank respond"
  shows "idle d \<Longrightarrow> mail_stat D d m = (v, d', m') \<Longrightarrow> m' = m \<and> idle d' \<and> (v AND MAIL_FULL \<noteq> 0 \<longrightarrow> rank d' < rank d)"
    and "idle d \<Longrightarrow> mail_write D r d m = (d', m') \<Longrightarrow> m' = m \<and> busy r d'"
    and "busy r d \<Longrightarrow> mail_stat D d m = (v, d', m') \<Longrightarrow>
      if v AND MAIL_EMPTY \<noteq> 0 then m' = m \<and> busy r d' \<and> rank d' < rank d else m' = respond r m \<and> answered r d'"
    and "answered r d \<Longrightarrow> mail_read D d m = (v, d', m') \<Longrightarrow> v = r \<and> m' = m \<and> idle d'"
    and "respond r m (word_buffer r + 4) = 0x80000000"
proof -
  note P' = P[unfolded mailbox_protocol_def]
  show "idle d \<Longrightarrow> mail_stat D d m = (v, d', m') \<Longrightarrow> m' = m \<and> idle d' \<and> (v AND MAIL_FULL \<noteq> 0 \<longrightarrow> rank d' < rank d)"
    using conjunct1[OF P', rule_format, where d = d and m = m] by simp
  note P1 = conjunct2[OF P']
  show "idle d \<Longrightarrow> mail_write D r d m = (d', m') \<Longrightarrow> m' = m \<and> busy r d'"
    using conjunct1[OF P1, rule_format, where d = d and r = r and m = m] by simp
  note P2 = conjunct2[OF P1]
  show "busy r d \<Longrightarrow> mail_stat D d m = (v, d', m') \<Longrightarrow>
      if v AND MAIL_EMPTY \<noteq> 0 then m' = m \<and> busy r d' \<and> rank d' < rank d else m' = respond r m \<and> answered r d'"
    using conjunct1[OF P2, rule_format, where d = d and r = r and m = m] by simp
  note P3 = conjunct2[OF P2]
  show "answered r d \<Longrightarrow> mail_read D d m = (v, d', m') \<Longrightarrow> v = r \<and> m' = m \<and> idle d'"
    using conjunct1[OF P3, rule_format, where d = d and r = r and m = m] by simp
  show "respond r m (word_buffer r + 4) = 0x80000000" using conjunct2[OF P3] by simp
qed

lemma wait_full_returns:
  assumes "mailbox_protocol D idle busy answered rank respond" "idle (dev s)"
  shows "\<exists>d. mail_wait D MAIL_FULL s = Some (s\<lparr>dev := d\<rparr>) \<and> idle d"
  using assms(2)
proof (induction "rank (dev s)" arbitrary: s rule: less_induct)
  case less
  obtain v d m where st: "mail_stat D (dev s) (words s) = (v, d, m)" by (cases "mail_stat D (dev s) (words s)") auto
  then have p: "m = words s" "idle d" "v AND MAIL_FULL \<noteq> 0 \<longrightarrow> rank d < rank (dev s)"
    using protocol_laws(1)[OF assms(1) less.prems] by auto
  show ?case
  proof (cases "v AND MAIL_FULL = 0")
    case True
    then show ?thesis using st p by (subst mail_wait.simps) (auto simp: read_stat_def)
  next
    case False
    then show ?thesis using st p less.hyps[of "s\<lparr>dev := d\<rparr>"] by (subst mail_wait.simps) (auto simp: read_stat_def)
  qed
qed

lemma wait_empty_returns:
  assumes "mailbox_protocol D idle busy answered rank respond" "busy r (dev s)"
  shows "\<exists>d. mail_wait D MAIL_EMPTY s = Some (s\<lparr>dev := d, words := respond r (words s)\<rparr>) \<and> answered r d"
  using assms(2)
proof (induction "rank (dev s)" arbitrary: s rule: less_induct)
  case less
  obtain v d m where st: "mail_stat D (dev s) (words s) = (v, d, m)" by (cases "mail_stat D (dev s) (words s)") auto
  then have p: "if v AND MAIL_EMPTY \<noteq> 0 then m = words s \<and> busy r d \<and> rank d < rank (dev s) else m = respond r (words s) \<and> answered r d"
    using protocol_laws(3)[OF assms(1) less.prems] by auto
  show ?case
  proof (cases "v AND MAIL_EMPTY = 0")
    case True
    then show ?thesis using st p by (subst mail_wait.simps) (auto simp: read_stat_def)
  next
    case False
    then show ?thesis using st p less.hyps[of "s\<lparr>dev := d\<rparr>"] by (subst mail_wait.simps) (auto simp: read_stat_def)
  qed
qed

lemma mail_call_returns:
  assumes P: "mailbox_protocol D idle busy answered rank respond" and "idle (dev s)" "buffer_addr a"
  shows "\<exists>d. mail_call D a ws s = Some (s\<lparr>dev := d, words := respond (mail_word a) (put_words a ws (words s))\<rparr>) \<and> idle d"
proof -
  let ?s = "s\<lparr>words := put_words a ws (words s)\<rparr>" and ?r = "mail_word a"
  obtain d where d: "mail_wait D MAIL_FULL ?s = Some (?s\<lparr>dev := d\<rparr>)" "idle d"
    using wait_full_returns[OF P, of ?s] assms(2) by auto
  obtain d' m where w: "mail_write D ?r d (words ?s) = (d', m)" by (cases "mail_write D ?r d (words ?s)") auto
  then have b: "m = words ?s" "busy ?r d'" using protocol_laws(2)[OF P d(2)] by auto
  obtain e where e: "mail_wait D MAIL_EMPTY (?s\<lparr>dev := d'\<rparr>) = Some (?s\<lparr>dev := e, words := respond ?r (words ?s)\<rparr>)" "answered ?r e"
    using wait_empty_returns[OF P, of ?r "?s\<lparr>dev := d'\<rparr>"] b(2) by auto
  obtain v e' m' where r: "mail_read D e (respond ?r (words ?s)) = (v, e', m')"
    by (cases "mail_read D e (respond ?r (words ?s))") auto
  then have ok: "v = ?r" "m' = respond ?r (words ?s)" "idle e'" using protocol_laws(4)[OF P e(2)] by auto
  have code: "respond ?r (words ?s) (a + 4) = 0x80000000"
    using protocol_laws(5)[OF P, of ?r "words ?s"] word_buffer_mail_word[OF assms(3)] by simp
  have req: "mail_request D a ws s = Some (?s\<lparr>dev := d'\<rparr>)"
    using d w b by (simp add: mail_request_def write_mail_def)
  have "mail_await D a ?r (?s\<lparr>dev := d'\<rparr>) = Some (?s\<lparr>dev := e', words := respond ?r (words ?s)\<rparr>)"
    using e r ok code by (subst mail_await.simps) (simp add: read_mail_def mb_def)
  then show ?thesis using req ok(3) by (auto simp: mail_call_def)
qed

text \<open>A device that answers at the first read.\<close>

datatype demo_dev = Idle | Busy u32 | Answered u32

definition demo_answer :: "u32 \<Rightarrow> (addr \<Rightarrow> u32) \<Rightarrow> addr \<Rightarrow> u32" where
  "demo_answer r m = m(word_buffer r + 4 := 0x80000000)"

definition demo_mailbox :: "demo_dev mailbox_dev" where
  "demo_mailbox = \<lparr>mail_stat = \<lambda>d m. (case d of Busy r \<Rightarrow> (0, Answered r, demo_answer r m) | _ \<Rightarrow> (0, d, m)),
     mail_read = \<lambda>d m. (case d of Answered r \<Rightarrow> (r, Idle, m) | _ \<Rightarrow> (0, d, m)),
     mail_write = \<lambda>r d m. (Busy r, m)\<rparr>"

lemma demo_mailbox_protocol:
  "mailbox_protocol demo_mailbox (\<lambda>d. d = Idle) (\<lambda>r d. d = Busy r) (\<lambda>r d. d = Answered r) (\<lambda>_. 0) demo_answer"
  by (simp add: mailbox_protocol_def demo_mailbox_def demo_answer_def)

section \<open>Calls that do not return\<close>

lemma depth_loop_diverges: "depth_loop D a r s = None"
proof -
  have "False" if "depth_loop D a r s = Some y" for y
    by (rule depth_loop.raw_induct[OF _ that]) (auto simp: bind_eq_Some_conv Let_def case_prod_beta split: if_splits)
  then show ?thesis by (cases "depth_loop D a r s") auto
qed

section \<open>Properties\<close>

text \<open>
  No call of \<^verbatim>\<open>get_display_depth\<close> returns, whatever the device does: the loop has no
  \<^verbatim>\<open>return\<close>.\<close>

theorem get_display_depth_never_returns: "get_display_depth D s = None"
  by (cases "mail_request D (mbox s) [4 * 8, 0, GET_DEPTH, 8, 8, 0, 0, 0] s") (simp_all add: get_display_depth_def depth_loop_diverges)

end
