(* ===== verification/Framebuffer.thy ===== *)
theory Framebuffer
  imports Mailbox
begin

text \<open>
  The drawing routines of \<^verbatim>\<open>kernel/src/drivers/graphics/framebuffer.c\<close> and the set-up of the
  display through the mailbox. A pixel is a word of memory in the buffer that the firmware allocated.
  Coordinates are integers; the source computes with \<^verbatim>\<open>int\<close>, so its behaviour is the one of the
  model while no coordinate leaves the range of \<^verbatim>\<open>int\<close>.
\<close>

section \<open>The display\<close>

definition E_FBNOSET :: u32 where "E_FBNOSET = 0x0600"

text \<open>The comparisons \<^verbatim>\<open>f(...) < 0\<close> are on \<^verbatim>\<open>uint32_t\<close> results.\<close>

definition unless_negative ::
  "(u32 \<times> 'd machine) option \<Rightarrow> ('d machine \<Rightarrow> (u32 \<times> 'd machine) option) \<Rightarrow> (u32 \<times> 'd machine) option" where
  "unless_negative c k = Option.bind c (\<lambda>(v, s). if v < 0 then Some (E_FBNOSET, s) else k s)"

text \<open>The size before the calls that set it: asked for when an argument is 0, else 640 by 480. The
  arguments are not used afterwards.\<close>

definition choose_size :: "'d mailbox_dev \<Rightarrow> u32 \<Rightarrow> u32 \<Rightarrow> 'd machine \<Rightarrow> 'd machine option" where
  "choose_size D width height s =
     (if width = 0 \<or> height = 0 then
        map_option (\<lambda>(v, s).
          if v = 0 \<and> (fb_width (fb s) < 640 \<or> fb_width (fb s) > 4096 \<or> fb_height (fb s) < 480 \<or> fb_height (fb s) > 2160)
          then set_fb (\<lambda>f. f\<lparr>fb_width := 640, fb_height := 480\<rparr>) s else s) (get_display_wh D s)
      else Some (set_fb (\<lambda>f. f\<lparr>fb_width := 640, fb_height := 480\<rparr>) s))"

text \<open>\<open>basepal\<close> is the address of the table of colours.\<close>

definition init_framebuffer :: "'d mailbox_dev \<Rightarrow> addr \<Rightarrow> u32 \<Rightarrow> u32 \<Rightarrow> u32 \<Rightarrow> 'd machine \<Rightarrow> (u32 \<times> 'd machine) option" where
  "init_framebuffer D basepal width height depth s =
     Option.bind (choose_size D width height s)
       (\<lambda>s. unless_negative (set_display_wh D 1920 1080 s)
       (\<lambda>s. unless_negative (set_virt_wh D 1920 1080 s)
       (\<lambda>s. unless_negative (set_virt_offset D 0 0 s)
       (\<lambda>s. unless_negative (set_display_depth D 32 s)
       (\<lambda>s. unless_negative (set_pixel_order D 1 s)
       (\<lambda>s. unless_negative (allocate_framebuffer D 4096 s)
       (\<lambda>s. unless_negative (get_pitch D s)
       (\<lambda>s. Some (0, set_fb (\<lambda>f. f\<lparr>palette := basepal\<rparr>) s)))))))))"

section \<open>Drawing\<close>

definition pixel_addr :: "framebuffer \<Rightarrow> int \<Rightarrow> int \<Rightarrow> addr" where
  "pixel_addr f x y = ucast (ucast (fb_buf f) + (of_int x * 4 + of_int y * fb_pitch f) :: u32)"

definition draw_pixel :: "int \<Rightarrow> int \<Rightarrow> u32 \<Rightarrow> 'd machine \<Rightarrow> 'd machine" where
  "draw_pixel x y color s = s\<lparr>words := (words s)(pixel_addr (fb s) x y := color)\<rparr>"

function rect_row :: "int \<Rightarrow> int \<Rightarrow> int \<Rightarrow> int \<Rightarrow> u32 \<Rightarrow> bool \<Rightarrow> int \<Rightarrow> int \<Rightarrow> 'd machine \<Rightarrow> 'd machine" where
  "rect_row x1 y1 x2 y2 color fill y x s =
     (if x \<le> x2 then
        rect_row x1 y1 x2 y2 color fill y (x + 1)
          (if (x = x1 \<or> x = x2) \<or> (y = y1 \<or> y = y2) then draw_pixel x y color s
           else if fill then draw_pixel x y color s else s)
      else s)"
  by pat_completeness auto
termination by (relation "measure (\<lambda>(x1, y1, x2, y2, color, fill, y, x, s). nat (x2 + 1 - x))") auto

function rect_rows :: "int \<Rightarrow> int \<Rightarrow> int \<Rightarrow> int \<Rightarrow> u32 \<Rightarrow> bool \<Rightarrow> int \<Rightarrow> 'd machine \<Rightarrow> 'd machine" where
  "rect_rows x1 y1 x2 y2 color fill y s =
     (if y \<le> y2 then rect_rows x1 y1 x2 y2 color fill (y + 1) (rect_row x1 y1 x2 y2 color fill y x1 s) else s)"
  by pat_completeness auto
termination by (relation "measure (\<lambda>(x1, y1, x2, y2, color, fill, y, s). nat (y2 + 1 - y))") auto

definition draw_rect :: "int \<Rightarrow> int \<Rightarrow> int \<Rightarrow> int \<Rightarrow> u32 \<Rightarrow> bool \<Rightarrow> 'd machine \<Rightarrow> 'd machine" where
  "draw_rect x1 y1 x2 y2 color fill s = rect_rows x1 y1 x2 y2 color fill y1 s"

function line_loop :: "int \<Rightarrow> int \<Rightarrow> int \<Rightarrow> u32 \<Rightarrow> int \<Rightarrow> int \<Rightarrow> int \<Rightarrow> 'd machine \<Rightarrow> 'd machine" where
  "line_loop dx dy x2 color x y p s =
     (if x < x2 then
        (if p \<ge> 0 then line_loop dx dy x2 color (x + 1) (int32 (y + 1)) (int32 (p + 2 * dy - 2 * dx)) (draw_pixel x y color s)
         else line_loop dx dy x2 color (x + 1) y (int32 (p + 2 * dy)) (draw_pixel x y color s))
      else s)"
  by pat_completeness auto
termination by (relation "measure (\<lambda>(dx, dy, x2, color, x, y, p, s). nat (x2 - x))") auto

definition draw_line :: "int \<Rightarrow> int \<Rightarrow> int \<Rightarrow> int \<Rightarrow> u32 \<Rightarrow> 'd machine \<Rightarrow> 'd machine" where
  "draw_line x1 y1 x2 y2 color s =
     (let dx = int32 (x2 - x1); dy = int32 (y2 - y1) in line_loop dx dy x2 color x1 y1 (int32 (2 * dy - dx)) s)"

definition circle_lines :: "int \<Rightarrow> int \<Rightarrow> u32 \<Rightarrow> int \<Rightarrow> int \<Rightarrow> 'd machine \<Rightarrow> 'd machine" where
  "circle_lines x0 y0 color x y s =
     (let s = draw_line (x0 - y) (y0 + x) (x0 + y) (y0 + x) color s;
          s = draw_line (x0 - x) (y0 + y) (x0 + x) (y0 + y) color s;
          s = draw_line (x0 - x) (y0 - y) (x0 + x) (y0 - y) color s
      in draw_line (x0 - y) (y0 - x) (x0 + y) (y0 - x) color s)"

definition circle_pixels :: "int \<Rightarrow> int \<Rightarrow> u32 \<Rightarrow> int \<Rightarrow> int \<Rightarrow> 'd machine \<Rightarrow> 'd machine" where
  "circle_pixels x0 y0 color x y s =
     (let s = draw_pixel (x0 - y) (y0 + x) color s;
          s = draw_pixel (x0 + y) (y0 + x) color s;
          s = draw_pixel (x0 - x) (y0 + y) color s;
          s = draw_pixel (x0 + x) (y0 + y) color s;
          s = draw_pixel (x0 - x) (y0 - y) color s;
          s = draw_pixel (x0 + x) (y0 - y) color s;
          s = draw_pixel (x0 - y) (y0 - x) color s
      in draw_pixel (x0 + y) (y0 - x) color s)"

function circle_loop :: "int \<Rightarrow> int \<Rightarrow> u32 \<Rightarrow> bool \<Rightarrow> int \<Rightarrow> int \<Rightarrow> int \<Rightarrow> 'd machine \<Rightarrow> 'd machine" where
  "circle_loop x0 y0 color fill x y err s =
     (if x \<ge> y then
        (let s = (if fill then circle_lines x0 y0 color x y s else s);
             s = circle_pixels x0 y0 color x y s;
             y' = (if err \<le> 0 then y + 1 else y);
             err' = (if err \<le> 0 then int32 (err + (2 * y' + 1)) else err);
             x' = (if err' > 0 then x - 1 else x);
             err'' = (if err' > 0 then int32 (err' - (2 * x' + 1)) else err')
         in circle_loop x0 y0 color fill x' y' err'' s)
      else s)"
  by pat_completeness auto
termination
  by (relation "measure (\<lambda>(x0, y0, color, fill, x, y, err, s). nat (x - y + 1))") (auto split: if_splits)

definition draw_circle :: "int \<Rightarrow> int \<Rightarrow> int \<Rightarrow> u32 \<Rightarrow> bool \<Rightarrow> 'd machine \<Rightarrow> 'd machine" where
  "draw_circle x0 y0 radius color fill s = circle_loop x0 y0 color fill radius 0 0 s"

text \<open>The table of glyphs, one byte per line of eight pixels.\<close>

definition font :: "u8 list list" where
  "font = [
    [0x00, 0x00, 0x00, 0x00, 0x00, 0x00, 0x00, 0x00],
    [0x00, 0x00, 0x00, 0x00, 0x00, 0x00, 0x00, 0x00],
    [0x00, 0x00, 0x00, 0x00, 0x00, 0x00, 0x00, 0x00],
    [0x00, 0x00, 0x00, 0x00, 0x00, 0x00, 0x00, 0x00],
    [0x00, 0x00, 0x00, 0x00, 0x00, 0x00, 0x00, 0x00],
    [0x00, 0x00, 0x00, 0x00, 0x00, 0x00, 0x00, 0x00],
    [0x00, 0x00, 0x00, 0x00, 0x00, 0x00, 0x00, 0x00],
    [0x00, 0x00, 0x00, 0x00, 0x00, 0x00, 0x00, 0x00],
    [0x00, 0x00, 0x00, 0x00, 0x00, 0x00, 0x00, 0x00],
    [0x00, 0x00, 0x00, 0x00, 0x00, 0x00, 0x00, 0x00],
    [0x00, 0x00, 0x00, 0x00, 0x00, 0x00, 0x00, 0x00],
    [0x00, 0x00, 0x00, 0x00, 0x00, 0x00, 0x00, 0x00],
    [0x00, 0x00, 0x00, 0x00, 0x00, 0x00, 0x00, 0x00],
    [0x00, 0x00, 0x00, 0x00, 0x00, 0x00, 0x00, 0x00],
    [0x00, 0x00, 0x00, 0x00, 0x00, 0x00, 0x00, 0x00],
    [0x00, 0x00, 0x00, 0x00, 0x00, 0x00, 0x00, 0x00],
    [0x00, 0x00, 0x00, 0x00, 0x00, 0x00, 0x00, 0x00],
    [0x00, 0x00, 0x00, 0x00, 0x00, 0x00, 0x00, 0x00],
    [0x00, 0x00, 0x00, 0x00, 0x00, 0x00, 0x00, 0x00],
    [0x00, 0x00, 0x00, 0x00, 0x00, 0x00, 0x00, 0x00],
    [0x00, 0x00, 0x00, 0x00, 0x00, 0x00, 0x00, 0x00],
    [0x00, 0x00, 0x00, 0x00, 0x00, 0x00, 0x00, 0x00],
    [0x00, 0x00, 0x00, 0x00, 0x00, 0x00, 0x00, 0x00],
    [0x00, 0x00, 0x00, 0x00, 0x00, 0x00, 0x00, 0x00],
    [0x00, 0x00, 0x00, 0x00, 0x00, 0x00, 0x00, 0x00],
    [0x00, 0x00, 0x00, 0x00, 0x00, 0x00, 0x00, 0x00],
    [0x00, 0x00, 0x00, 0x00, 0x00, 0x00, 0x00, 0x00],
    [0x00, 0x00, 0x00, 0x00, 0x00, 0x00, 0x00, 0x00],
    [0x00, 0x00, 0x00, 0x00, 0x00, 0x00, 0x00, 0x00],
    [0x00, 0x00, 0x00, 0x00, 0x00, 0x00, 0x00, 0x00],
    [0x00, 0x00, 0x00, 0x00, 0x00, 0x00, 0x00, 0x00],
    [0x00, 0x00, 0x00, 0x00, 0x00, 0x00, 0x00, 0x00],
    [0x00, 0x00, 0x00, 0x00, 0x00, 0x00, 0x00, 0x00],
    [0x18, 0x3C, 0x3C, 0x18, 0x18, 0x00, 0x18, 0x00],
    [0x36, 0x36, 0x00, 0x00, 0x00, 0x00, 0x00, 0x00],
    [0x36, 0x36, 0x7F, 0x36, 0x7F, 0x36, 0x36, 0x00],
    [0x0C, 0x3E, 0x03, 0x1E, 0x30, 0x1F, 0x0C, 0x00],
    [0x00, 0x63, 0x33, 0x18, 0x0C, 0x66, 0x63, 0x00],
    [0x1C, 0x36, 0x1C, 0x6E, 0x3B, 0x33, 0x6E, 0x00],
    [0x06, 0x06, 0x03, 0x00, 0x00, 0x00, 0x00, 0x00],
    [0x18, 0x0C, 0x06, 0x06, 0x06, 0x0C, 0x18, 0x00],
    [0x06, 0x0C, 0x18, 0x18, 0x18, 0x0C, 0x06, 0x00],
    [0x00, 0x66, 0x3C, 0xFF, 0x3C, 0x66, 0x00, 0x00],
    [0x00, 0x0C, 0x0C, 0x3F, 0x0C, 0x0C, 0x00, 0x00],
    [0x00, 0x00, 0x00, 0x00, 0x00, 0x0C, 0x0C, 0x06],
    [0x00, 0x00, 0x00, 0x3F, 0x00, 0x00, 0x00, 0x00],
    [0x00, 0x00, 0x00, 0x00, 0x00, 0x0C, 0x0C, 0x00],
    [0x60, 0x30, 0x18, 0x0C, 0x06, 0x03, 0x01, 0x00],
    [0x3E, 0x63, 0x73, 0x7B, 0x6F, 0x67, 0x3E, 0x00],
    [0x0C, 0x0E, 0x0C, 0x0C, 0x0C, 0x0C, 0x3F, 0x00],
    [0x1E, 0x33, 0x30, 0x1C, 0x06, 0x33, 0x3F, 0x00],
    [0x1E, 0x33, 0x30, 0x1C, 0x30, 0x33, 0x1E, 0x00],
    [0x38, 0x3C, 0x36, 0x33, 0x7F, 0x30, 0x78, 0x00],
    [0x3F, 0x03, 0x1F, 0x30, 0x30, 0x33, 0x1E, 0x00],
    [0x1C, 0x06, 0x03, 0x1F, 0x33, 0x33, 0x1E, 0x00],
    [0x3F, 0x33, 0x30, 0x18, 0x0C, 0x0C, 0x0C, 0x00],
    [0x1E, 0x33, 0x33, 0x1E, 0x33, 0x33, 0x1E, 0x00],
    [0x1E, 0x33, 0x33, 0x3E, 0x30, 0x18, 0x0E, 0x00],
    [0x00, 0x0C, 0x0C, 0x00, 0x00, 0x0C, 0x0C, 0x00],
    [0x00, 0x0C, 0x0C, 0x00, 0x00, 0x0C, 0x0C, 0x06],
    [0x18, 0x0C, 0x06, 0x03, 0x06, 0x0C, 0x18, 0x00],
    [0x00, 0x00, 0x3F, 0x00, 0x00, 0x3F, 0x00, 0x00],
    [0x06, 0x0C, 0x18, 0x30, 0x18, 0x0C, 0x06, 0x00],
    [0x1E, 0x33, 0x30, 0x18, 0x0C, 0x00, 0x0C, 0x00],
    [0x3E, 0x63, 0x7B, 0x7B, 0x7B, 0x03, 0x1E, 0x00],
    [0x0C, 0x1E, 0x33, 0x33, 0x3F, 0x33, 0x33, 0x00],
    [0x3F, 0x66, 0x66, 0x3E, 0x66, 0x66, 0x3F, 0x00],
    [0x3C, 0x66, 0x03, 0x03, 0x03, 0x66, 0x3C, 0x00],
    [0x1F, 0x36, 0x66, 0x66, 0x66, 0x36, 0x1F, 0x00],
    [0x7F, 0x46, 0x16, 0x1E, 0x16, 0x46, 0x7F, 0x00],
    [0x7F, 0x46, 0x16, 0x1E, 0x16, 0x06, 0x0F, 0x00],
    [0x3C, 0x66, 0x03, 0x03, 0x73, 0x66, 0x7C, 0x00],
    [0x33, 0x33, 0x33, 0x3F, 0x33, 0x33, 0x33, 0x00],
    [0x1E, 0x0C, 0x0C, 0x0C, 0x0C, 0x0C, 0x1E, 0x00],
    [0x78, 0x30, 0x30, 0x30, 0x33, 0x33, 0x1E, 0x00],
    [0x67, 0x66, 0x36, 0x1E, 0x36, 0x66, 0x67, 0x00],
    [0x0F, 0x06, 0x06, 0x06, 0x46, 0x66, 0x7F, 0x00],
    [0x63, 0x77, 0x7F, 0x7F, 0x6B, 0x63, 0x63, 0x00],
    [0x63, 0x67, 0x6F, 0x7B, 0x73, 0x63, 0x63, 0x00],
    [0x1C, 0x36, 0x63, 0x63, 0x63, 0x36, 0x1C, 0x00],
    [0x3F, 0x66, 0x66, 0x3E, 0x06, 0x06, 0x0F, 0x00],
    [0x1E, 0x33, 0x33, 0x33, 0x3B, 0x1E, 0x38, 0x00],
    [0x3F, 0x66, 0x66, 0x3E, 0x36, 0x66, 0x67, 0x00],
    [0x1E, 0x33, 0x07, 0x0E, 0x38, 0x33, 0x1E, 0x00],
    [0x3F, 0x2D, 0x0C, 0x0C, 0x0C, 0x0C, 0x1E, 0x00],
    [0x33, 0x33, 0x33, 0x33, 0x33, 0x33, 0x3F, 0x00],
    [0x33, 0x33, 0x33, 0x33, 0x33, 0x1E, 0x0C, 0x00],
    [0x63, 0x63, 0x63, 0x6B, 0x7F, 0x77, 0x63, 0x00],
    [0x63, 0x63, 0x36, 0x1C, 0x1C, 0x36, 0x63, 0x00],
    [0x33, 0x33, 0x33, 0x1E, 0x0C, 0x0C, 0x1E, 0x00],
    [0x7F, 0x63, 0x31, 0x18, 0x4C, 0x66, 0x7F, 0x00],
    [0x1E, 0x06, 0x06, 0x06, 0x06, 0x06, 0x1E, 0x00],
    [0x03, 0x06, 0x0C, 0x18, 0x30, 0x60, 0x40, 0x00],
    [0x1E, 0x18, 0x18, 0x18, 0x18, 0x18, 0x1E, 0x00],
    [0x08, 0x1C, 0x36, 0x63, 0x00, 0x00, 0x00, 0x00],
    [0x00, 0x00, 0x00, 0x00, 0x00, 0x00, 0x00, 0xFF],
    [0x0C, 0x0C, 0x18, 0x00, 0x00, 0x00, 0x00, 0x00],
    [0x00, 0x00, 0x1E, 0x30, 0x3E, 0x33, 0x6E, 0x00],
    [0x07, 0x06, 0x06, 0x3E, 0x66, 0x66, 0x3B, 0x00],
    [0x00, 0x00, 0x1E, 0x33, 0x03, 0x33, 0x1E, 0x00],
    [0x38, 0x30, 0x30, 0x3e, 0x33, 0x33, 0x6E, 0x00],
    [0x00, 0x00, 0x1E, 0x33, 0x3f, 0x03, 0x1E, 0x00],
    [0x1C, 0x36, 0x06, 0x0f, 0x06, 0x06, 0x0F, 0x00],
    [0x00, 0x00, 0x6E, 0x33, 0x33, 0x3E, 0x30, 0x1F],
    [0x07, 0x06, 0x36, 0x6E, 0x66, 0x66, 0x67, 0x00],
    [0x0C, 0x00, 0x0E, 0x0C, 0x0C, 0x0C, 0x1E, 0x00],
    [0x30, 0x00, 0x30, 0x30, 0x30, 0x33, 0x33, 0x1E],
    [0x07, 0x06, 0x66, 0x36, 0x1E, 0x36, 0x67, 0x00],
    [0x0E, 0x0C, 0x0C, 0x0C, 0x0C, 0x0C, 0x1E, 0x00],
    [0x00, 0x00, 0x33, 0x7F, 0x7F, 0x6B, 0x63, 0x00],
    [0x00, 0x00, 0x1F, 0x33, 0x33, 0x33, 0x33, 0x00],
    [0x00, 0x00, 0x1E, 0x33, 0x33, 0x33, 0x1E, 0x00],
    [0x00, 0x00, 0x3B, 0x66, 0x66, 0x3E, 0x06, 0x0F],
    [0x00, 0x00, 0x6E, 0x33, 0x33, 0x3E, 0x30, 0x78],
    [0x00, 0x00, 0x3B, 0x6E, 0x66, 0x06, 0x0F, 0x00],
    [0x00, 0x00, 0x3E, 0x03, 0x1E, 0x30, 0x1F, 0x00],
    [0x08, 0x0C, 0x3E, 0x0C, 0x0C, 0x2C, 0x18, 0x00],
    [0x00, 0x00, 0x33, 0x33, 0x33, 0x33, 0x6E, 0x00],
    [0x00, 0x00, 0x33, 0x33, 0x33, 0x1E, 0x0C, 0x00],
    [0x00, 0x00, 0x63, 0x6B, 0x7F, 0x7F, 0x36, 0x00],
    [0x00, 0x00, 0x63, 0x36, 0x1C, 0x36, 0x63, 0x00],
    [0x00, 0x00, 0x33, 0x33, 0x33, 0x3E, 0x30, 0x1F],
    [0x00, 0x00, 0x3F, 0x19, 0x0C, 0x26, 0x3F, 0x00],
    [0x38, 0x0C, 0x0C, 0x07, 0x0C, 0x0C, 0x38, 0x00],
    [0x18, 0x18, 0x18, 0x00, 0x18, 0x18, 0x18, 0x00],
    [0x07, 0x0C, 0x0C, 0x38, 0x0C, 0x0C, 0x07, 0x00],
    [0x6E, 0x3B, 0x00, 0x00, 0x00, 0x00, 0x00, 0x00],
    [0x00, 0x00, 0x00, 0x00, 0x00, 0x00, 0x00, 0x00],
    [0x1E, 0x33, 0x03, 0x33, 0x1E, 0x18, 0x30, 0x1E],
    [0x00, 0x33, 0x00, 0x33, 0x33, 0x33, 0x7E, 0x00],
    [0x38, 0x00, 0x1E, 0x33, 0x3F, 0x03, 0x1E, 0x00],
    [0x7E, 0xC3, 0x3C, 0x60, 0x7C, 0x66, 0xFC, 0x00],
    [0x33, 0x00, 0x1E, 0x30, 0x3E, 0x33, 0x7E, 0x00],
    [0x07, 0x00, 0x1E, 0x30, 0x3E, 0x33, 0x7E, 0x00],
    [0x0C, 0x0C, 0x1E, 0x30, 0x3E, 0x33, 0x7E, 0x00],
    [0x00, 0x00, 0x1E, 0x03, 0x03, 0x1E, 0x30, 0x1C],
    [0x7E, 0xC3, 0x3C, 0x66, 0x7E, 0x06, 0x3C, 0x00],
    [0x33, 0x00, 0x1E, 0x33, 0x3F, 0x03, 0x1E, 0x00],
    [0x07, 0x00, 0x1E, 0x33, 0x3F, 0x03, 0x1E, 0x00],
    [0x33, 0x00, 0x0E, 0x0C, 0x0C, 0x0C, 0x1E, 0x00],
    [0x3E, 0x63, 0x1C, 0x18, 0x18, 0x18, 0x3C, 0x00],
    [0x07, 0x00, 0x0E, 0x0C, 0x0C, 0x0C, 0x1E, 0x00],
    [0x63, 0x1C, 0x36, 0x63, 0x7F, 0x63, 0x63, 0x00],
    [0x0C, 0x0C, 0x00, 0x1E, 0x33, 0x3F, 0x33, 0x00],
    [0x07, 0x00, 0x3F, 0x06, 0x1E, 0x06, 0x3F, 0x00],
    [0x00, 0x00, 0xFE, 0x30, 0xFE, 0x33, 0xFE, 0x00],
    [0x7C, 0x36, 0x33, 0x7F, 0x33, 0x33, 0x73, 0x00],
    [0x1E, 0x33, 0x00, 0x1E, 0x33, 0x33, 0x1E, 0x00],
    [0x00, 0x33, 0x00, 0x1E, 0x33, 0x33, 0x1E, 0x00],
    [0x00, 0x07, 0x00, 0x1E, 0x33, 0x33, 0x1E, 0x00],
    [0x1E, 0x33, 0x00, 0x33, 0x33, 0x33, 0x7E, 0x00],
    [0x00, 0x07, 0x00, 0x33, 0x33, 0x33, 0x7E, 0x00],
    [0x00, 0x33, 0x00, 0x33, 0x33, 0x3E, 0x30, 0x1F],
    [0xC3, 0x18, 0x3C, 0x66, 0x66, 0x3C, 0x18, 0x00],
    [0x33, 0x00, 0x33, 0x33, 0x33, 0x33, 0x1E, 0x00],
    [0x18, 0x18, 0x7E, 0x03, 0x03, 0x7E, 0x18, 0x18],
    [0x1C, 0x36, 0x26, 0x0F, 0x06, 0x67, 0x3F, 0x00],
    [0x33, 0x33, 0x1E, 0x3F, 0x0C, 0x3F, 0x0C, 0x0C],
    [0x7C, 0xC6, 0x1C, 0x36, 0x36, 0x1C, 0x33, 0x1E],
    [0x70, 0xD8, 0x18, 0x3C, 0x18, 0x18, 0x1B, 0x0E],
    [0x38, 0x00, 0x1E, 0x30, 0x3E, 0x33, 0x7E, 0x00],
    [0x1C, 0x00, 0x0E, 0x0C, 0x0C, 0x0C, 0x1E, 0x00],
    [0x00, 0x38, 0x00, 0x1E, 0x33, 0x33, 0x1E, 0x00],
    [0x00, 0x38, 0x00, 0x33, 0x33, 0x33, 0x7E, 0x00],
    [0x00, 0x1F, 0x00, 0x1F, 0x33, 0x33, 0x33, 0x00],
    [0x3F, 0x00, 0x33, 0x37, 0x3F, 0x3B, 0x33, 0x00],
    [0x3C, 0x36, 0x36, 0x7C, 0x00, 0x00, 0x00, 0x00],
    [0x1C, 0x36, 0x36, 0x1C, 0x00, 0x00, 0x00, 0x00],
    [0x0C, 0x00, 0x0C, 0x06, 0x03, 0x33, 0x1E, 0x00],
    [0x00, 0x00, 0x00, 0x3F, 0x03, 0x03, 0x00, 0x00],
    [0x00, 0x00, 0x00, 0x3F, 0x30, 0x30, 0x00, 0x00],
    [0xC3, 0x63, 0x33, 0x7B, 0xCC, 0x66, 0x33, 0xF0],
    [0xC3, 0x63, 0x33, 0xBD, 0xEC, 0xF6, 0xF3, 0x03],
    [0x18, 0x18, 0x00, 0x18, 0x18, 0x18, 0x18, 0x00],
    [0x00, 0xCC, 0x66, 0x33, 0x66, 0xCC, 0x00, 0x00],
    [0x00, 0x33, 0x66, 0xCC, 0x66, 0x33, 0x00, 0x00],
    [0x55, 0x00, 0xAA, 0x00, 0x55, 0x00, 0xAA, 0x00],
    [0x55, 0xAA, 0x55, 0xAA, 0x55, 0xAA, 0x55, 0xAA],
    [0xFF, 0xAA, 0xFF, 0x55, 0xFF, 0xAA, 0xFF, 0x55],
    [0x08, 0x08, 0x08, 0x08, 0x08, 0x08, 0x08, 0x08],
    [0x08, 0x08, 0x08, 0x08, 0x0f, 0x08, 0x08, 0x08],
    [0x08, 0x08, 0x08, 0x0F, 0x08, 0x0F, 0x08, 0x08],
    [0x14, 0x14, 0x14, 0x14, 0x17, 0x14, 0x14, 0x14],
    [0x00, 0x00, 0x00, 0x00, 0x1F, 0x14, 0x14, 0x14],
    [0x00, 0x00, 0x00, 0x0F, 0x08, 0x0F, 0x08, 0x08],
    [0x14, 0x14, 0x14, 0x17, 0x10, 0x17, 0x14, 0x14],
    [0x14, 0x14, 0x14, 0x14, 0x14, 0x14, 0x14, 0x14],
    [0x00, 0x00, 0x00, 0x1F, 0x10, 0x17, 0x14, 0x14],
    [0x14, 0x14, 0x14, 0x17, 0x10, 0x1F, 0x00, 0x00],
    [0x14, 0x14, 0x14, 0x14, 0x1F, 0x00, 0x00, 0x00],
    [0x08, 0x08, 0x08, 0x0F, 0x08, 0x0F, 0x00, 0x00],
    [0x00, 0x00, 0x00, 0x00, 0x0f, 0x08, 0x08, 0x08],
    [0x08, 0x08, 0x08, 0x08, 0xf8, 0x00, 0x00, 0x00],
    [0x08, 0x08, 0x08, 0x08, 0xff, 0x00, 0x00, 0x00],
    [0x00, 0x00, 0x00, 0x00, 0xff, 0x08, 0x08, 0x08],
    [0x08, 0x08, 0x08, 0x08, 0xf8, 0x08, 0x08, 0x08],
    [0x00, 0x00, 0x00, 0x00, 0xFF, 0x00, 0x00, 0x00],
    [0x08, 0x08, 0x08, 0x08, 0xff, 0x08, 0x08, 0x08],
    [0x08, 0x08, 0x08, 0xF8, 0x08, 0xF8, 0x08, 0x08],
    [0x14, 0x14, 0x14, 0x14, 0xF4, 0x14, 0x14, 0x14],
    [0x14, 0x14, 0x14, 0xF4, 0x04, 0xFC, 0x00, 0x00],
    [0x00, 0x00, 0x00, 0xFC, 0x04, 0xF4, 0x14, 0x14],
    [0x14, 0x14, 0x14, 0xF7, 0x00, 0xFF, 0x00, 0x00],
    [0x00, 0x00, 0x00, 0xFF, 0x00, 0xF7, 0x14, 0x14],
    [0x14, 0x14, 0x14, 0xF4, 0x04, 0xF4, 0x14, 0x14],
    [0x00, 0x00, 0x00, 0xFF, 0x00, 0xFF, 0x00, 0x00],
    [0x14, 0x14, 0x14, 0xF7, 0x00, 0xF7, 0x14, 0x14],
    [0x08, 0x08, 0x08, 0xFF, 0x00, 0xFF, 0x00, 0x00],
    [0x14, 0x14, 0x14, 0x14, 0xFF, 0x00, 0x00, 0x00],
    [0x00, 0x00, 0x00, 0xFF, 0x00, 0xFF, 0x08, 0x08],
    [0x00, 0x00, 0x00, 0x00, 0xFF, 0x14, 0x14, 0x14],
    [0x14, 0x14, 0x14, 0x14, 0xFC, 0x00, 0x00, 0x00],
    [0x08, 0x08, 0x08, 0xF8, 0x08, 0xF8, 0x00, 0x00],
    [0x00, 0x00, 0x00, 0xF8, 0x08, 0xF8, 0x08, 0x08],
    [0x00, 0x00, 0x00, 0x00, 0xFC, 0x14, 0x14, 0x14],
    [0x14, 0x14, 0x14, 0x14, 0xFF, 0x14, 0x14, 0x14],
    [0x08, 0x08, 0x08, 0xFF, 0x08, 0xFF, 0x08, 0x08],
    [0x08, 0x08, 0x08, 0x08, 0x0f, 0x00, 0x00, 0x00],
    [0x00, 0x00, 0x00, 0x00, 0xf8, 0x08, 0x08, 0x08],
    [0xFF, 0xFF, 0xFF, 0xFF, 0xFF, 0xFF, 0xFF, 0xFF],
    [0x00, 0x00, 0x00, 0x00, 0xFF, 0xFF, 0xFF, 0xFF],
    [0x0F, 0x0F, 0x0F, 0x0F, 0x0F, 0x0F, 0x0F, 0x0F],
    [0xF0, 0xF0, 0xF0, 0xF0, 0xF0, 0xF0, 0xF0, 0xF0],
    [0xFF, 0xFF, 0xFF, 0xFF, 0x00, 0x00, 0x00, 0x00]]"

definition FONT_WIDTH :: nat where "FONT_WIDTH = 8"
definition FONT_HEIGHT :: nat where "FONT_HEIGHT = 8"
definition FONT_NUMGLYPHS :: nat where "FONT_NUMGLYPHS = 224"

definition glyph_line :: "u8 \<Rightarrow> int \<Rightarrow> int \<Rightarrow> u32 \<Rightarrow> nat \<Rightarrow> 'd machine \<Rightarrow> 'd machine" where
  "glyph_line g x y color i s =
     fold (\<lambda>j s. if g AND push_bit j 1 \<noteq> 0 then draw_pixel (x + int j) (y + int i) color s else s) [0..<FONT_WIDTH] s"

definition draw_char :: "u8 \<Rightarrow> int \<Rightarrow> int \<Rightarrow> u32 \<Rightarrow> 'd machine \<Rightarrow> 'd machine" where
  "draw_char ch x y color s =
     (let glyph = font ! (if unat ch < FONT_NUMGLYPHS then unat ch else 0)
      in fold (\<lambda>i. glyph_line (glyph ! i) x y color i) [0..<FONT_HEIGHT] s)"

partial_function (option) string_loop :: "mem \<Rightarrow> int \<Rightarrow> u32 \<Rightarrow> addr \<Rightarrow> int \<Rightarrow> int \<Rightarrow> 'd machine \<Rightarrow> 'd machine option" where
  "string_loop m x_init color a x y s =
     (if m a = 0 then Some s
      else if m a = 13 then string_loop m x_init color (a + 1) x_init y s
      else if m a = 10 then string_loop m x_init color (a + 1) x_init (y + int FONT_HEIGHT) s
      else string_loop m x_init color (a + 1) (x + int FONT_WIDTH) y (draw_char (m a) x y color s))"

text \<open>The string is read from the byte memory \<open>m\<close>, apart from the frame buffer.\<close>

definition draw_string :: "mem \<Rightarrow> int \<Rightarrow> int \<Rightarrow> addr \<Rightarrow> u32 \<Rightarrow> 'd machine \<Rightarrow> 'd machine option" where
  "draw_string m x y a color s = string_loop m x color a x y s"

declare rect_row.simps [simp del] rect_rows.simps [simp del] line_loop.simps [simp del] circle_loop.simps [simp del]

section \<open>Drawing as a set of pixels\<close>

definition draw_pixels :: "(int \<times> int) list \<Rightarrow> u32 \<Rightarrow> 'd machine \<Rightarrow> 'd machine" where
  "draw_pixels ps color s = fold (\<lambda>(x, y). draw_pixel x y color) ps s"

lemma draw_pixels_simps [simp]:
  "draw_pixels [] color s = s" "draw_pixels (p # ps) color s = draw_pixels ps color (draw_pixel (fst p) (snd p) color s)"
  "draw_pixels (ps @ qs) color s = draw_pixels qs color (draw_pixels ps color s)"
  by (simp_all add: draw_pixels_def case_prod_beta)

lemma draw_pixels_concat:
  "draw_pixels (concat (map f xs)) color s = fold (\<lambda>x. draw_pixels (f x) color) xs s"
  by (induction xs arbitrary: s) auto

lemma draw_pixels_state:
  "draw_pixels ps color s = s\<lparr>words := \<lambda>a. if \<exists>p\<in>set ps. a = pixel_addr (fb s) (fst p) (snd p) then color else words s a\<rparr>"
  by (induction ps arbitrary: s) (auto simp: draw_pixel_def fun_eq_iff intro!: arg_cong[where f = "\<lambda>m. s\<lparr>words := m\<rparr>" for s])

definition rect_points :: "int \<Rightarrow> int \<Rightarrow> int \<Rightarrow> int \<Rightarrow> bool \<Rightarrow> (int \<times> int) set" where
  "rect_points x1 y1 x2 y2 fill =
     {(x, y). x1 \<le> x \<and> x \<le> x2 \<and> y1 \<le> y \<and> y \<le> y2 \<and> (fill \<or> x = x1 \<or> x = x2 \<or> y = y1 \<or> y = y2)}"

definition row_points :: "int \<Rightarrow> int \<Rightarrow> int \<Rightarrow> int \<Rightarrow> bool \<Rightarrow> int \<Rightarrow> int \<Rightarrow> (int \<times> int) list" where
  "row_points x1 y1 x2 y2 fill y x = map (\<lambda>u. (u, y)) (filter (\<lambda>u. fill \<or> u = x1 \<or> u = x2 \<or> y = y1 \<or> y = y2) [x..x2])"

lemma rect_row_pixels:
  "rect_row x1 y1 x2 y2 color fill y x s = draw_pixels (row_points x1 y1 x2 y2 fill y x) color s"
proof (induction x1 y1 x2 y2 color fill y x s rule: rect_row.induct)
  case (1 x1 y1 x2 y2 color fill y x s)
  show ?case
  proof (cases "x \<le> x2")
    case True
    then have "[x..x2] = x # [x + 1..x2]" by (rule upto_rec1)
    then show ?thesis using True 1[OF True] by (subst rect_row.simps) (auto simp: row_points_def)
  next
    case False
    then show ?thesis by (simp add: rect_row.simps row_points_def)
  qed
qed

lemma rect_rows_pixels:
  "rect_rows x1 y1 x2 y2 color fill y s = draw_pixels (concat (map (\<lambda>v. row_points x1 y1 x2 y2 fill v x1) [y..y2])) color s"
proof (induction x1 y1 x2 y2 color fill y s rule: rect_rows.induct)
  case (1 x1 y1 x2 y2 color fill y s)
  show ?case
  proof (cases "y \<le> y2")
    case True
    then have "[y..y2] = y # [y + 1..y2]" by (rule upto_rec1)
    then show ?thesis using True 1[OF True] by (subst rect_rows.simps) (simp add: rect_row_pixels)
  next
    case False
    then show ?thesis by (simp add: rect_rows.simps)
  qed
qed

lemma draw_rect_pixels:
  obtains ps where "draw_rect x1 y1 x2 y2 color fill s = draw_pixels ps color s" "set ps = rect_points x1 y1 x2 y2 fill"
proof
  show "draw_rect x1 y1 x2 y2 color fill s = draw_pixels (concat (map (\<lambda>v. row_points x1 y1 x2 y2 fill v x1) [y1..y2])) color s"
    by (simp add: draw_rect_def rect_rows_pixels)
  show "set (concat (map (\<lambda>v. row_points x1 y1 x2 y2 fill v x1) [y1..y2])) = rect_points x1 y1 x2 y2 fill"
    by (auto simp: row_points_def rect_points_def)
qed

text \<open>A pixel of a line, and the rest of the line.\<close>

lemma line_loop_step:
  assumes "line_loop dx dy x2 color x y p s = line_loop dx dy x2 color (x + 1) y' p' (draw_pixel x y color s)" "x < x2"
    and "\<exists>ps. line_loop dx dy x2 color (x + 1) y' p' (draw_pixel x y color s) = draw_pixels ps color (draw_pixel x y color s) \<and>
      map fst ps = [x + 1..x2 - 1] \<and> (\<forall>(u, v)\<in>set ps. P u v)"
    and "P x y"
  shows "\<exists>ps. line_loop dx dy x2 color x y p s = draw_pixels ps color s \<and> map fst ps = [x..x2 - 1] \<and> (\<forall>(u, v)\<in>set ps. P u v)"
proof -
  obtain ps where ps: "line_loop dx dy x2 color (x + 1) y' p' (draw_pixel x y color s) = draw_pixels ps color (draw_pixel x y color s)"
    "map fst ps = [x + 1..x2 - 1]" "\<forall>(u, v)\<in>set ps. P u v" using assms(3) by blast
  have "map fst ((x, y) # ps) = [x..x2 - 1]" using assms(2) ps(2) by (simp add: upto_rec1)
  then show ?thesis using ps assms(1,4) by (intro exI[of _ "(x, y) # ps"]) auto
qed

lemma line_loop_done: "x2 \<le> x \<Longrightarrow>
  \<exists>ps. line_loop dx dy x2 color x y p s = draw_pixels ps color s \<and> map fst ps = [x..x2 - 1] \<and> (\<forall>(u, v)\<in>set ps. P u v)"
  by (intro exI[of _ "[]"]) (simp add: line_loop.simps)

text \<open>A slope between 0 and 1. The error of a point of the line is in halves of a pixel, scaled by \<open>dx\<close>.\<close>

lemma line_loop_pixels:
  assumes "0 \<le> dy" "dy \<le> dx" "dx \<le> 2 ^ 28" "\<bar>y1\<bar> \<le> 2 ^ 28" "x1 \<le> x" "x \<le> x1 + dx" "y1 \<le> y" "y - y1 \<le> x - x1"
    "\<bar>2 * dy * (x - x1) - 2 * dx * (y - y1)\<bar> \<le> dx" "p = 2 * dy * (x - x1) - 2 * dx * (y - y1) + 2 * dy - dx"
  shows "\<exists>ps. line_loop dx dy (x1 + dx) color x y p s = draw_pixels ps color s \<and> map fst ps = [x..x1 + dx - 1] \<and>
    (\<forall>(u, v)\<in>set ps. \<bar>2 * dy * (u - x1) - 2 * dx * (v - y1)\<bar> \<le> dx)"
  using assms
proof (induction "nat (x1 + dx - x)" arbitrary: x y p s)
  case 0
  then show ?case by (intro line_loop_done) simp
next
  case (Suc n)
  let ?y = "if p \<ge> 0 then y + 1 else y" and ?p = "if p \<ge> 0 then p + 2 * dy - 2 * dx else p + 2 * dy"
  have lt: "x < x1 + dx" using Suc.hyps(2) by simp
  have e: "2 * dy * (x + 1 - x1) - 2 * dx * (?y - y1) = 2 * dy * (x - x1) - 2 * dx * (y - y1) + 2 * dy - (if p \<ge> 0 then 2 * dx else 0)"
    by (auto simp: algebra_simps)
  have r: "int32 (p + 2 * dy - 2 * dx) = p + 2 * dy - 2 * dx" "int32 (p + 2 * dy) = p + 2 * dy" "int32 (y + 1) = y + 1"
    using Suc.prems lt by (auto intro!: int32_id)
  show ?case
  proof (rule line_loop_step[OF _ lt, where y' = ?y and p' = ?p])
    show "line_loop dx dy (x1 + dx) color x y p s = line_loop dx dy (x1 + dx) color (x + 1) ?y ?p (draw_pixel x y color s)"
      using lt r by (subst line_loop.simps) auto
    show "\<exists>ps. line_loop dx dy (x1 + dx) color (x + 1) ?y ?p (draw_pixel x y color s) = draw_pixels ps color (draw_pixel x y color s) \<and>
      map fst ps = [x + 1..x1 + dx - 1] \<and> (\<forall>(u, v)\<in>set ps. \<bar>2 * dy * (u - x1) - 2 * dx * (v - y1)\<bar> \<le> dx)"
    proof (rule Suc.hyps(1))
      show "\<bar>2 * dy * (x + 1 - x1) - 2 * dx * (?y - y1)\<bar> \<le> dx" unfolding e using Suc.prems by auto
      show "?p = 2 * dy * (x + 1 - x1) - 2 * dx * (?y - y1) + 2 * dy - dx" unfolding e using Suc.prems(10) by auto
    qed (use Suc lt in auto)
  qed (use Suc.prems in simp)
qed

text \<open>Steeper than that: every step goes up by one.\<close>

lemma line_loop_steep:
  assumes "dx < dy" "0 \<le> dx" "dx \<le> 16384" "dy \<le> 16384" "0 \<le> y1" "y1 \<le> 16384" "x1 \<le> x" "x \<le> x1 + dx"
    "p = 2 * dy - dx + (x - x1) * (2 * dy - 2 * dx)"
  shows "\<exists>ps. line_loop dx dy (x1 + dx) color x (y1 + (x - x1)) p s = draw_pixels ps color s \<and> map fst ps = [x..x1 + dx - 1] \<and>
    (\<forall>(u, v)\<in>set ps. v - y1 = u - x1)"
  using assms
proof (induction "nat (x1 + dx - x)" arbitrary: x p s)
  case 0
  then show ?case by (intro line_loop_done) simp
next
  case (Suc n)
  have lt: "x < x1 + dx" using Suc.hyps(2) by simp
  define m where "m = (x - x1) * (2 * dy - 2 * dx)"
  have "0 \<le> m" unfolding m_def using Suc.prems by simp
  moreover have "m \<le> 16384 * 32768" unfolding m_def using Suc.prems by (intro mult_mono) auto
  ultimately have b: "0 \<le> p" "p \<le> 2 * dy - dx + 16384 * 32768" using Suc.prems(1-4,9) by (simp_all flip: m_def)
  have p: "0 \<le> p" "int32 (p + 2 * dy - 2 * dx) = p + 2 * dy - 2 * dx" "int32 (y1 + (x - x1) + 1) = y1 + (x + 1 - x1)"
    using b Suc.prems(1-8) by (auto intro!: int32_id[THEN trans])
  show ?case
  proof (rule line_loop_step[OF _ lt, where y' = "y1 + (x + 1 - x1)" and p' = "p + 2 * dy - 2 * dx"])
    show "line_loop dx dy (x1 + dx) color x (y1 + (x - x1)) p s =
      line_loop dx dy (x1 + dx) color (x + 1) (y1 + (x + 1 - x1)) (p + 2 * dy - 2 * dx) (draw_pixel x (y1 + (x - x1)) color s)"
      using lt p by (subst line_loop.simps) simp
    show "\<exists>ps. line_loop dx dy (x1 + dx) color (x + 1) (y1 + (x + 1 - x1)) (p + 2 * dy - 2 * dx) (draw_pixel x (y1 + (x - x1)) color s) =
        draw_pixels ps color (draw_pixel x (y1 + (x - x1)) color s) \<and> map fst ps = [x + 1..x1 + dx - 1] \<and> (\<forall>(u, v)\<in>set ps. v - y1 = u - x1)"
    proof (rule Suc.hyps(1))
      show "p + 2 * dy - 2 * dx = 2 * dy - dx + (x + 1 - x1) * (2 * dy - 2 * dx)"
        unfolding Suc.prems(9) by (simp add: algebra_simps)
    qed (use Suc lt in auto)
  qed simp
qed

text \<open>A falling line, and one that stays level: no step goes up.\<close>

lemma line_loop_level:
  assumes "dy \<le> 0" "0 \<le> dx" "x1 \<le> x" "x \<le> x1 + dx" "p = 2 * dy - dx + (x - x1) * (2 * dy)"
    and "dy = 0 \<and> dx \<le> 2 ^ 30 \<or> - 16384 \<le> dy \<and> dx \<le> 16384"
  shows "\<exists>ps. line_loop dx dy (x1 + dx) color x y p s = draw_pixels ps color s \<and> map fst ps = [x..x1 + dx - 1] \<and> (\<forall>(u, v)\<in>set ps. v = y)"
  using assms
proof (induction "nat (x1 + dx - x)" arbitrary: x p s)
  case 0
  then show ?case by (intro line_loop_done) simp
next
  case (Suc n)
  have lt: "x < x1 + dx" using Suc.hyps(2) by simp
  define m where "m = (x - x1) * (2 * dy)"
  have m: "m \<le> 0" "dy = 0 \<or> - (16384 * 32768) \<le> m"
  proof -
    show "m \<le> 0" unfolding m_def using Suc.prems by (simp add: mult_nonneg_nonpos)
    have "(x - x1) * (2 * (- dy)) \<le> 16384 * 32768" if "- 16384 \<le> dy" "dx \<le> 16384"
      using that Suc.prems by (intro mult_mono) auto
    moreover have "(x - x1) * (2 * (- dy)) = - m" by (simp add: m_def)
    ultimately show "dy = 0 \<or> - (16384 * 32768) \<le> m" using Suc.prems(6) by linarith
  qed
  have "m = 0 \<or> dy \<noteq> 0" by (simp add: m_def)
  then have p: "p < 0" "int32 (p + 2 * dy) = p + 2 * dy"
    using m Suc.prems(1,2,6) Suc.prems(5)[folded m_def] Suc.prems(3) lt by (auto intro!: int32_id)
  show ?case
  proof (rule line_loop_step[OF _ lt, where y' = y and p' = "p + 2 * dy"])
    show "line_loop dx dy (x1 + dx) color x y p s = line_loop dx dy (x1 + dx) color (x + 1) y (p + 2 * dy) (draw_pixel x y color s)"
      using lt p by (subst line_loop.simps) simp
    show "\<exists>ps. line_loop dx dy (x1 + dx) color (x + 1) y (p + 2 * dy) (draw_pixel x y color s) =
        draw_pixels ps color (draw_pixel x y color s) \<and> map fst ps = [x + 1..x1 + dx - 1] \<and> (\<forall>(u, v)\<in>set ps. v = y)"
    proof (rule Suc.hyps(1))
      show "p + 2 * dy = 2 * dy - dx + (x + 1 - x1) * (2 * dy)" unfolding Suc.prems(5) by (simp add: algebra_simps)
    qed (use Suc lt in auto)
  qed simp
qed

lemma draw_line_pixels:
  assumes "0 \<le> x1" "0 \<le> y1" "0 \<le> x2" "0 \<le> y2" "x1 < 16384" "y1 < 16384" "x2 < 16384" "y2 < 16384"
  shows "\<exists>ps. draw_line x1 y1 x2 y2 color s = draw_pixels ps color s \<and> map fst ps = [x1..x2 - 1] \<and>
    (\<forall>(u, v)\<in>set ps.
       if y2 < y1 then v = y1 else if x2 - x1 < y2 - y1 then v - y1 = u - x1
       else \<bar>2 * (y2 - y1) * (u - x1) - 2 * (x2 - x1) * (v - y1)\<bar> \<le> x2 - x1)"
proof -
  define dx dy where "dx = x2 - x1" and "dy = y2 - y1"
  have r: "int32 (x2 - x1) = dx" "int32 (y2 - y1) = dy" "int32 (2 * dy - dx) = 2 * dy - dx"
    using assms by (auto simp: dx_def dy_def intro!: int32_id)
  have x2: "x2 = x1 + dx" by (simp add: dx_def)
  have l: "draw_line x1 y1 x2 y2 color s = line_loop dx dy (x1 + dx) color x1 y1 (2 * dy - dx) s"
    by (simp add: draw_line_def r x2[symmetric])
  consider "dx \<le> 0" | "0 < dx" "dy < 0" | "0 < dx" "dx < dy" | "0 < dx" "0 \<le> dy" "dy \<le> dx" by linarith
  then show ?thesis
  proof cases
    case 1
    then show ?thesis unfolding l by (intro exI[of _ "[]"]) (simp add: x2 line_loop.simps)
  next
    case 2
    then show ?thesis using line_loop_level[of dy dx x1 x1 "2 * dy - dx" color y1 s] assms
      unfolding l by (auto simp: dx_def dy_def)
  next
    case 3
    then show ?thesis using line_loop_steep[of dx dy y1 x1 x1 "2 * dy - dx" color s] assms
      unfolding l by (auto simp: dx_def dy_def)
  next
    case 4
    then show ?thesis using line_loop_pixels[of dy dx y1 x1 x1 y1 "2 * dy - dx" color s] assms
      unfolding l by (auto simp: dx_def dy_def)
  qed
qed

lemma draw_row_pixels:
  assumes "0 \<le> k" "k < 2 ^ 29"
  shows "\<exists>ps. draw_line (a - k) b (a + k) b color s = draw_pixels ps color s \<and> (\<forall>(u, v)\<in>set ps. v = b \<and> \<bar>u - a\<bar> \<le> k)"
proof -
  have e: "a - k + 2 * k = a + k" by simp
  obtain ps where ps: "line_loop (2 * k) 0 (a + k) color (a - k) b (- (2 * k)) s = draw_pixels ps color s"
    "map fst ps = [a - k..a + k - 1]" "\<forall>(u, v)\<in>set ps. v = b"
    using line_loop_level[of 0 "2 * k" "a - k" "a - k" "- (2 * k)" color b s, unfolded e] assms by auto
  have "int32 (a + k - (a - k)) = 2 * k" "int32 (- (2 * k)) = - (2 * k)" using assms by (auto intro!: int32_id)
  then have "draw_line (a - k) b (a + k) b color s = draw_pixels ps color s" using ps(1) by (simp add: draw_line_def)
  moreover have "\<bar>u - a\<bar> \<le> k" if "(u, v) \<in> set ps" for u v
  proof -
    have "u \<in> set [a - k..a + k - 1]" using that ps(2) by (metis fst_conv image_eqI list.set_map)
    then show ?thesis by auto
  qed
  ultimately show ?thesis using ps(3) by blast
qed

definition drawn_in :: "'d machine \<Rightarrow> u32 \<Rightarrow> (int \<Rightarrow> int \<Rightarrow> bool) \<Rightarrow> 'd machine \<Rightarrow> bool" where
  "drawn_in s color P t \<longleftrightarrow> (\<exists>ps. t = draw_pixels ps color s \<and> (\<forall>(u, v)\<in>set ps. P u v))"

lemma drawn_refl [simp]: "drawn_in s color P s"
  unfolding drawn_in_def by (intro exI[of _ "[]"]) simp

lemma drawn_pixel: "drawn_in s color P t \<Longrightarrow> P x y \<Longrightarrow> drawn_in s color P (draw_pixel x y color t)"
  unfolding drawn_in_def by (elim exE, rule_tac x = "ps @ [(x, y)]" in exI) auto

lemma drawn_trans: "drawn_in s color P t \<Longrightarrow> drawn_in t color P u \<Longrightarrow> drawn_in s color P u"
  unfolding drawn_in_def by (elim exE, rule_tac x = "ps @ psa" in exI) auto

lemma drawn_row:
  assumes "drawn_in s color P t" "0 \<le> k" "k < 2 ^ 29" "\<And>u. \<bar>u - a\<bar> \<le> k \<Longrightarrow> P u b"
  shows "drawn_in s color P (draw_line (a - k) b (a + k) b color t)"
  using assms(1)
proof (rule drawn_trans)
  show "drawn_in t color P (draw_line (a - k) b (a + k) b color t)"
    using draw_row_pixels[of k a b color t] assms(2-4) unfolding drawn_in_def by fastforce
qed

lemma circle_loop_drawn:
  assumes "radius < 2 ^ 29" "0 \<le> y" "x \<le> radius" "drawn_in s0 color (\<lambda>u v. \<bar>u - x0\<bar> \<le> radius \<and> \<bar>v - y0\<bar> \<le> radius) s"
  shows "drawn_in s0 color (\<lambda>u v. \<bar>u - x0\<bar> \<le> radius \<and> \<bar>v - y0\<bar> \<le> radius) (circle_loop x0 y0 color fill x y err s)"
  using assms(2-)
proof (induction x0 y0 color fill x y err s rule: circle_loop.induct)
  case (1 x0 y0 color fill x y err s)
  let ?P = "\<lambda>u v. \<bar>u - x0\<bar> \<le> radius \<and> \<bar>v - y0\<bar> \<le> radius"
  show ?case
  proof (cases "x \<ge> y")
    case True
    have l: "drawn_in s0 color ?P (if fill then circle_lines x0 y0 color x y s else s)"
      using 1(2-) True assms(1) by (auto simp: circle_lines_def Let_def intro!: drawn_row)
    then have "drawn_in s0 color ?P (circle_pixels x0 y0 color x y (if fill then circle_lines x0 y0 color x y s else s))"
      using 1(2-) True by (auto simp: circle_pixels_def Let_def intro!: drawn_pixel)
    then show ?thesis using 1(1)[OF True refl refl refl refl refl refl] 1(2-) True by (subst circle_loop.simps) (simp add: Let_def)
  next
    case False
    then show ?thesis using 1(4) by (simp add: circle_loop.simps)
  qed
qed

section \<open>The visible area\<close>

definition screen_ok :: "framebuffer \<Rightarrow> bool" where
  "screen_ok f \<longleftrightarrow> 4 * uint (fb_width f) \<le> uint (fb_pitch f) \<and> uint (fb_buf f) + uint (fb_pitch f) * uint (fb_height f) \<le> 2 ^ 32"

definition visible :: "framebuffer \<Rightarrow> int \<Rightarrow> int \<Rightarrow> bool" where
  "visible f x y \<longleftrightarrow> 0 \<le> x \<and> x < uint (fb_width f) \<and> 0 \<le> y \<and> y < uint (fb_height f)"

text \<open>The addresses of the buffer.\<close>

definition in_buffer :: "framebuffer \<Rightarrow> addr \<Rightarrow> bool" where
  "in_buffer f a \<longleftrightarrow> uint (fb_buf f) \<le> uint a \<and> uint a + 4 \<le> uint (fb_buf f) + uint (fb_pitch f) * uint (fb_height f)"

lemma pixel_row_bound:
  assumes "screen_ok f" "visible f x y"
  shows "uint (fb_pitch f) * y + 4 * x + 4 \<le> uint (fb_pitch f) * uint (fb_height f)"
proof -
  have "uint (fb_pitch f) * (y + 1) \<le> uint (fb_pitch f) * uint (fb_height f)"
    using assms by (intro mult_left_mono) (auto simp: visible_def)
  moreover have "4 * x + 4 \<le> uint (fb_pitch f)" using assms by (auto simp: visible_def screen_ok_def)
  ultimately show ?thesis by (simp add: distrib_left)
qed

lemma uint_pixel_addr:
  assumes "screen_ok f" "visible f x y"
  shows "uint (pixel_addr f x y) = uint (fb_buf f) + uint (fb_pitch f) * y + 4 * x"
proof -
  let ?k = "uint (fb_buf f) + uint (fb_pitch f) * y + 4 * x"
  have "0 \<le> uint (fb_pitch f) * y" using assms(2) by (auto simp: visible_def)
  then have k: "0 \<le> ?k" "?k < 2 ^ 32"
    using pixel_row_bound[OF assms] assms by (auto simp: screen_ok_def visible_def)
  have "(ucast (fb_buf f) :: u32) = word_of_int (uint (fb_buf f))" "fb_pitch f = word_of_int (uint (fb_pitch f))" by simp_all
  then have w: "(ucast (fb_buf f) + (of_int x * 4 + of_int y * fb_pitch f) :: u32) = word_of_int ?k"
    by (metis (no_types, opaque_lifting) add.assoc add.commute mult.commute of_int_add of_int_mult of_int_numeral)
  have "uint (word_of_int ?k :: u32) = ?k" using k by (simp add: unsigned_of_int take_bit_int_eq_self del: of_int_add of_int_mult)
  moreover have "uint (ucast (v :: u32) :: addr) = uint v" for v by (rule uint_up_ucast) (simp add: is_up)
  ultimately show ?thesis unfolding pixel_addr_def w by simp
qed

lemma pixel_addr_inj:
  assumes "screen_ok f" "visible f x y" "visible f u v" "pixel_addr f x y = pixel_addr f u v"
  shows "x = u \<and> y = v"
proof -
  let ?p = "uint (fb_pitch f)"
  have eq: "?p * y + 4 * x = ?p * v + 4 * u"
    using uint_pixel_addr[OF assms(1,2)] uint_pixel_addr[OF assms(1,3)] assms(4) by simp
  have b: "0 \<le> 4 * x" "4 * x < ?p" "0 \<le> 4 * u" "4 * u < ?p"
    using assms(1-3) by (auto simp: visible_def screen_ok_def)
  then have "y = (?p * y + 4 * x) div ?p" "v = (?p * v + 4 * u) div ?p" by simp_all
  then show ?thesis using eq by simp
qed

lemma pixel_in_buffer: "screen_ok f \<Longrightarrow> visible f x y \<Longrightarrow> in_buffer f (pixel_addr f x y)"
  using pixel_row_bound[of f x y] by (simp add: in_buffer_def uint_pixel_addr) (auto simp: visible_def)

text \<open>What drawing visible pixels changes.\<close>

lemma draw_pixels_visible:
  assumes "screen_ok (fb s)" "\<And>u v. (u, v) \<in> set ps \<Longrightarrow> visible (fb s) u v"
  shows "visible (fb s) x y \<Longrightarrow>
      words (draw_pixels ps color s) (pixel_addr (fb s) x y) = (if (x, y) \<in> set ps then color else words s (pixel_addr (fb s) x y))"
    and "\<not> in_buffer (fb s) a \<Longrightarrow> words (draw_pixels ps color s) a = words s a"
proof -
  show "words (draw_pixels ps color s) (pixel_addr (fb s) x y) = (if (x, y) \<in> set ps then color else words s (pixel_addr (fb s) x y))"
    if v: "visible (fb s) x y"
  proof -
    have "(\<exists>p\<in>set ps. pixel_addr (fb s) x y = pixel_addr (fb s) (fst p) (snd p)) \<longleftrightarrow> (x, y) \<in> set ps"
    proof
      assume "\<exists>p\<in>set ps. pixel_addr (fb s) x y = pixel_addr (fb s) (fst p) (snd p)"
      then obtain u w where p: "(u, w) \<in> set ps" "pixel_addr (fb s) x y = pixel_addr (fb s) u w" by auto
      then show "(x, y) \<in> set ps" using pixel_addr_inj[OF assms(1) v assms(2)[OF p(1)] p(2)] by simp
    qed force
    then show ?thesis by (simp add: draw_pixels_state)
  qed
  show "words (draw_pixels ps color s) a = words s a" if "\<not> in_buffer (fb s) a"
    using that assms(2) pixel_in_buffer[OF assms(1)] by (auto simp: draw_pixels_state)
qed

lemma fold_glyph_bits:
  "fold (\<lambda>j s. if P j then draw_pixel (x + int j) y color s else s) js s = draw_pixels (map (\<lambda>j. (x + int j, y)) (filter P js)) color s"
  by (induction js arbitrary: s) auto

definition glyph_points :: "u8 list \<Rightarrow> int \<Rightarrow> int \<Rightarrow> (int \<times> int) list" where
  "glyph_points g x y = concat (map (\<lambda>i. map (\<lambda>j. (x + int j, y + int i)) (filter (bit (g ! i)) [0..<8])) [0..<8])"

lemma test_bit_and: "(w AND push_bit j 1 \<noteq> 0) = bit (w :: u8) j"
  by (simp add: bit_iff_and_push_bit_not_eq_0)

lemma draw_char_pixels:
  "draw_char ch x y color s = draw_pixels (glyph_points (font ! (if unat ch < 224 then unat ch else 0)) x y) color s"
  unfolding draw_char_def glyph_points_def draw_pixels_concat Let_def glyph_line_def[abs_def] fold_glyph_bits test_bit_and
    FONT_NUMGLYPHS_def FONT_WIDTH_def FONT_HEIGHT_def ..

section \<open>Setting up the display\<close>

lemma unless_step:
  assumes P: "mailbox_protocol D idle busy answered rank respond" "idle (dev s)" "buffer_addr (mbox s)"
    and c: "c = map_option (\<lambda>t. (v t, G t)) (mail_call D (mbox s) ws s)"
    and G: "\<And>t. dev (G t) = dev t \<and> mbox (G t) = mbox t"
    and k: "\<And>t. idle (dev t) \<Longrightarrow> buffer_addr (mbox t) \<Longrightarrow> \<exists>u. k t = Some (0, u) \<and> Q u"
  shows "\<exists>u. unless_negative c k = Some (0, u) \<and> Q u"
proof -
  obtain d where d: "idle d" "mail_call D (mbox s) ws s = Some (s\<lparr>dev := d, words := respond (mail_word (mbox s)) (put_words (mbox s) ws (words s))\<rparr>)"
    using mail_call_returns[OF P, of ws] by blast
  then show ?thesis
    using k[of "G (s\<lparr>dev := d, words := respond (mail_word (mbox s)) (put_words (mbox s) ws (words s))\<rparr>)"] G P(3)
    by (simp add: c unless_negative_def)
qed

lemmas display_calls = set_display_wh_def set_virt_wh_def set_virt_offset_def set_display_depth_def set_pixel_order_def
  allocate_framebuffer_def get_pitch_def

lemma choose_size_returns:
  assumes "mailbox_protocol D idle busy answered rank respond" "idle (dev s)" "buffer_addr (mbox s)"
  shows "\<exists>t. choose_size D width height s = Some t \<and> idle (dev t) \<and> buffer_addr (mbox t)"
proof -
  obtain d m where "mail_call D (mbox s) [4 * 8, 0, GET_DISPLAY, 8, 8, 0, 0, 0] s = Some (s\<lparr>dev := d, words := m\<rparr>)" "idle d"
    using mail_call_returns[OF assms] by blast
  then show ?thesis using assms(2,3) by (simp add: choose_size_def get_display_wh_def set_fb_def)
qed

lemma unless_no_error:
  assumes "\<And>s. map_option fst (k s) \<in> {None, Some 0}"
  shows "map_option fst (unless_negative c k) \<in> {None, Some 0}"
  using assms by (cases c) (simp_all add: unless_negative_def case_prod_beta)

section \<open>Properties\<close>

text \<open>
  C17: On a screen whose lines fit the pitch and whose buffer lies below 4 GB, \<^verbatim>\<open>draw_rect\<close> of a
  rectangle inside the visible area sets exactly the pixels of the rectangle (all of them when filled, the
  border otherwise) to the colour, leaves every other visible pixel as it was and writes nothing outside the
  frame buffer.\<close>

theorem draw_rect_exact:
  assumes "screen_ok (fb s)" "0 \<le> x1" "x2 < uint (fb_width (fb s))" "0 \<le> y1" "y2 < uint (fb_height (fb s))"
  shows "(visible (fb s) x y \<longrightarrow> words (draw_rect x1 y1 x2 y2 color fill s) (pixel_addr (fb s) x y) =
      (if (x, y) \<in> rect_points x1 y1 x2 y2 fill then color else words s (pixel_addr (fb s) x y))) \<and>
    (\<not> in_buffer (fb s) a \<longrightarrow> words (draw_rect x1 y1 x2 y2 color fill s) a = words s a)"
proof -
  obtain ps where ps: "draw_rect x1 y1 x2 y2 color fill s = draw_pixels ps color s" "set ps = rect_points x1 y1 x2 y2 fill"
    by (rule draw_rect_pixels)
  then have "visible (fb s) u v" if "(u, v) \<in> set ps" for u v
    using that assms(2-5) by (auto simp: rect_points_def visible_def)
  then show ?thesis using draw_pixels_visible[OF assms(1), of ps] ps by simp
qed

definition demo_fb :: framebuffer where
  "demo_fb = \<lparr>fb_width = 640, fb_height = 480, fb_depth = 32, virtWidth = 640, virtHeight = 480, pixel_order = 1, palette = 0,
     fb_buf = 0x3c100000, buf_size = 1228800, fb_pitch = 2560\<rparr>"

definition demo_machine :: "demo_dev machine" where
  "demo_machine = \<lparr>words = \<lambda>_. 0, early_mbox = 0x80000, mbox = 0x80000, arm_base_address = 0, arm_size = 0,
     vc_base_address = 0, vc_size = 0, fb = demo_fb, dev = Idle\<rparr>"

lemma demo_screen: "screen_ok (fb demo_machine)" "fb_width (fb demo_machine) = 640" "fb_height (fb demo_machine) = 480"
  by (simp_all add: demo_machine_def demo_fb_def screen_ok_def)

theorem draw_rect_exact_witness:
  "words (draw_rect 10 20 30 40 7 False demo_machine) (pixel_addr demo_fb 10 25) = 7 \<and>
   words (draw_rect 10 20 30 40 7 False demo_machine) (pixel_addr demo_fb 11 25) = 0"
  using draw_rect_exact[of demo_machine 10 30 20 40 10 25 7 False 0] draw_rect_exact[of demo_machine 10 30 20 40 11 25 7 False 0]
  by (simp add: demo_screen visible_def rect_points_def) (simp add: demo_machine_def)

text \<open>
  C18: On a screen of up to 16384 by 16384 pixels \<^verbatim>\<open>draw_line\<close> draws one pixel in every column from the first to the one
  before the last, none when the line does not go to the right. When the slope is between 0 and 1, each pixel is at most
  half a pixel away from the ideal line. When the line is steeper, the pixels go up by one per column, wherever the end
  is, and when it falls they all stay in the first row.\<close>

theorem draw_line_shape:
  assumes "0 \<le> x1" "0 \<le> y1" "0 \<le> x2" "0 \<le> y2" "x1 < 16384" "y1 < 16384" "x2 < 16384" "y2 < 16384"
  shows "\<exists>ps. draw_line x1 y1 x2 y2 color s = draw_pixels ps color s \<and> map fst ps = [x1..x2 - 1] \<and>
    (\<forall>(u, v)\<in>set ps.
       if y2 < y1 then v = y1 else if x2 - x1 < y2 - y1 then v - y1 = u - x1
       else 2 * \<bar>(x2 - x1) * (v - y1) - (y2 - y1) * (u - x1)\<bar> \<le> x2 - x1)"
proof -
  have "2 * \<bar>(x2 - x1) * (v - y1) - (y2 - y1) * (u - x1)\<bar> = \<bar>2 * (y2 - y1) * (u - x1) - 2 * (x2 - x1) * (v - y1)\<bar>" for u v
    unfolding mult.assoc by arith
  then show ?thesis using draw_line_pixels[OF assms, of color s] by (simp only:)
qed

theorem draw_line_shape_witness:
  "(\<exists>ps. draw_line 0 0 4 2 7 demo_machine = draw_pixels ps 7 demo_machine \<and> map fst ps = [0..3]) \<and>
   (\<exists>ps. draw_line 5 0 8 300 7 demo_machine = draw_pixels ps 7 demo_machine \<and> (\<forall>(u, v)\<in>set ps. v = u - 5))"
proof
  show "\<exists>ps. draw_line 0 0 4 2 7 demo_machine = draw_pixels ps 7 demo_machine \<and> map fst ps = [0..3]"
    using draw_line_shape[of 0 0 4 2 7 demo_machine] by auto
  show "\<exists>ps. draw_line 5 0 8 300 7 demo_machine = draw_pixels ps 7 demo_machine \<and> (\<forall>(u, v)\<in>set ps. v = u - 5)"
    using draw_line_shape[of 5 0 8 300 7 demo_machine] by auto
qed

text \<open>
  \<^verbatim>\<open>draw_circle\<close> terminates for every radius and, below \<open>2 ^ 29\<close>, changes only pixels whose distance from the
  centre is at most the radius in both coordinates; when that square is visible it writes nothing outside the
  frame buffer.\<close>

theorem draw_circle_within:
  assumes "screen_ok (fb s)" "radius < 2 ^ 29" "radius \<le> x0" "x0 + radius < uint (fb_width (fb s))" "radius \<le> y0" "y0 + radius < uint (fb_height (fb s))"
  shows "(visible (fb s) x y \<and> (\<bar>x - x0\<bar> > radius \<or> \<bar>y - y0\<bar> > radius) \<longrightarrow>
      words (draw_circle x0 y0 radius color fill s) (pixel_addr (fb s) x y) = words s (pixel_addr (fb s) x y)) \<and>
    (\<not> in_buffer (fb s) a \<longrightarrow> words (draw_circle x0 y0 radius color fill s) a = words s a)"
proof -
  obtain ps where ps: "draw_circle x0 y0 radius color fill s = draw_pixels ps color s"
      "\<forall>(u, v)\<in>set ps. \<bar>u - x0\<bar> \<le> radius \<and> \<bar>v - y0\<bar> \<le> radius"
    using circle_loop_drawn[of radius 0 radius s color x0 y0 s fill 0] assms(2) by (auto simp: drawn_in_def draw_circle_def)
  then have "visible (fb s) u v" if "(u, v) \<in> set ps" for u v
    using that assms(3-6) by (fastforce simp: visible_def)
  moreover have "(x, y) \<notin> set ps" if "\<bar>x - x0\<bar> > radius \<or> \<bar>y - y0\<bar> > radius" using that ps(2) by auto
  ultimately show ?thesis using draw_pixels_visible[OF assms(1), of ps] ps(1) by auto
qed

theorem draw_circle_within_witness:
  "words (draw_circle 100 100 50 7 True demo_machine) (pixel_addr demo_fb 151 100) = 0"
  using draw_circle_within[of demo_machine 50 100 100 151 100 7 True 0]
  by (simp add: demo_screen visible_def) (simp add: demo_machine_def)

text \<open>
  \<^verbatim>\<open>draw_char\<close> with its 8 by 8 cell inside the visible area sets the pixel in column \<open>j\<close> and
  line \<open>i\<close> of the cell exactly when bit \<open>j\<close> of line \<open>i\<close> of the glyph is set (glyph 0 for the characters
  from 224 on), and writes nothing outside the frame buffer.\<close>

theorem draw_char_exact:
  assumes "screen_ok (fb s)" "0 \<le> x" "x + 8 \<le> uint (fb_width (fb s))" "0 \<le> y" "y + 8 \<le> uint (fb_height (fb s))" "i < 8" "j < 8"
  shows "words (draw_char ch x y color s) (pixel_addr (fb s) (x + int j) (y + int i)) =
      (if bit (font ! (if unat ch < 224 then unat ch else 0) ! i) j then color else words s (pixel_addr (fb s) (x + int j) (y + int i))) \<and>
    (\<not> in_buffer (fb s) a \<longrightarrow> words (draw_char ch x y color s) a = words s a)"
proof -
  let ?g = "font ! (if unat ch < 224 then unat ch else 0)"
  have "visible (fb s) u v" if "(u, v) \<in> set (glyph_points ?g x y)" for u v
    using that assms(2-5) by (auto simp: glyph_points_def visible_def)
  moreover have "visible (fb s) (x + int j) (y + int i)" using assms by (auto simp: visible_def)
  moreover have "(x + int j, y + int i) \<in> set (glyph_points ?g x y) \<longleftrightarrow> bit (?g ! i) j"
    using assms(6,7) by (auto simp: glyph_points_def)
  ultimately show ?thesis using draw_pixels_visible[OF assms(1), of "glyph_points ?g x y"] by (simp only: draw_char_pixels) auto
qed

theorem draw_char_exact_witness:
  "words (draw_char 33 0 0 7 demo_machine) (pixel_addr demo_fb 3 0) = 7 \<and> words (draw_char 33 0 0 7 demo_machine) (pixel_addr demo_fb 0 0) = 0"
  using draw_char_exact[of demo_machine 0 0 0 3 33 7 0] draw_char_exact[of demo_machine 0 0 0 0 33 7 0]
  by (simp add: demo_screen) (simp add: demo_machine_def font_def)

text \<open>
  C16: With a firmware that keeps the protocol of the mailbox and a buffer address it can reach,
  \<^verbatim>\<open>init_framebuffer\<close> returns: each of its calls is answered. It ends with \<^verbatim>\<open>E_NOERR\<close>, the table of
  colours in place and the mailbox idle again.\<close>

theorem init_framebuffer_returns:
  assumes "mailbox_protocol D idle busy answered rank respond" "idle (dev s)" "buffer_addr (mbox s)"
  shows "\<exists>t. init_framebuffer D basepal width height depth s = Some (0, t) \<and> palette (fb t) = basepal \<and> idle (dev t)"
proof -
  note step = unless_step[OF assms(1)]
  obtain s1 where s1: "choose_size D width height s = Some s1" "idle (dev s1)" "buffer_addr (mbox s1)"
    using choose_size_returns[OF assms] by blast
  show ?thesis
    unfolding init_framebuffer_def s1(1) bind.bind_lunit display_calls
    by (rule step, rule s1, rule s1, rule refl, simp add: set_fb_def,
        (rule step, assumption, assumption, rule refl, simp add: set_fb_def)+) (simp add: set_fb_def)
qed

theorem init_framebuffer_returns_witness:
  "\<exists>t. init_framebuffer demo_mailbox 0x9000 0 0 32 demo_machine = Some (0, t) \<and> palette (fb t) = 0x9000"
  using init_framebuffer_returns[OF demo_mailbox_protocol, of demo_machine "0x9000" 0 0 32]
  by (auto simp: demo_machine_def buffer_addr_def)

text \<open>
  Whatever the firmware answers, \<^verbatim>\<open>init_framebuffer\<close> never reports a failure: the results are
  unsigned, so none of the tests for a negative one can hold.\<close>

theorem init_framebuffer_never_fails:
  "map_option fst (init_framebuffer D basepal width height depth s) \<in> {None, Some 0}"
  unfolding init_framebuffer_def
  by (cases "choose_size D width height s") (simp, simp only: bind.bind_lunit, (rule unless_no_error)+, simp)

end
