(* ===== verification/RBTree.thy ===== *)
theory RBTree
  imports Prelude
begin

text \<open>
  The red-black trees of \<^verbatim>\<open>kernel/src/stdlib/rbtree.c\<close> and \<^verbatim>\<open>kernel/include/stdlib/rbtree.h\<close>, at the level
  of pointers: a node keeps the address of its parent and its colour in one word (the colour in bit 0). The store
  holds the nodes and the pointer of the root. A dereference of \<open>NULL\<close> is the fault \<open>NullDeref\<close>; the
  loops are partial functions, one step of the loop of a rebalancing being a function of its own. The callbacks for
  augmented trees are arguments.
\<close>

section \<open>Nodes\<close>

record rb_node =
  rb_parent_color :: u64
  rb_right :: addr
  rb_left :: addr

record rb_tree =
  rbn :: "addr \<Rightarrow> rb_node"
  rb_root :: addr

definition RB_RED :: u64 where "RB_RED = 0"
definition RB_BLACK :: u64 where "RB_BLACK = 1"

definition pc_parent :: "u64 \<Rightarrow> addr" where "pc_parent pc = pc AND NOT 3"
definition pc_is_black :: "u64 \<Rightarrow> bool" where "pc_is_black pc \<longleftrightarrow> pc AND 1 \<noteq> 0"

definition rb_parent :: "rb_tree \<Rightarrow> addr \<Rightarrow> addr" where
  "rb_parent s a = pc_parent (rb_parent_color (rbn s a))"

definition rb_is_black :: "rb_tree \<Rightarrow> addr \<Rightarrow> bool" where
  "rb_is_black s a \<longleftrightarrow> pc_is_black (rb_parent_color (rbn s a))"

definition rb_is_red :: "rb_tree \<Rightarrow> addr \<Rightarrow> bool" where
  "rb_is_red s a \<longleftrightarrow> \<not> pc_is_black (rb_parent_color (rbn s a))"

definition rb_red_parent :: "rb_tree \<Rightarrow> addr \<Rightarrow> addr" where
  "rb_red_parent s a = rb_parent_color (rbn s a)"

definition upd :: "addr \<Rightarrow> (rb_node \<Rightarrow> rb_node) \<Rightarrow> rb_tree \<Rightarrow> rb_tree" where
  "upd a f s = s\<lparr>rbn := (rbn s)(a := f (rbn s a))\<rparr>"

definition set_left :: "addr \<Rightarrow> addr \<Rightarrow> rb_tree \<Rightarrow> rb_tree" where
  "set_left a v = upd a (rb_left_update (\<lambda>_. v))"

definition set_right :: "addr \<Rightarrow> addr \<Rightarrow> rb_tree \<Rightarrow> rb_tree" where
  "set_right a v = upd a (rb_right_update (\<lambda>_. v))"

definition set_pc :: "addr \<Rightarrow> u64 \<Rightarrow> rb_tree \<Rightarrow> rb_tree" where
  "set_pc a v = upd a (rb_parent_color_update (\<lambda>_. v))"

definition rb_set_black :: "addr \<Rightarrow> rb_tree \<Rightarrow> rb_tree" where
  "rb_set_black a s = set_pc a (rb_parent_color (rbn s a) OR RB_BLACK) s"

definition rb_set_parent :: "addr \<Rightarrow> addr \<Rightarrow> rb_tree \<Rightarrow> rb_tree" where
  "rb_set_parent a p s = set_pc a ((rb_parent_color (rbn s a) AND 1) OR p) s"

definition rb_set_parent_color :: "addr \<Rightarrow> addr \<Rightarrow> u64 \<Rightarrow> rb_tree \<Rightarrow> rb_tree" where
  "rb_set_parent_color a p color s = set_pc a (p OR color) s"

definition rb_change_child :: "addr \<Rightarrow> addr \<Rightarrow> addr \<Rightarrow> rb_tree \<Rightarrow> rb_tree" where
  "rb_change_child old new parent s =
     (if parent \<noteq> NULL then
        (if rb_left (rbn s parent) = old then set_left parent new s else set_right parent new s)
      else s\<lparr>rb_root := new\<rparr>)"

definition rb_rotate_set_parents :: "addr \<Rightarrow> addr \<Rightarrow> u64 \<Rightarrow> rb_tree \<Rightarrow> rb_tree" where
  "rb_rotate_set_parents old new color s =
     (let parent = rb_parent s old;
          s = set_pc new (rb_parent_color (rbn s old)) s;
          s = rb_set_parent_color old new color s
      in rb_change_child old new parent s)"

definition rb_link_node :: "addr \<Rightarrow> addr \<Rightarrow> rb_tree \<Rightarrow> rb_tree" where
  "rb_link_node node parent s = set_left node NULL (set_right node NULL (set_pc node parent s))"

section \<open>Rebalancing after an insertion\<close>

text \<open>A callback is called with the old and the new top of a rotated subtree.\<close>

type_synonym rotate_fn = "addr \<Rightarrow> addr \<Rightarrow> rb_tree \<Rightarrow> rb_tree"

definition dummy_rotate :: rotate_fn where "dummy_rotate old new s = s"

text \<open>One step of a loop: it ends, or goes on at a node and its parent.\<close>

datatype outcome = Done rb_tree | Again addr addr rb_tree

text \<open>The colour flip, the same on both sides; \<open>tmp\<close> is the uncle.\<close>

definition insert_flip :: "addr \<Rightarrow> addr \<Rightarrow> addr \<Rightarrow> rb_tree \<Rightarrow> outcome" where
  "insert_flip parent gparent tmp s =
     (let s = rb_set_parent_color tmp gparent RB_BLACK s;
          s = rb_set_parent_color parent gparent RB_BLACK s;
          up = rb_parent s gparent
      in Again gparent up (rb_set_parent_color gparent up RB_RED s))"

text \<open>Case 2 for a parent on the left: rotate left at the parent; then the new parent and \<^verbatim>\<open>tmp\<close>.\<close>

definition insert_case2_left :: "rotate_fn \<Rightarrow> addr \<Rightarrow> addr \<Rightarrow> rb_tree \<Rightarrow> addr \<times> addr \<times> rb_tree" where
  "insert_case2_left rot node parent s =
     (let tmp = rb_left (rbn s node);
          s = set_right parent tmp s;
          s = set_left node parent s;
          s = (if tmp \<noteq> NULL then rb_set_parent_color tmp parent RB_BLACK s else s);
          s = rb_set_parent_color parent node RB_RED s;
          s = rot parent node s
      in (node, rb_right (rbn s node), s))"

text \<open>Case 3 for a parent on the left: rotate right at the grandparent.\<close>

definition insert_case3_left :: "rotate_fn \<Rightarrow> addr \<Rightarrow> addr \<Rightarrow> addr \<Rightarrow> rb_tree \<Rightarrow> rb_tree" where
  "insert_case3_left rot gparent parent tmp s =
     (let s = set_left gparent tmp s;
          s = set_right parent gparent s;
          s = (if tmp \<noteq> NULL then rb_set_parent_color tmp gparent RB_BLACK s else s);
          s = rb_rotate_set_parents gparent parent RB_RED s
      in rot gparent parent s)"

text \<open>The same for a parent on the right.\<close>

definition insert_case2_right :: "rotate_fn \<Rightarrow> addr \<Rightarrow> addr \<Rightarrow> rb_tree \<Rightarrow> addr \<times> addr \<times> rb_tree" where
  "insert_case2_right rot node parent s =
     (let tmp = rb_right (rbn s node);
          s = set_left parent tmp s;
          s = set_right node parent s;
          s = (if tmp \<noteq> NULL then rb_set_parent_color tmp parent RB_BLACK s else s);
          s = rb_set_parent_color parent node RB_RED s;
          s = rot parent node s
      in (node, rb_left (rbn s node), s))"

definition insert_case3_right :: "rotate_fn \<Rightarrow> addr \<Rightarrow> addr \<Rightarrow> addr \<Rightarrow> rb_tree \<Rightarrow> rb_tree" where
  "insert_case3_right rot gparent parent tmp s =
     (let s = set_right gparent tmp s;
          s = set_left parent gparent s;
          s = (if tmp \<noteq> NULL then rb_set_parent_color tmp gparent RB_BLACK s else s);
          s = rb_rotate_set_parents gparent parent RB_RED s
      in rot gparent parent s)"

definition insert_step :: "rotate_fn \<Rightarrow> addr \<Rightarrow> addr \<Rightarrow> rb_tree \<Rightarrow> outcome result" where
  "insert_step rot node parent s =
     (if parent = NULL then Inr (Done (rb_set_parent_color node NULL RB_BLACK s))
      else if rb_is_black s parent then Inr (Done s)
      else
        (let gparent = rb_red_parent s parent
         in if gparent = NULL then Inl NullDeref
            else
              (let tmp = rb_right (rbn s gparent)
               in if parent \<noteq> tmp then
                    (if tmp \<noteq> NULL \<and> rb_is_red s tmp then Inr (insert_flip parent gparent tmp s)
                     else
                       (let tmp = rb_right (rbn s parent);
                            (parent, tmp, s) = (if node = tmp then insert_case2_left rot node parent s else (parent, tmp, s))
                        in Inr (Done (insert_case3_left rot gparent parent tmp s))))
                  else
                    (let tmp = rb_left (rbn s gparent)
                     in if tmp \<noteq> NULL \<and> rb_is_red s tmp then Inr (insert_flip parent gparent tmp s)
                        else
                          (let tmp = rb_left (rbn s parent);
                               (parent, tmp, s) = (if node = tmp then insert_case2_right rot node parent s else (parent, tmp, s))
                           in Inr (Done (insert_case3_right rot gparent parent tmp s)))))))"

lemma outcome_mono [partial_function_mono]:
  assumes "\<And>a. mono_option (\<lambda>f. F f a)" and "\<And>a b c. mono_option (\<lambda>f. G f a b c)"
  shows "mono_option (\<lambda>f. case w of Done a \<Rightarrow> F f a | Again a b c \<Rightarrow> G f a b c)"
  using assms by (cases w) simp_all

lemma sum_mono [partial_function_mono]:
  assumes "\<And>a. mono_option (\<lambda>f. F f a)" and "\<And>a. mono_option (\<lambda>f. G f a)"
  shows "mono_option (\<lambda>f. case w of Inl a \<Rightarrow> F f a | Inr a \<Rightarrow> G f a)"
  using assms by (cases w) simp_all

partial_function (option) rb_insert_loop :: "rotate_fn \<Rightarrow> addr \<Rightarrow> addr \<Rightarrow> rb_tree \<Rightarrow> rb_tree result option" where
  "rb_insert_loop rot node parent s =
     (case insert_step rot node parent s of
        Inl e \<Rightarrow> Some (Inl e)
      | Inr w \<Rightarrow> (case w of Done s \<Rightarrow> Some (Inr s) | Again n p s \<Rightarrow> rb_insert_loop rot n p s))"

definition rb_insert_augmented :: "rotate_fn \<Rightarrow> addr \<Rightarrow> rb_tree \<Rightarrow> rb_tree result option" where
  "rb_insert_augmented rot node s =
     (if node = NULL then Some (Inl NullDeref) else rb_insert_loop rot node (rb_red_parent s node) s)"

definition rb_insert_color :: "addr \<Rightarrow> rb_tree \<Rightarrow> rb_tree result option" where
  "rb_insert_color node s = rb_insert_augmented dummy_rotate node s"

section \<open>Removing\<close>

text \<open>The callbacks of \<^verbatim>\<open>struct rb_augment_callbacks\<close> and the ones that do nothing.\<close>

record rb_augment_callbacks =
  propagate :: "addr \<Rightarrow> addr \<Rightarrow> rb_tree \<Rightarrow> rb_tree"
  copy :: "addr \<Rightarrow> addr \<Rightarrow> rb_tree \<Rightarrow> rb_tree"
  rotation :: rotate_fn

definition dummy_callbacks :: rb_augment_callbacks where
  "dummy_callbacks = \<lparr>propagate = \<lambda>_ _ s. s, copy = \<lambda>_ _ s. s, rotation = dummy_rotate\<rparr>"

text \<open>The loop that looks for the successor: its last two nodes.\<close>

partial_function (option) successor_loop :: "rb_tree \<Rightarrow> addr \<Rightarrow> addr \<Rightarrow> (addr \<times> addr) option" where
  "successor_loop s successor tmp =
     (if rb_left (rbn s tmp) \<noteq> NULL then successor_loop s tmp (rb_left (rbn s tmp)) else Some (successor, tmp))"

text \<open>Unlinking a node with two children: the successor takes its place. The result has the parent at which
  to rebalance.\<close>

definition erase_replace ::
  "rb_augment_callbacks \<Rightarrow> addr \<Rightarrow> addr \<Rightarrow> addr \<Rightarrow> addr \<Rightarrow> rb_tree \<Rightarrow> addr \<times> rb_tree" where
  "erase_replace augment node successor parent child2 s =
     (let tmp = rb_left (rbn s node);
          s = set_left successor tmp s;
          s = rb_set_parent tmp successor s;
          pc = rb_parent_color (rbn s node);
          tmp = pc_parent pc;
          s = rb_change_child node successor tmp s;
          (rebalance, s) =
            (if child2 \<noteq> NULL then (NULL, rb_set_parent_color child2 parent RB_BLACK s)
             else (if rb_is_black s successor then parent else NULL, s));
          s = set_pc successor pc s
      in (rebalance, propagate augment successor NULL s))"

definition rb_erase_augmented :: "rb_augment_callbacks \<Rightarrow> addr \<Rightarrow> rb_tree \<Rightarrow> (addr \<times> rb_tree) option" where
  "rb_erase_augmented augment node s =
     (let child = rb_right (rbn s node);
          tmp = rb_left (rbn s node);
          pc = rb_parent_color (rbn s node);
          parent = pc_parent pc
      in if tmp = NULL then
           (let s = rb_change_child node child parent s;
                (rebalance, s) =
                  (if child \<noteq> NULL then (NULL, set_pc child pc s) else (if pc_is_black pc then parent else NULL, s))
            in Some (rebalance, propagate augment parent NULL s))
         else if child = NULL then
           (let s = set_pc tmp pc s;
                s = rb_change_child node tmp parent s
            in Some (NULL, propagate augment parent NULL s))
         else if rb_left (rbn s child) = NULL then
           (let successor = child;
                child2 = rb_right (rbn s successor)
            in Some (erase_replace augment node successor successor child2 (copy augment node successor s)))
         else
           map_option (\<lambda>(parent, successor).
             (let child2 = rb_right (rbn s successor);
                  s = set_left parent child2 s;
                  s = set_right successor child s;
                  s = rb_set_parent child successor s;
                  s = copy augment node successor s;
                  s = propagate augment parent successor s
              in erase_replace augment node successor parent child2 s))
             (successor_loop s child (rb_left (rbn s child))))"

text \<open>Rebalancing after a removal. The cases for a node on the left of its parent: case 1 rotates at the
  parent when the sibling is red, case 3 at the sibling, case 4 at the parent.\<close>

definition erase_case1_left :: "rotate_fn \<Rightarrow> addr \<Rightarrow> addr \<Rightarrow> rb_tree \<Rightarrow> (addr \<times> rb_tree) result" where
  "erase_case1_left rot parent sibling s =
     (let tmp1 = rb_left (rbn s sibling)
      in if tmp1 = NULL then Inl NullDeref
         else
           (let s = set_right parent tmp1 s;
                s = set_left sibling parent s;
                s = rb_set_parent_color tmp1 parent RB_BLACK s;
                s = rb_rotate_set_parents parent sibling RB_RED s
            in Inr (tmp1, rot parent sibling s)))"

definition erase_case3_left :: "rotate_fn \<Rightarrow> addr \<Rightarrow> addr \<Rightarrow> addr \<Rightarrow> rb_tree \<Rightarrow> rb_tree" where
  "erase_case3_left rot parent sibling tmp2 s =
     (let tmp1 = rb_right (rbn s tmp2);
          s = set_left sibling tmp1 s;
          s = set_right tmp2 sibling s;
          s = set_right parent tmp2 s;
          s = (if tmp1 \<noteq> NULL then rb_set_parent_color tmp1 sibling RB_BLACK s else s)
      in rot sibling tmp2 s)"

definition erase_case4_left :: "rotate_fn \<Rightarrow> addr \<Rightarrow> addr \<Rightarrow> addr \<Rightarrow> rb_tree \<Rightarrow> rb_tree" where
  "erase_case4_left rot parent sibling tmp1 s =
     (let tmp2 = rb_left (rbn s sibling);
          s = set_right parent tmp2 s;
          s = set_left sibling parent s;
          s = rb_set_parent_color tmp1 sibling RB_BLACK s;
          s = (if tmp2 \<noteq> NULL then rb_set_parent tmp2 parent s else s);
          s = rb_rotate_set_parents parent sibling RB_BLACK s
      in rot parent sibling s)"

text \<open>Case 2, the same on both sides: recolour the sibling and stop at a red parent or go on above it.\<close>

definition erase_case2 :: "addr \<Rightarrow> addr \<Rightarrow> rb_tree \<Rightarrow> outcome" where
  "erase_case2 parent sibling s =
     (let s = rb_set_parent_color sibling parent RB_RED s
      in if rb_is_red s parent then Done (rb_set_black parent s)
         else
           (let up = rb_parent s parent
            in if up \<noteq> NULL then Again parent up s else Done s))"

definition erase_step_left :: "rotate_fn \<Rightarrow> addr \<Rightarrow> addr \<Rightarrow> rb_tree \<Rightarrow> outcome result" where
  "erase_step_left rot parent sibling s =
     (case (if rb_is_red s sibling then erase_case1_left rot parent sibling s else Inr (sibling, s)) of
        Inl e \<Rightarrow> Inl e
      | Inr (sibling, s) \<Rightarrow>
          (let tmp1 = rb_right (rbn s sibling)
           in if tmp1 = NULL \<or> rb_is_black s tmp1 then
                (let tmp2 = rb_left (rbn s sibling)
                 in if tmp2 = NULL \<or> rb_is_black s tmp2 then Inr (erase_case2 parent sibling s)
                    else Inr (Done (erase_case4_left rot parent tmp2 sibling (erase_case3_left rot parent sibling tmp2 s))))
              else Inr (Done (erase_case4_left rot parent sibling tmp1 s))))"

text \<open>The same for a node on the right of its parent.\<close>

definition erase_case1_right :: "rotate_fn \<Rightarrow> addr \<Rightarrow> addr \<Rightarrow> rb_tree \<Rightarrow> (addr \<times> rb_tree) result" where
  "erase_case1_right rot parent sibling s =
     (let tmp1 = rb_right (rbn s sibling)
      in if tmp1 = NULL then Inl NullDeref
         else
           (let s = set_left parent tmp1 s;
                s = set_right sibling parent s;
                s = rb_set_parent_color tmp1 parent RB_BLACK s;
                s = rb_rotate_set_parents parent sibling RB_RED s
            in Inr (tmp1, rot parent sibling s)))"

definition erase_case3_right :: "rotate_fn \<Rightarrow> addr \<Rightarrow> addr \<Rightarrow> addr \<Rightarrow> rb_tree \<Rightarrow> rb_tree" where
  "erase_case3_right rot parent sibling tmp2 s =
     (let tmp1 = rb_left (rbn s tmp2);
          s = set_right sibling tmp1 s;
          s = set_left tmp2 sibling s;
          s = set_left parent tmp2 s;
          s = (if tmp1 \<noteq> NULL then rb_set_parent_color tmp1 sibling RB_BLACK s else s)
      in rot sibling tmp2 s)"

definition erase_case4_right :: "rotate_fn \<Rightarrow> addr \<Rightarrow> addr \<Rightarrow> addr \<Rightarrow> rb_tree \<Rightarrow> rb_tree" where
  "erase_case4_right rot parent sibling tmp1 s =
     (let tmp2 = rb_right (rbn s sibling);
          s = set_left parent tmp2 s;
          s = set_right sibling parent s;
          s = rb_set_parent_color tmp1 sibling RB_BLACK s;
          s = (if tmp2 \<noteq> NULL then rb_set_parent tmp2 parent s else s);
          s = rb_rotate_set_parents parent sibling RB_BLACK s
      in rot parent sibling s)"

definition erase_step_right :: "rotate_fn \<Rightarrow> addr \<Rightarrow> addr \<Rightarrow> rb_tree \<Rightarrow> outcome result" where
  "erase_step_right rot parent sibling s =
     (case (if rb_is_red s sibling then erase_case1_right rot parent sibling s else Inr (sibling, s)) of
        Inl e \<Rightarrow> Inl e
      | Inr (sibling, s) \<Rightarrow>
          (let tmp1 = rb_left (rbn s sibling)
           in if tmp1 = NULL \<or> rb_is_black s tmp1 then
                (let tmp2 = rb_right (rbn s sibling)
                 in if tmp2 = NULL \<or> rb_is_black s tmp2 then Inr (erase_case2 parent sibling s)
                    else Inr (Done (erase_case4_right rot parent tmp2 sibling (erase_case3_right rot parent sibling tmp2 s))))
              else Inr (Done (erase_case4_right rot parent sibling tmp1 s))))"

definition erase_step :: "rotate_fn \<Rightarrow> addr \<Rightarrow> addr \<Rightarrow> rb_tree \<Rightarrow> outcome result" where
  "erase_step rot node parent s =
     (let sibling = rb_right (rbn s parent)
      in if node \<noteq> sibling then
           (if sibling = NULL then Inl NullDeref else erase_step_left rot parent sibling s)
         else
           (let sibling = rb_left (rbn s parent)
            in if sibling = NULL then Inl NullDeref else erase_step_right rot parent sibling s))"

partial_function (option) rb_erase_color :: "rotate_fn \<Rightarrow> addr \<Rightarrow> addr \<Rightarrow> rb_tree \<Rightarrow> rb_tree result option" where
  "rb_erase_color rot node parent s =
     (case erase_step rot node parent s of
        Inl e \<Rightarrow> Some (Inl e)
      | Inr w \<Rightarrow> (case w of Done s \<Rightarrow> Some (Inr s) | Again n p s \<Rightarrow> rb_erase_color rot n p s))"

definition rb_erase :: "addr \<Rightarrow> rb_tree \<Rightarrow> rb_tree result option" where
  "rb_erase node s =
     Option.bind (rb_erase_augmented dummy_callbacks node s)
       (\<lambda>(rebalance, s). if rebalance \<noteq> NULL then rb_erase_color dummy_rotate NULL rebalance s else Some (Inr s))"

section \<open>Searching and inserting\<close>

text \<open>The loop of \<^verbatim>\<open>rb_add\<close>: the last node visited and the link that was \<open>NULL\<close>
  (\<open>None\<close> for the pointer of the root, otherwise whether it is the left one).\<close>

partial_function (option) add_descend ::
  "(addr \<Rightarrow> addr \<Rightarrow> bool) \<Rightarrow> addr \<Rightarrow> rb_tree \<Rightarrow> addr \<Rightarrow> addr \<Rightarrow> bool option \<Rightarrow> (addr \<times> bool option) option" where
  "add_descend lt node s cursor parent link =
     (if cursor = NULL then Some (parent, link)
      else if lt node cursor then add_descend lt node s (rb_left (rbn s cursor)) cursor (Some True)
      else add_descend lt node s (rb_right (rbn s cursor)) cursor (Some False))"

definition write_link :: "addr \<Rightarrow> bool option \<Rightarrow> addr \<Rightarrow> rb_tree \<Rightarrow> rb_tree" where
  "write_link parent link node s =
     (case link of None \<Rightarrow> s\<lparr>rb_root := node\<rparr> | Some b \<Rightarrow> if b then set_left parent node s else set_right parent node s)"

definition rb_add :: "(addr \<Rightarrow> addr \<Rightarrow> bool) \<Rightarrow> addr \<Rightarrow> rb_tree \<Rightarrow> rb_tree result option" where
  "rb_add lt node s =
     Option.bind (add_descend lt node s (rb_root s) NULL None)
       (\<lambda>(parent, link). rb_insert_color node (write_link parent link node (rb_link_node node parent s)))"

text \<open>The descent of \<^verbatim>\<open>rb_find_add\<close> stops with \<open>Inl\<close> at a node that compares equal.\<close>

partial_function (option) find_add_descend ::
  "(addr \<Rightarrow> addr \<Rightarrow> int) \<Rightarrow> addr \<Rightarrow> rb_tree \<Rightarrow> addr \<Rightarrow> addr \<Rightarrow> bool option \<Rightarrow> (addr + addr \<times> bool option) option" where
  "find_add_descend cmp node s cursor parent link =
     (if cursor = NULL then Some (Inr (parent, link))
      else if cmp node cursor < 0 then find_add_descend cmp node s (rb_left (rbn s cursor)) cursor (Some True)
      else if cmp node cursor > 0 then find_add_descend cmp node s (rb_right (rbn s cursor)) cursor (Some False)
      else Some (Inl cursor))"

definition rb_find_add :: "(addr \<Rightarrow> addr \<Rightarrow> int) \<Rightarrow> addr \<Rightarrow> rb_tree \<Rightarrow> (addr \<times> rb_tree) result option" where
  "rb_find_add cmp node s =
     Option.bind (find_add_descend cmp node s (rb_root s) NULL None)
       (\<lambda>r. case r of
              Inl a \<Rightarrow> Some (Inr (a, s))
            | Inr (parent, link) \<Rightarrow>
                map_option (\<lambda>x. case x of Inl e \<Rightarrow> Inl e | Inr s \<Rightarrow> Inr (NULL, s))
                  (rb_insert_color node (write_link parent link node (rb_link_node node parent s))))"

partial_function (option) find_loop :: "(addr \<Rightarrow> int) \<Rightarrow> rb_tree \<Rightarrow> addr \<Rightarrow> addr option" where
  "find_loop cmp s node =
     (if node = NULL then Some NULL
      else if cmp node < 0 then find_loop cmp s (rb_left (rbn s node))
      else if cmp node > 0 then find_loop cmp s (rb_right (rbn s node))
      else Some node)"

definition rb_find :: "(addr \<Rightarrow> int) \<Rightarrow> rb_tree \<Rightarrow> addr option" where
  "rb_find cmp s = find_loop cmp s (rb_root s)"

partial_function (option) find_first_loop :: "(addr \<Rightarrow> int) \<Rightarrow> rb_tree \<Rightarrow> addr \<Rightarrow> addr \<Rightarrow> addr option" where
  "find_first_loop cmp s node match =
     (if node = NULL then Some match
      else if cmp node \<le> 0 then find_first_loop cmp s (rb_left (rbn s node)) (if cmp node = 0 then node else match)
      else find_first_loop cmp s (rb_right (rbn s node)) match)"

definition rb_find_first :: "(addr \<Rightarrow> int) \<Rightarrow> rb_tree \<Rightarrow> addr option" where
  "rb_find_first cmp s = find_first_loop cmp s (rb_root s) NULL"

section \<open>Traversal\<close>

partial_function (option) leftmost :: "rb_tree \<Rightarrow> addr \<Rightarrow> addr option" where
  "leftmost s n = (if rb_left (rbn s n) \<noteq> NULL then leftmost s (rb_left (rbn s n)) else Some n)"

partial_function (option) rightmost :: "rb_tree \<Rightarrow> addr \<Rightarrow> addr option" where
  "rightmost s n = (if rb_right (rbn s n) \<noteq> NULL then rightmost s (rb_right (rbn s n)) else Some n)"

definition rb_first :: "rb_tree \<Rightarrow> addr option" where
  "rb_first s = (if rb_root s = NULL then Some NULL else leftmost s (rb_root s))"

definition rb_last :: "rb_tree \<Rightarrow> addr option" where
  "rb_last s = (if rb_root s = NULL then Some NULL else rightmost s (rb_root s))"

partial_function (option) climb_right :: "rb_tree \<Rightarrow> addr \<Rightarrow> addr option" where
  "climb_right s n =
     (if rb_parent s n \<noteq> NULL \<and> n = rb_right (rbn s (rb_parent s n)) then climb_right s (rb_parent s n)
      else Some (rb_parent s n))"

partial_function (option) climb_left :: "rb_tree \<Rightarrow> addr \<Rightarrow> addr option" where
  "climb_left s n =
     (if rb_parent s n \<noteq> NULL \<and> n = rb_left (rbn s (rb_parent s n)) then climb_left s (rb_parent s n)
      else Some (rb_parent s n))"

definition RB_EMPTY_NODE :: "rb_tree \<Rightarrow> addr \<Rightarrow> bool" where
  "RB_EMPTY_NODE s n \<longleftrightarrow> rb_parent_color (rbn s n) = n"

definition rb_next :: "rb_tree \<Rightarrow> addr \<Rightarrow> addr option" where
  "rb_next s n =
     (if RB_EMPTY_NODE s n then Some NULL
      else if rb_right (rbn s n) \<noteq> NULL then leftmost s (rb_right (rbn s n))
      else climb_right s n)"

definition rb_prev :: "rb_tree \<Rightarrow> addr \<Rightarrow> addr option" where
  "rb_prev s n =
     (if RB_EMPTY_NODE s n then Some NULL
      else if rb_left (rbn s n) \<noteq> NULL then rightmost s (rb_left (rbn s n))
      else climb_left s n)"

definition rb_next_match :: "(addr \<Rightarrow> int) \<Rightarrow> rb_tree \<Rightarrow> addr \<Rightarrow> addr option" where
  "rb_next_match cmp s n =
     map_option (\<lambda>m. if m \<noteq> NULL \<and> cmp m \<noteq> 0 then NULL else m) (rb_next s n)"

partial_function (option) rb_left_deepest_node :: "rb_tree \<Rightarrow> addr \<Rightarrow> addr option" where
  "rb_left_deepest_node s n =
     (if rb_left (rbn s n) \<noteq> NULL then rb_left_deepest_node s (rb_left (rbn s n))
      else if rb_right (rbn s n) \<noteq> NULL then rb_left_deepest_node s (rb_right (rbn s n))
      else Some n)"

definition rb_first_postorder :: "rb_tree \<Rightarrow> addr option" where
  "rb_first_postorder s = (if rb_root s = NULL then Some NULL else rb_left_deepest_node s (rb_root s))"

definition rb_next_postorder :: "rb_tree \<Rightarrow> addr \<Rightarrow> addr option" where
  "rb_next_postorder s n =
     (if n = NULL then Some NULL
      else
        (let parent = rb_parent s n
         in if parent \<noteq> NULL \<and> n = rb_left (rbn s parent) \<and> rb_right (rbn s parent) \<noteq> NULL
            then rb_left_deepest_node s (rb_right (rbn s parent)) else Some parent))"

definition rb_replace_node :: "addr \<Rightarrow> addr \<Rightarrow> rb_tree \<Rightarrow> rb_tree" where
  "rb_replace_node victim new s =
     (let parent = rb_parent s victim;
          s = upd new (\<lambda>_. rbn s victim) s;
          s = (if rb_left (rbn s victim) \<noteq> NULL then rb_set_parent (rb_left (rbn s victim)) new s else s);
          s = (if rb_right (rbn s victim) \<noteq> NULL then rb_set_parent (rb_right (rbn s victim)) new s else s)
      in rb_change_child victim new parent s)"

declare rb_insert_loop.simps [code] add_descend.simps [code] find_add_descend.simps [code] find_loop.simps [code]
  find_first_loop.simps [code] successor_loop.simps [code] rb_erase_color.simps [code] leftmost.simps [code]
  rightmost.simps [code] climb_right.simps [code] climb_left.simps [code] rb_left_deepest_node.simps [code]

end
