(* ===== verification/RBTree_Spec.thy ===== *)
theory RBTree_Spec
  imports RBTree
begin

text \<open>
  Correctness of the red-black trees. The store is related to trees of addresses (\<open>ptree\<close>) and, for a
  position inside a tree, to a subtree and the way up to the root (\<open>pctx\<close>, \<open>zok\<close>). The loop of the
  rebalancing refines the function \<open>insert_fix\<close> on these, which keeps the order and the red-black invariants.
  Searches, insertion and traversal follow; a locale states the contract of the index a client gets.
\<close>

section \<open>Trees in the store\<close>

datatype color = Red | Black

datatype rb = E | T color rb addr rb

fun root_of :: "rb \<Rightarrow> addr" where
  "root_of E = NULL"
| "root_of (T c l a r) = a"

fun addrs :: "rb \<Rightarrow> addr list" where
  "addrs E = []"
| "addrs (T c l a r) = addrs l @ a # addrs r"

definition enc :: "addr \<Rightarrow> color \<Rightarrow> u64" where
  "enc p c = p OR (case c of Red \<Rightarrow> RB_RED | Black \<Rightarrow> RB_BLACK)"

definition aligned :: "addr \<Rightarrow> bool" where "aligned a \<longleftrightarrow> a AND 3 = 0"

lemma aligned_NULL [simp]: "aligned NULL" by (simp add: aligned_def)

lemma aligned_bits:
  assumes "aligned p"
  shows "\<not> bit p 0" "\<not> bit p (Suc 0)"
proof -
  have "(3 :: u64) = mask 2" by (simp add: mask_eq_exp_minus_1)
  then have "\<not> bit (p AND mask 2) 0" "\<not> bit (p AND mask 2) 1" using assms by (simp_all add: aligned_def)
  then show "\<not> bit p 0" "\<not> bit p (Suc 0)" by (simp_all add: bit_simps)
qed

lemma bit_enc: "bit (enc p c) n \<longleftrightarrow> bit p n \<or> n = 0 \<and> c = Black"
  by (cases c) (auto simp: enc_def RB_RED_def RB_BLACK_def bit_or_iff bit_1_iff)

lemma pc_parent_enc [simp]:
  assumes "aligned p"
  shows "pc_parent (enc p c) = p"
proof (rule bit_word_eqI)
  fix n assume n: "n < LENGTH(64)"
  have "(3 :: u64) = mask 2" by (simp add: mask_eq_exp_minus_1)
  then have "bit (pc_parent (enc p c)) n \<longleftrightarrow> bit (enc p c) n \<and> \<not> n < 2"
    using n by (simp only: pc_parent_def bit_and_iff bit_not_iff bit_mask_iff) simp
  moreover have "n < 2 \<Longrightarrow> \<not> bit p n" using aligned_bits[OF assms] by (auto simp: less_2_cases_iff)
  ultimately show "bit (pc_parent (enc p c)) n = bit p n" by (auto simp: bit_enc)
qed

lemma pc_is_black_enc [simp]:
  assumes "aligned p"
  shows "pc_is_black (enc p c) \<longleftrightarrow> c = Black"
proof -
  have "pc_is_black w \<longleftrightarrow> bit w 0" for w
    unfolding pc_is_black_def and_one_eq by (simp add: bit_0 odd_iff_mod_2_eq_one)
  then show ?thesis using aligned_bits[OF assms] by (simp add: bit_enc)
qed

lemma enc_Red [simp]: "enc p Red = p"
  by (simp add: enc_def RB_RED_def)

lemma enc_fold [simp]: "p OR RB_BLACK = enc p Black" "p OR RB_RED = enc p Red" "p OR 1 = enc p Black"
  by (simp_all add: enc_def RB_BLACK_def RB_RED_def)


text \<open>The tree \<open>t\<close> below the parent \<open>p\<close>.\<close>

fun ptree :: "(addr \<Rightarrow> rb_node) \<Rightarrow> addr \<Rightarrow> rb \<Rightarrow> bool" where
  "ptree n p E \<longleftrightarrow> True"
| "ptree n p (T c l a r) \<longleftrightarrow> a \<noteq> NULL \<and> aligned a \<and>
     n a = \<lparr>rb_parent_color = enc p c, rb_right = root_of r, rb_left = root_of l\<rparr> \<and> ptree n a l \<and> ptree n a r"

text \<open>The way from a subtree up to the root: the nodes passed, each with its other subtree.\<close>

datatype frame = InL color addr rb | InR color rb addr

fun fcolor :: "frame \<Rightarrow> color" where "fcolor (InL c a r) = c" | "fcolor (InR c l a) = c"

fun parent_of :: "frame list \<Rightarrow> addr" where
  "parent_of [] = NULL"
| "parent_of (InL c a r # fs) = a"
| "parent_of (InR c l a # fs) = a"

fun pctx :: "(addr \<Rightarrow> rb_node) \<Rightarrow> addr \<Rightarrow> frame list \<Rightarrow> addr \<Rightarrow> bool" where
  "pctx n h [] rt \<longleftrightarrow> rt = h"
| "pctx n h (InL c a r # fs) rt \<longleftrightarrow> a \<noteq> NULL \<and> aligned a \<and>
     n a = \<lparr>rb_parent_color = enc (parent_of fs) c, rb_right = root_of r, rb_left = h\<rparr> \<and> ptree n a r \<and> pctx n a fs rt"
| "pctx n h (InR c l a # fs) rt \<longleftrightarrow> a \<noteq> NULL \<and> aligned a \<and>
     n a = \<lparr>rb_parent_color = enc (parent_of fs) c, rb_right = h, rb_left = root_of l\<rparr> \<and> ptree n a l \<and> pctx n a fs rt"

fun caddrs :: "frame list \<Rightarrow> addr list" where
  "caddrs [] = []"
| "caddrs (InL c a r # fs) = a # addrs r @ caddrs fs"
| "caddrs (InR c l a # fs) = addrs l @ a # caddrs fs"

fun plug :: "rb \<Rightarrow> frame list \<Rightarrow> rb" where
  "plug t [] = t"
| "plug t (InL c a r # fs) = plug (T c t a r) fs"
| "plug t (InR c l a # fs) = plug (T c l a t) fs"

definition zok :: "rb_tree \<Rightarrow> frame list \<Rightarrow> rb \<Rightarrow> bool" where
  "zok s fs t \<longleftrightarrow> ptree (rbn s) (parent_of fs) t \<and> pctx (rbn s) (root_of t) fs (rb_root s) \<and> distinct (addrs t @ caddrs fs)"

text \<open>The store holds the tree \<open>t\<close>.\<close>

definition holds :: "rb_tree \<Rightarrow> rb \<Rightarrow> bool" where
  "holds s t \<longleftrightarrow> zok s [] t"

lemma ptree_fresh [simp]: "x \<notin> set (addrs t) \<Longrightarrow> ptree (n(x := v)) p t = ptree n p t"
  by (induction t arbitrary: p) auto

lemma pctx_fresh [simp]: "x \<notin> set (caddrs fs) \<Longrightarrow> pctx (n(x := v)) h fs rt = pctx n h fs rt"
  by (induction fs arbitrary: h rule: caddrs.induct) auto

lemma root_mem [simp]: "root_of t \<noteq> NULL \<Longrightarrow> root_of t \<in> set (addrs t)"
  by (cases t) auto

lemma ptree_root: "ptree n p t \<Longrightarrow> root_of t = NULL \<longleftrightarrow> t = E"
  by (cases t) auto

lemma ptree_nonnull: "ptree n p t \<Longrightarrow> NULL \<notin> set (addrs t)"
  by (induction t arbitrary: p) auto

lemma pctx_nonnull: "pctx n h fs rt \<Longrightarrow> NULL \<notin> set (caddrs fs)"
  by (induction fs arbitrary: h rule: caddrs.induct) (auto dest: ptree_nonnull)

lemma parent_of_mem: "fs \<noteq> [] \<Longrightarrow> parent_of fs \<in> set (caddrs fs)"
  by (cases fs rule: caddrs.cases) auto

lemma pctx_parent_aligned: "pctx n h fs rt \<Longrightarrow> aligned (parent_of fs)"
  by (cases fs rule: caddrs.cases) auto

lemma zok_plug: "zok s fs t \<longleftrightarrow> holds s (plug t fs)"
proof (induction fs arbitrary: t rule: caddrs.induct)
  case (2 c a r fs)
  have "zok s (InL c a r # fs) t \<longleftrightarrow> zok s fs (T c t a r)" by (auto simp: zok_def)
  then show ?case using 2 by simp
next
  case (3 c l a fs)
  have "zok s (InR c l a # fs) t \<longleftrightarrow> zok s fs (T c l a t)" by (auto simp: zok_def)
  then show ?case using 3 by simp
qed (simp add: holds_def)

fun black :: "rb \<Rightarrow> rb" where
  "black E = E"
| "black (T c l a r) = T Black l a r"

fun isred :: "rb \<Rightarrow> bool" where
  "isred (T Red l a r) = True"
| "isred t = False"

lemma black_simps [simp]: "root_of (black t) = root_of t" "addrs (black t) = addrs t"
  by (cases t; simp)+

lemmas writes = upd_def set_left_def set_right_def set_pc_def rb_set_parent_color_def rb_set_parent_def rb_set_black_def

text \<open>Hanging a subtree below another node and making it black.\<close>

lemma ptree_reparent:
  assumes "ptree n p t" "t \<noteq> E" "distinct (addrs t)"
  shows "ptree (n(root_of t := (n (root_of t))\<lparr>rb_parent_color := enc q Black\<rparr>)) q (black t)"
  using assms by (cases t) auto

lemma change_child_ok:
  assumes "pctx (rbn s) old fs (rb_root s)" "old \<notin> set (caddrs fs)" "distinct (caddrs fs)" "\<forall>c a r gs. fs = InR c r a # gs \<longrightarrow> root_of r \<noteq> old"
  shows "pctx (rbn (rb_change_child old new (parent_of fs) s)) new fs (rb_root (rb_change_child old new (parent_of fs) s))"
    "x \<noteq> parent_of fs \<Longrightarrow> rbn (rb_change_child old new (parent_of fs) s) x = rbn s x"
  using assms by (cases fs rule: caddrs.cases; auto simp: rb_change_child_def writes)+


lemma aligned_word [simp]: "aligned p \<Longrightarrow> \<not> pc_is_black p" "aligned p \<Longrightarrow> pc_parent p = p"
  using pc_is_black_enc[of p Red] pc_parent_enc[of p Red] by simp_all

lemma isred_iff: "ptree n p t \<Longrightarrow> aligned p \<Longrightarrow> isred t \<longleftrightarrow> root_of t \<noteq> NULL \<and> \<not> pc_is_black (rb_parent_color (n (root_of t)))"
  by (cases t rule: isred.cases) auto

lemma ptree_cong: "(\<And>x. x \<in> set (addrs t) \<Longrightarrow> n' x = n x) \<Longrightarrow> ptree n' p t = ptree n p t"
  by (induction t arbitrary: p) auto

lemma pctx_cong: "(\<And>x. x \<in> set (caddrs fs) \<Longrightarrow> n' x = n x) \<Longrightarrow> pctx n' h fs rt = pctx n h fs rt"
proof (induction fs arbitrary: h rule: caddrs.induct)
  case (2 c a r fs)
  then show ?case using ptree_cong[of r n' n a] by auto
next
  case (3 c l a fs)
  then show ?case using ptree_cong[of l n' n a] by auto
qed simp

lemma rotate_set_parents_ok:
  assumes n: "rbn s old = \<lparr>rb_parent_color = enc (parent_of fs) c, rb_right = r, rb_left = l\<rparr>"
    and k: "pctx (rbn s) old fs (rb_root s)" "distinct (caddrs fs)" "old \<notin> set (caddrs fs)" "new \<notin> set (caddrs fs)" "old \<noteq> new" "old \<noteq> NULL"
    and s': "s' = rb_rotate_set_parents old new color s"
  shows "rbn s' old = \<lparr>rb_parent_color = new OR color, rb_right = r, rb_left = l\<rparr>"
    "rbn s' new = (rbn s new)\<lparr>rb_parent_color := enc (parent_of fs) c\<rparr>"
    "pctx (rbn s') new fs (rb_root s')"
    "x \<noteq> old \<Longrightarrow> x \<noteq> new \<Longrightarrow> x \<notin> set (caddrs fs) \<Longrightarrow> rbn s' x = rbn s x"
proof -
  let ?t = "rb_set_parent_color old new color (set_pc new (rb_parent_color (rbn s old)) s)"
  have al: "aligned (parent_of fs)" using k(1) by (rule pctx_parent_aligned)
  have s'_eq: "s' = rb_change_child old new (parent_of fs) ?t"
    using al n by (simp add: s' rb_rotate_set_parents_def Let_def rb_parent_def)
  have t: "rbn ?t = (rbn s)(new := (rbn s new)\<lparr>rb_parent_color := enc (parent_of fs) c\<rparr>, old := \<lparr>rb_parent_color = new OR color, rb_right = r, rb_left = l\<rparr>)"
    "rb_root ?t = rb_root s"
    using n k(5) by (simp_all add: writes del: enc_fold)
  have pt: "pctx (rbn ?t) old fs (rb_root ?t)" using k unfolding t by simp
  have ne: "\<forall>c a r gs. fs = InR c r a # gs \<longrightarrow> root_of r \<noteq> old" using k(3,6) root_mem by fastforce
  note cc = change_child_ok[OF pt k(3,2) ne, where new = new, folded s'_eq]
  show "pctx (rbn s') new fs (rb_root s')" by (rule cc)
  have p: "x \<noteq> parent_of fs" if "x \<notin> set (caddrs fs)" "x \<noteq> NULL" for x
    using that parent_of_mem[of fs] by (cases fs) auto
  have "fs = [] \<Longrightarrow> rbn s' = rbn ?t" by (simp add: s'_eq rb_change_child_def)
  then have q: "rbn s' x = rbn ?t x" if "x \<notin> set (caddrs fs)" for x
    using that cc(2)[of x] parent_of_mem[of fs] by (cases "fs = []") auto
  show "rbn s' old = \<lparr>rb_parent_color = new OR color, rb_right = r, rb_left = l\<rparr>" using q[of old] k t by (simp del: enc_fold)
  show "rbn s' new = (rbn s new)\<lparr>rb_parent_color := enc (parent_of fs) c\<rparr>" using q[of new] k t by simp
  show "rbn s' x = rbn s x" if "x \<noteq> old" "x \<noteq> new" "x \<notin> set (caddrs fs)" using q[of x] that t by simp
qed

text \<open>The rotation at the grandparent \<open>g\<close>: \<open>p\<close> comes up, the subtree \<open>B\<close> moves from \<open>p\<close> to \<open>g\<close>.\<close>

lemma case3_left_ok:
  assumes g: "rbn s g = \<lparr>rb_parent_color = enc (parent_of fs) gc, rb_right = root_of u, rb_left = x\<rparr>" "g \<noteq> NULL" "aligned g" "ptree (rbn s) g u"
    and p: "rbn s p = \<lparr>rb_parent_color = pcw, rb_right = y, rb_left = root_of A\<rparr>" "p \<noteq> NULL" "aligned p" "ptree (rbn s) p A"
    and B: "ptree (rbn s) q B"
    and k: "pctx (rbn s) g fs (rb_root s)" "distinct (addrs A @ p # addrs B @ g # addrs u @ caddrs fs)"
  shows "zok (insert_case3_left dummy_rotate g p (root_of B) s) fs (T gc A p (T Red (black B) g u))"
proof -
  define s1 where "s1 = set_right p g (set_left g (root_of B) s)"
  define s3 where "s3 = (if root_of B \<noteq> NULL then rb_set_parent_color (root_of B) g RB_BLACK s1 else s1)"
  define s4 where "s4 = rb_rotate_set_parents g p RB_RED s3"
  have r: "insert_case3_left dummy_rotate g p (root_of B) s = s4" by (simp add: insert_case3_left_def dummy_rotate_def Let_def s1_def s3_def s4_def)
  have b: "root_of B \<noteq> NULL \<Longrightarrow> root_of B \<in> set (addrs B)" by simp
  have n3: "rbn s3 g = \<lparr>rb_parent_color = enc (parent_of fs) gc, rb_right = root_of u, rb_left = root_of B\<rparr>"
    "rbn s3 p = \<lparr>rb_parent_color = pcw, rb_right = g, rb_left = root_of A\<rparr>"
    "rb_root s3 = rb_root s"
    using g(1) p(1) k(2) b by (auto simp: writes s1_def s3_def)
  have f3: "rbn s3 z = rbn s z" if "z \<noteq> g" "z \<noteq> p" "z \<notin> set (addrs B)" for z
    using that b by (auto simp: writes s1_def s3_def)
  have "pctx (rbn s3) g fs (rb_root s) = pctx (rbn s) g fs (rb_root s)"
    using k(2) by (intro pctx_cong f3) auto
  then have c3: "pctx (rbn s3) g fs (rb_root s3)" using k(1) n3(3) by simp
  have "ptree (rbn s3) p A = ptree (rbn s) p A" "ptree (rbn s3) g u = ptree (rbn s) g u"
    using k(2) by (intro ptree_cong f3; auto)+
  then have pt3: "ptree (rbn s3) p A" "ptree (rbn s3) g u" using p(4) g(4) by simp_all
  have B1: "ptree (rbn s1) q B" using B k(2) by (simp add: writes s1_def)
  have B3: "ptree (rbn s3) g (black B)"
  proof (cases "B = E")
    case False
    then have "root_of B \<noteq> NULL" using B ptree_root by auto
    then have "rbn s3 = (rbn s1)(root_of B := (rbn s1 (root_of B))\<lparr>rb_parent_color := enc g Black\<rparr>)"
      by (simp add: writes s3_def)
    then show ?thesis using ptree_reparent[OF B1 False, of g] k(2) by simp
  qed simp
  have d: "distinct (caddrs fs)" "g \<notin> set (caddrs fs)" "p \<notin> set (caddrs fs)" "g \<noteq> p" using k(2) by auto
  note f4 = rotate_set_parents_ok[OF n3(1) c3 d g(2) s4_def]
  have "ptree (rbn s4) p A = ptree (rbn s3) p A" "ptree (rbn s4) g u = ptree (rbn s3) g u"
    "ptree (rbn s4) g (black B) = ptree (rbn s3) g (black B)"
    using k(2) by (intro ptree_cong f4(4); auto)+
  then show ?thesis
    using f4(1-3) g(2,3) p(2,3) k(2) n3 pt3 B3 by (auto simp: r zok_def)
qed

text \<open>The mirror image.\<close>

lemma case3_right_ok:
  assumes g: "rbn s g = \<lparr>rb_parent_color = enc (parent_of fs) gc, rb_right = x, rb_left = root_of u\<rparr>" "g \<noteq> NULL" "aligned g" "ptree (rbn s) g u"
    and p: "rbn s p = \<lparr>rb_parent_color = pcw, rb_right = root_of A, rb_left = y\<rparr>" "p \<noteq> NULL" "aligned p" "ptree (rbn s) p A"
    and B: "ptree (rbn s) q B"
    and k: "pctx (rbn s) g fs (rb_root s)" "distinct (addrs u @ g # addrs B @ p # addrs A @ caddrs fs)"
  shows "zok (insert_case3_right dummy_rotate g p (root_of B) s) fs (T gc (T Red u g (black B)) p A)"
proof -
  define s1 where "s1 = set_left p g (set_right g (root_of B) s)"
  define s3 where "s3 = (if root_of B \<noteq> NULL then rb_set_parent_color (root_of B) g RB_BLACK s1 else s1)"
  define s4 where "s4 = rb_rotate_set_parents g p RB_RED s3"
  have r: "insert_case3_right dummy_rotate g p (root_of B) s = s4" by (simp add: insert_case3_right_def dummy_rotate_def Let_def s1_def s3_def s4_def)
  have b: "root_of B \<noteq> NULL \<Longrightarrow> root_of B \<in> set (addrs B)" by simp
  have n3: "rbn s3 g = \<lparr>rb_parent_color = enc (parent_of fs) gc, rb_right = root_of B, rb_left = root_of u\<rparr>"
    "rbn s3 p = \<lparr>rb_parent_color = pcw, rb_right = root_of A, rb_left = g\<rparr>"
    "rb_root s3 = rb_root s"
    using g(1) p(1) k(2) b by (auto simp: writes s1_def s3_def)
  have f3: "rbn s3 z = rbn s z" if "z \<noteq> g" "z \<noteq> p" "z \<notin> set (addrs B)" for z
    using that b by (auto simp: writes s1_def s3_def)
  have "pctx (rbn s3) g fs (rb_root s) = pctx (rbn s) g fs (rb_root s)"
    using k(2) by (intro pctx_cong f3) auto
  then have c3: "pctx (rbn s3) g fs (rb_root s3)" using k(1) n3(3) by simp
  have "ptree (rbn s3) p A = ptree (rbn s) p A" "ptree (rbn s3) g u = ptree (rbn s) g u"
    using k(2) by (intro ptree_cong f3; auto)+
  then have pt3: "ptree (rbn s3) p A" "ptree (rbn s3) g u" using p(4) g(4) by simp_all
  have B1: "ptree (rbn s1) q B" using B k(2) by (simp add: writes s1_def)
  have B3: "ptree (rbn s3) g (black B)"
  proof (cases "B = E")
    case False
    then have "root_of B \<noteq> NULL" using B ptree_root by auto
    then have "rbn s3 = (rbn s1)(root_of B := (rbn s1 (root_of B))\<lparr>rb_parent_color := enc g Black\<rparr>)"
      by (simp add: writes s3_def)
    then show ?thesis using ptree_reparent[OF B1 False, of g] k(2) by simp
  qed simp
  have d: "distinct (caddrs fs)" "g \<notin> set (caddrs fs)" "p \<notin> set (caddrs fs)" "g \<noteq> p" using k(2) by auto
  note f4 = rotate_set_parents_ok[OF n3(1) c3 d g(2) s4_def]
  have "ptree (rbn s4) p A = ptree (rbn s3) p A" "ptree (rbn s4) g u = ptree (rbn s3) g u"
    "ptree (rbn s4) g (black B) = ptree (rbn s3) g (black B)"
    using k(2) by (intro ptree_cong f4(4); auto)+
  then show ?thesis
    using f4(1-3) g(2,3) p(2,3) k(2) n3 pt3 B3 by (auto simp: r zok_def)
qed

text \<open>The rotation at the parent \<open>p\<close> of case 2, with \<open>a\<close> coming up: what the second rotation needs.\<close>

lemma case2_left_ok:
  assumes a: "rbn s a = \<lparr>rb_parent_color = aw, rb_right = root_of r, rb_left = root_of l\<rparr>" "ptree (rbn s) a l" "ptree (rbn s) a r"
    and p: "rbn s p = \<lparr>rb_parent_color = pw, rb_right = a, rb_left = root_of pl\<rparr>" "p \<noteq> NULL" "aligned p" "ptree (rbn s) p pl"
    and d: "distinct (addrs pl @ p # addrs l @ a # addrs r)"
    and s': "insert_case2_left dummy_rotate a p s = (a', tmp, s')"
  shows "a' = a" "tmp = root_of r" "rb_root s' = rb_root s"
    "rbn s' a = \<lparr>rb_parent_color = aw, rb_right = root_of r, rb_left = p\<rparr>"
    "ptree (rbn s') a (T Red pl p (black l))" "ptree (rbn s') a r"
    "x \<noteq> a \<Longrightarrow> x \<noteq> p \<Longrightarrow> x \<notin> set (addrs l) \<Longrightarrow> rbn s' x = rbn s x"
proof -
  define s1 where "s1 = set_left a p (set_right p (root_of l) s)"
  define s2 where "s2 = (if root_of l \<noteq> NULL then rb_set_parent_color (root_of l) p RB_BLACK s1 else s1)"
  have s2': "s' = rb_set_parent_color p a RB_RED s2" and "a' = a" and tmp: "tmp = rb_right (rbn s' a)"
    using s' a(1) by (auto simp: insert_case2_left_def Let_def dummy_rotate_def s1_def s2_def)
  show "a' = a" by fact
  have b: "root_of l \<noteq> NULL \<Longrightarrow> root_of l \<in> set (addrs l)" by simp
  have fr: "rbn s2 x = rbn s x" if "x \<noteq> a" "x \<noteq> p" "x \<notin> set (addrs l)" for x
    using that b by (auto simp: s1_def s2_def writes)
  have fr': "rbn s' x = rbn s x" if "x \<noteq> a" "x \<noteq> p" "x \<notin> set (addrs l)" for x
    using that fr[OF that] by (simp add: s2' writes)
  then show "rbn s' x = rbn s x" if "x \<noteq> a" "x \<noteq> p" "x \<notin> set (addrs l)" using that .
  have n: "rbn s' a = \<lparr>rb_parent_color = aw, rb_right = root_of r, rb_left = p\<rparr>"
    "rbn s' p = \<lparr>rb_parent_color = enc a Red, rb_right = root_of l, rb_left = root_of pl\<rparr>"
    using a(1) p(1) d b by (auto simp: s2' s1_def s2_def writes)
  then show "rbn s' a = \<lparr>rb_parent_color = aw, rb_right = root_of r, rb_left = p\<rparr>" "tmp = root_of r" using tmp by simp_all
  show "rb_root s' = rb_root s" by (simp add: s2' s1_def s2_def writes)
  have l1: "ptree (rbn s1) a l" using a(2) d by (simp add: s1_def writes)
  have "ptree (rbn s2) p (black l)"
  proof (cases "l = E")
    case False
    then have "root_of l \<noteq> NULL" using a(2) ptree_root by auto
    then have "rbn s2 = (rbn s1)(root_of l := (rbn s1 (root_of l))\<lparr>rb_parent_color := enc p Black\<rparr>)"
      by (simp add: writes s2_def)
    then show ?thesis using ptree_reparent[OF l1 False, of p] d by simp
  qed simp
  then have "ptree (rbn s') p (black l)" using d by (simp add: s2' writes)
  moreover have "ptree (rbn s') p pl = ptree (rbn s) p pl" "ptree (rbn s') a r = ptree (rbn s) a r"
    using d by (intro ptree_cong fr'; auto)+
  ultimately show "ptree (rbn s') a (T Red pl p (black l))" "ptree (rbn s') a r" using p a(3) n(2) by simp_all
qed

lemma case2_right_ok:
  assumes a: "rbn s a = \<lparr>rb_parent_color = aw, rb_right = root_of l, rb_left = root_of r\<rparr>" "ptree (rbn s) a l" "ptree (rbn s) a r"
    and p: "rbn s p = \<lparr>rb_parent_color = pw, rb_right = root_of pl, rb_left = a\<rparr>" "p \<noteq> NULL" "aligned p" "ptree (rbn s) p pl"
    and d: "distinct (addrs r @ a # addrs l @ p # addrs pl)"
    and s': "insert_case2_right dummy_rotate a p s = (a', tmp, s')"
  shows "a' = a" "tmp = root_of r" "rb_root s' = rb_root s"
    "rbn s' a = \<lparr>rb_parent_color = aw, rb_right = p, rb_left = root_of r\<rparr>"
    "ptree (rbn s') a (T Red (black l) p pl)" "ptree (rbn s') a r"
    "x \<noteq> a \<Longrightarrow> x \<noteq> p \<Longrightarrow> x \<notin> set (addrs l) \<Longrightarrow> rbn s' x = rbn s x"
proof -
  define s1 where "s1 = set_right a p (set_left p (root_of l) s)"
  define s2 where "s2 = (if root_of l \<noteq> NULL then rb_set_parent_color (root_of l) p RB_BLACK s1 else s1)"
  have s2': "s' = rb_set_parent_color p a RB_RED s2" and "a' = a" and tmp: "tmp = rb_left (rbn s' a)"
    using s' a(1) by (auto simp: insert_case2_right_def Let_def dummy_rotate_def s1_def s2_def)
  show "a' = a" by fact
  have b: "root_of l \<noteq> NULL \<Longrightarrow> root_of l \<in> set (addrs l)" by simp
  have fr: "rbn s2 x = rbn s x" if "x \<noteq> a" "x \<noteq> p" "x \<notin> set (addrs l)" for x
    using that b by (auto simp: s1_def s2_def writes)
  have fr': "rbn s' x = rbn s x" if "x \<noteq> a" "x \<noteq> p" "x \<notin> set (addrs l)" for x
    using that fr[OF that] by (simp add: s2' writes)
  then show "rbn s' x = rbn s x" if "x \<noteq> a" "x \<noteq> p" "x \<notin> set (addrs l)" using that .
  have n: "rbn s' a = \<lparr>rb_parent_color = aw, rb_right = p, rb_left = root_of r\<rparr>"
    "rbn s' p = \<lparr>rb_parent_color = enc a Red, rb_right = root_of pl, rb_left = root_of l\<rparr>"
    using a(1) p(1) d b by (auto simp: s2' s1_def s2_def writes)
  then show "rbn s' a = \<lparr>rb_parent_color = aw, rb_right = p, rb_left = root_of r\<rparr>" "tmp = root_of r" using tmp by simp_all
  show "rb_root s' = rb_root s" by (simp add: s2' s1_def s2_def writes)
  have l1: "ptree (rbn s1) a l" using a(2) d by (simp add: s1_def writes)
  have "ptree (rbn s2) p (black l)"
  proof (cases "l = E")
    case False
    then have "root_of l \<noteq> NULL" using a(2) ptree_root by auto
    then have "rbn s2 = (rbn s1)(root_of l := (rbn s1 (root_of l))\<lparr>rb_parent_color := enc p Black\<rparr>)"
      by (simp add: writes s2_def)
    then show ?thesis using ptree_reparent[OF l1 False, of p] d by simp
  qed simp
  then have "ptree (rbn s') p (black l)" using d by (simp add: s2' writes)
  moreover have "ptree (rbn s') p pl = ptree (rbn s) p pl" "ptree (rbn s') a r = ptree (rbn s) a r"
    using d by (intro ptree_cong fr'; auto)+
  ultimately show "ptree (rbn s') a (T Red (black l) p pl)" "ptree (rbn s') a r" using p a(3) n(2) by simp_all
qed

section \<open>The rebalancing as a function on trees\<close>

text \<open>\<open>insert_fix fs t\<close> rebalances the tree in which the red subtree \<open>t\<close> has the way \<open>fs\<close> to the
  root; it fails where the code dereferences the missing parent of a red root.\<close>

fun insert_fix :: "frame list \<Rightarrow> rb \<Rightarrow> rb option" where
  "insert_fix fs E = None"
| "insert_fix [] (T c l a r) = Some (T Black l a r)"
| "insert_fix [f] t = (if fcolor f = Black then Some (plug t [f]) else None)"
| "insert_fix (InL Red p pr # InL gc g u # fs) t =
     (if isred u then insert_fix fs (T Red (T Black t p pr) g (black u))
      else Some (plug (T gc t p (T Red (black pr) g u)) fs))"
| "insert_fix (InR Red pl p # InL gc g u # fs) (T c l a r) =
     (if isred u then insert_fix fs (T Red (T Black pl p (T c l a r)) g (black u))
      else Some (plug (T gc (T Red pl p (black l)) a (T Red (black r) g u)) fs))"
| "insert_fix (InR Red pl p # InR gc u g # fs) t =
     (if isred u then insert_fix fs (T Red (black u) g (T Black pl p t))
      else Some (plug (T gc (T Red u g (black pl)) p t) fs))"
| "insert_fix (InL Red p pr # InR gc u g # fs) (T c l a r) =
     (if isred u then insert_fix fs (T Red (black u) g (T Black (T c l a r) p pr))
      else Some (plug (T gc (T Red u g (black l)) a (T Red (black r) p pr)) fs))"
| "insert_fix (InL Black p pr # fs) t = Some (plug t (InL Black p pr # fs))"
| "insert_fix (InR Black pl p # fs) t = Some (plug t (InR Black pl p # fs))"

lemma zok_facts:
  assumes "zok s fs t"
  shows "ptree (rbn s) (parent_of fs) t" "pctx (rbn s) (root_of t) fs (rb_root s)" "distinct (addrs t @ caddrs fs)" "aligned (parent_of fs)"
  using assms pctx_parent_aligned by (auto simp: zok_def)

lemmas steps = insert_step_def Let_def rb_is_black_def rb_is_red_def rb_red_parent_def rb_parent_def

lemma step_LL:
  assumes "zok s (InL Red p pr # InL gc g u # fs) (T c l a r)" "\<not> isred u"
  shows "\<exists>s'. insert_step dummy_rotate a p s = Inr (Done s') \<and> zok s' fs (T gc (T c l a r) p (T Red (black pr) g u))"
proof -
  note z = zok_facts[OF assms(1)]
  have u: "root_of u = NULL \<or> pc_is_black (rb_parent_color (rbn s (root_of u)))"
    using z(2) assms(2) isred_iff[of "rbn s" g u] by auto
  have ne: "p \<noteq> root_of u" "a \<noteq> root_of pr" using z(1,2,3) root_mem[of u] root_mem[of pr] by auto
  have "insert_step dummy_rotate a p s = Inr (Done (insert_case3_left dummy_rotate g p (root_of pr) s))"
    using z(1,2) u ne by (auto simp: steps)
  moreover have "zok (insert_case3_left dummy_rotate g p (root_of pr) s) fs (T gc (T c l a r) p (T Red (black pr) g u))"
    using z by (intro case3_left_ok[where q = p]) auto
  ultimately show ?thesis by blast
qed

lemma step_RR:
  assumes "zok s (InR Red pl p # InR gc u g # fs) (T c l a r)" "\<not> isred u"
  shows "\<exists>s'. insert_step dummy_rotate a p s = Inr (Done s') \<and> zok s' fs (T gc (T Red u g (black pl)) p (T c l a r))"
proof -
  note z = zok_facts[OF assms(1)]
  have u: "root_of u = NULL \<or> pc_is_black (rb_parent_color (rbn s (root_of u)))"
    using z(2) assms(2) isred_iff[of "rbn s" g u] by auto
  have ne: "p \<noteq> root_of u" "a \<noteq> root_of pl" using z(1,2,3) root_mem[of u] root_mem[of pl] by auto
  have "insert_step dummy_rotate a p s = Inr (Done (insert_case3_right dummy_rotate g p (root_of pl) s))"
    using z(1,2) u ne by (auto simp: steps)
  moreover have "zok (insert_case3_right dummy_rotate g p (root_of pl) s) fs (T gc (T Red u g (black pl)) p (T c l a r))"
    using z by (intro case3_right_ok[where q = p]) auto
  ultimately show ?thesis by blast
qed

lemma step_RL:
  assumes "zok s (InR Red pl p # InL gc g u # fs) (T c l a r)" "\<not> isred u"
  shows "\<exists>s'. insert_step dummy_rotate a p s = Inr (Done s') \<and> zok s' fs (T gc (T Red pl p (black l)) a (T Red (black r) g u))"
proof -
  note z = zok_facts[OF assms(1)]
  have u: "root_of u = NULL \<or> pc_is_black (rb_parent_color (rbn s (root_of u)))"
    using z(2) assms(2) isred_iff[of "rbn s" g u] by auto
  have ne: "p \<noteq> root_of u" using z(1,2,3) root_mem[of u] by auto
  obtain a' tmp s' where c2: "insert_case2_left dummy_rotate a p s = (a', tmp, s')" by (cases "insert_case2_left dummy_rotate a p s")
  have n: "rbn s a = \<lparr>rb_parent_color = enc p c, rb_right = root_of r, rb_left = root_of l\<rparr>" "ptree (rbn s) a l" "ptree (rbn s) a r"
    "rbn s p = \<lparr>rb_parent_color = enc g Red, rb_right = a, rb_left = root_of pl\<rparr>" "p \<noteq> NULL" "aligned p" "ptree (rbn s) p pl"
    "distinct (addrs pl @ p # addrs l @ a # addrs r)" "a \<noteq> NULL" "aligned a"
    using z(1-3) by auto
  note c = case2_left_ok[OF n(1-8) c2]
  have "insert_step dummy_rotate a p s = Inr (Done (insert_case3_left dummy_rotate g a (root_of r) s'))"
    using z(1,2) u ne c2 c(1,2) n(9) by (auto simp: steps)
  moreover have "zok (insert_case3_left dummy_rotate g a (root_of r) s') fs (T gc (T Red pl p (black l)) a (T Red (black r) g u))"
  proof (rule case3_left_ok[where q = a])
    have "ptree (rbn s') g u = ptree (rbn s) g u" "pctx (rbn s') g fs (rb_root s) = pctx (rbn s) g fs (rb_root s)"
      using z(3) by (intro ptree_cong pctx_cong c(7); auto)+
    then show "ptree (rbn s') g u" "pctx (rbn s') g fs (rb_root s')" using z(2) c(3) by simp_all
    show "rbn s' g = \<lparr>rb_parent_color = enc (parent_of fs) gc, rb_right = root_of u, rb_left = p\<rparr>"
      using z(2,3) by (subst c(7)) auto
  qed (use z c in auto)
  ultimately show ?thesis by blast
qed

lemma step_LR:
  assumes "zok s (InL Red p pr # InR gc u g # fs) (T c l a r)" "\<not> isred u"
  shows "\<exists>s'. insert_step dummy_rotate a p s = Inr (Done s') \<and> zok s' fs (T gc (T Red u g (black l)) a (T Red (black r) p pr))"
proof -
  note z = zok_facts[OF assms(1)]
  have u: "root_of u = NULL \<or> pc_is_black (rb_parent_color (rbn s (root_of u)))"
    using z(2) assms(2) isred_iff[of "rbn s" g u] by auto
  have ne: "p \<noteq> root_of u" using z(1,2,3) root_mem[of u] by auto
  obtain a' tmp s' where c2: "insert_case2_right dummy_rotate a p s = (a', tmp, s')" by (cases "insert_case2_right dummy_rotate a p s")
  have n: "rbn s a = \<lparr>rb_parent_color = enc p c, rb_right = root_of r, rb_left = root_of l\<rparr>" "ptree (rbn s) a r" "ptree (rbn s) a l"
    "rbn s p = \<lparr>rb_parent_color = enc g Red, rb_right = root_of pr, rb_left = a\<rparr>" "p \<noteq> NULL" "aligned p" "ptree (rbn s) p pr"
    "distinct (addrs l @ a # addrs r @ p # addrs pr)" "a \<noteq> NULL" "aligned a"
    using z(1-3) by auto
  note c = case2_right_ok[OF n(1-8) c2]
  have "insert_step dummy_rotate a p s = Inr (Done (insert_case3_right dummy_rotate g a (root_of l) s'))"
    using z(1,2) u ne c2 c(1,2) n(9) by (auto simp: steps)
  moreover have "zok (insert_case3_right dummy_rotate g a (root_of l) s') fs (T gc (T Red u g (black l)) a (T Red (black r) p pr))"
  proof (rule case3_right_ok[where q = a])
    have "ptree (rbn s') g u = ptree (rbn s) g u" "pctx (rbn s') g fs (rb_root s) = pctx (rbn s) g fs (rb_root s)"
      using z(3) by (intro ptree_cong pctx_cong c(7); auto)+
    then show "ptree (rbn s') g u" "pctx (rbn s') g fs (rb_root s')" using z(2) c(3) by simp_all
    show "rbn s' g = \<lparr>rb_parent_color = enc (parent_of fs) gc, rb_right = p, rb_left = root_of u\<rparr>"
      using z(2,3) by (subst c(7)) auto
  qed (use z c in auto)
  ultimately show ?thesis by blast
qed

lemma flip_ok:
  assumes "zok s fs (T gc (T Red pl p pr) g (T Red ul u ur))" "(x, y) = (p, u) \<or> (x, y) = (u, p)"
  shows "\<exists>s'. insert_flip x g y s = Again g (parent_of fs) s' \<and> zok s' fs (T Red (T Black pl p pr) g (T Black ul u ur))"
proof -
  note z = zok_facts[OF assms(1)]
  have d: "p \<noteq> u" "p \<noteq> g" "u \<noteq> g" using z(3) by auto
  define n where "n = (rbn s)(p := (rbn s p)\<lparr>rb_parent_color := enc g Black\<rparr>, u := (rbn s u)\<lparr>rb_parent_color := enc g Black\<rparr>,
    g := (rbn s g)\<lparr>rb_parent_color := enc (parent_of fs) Red\<rparr>)"
  have g: "pc_parent (rb_parent_color (rbn s g)) = parent_of fs" using z(1,4) by simp
  have "insert_flip x g y s = Again g (parent_of fs) (s\<lparr>rbn := n\<rparr>)"
    using assms(2)
  proof
    assume "(x, y) = (p, u)"
    then show ?thesis using d g by (simp add: insert_flip_def Let_def rb_parent_def writes n_def fun_upd_twist)
  next
    assume "(x, y) = (u, p)"
    then show ?thesis using d g by (simp add: insert_flip_def Let_def rb_parent_def writes n_def fun_upd_twist)
  qed
  moreover have "zok (s\<lparr>rbn := n\<rparr>) fs (T Red (T Black pl p pr) g (T Black ul u ur))"
    using z d by (simp add: zok_def n_def)
  ultimately show ?thesis by blast
qed

lemma isred_cases:
  assumes "isred t"
  obtains l a r where "t = T Red l a r"
  using assms by (cases t rule: isred.cases) auto

lemma step_flip:
  assumes "zok s fs (T gc P g U)" "isred P" "isred U" "x = root_of P \<or> x = root_of U"
  shows "\<exists>s'. insert_step dummy_rotate a x s = Inr (Again g (parent_of fs) s') \<and> zok s' fs (T Red (black P) g (black U))"
proof -
  note z = zok_facts[OF assms(1)]
  obtain pl p pr where P: "P = T Red pl p pr" using assms(2) by (rule isred_cases)
  obtain ul u ur where U: "U = T Red ul u ur" using assms(3) by (rule isred_cases)
  have n: "rbn s g = \<lparr>rb_parent_color = enc (parent_of fs) gc, rb_right = u, rb_left = p\<rparr>" "g \<noteq> NULL" "aligned g" "p \<noteq> NULL" "u \<noteq> NULL"
    "rb_parent_color (rbn s p) = g" "rb_parent_color (rbn s u) = g" "p \<noteq> u"
    using z(1,3) unfolding P U by simp_all
  show ?thesis
    using assms(4)
  proof
    assume "x = root_of P"
    then have "insert_step dummy_rotate a x s = Inr (insert_flip p g u s)" using n by (simp add: steps P)
    then show ?thesis using flip_ok[OF assms(1)[unfolded P U], of p u] P U by simp
  next
    assume "x = root_of U"
    then have "insert_step dummy_rotate a x s = Inr (insert_flip u g p s)" using n by (simp add: steps U)
    then show ?thesis using flip_ok[OF assms(1)[unfolded P U], of u p] P U by simp
  qed
qed

lemma step_root: "zok s [] (T c l a r) \<Longrightarrow> \<exists>s'. insert_step dummy_rotate a NULL s = Inr (Done s') \<and> zok s' [] (T Black l a r)"
  by (auto simp: insert_step_def zok_def writes)

lemma step_black:
  "zok s (f # fs) (T c l a r) \<Longrightarrow> fcolor f = Black \<Longrightarrow> insert_step dummy_rotate a (parent_of (f # fs)) s = Inr (Done s)"
  using pctx_parent_aligned by (cases f) (auto simp: insert_step_def zok_def rb_is_black_def)

text \<open>The loop computes this function.\<close>

lemma loop_done: "insert_step rot a p s = Inr (Done s') \<Longrightarrow> rb_insert_loop rot a p s = Some (Inr s')"
  by (subst rb_insert_loop.simps) simp

lemma loop_again: "insert_step rot a p s = Inr (Again g q s') \<Longrightarrow> rb_insert_loop rot a p s = rb_insert_loop rot g q s'"
  by (subst rb_insert_loop.simps) simp

lemma insert_loop_refines:
  assumes "zok s fs t" "insert_fix fs t = Some t'"
  shows "\<exists>s'. rb_insert_loop dummy_rotate (root_of t) (parent_of fs) s = Some (Inr s') \<and> holds s' t'"
  using assms
proof (induction fs t arbitrary: s rule: insert_fix.induct)
  case (1 fs)
  then show ?case by simp
next
  case (2 c l a r)
  then show ?case using step_root[of s c l a r] loop_done by (fastforce simp: holds_def)
next
  case (3 f v va vb vc)
  then show ?case using step_black[of s f "[]" v va vb vc] loop_done by (fastforce simp: zok_plug split: if_splits)
next
  case (4 p pr gc g u fs v va vb vc)
  let ?t = "T v va vb vc"
  have z: "zok s fs (T gc (T Red ?t p pr) g u)" using 4(2) by (simp add: zok_plug)
  show ?case
  proof (cases "isred u")
    case True
    then show ?thesis using step_flip[OF z, of p vb] 4(1)[OF True] 4(3) loop_again by fastforce
  next
    case False
    then show ?thesis using step_LL[OF 4(2) False] 4(3) loop_done by (fastforce simp: zok_plug)
  qed
next
  case (5 pl p gc g u fs c l a r)
  let ?t = "T c l a r"
  have z: "zok s fs (T gc (T Red pl p ?t) g u)" using 5(2) by (simp add: zok_plug)
  show ?case
  proof (cases "isred u")
    case True
    then show ?thesis using step_flip[OF z, of p a] 5(1)[OF True] 5(3) loop_again by fastforce
  next
    case False
    then show ?thesis using step_RL[OF 5(2) False] 5(3) loop_done by (fastforce simp: zok_plug)
  qed
next
  case (6 pl p gc u g fs v va vb vc)
  let ?t = "T v va vb vc"
  have z: "zok s fs (T gc u g (T Red pl p ?t))" using 6(2) by (simp add: zok_plug)
  show ?case
  proof (cases "isred u")
    case True
    then show ?thesis using step_flip[OF z, of p vb] 6(1)[OF True] 6(3) loop_again by fastforce
  next
    case False
    then show ?thesis using step_RR[OF 6(2) False] 6(3) loop_done by (fastforce simp: zok_plug)
  qed
next
  case (7 p pr gc u g fs c l a r)
  let ?t = "T c l a r"
  have z: "zok s fs (T gc u g (T Red ?t p pr))" using 7(2) by (simp add: zok_plug)
  show ?case
  proof (cases "isred u")
    case True
    then show ?thesis using step_flip[OF z, of p a] 7(1)[OF True] 7(3) loop_again by fastforce
  next
    case False
    then show ?thesis using step_LR[OF 7(2) False] 7(3) loop_done by (fastforce simp: zok_plug)
  qed
next
  case (8 p pr f fs v va vb vc)
  then show ?case using step_black[of s "InL Black p pr" "f # fs" v va vb vc] loop_done by (fastforce simp: zok_plug)
next
  case (9 pl p f fs v va vb vc)
  then show ?case using step_black[of s "InR Black pl p" "f # fs" v va vb vc] loop_done by (fastforce simp: zok_plug)
qed


section \<open>Invariants\<close>

lemma color_neq [simp]: "c \<noteq> Red \<longleftrightarrow> c = Black" "c \<noteq> Black \<longleftrightarrow> c = Red" by (cases c; simp)+

fun bh :: "rb \<Rightarrow> nat" where
  "bh E = 0"
| "bh (T c l a r) = bh l + (if c = Black then 1 else 0)"

fun invc :: "rb \<Rightarrow> bool" where
  "invc E \<longleftrightarrow> True"
| "invc (T c l a r) \<longleftrightarrow> invc l \<and> invc r \<and> (c = Red \<longrightarrow> \<not> isred l \<and> \<not> isred r)"

fun invh :: "rb \<Rightarrow> bool" where
  "invh E \<longleftrightarrow> True"
| "invh (T c l a r) \<longleftrightarrow> invh l \<and> invh r \<and> bh l = bh r"

definition red_black :: "rb \<Rightarrow> bool" where
  "red_black t \<longleftrightarrow> invc t \<and> invh t \<and> \<not> isred t"

text \<open>The surroundings of a hole for a subtree of black height \<open>h\<close>, with a black root.\<close>

definition up_black :: "frame list \<Rightarrow> bool" where
  "up_black fs \<longleftrightarrow> (case fs of [] \<Rightarrow> False | f # _ \<Rightarrow> fcolor f = Black)"

fun cok :: "frame list \<Rightarrow> nat \<Rightarrow> bool" where
  "cok [] h \<longleftrightarrow> True"
| "cok (InL c a r # fs) h \<longleftrightarrow> invc r \<and> invh r \<and> bh r = h \<and> (c = Red \<longrightarrow> \<not> isred r \<and> up_black fs) \<and>
     cok fs (h + (if c = Black then 1 else 0))"
| "cok (InR c l a # fs) h \<longleftrightarrow> invc l \<and> invh l \<and> bh l = h \<and> (c = Red \<longrightarrow> \<not> isred l \<and> up_black fs) \<and>
     cok fs (h + (if c = Black then 1 else 0))"

lemma isred_T [simp]: "isred (T c l a r) \<longleftrightarrow> c = Red" by (cases c) auto

lemma black_inv [simp]:
  "invc t \<Longrightarrow> invc (black t)" "invh t \<Longrightarrow> invh (black t)" "\<not> isred (black t)" "\<not> isred t \<Longrightarrow> black t = t"
  by (cases t; auto)+

lemma bh_black: "isred t \<Longrightarrow> bh (black t) = Suc (bh t)" by (cases t rule: isred.cases) auto

lemma up_black_simps [simp]: "\<not> up_black []" "up_black (f # fs) \<longleftrightarrow> fcolor f = Black"
  by (simp_all add: up_black_def)

lemma plug_inv: "cok fs (bh t) \<Longrightarrow> invc t \<Longrightarrow> invh t \<Longrightarrow> isred t \<longrightarrow> up_black fs \<Longrightarrow> red_black (plug t fs)"
proof (induction fs arbitrary: t rule: caddrs.induct)
  case (2 c a r fs)
  then show ?case using "2.IH"[of "T c t a r"] by auto
next
  case (3 c l a fs)
  then show ?case using "3.IH"[of "T c l a t"] by auto
qed (auto simp: red_black_def)

lemma addrs_plug: "addrs t = addrs t' \<Longrightarrow> addrs (plug t fs) = addrs (plug t' fs)"
  by (induction fs arbitrary: t t' rule: caddrs.induct) auto

lemma insert_fix_addrs: "insert_fix fs t = Some t' \<Longrightarrow> addrs t' = addrs (plug t fs)"
  by (induction fs t rule: insert_fix.induct) (auto split: if_splits intro!: addrs_plug)

lemma insert_fix_inv:
  "cok fs (bh t) \<Longrightarrow> invh t \<Longrightarrow> invc t \<Longrightarrow> isred t \<Longrightarrow> \<exists>t'. insert_fix fs t = Some t' \<and> red_black t'"
proof (induction fs t rule: insert_fix.induct)
  case (2 c l a r)
  then show ?case by (auto simp: red_black_def)
next
  case (3 f v va vb vc)
  then show ?case using plug_inv[of "[f]" "T v va vb vc"] by (cases f) auto
next
  case (4 p pr gc g u fs v va vb vc)
  then show ?case
    using plug_inv[of fs "T gc (T v va vb vc) p (T Red (black pr) g u)"] bh_black[of u] by (cases "isred u") auto
next
  case (5 pl p gc g u fs c l a r)
  then show ?case
    using plug_inv[of fs "T gc (T Red pl p (black l)) a (T Red (black r) g u)"] bh_black[of u] by (cases "isred u") auto
next
  case (6 pl p gc u g fs v va vb vc)
  then show ?case
    using plug_inv[of fs "T gc (T Red u g (black pl)) p (T v va vb vc)"] bh_black[of u] by (cases "isred u") auto
next
  case (7 p pr gc u g fs c l a r)
  then show ?case
    using plug_inv[of fs "T gc (T Red u g (black l)) a (T Red (black r) p pr)"] bh_black[of u] by (cases "isred u") auto
next
  case (8 p pr f fs v va vb vc)
  then show ?case using plug_inv[of "InL Black p pr # f # fs" "T v va vb vc"] by auto
next
  case (9 pl p f fs v va vb vc)
  then show ?case using plug_inv[of "InR Black pl p # f # fs" "T v va vb vc"] by auto
qed simp

section \<open>Descending\<close>

fun ins_ctx :: "(addr \<Rightarrow> bool) \<Rightarrow> rb \<Rightarrow> frame list \<Rightarrow> frame list" where
  "ins_ctx lt E fs = fs"
| "ins_ctx lt (T c l a r) fs = (if lt a then ins_ctx lt l (InL c a r # fs) else ins_ctx lt r (InR c l a # fs))"

lemma plug_ins_ctx: "plug E (ins_ctx lt t fs) = plug t fs"
  by (induction t arbitrary: fs) auto

lemma ins_ctx_cok:
  "cok fs (bh t) \<Longrightarrow> invc t \<Longrightarrow> invh t \<Longrightarrow> isred t \<longrightarrow> up_black fs \<Longrightarrow> cok (ins_ctx lt t fs) 0"
  by (induction t arbitrary: fs) auto

fun link_of :: "frame list \<Rightarrow> bool option" where
  "link_of [] = None"
| "link_of (InL c a r # fs) = Some True"
| "link_of (InR c l a # fs) = Some False"

lemma add_descend_eq:
  "ptree (rbn s) q t \<Longrightarrow> add_descend lt x s (root_of t) (parent_of fs) (link_of fs) =
     Some (parent_of (ins_ctx (lt x) t fs), link_of (ins_ctx (lt x) t fs))"
proof (induction t arbitrary: q fs)
  case E
  then show ?case by (simp add: add_descend.simps)
next
  case (T c l a r)
  then show ?case using T.IH(1)[of a "InL c a r # fs"] T.IH(2)[of a "InR c l a # fs"] by (subst add_descend.simps) auto
qed

lemma link_ok:
  assumes "zok s fs E" "x \<noteq> NULL" "aligned x" "x \<notin> set (caddrs fs)"
  shows "zok (write_link (parent_of fs) (link_of fs) x (rb_link_node x (parent_of fs) s)) fs (T Red E x E)"
  using assms by (cases fs rule: caddrs.cases) (auto simp: zok_def write_link_def rb_link_node_def writes)

text \<open>The nodes in front of and behind a hole.\<close>

fun cl :: "frame list \<Rightarrow> addr list" where
  "cl [] = []"
| "cl (InL c a r # fs) = cl fs"
| "cl (InR c l a # fs) = cl fs @ addrs l @ [a]"

fun cr :: "frame list \<Rightarrow> addr list" where
  "cr [] = []"
| "cr (InL c a r # fs) = a # addrs r @ cr fs"
| "cr (InR c l a # fs) = cr fs"

lemma addrs_plug_split: "addrs (plug t fs) = cl fs @ addrs t @ cr fs"
  by (induction fs arbitrary: t rule: caddrs.induct) auto

lemma set_caddrs: "set (caddrs fs) = set (cl fs) \<union> set (cr fs)"
  by (induction fs rule: caddrs.induct) auto

lemma stop_at:
  "\<not> P a \<Longrightarrow> takeWhile P (ys @ a # zs) = takeWhile P ys"
  "\<not> P a \<Longrightarrow> dropWhile P (ys @ a # zs) = dropWhile P ys @ a # zs"
  by (induction ys; simp)+

lemma ins_ctx_split:
  assumes "sorted_wrt (\<lambda>a b. lt a \<longrightarrow> lt b) (addrs t)"
  shows "cl (ins_ctx lt t fs) = cl fs @ takeWhile (\<lambda>a. \<not> lt a) (addrs t)"
    and "cr (ins_ctx lt t fs) = dropWhile (\<lambda>a. \<not> lt a) (addrs t) @ cr fs"
proof -
  have "cl (ins_ctx lt t fs) = cl fs @ takeWhile (\<lambda>a. \<not> lt a) (addrs t) \<and> cr (ins_ctx lt t fs) = dropWhile (\<lambda>a. \<not> lt a) (addrs t) @ cr fs"
    using assms
  proof (induction t arbitrary: fs)
    case (T c l a r)
    have p: "sorted_wrt (\<lambda>a b. lt a \<longrightarrow> lt b) (addrs l)" "sorted_wrt (\<lambda>a b. lt a \<longrightarrow> lt b) (addrs r)"
      using T.prems unfolding addrs.simps sorted_wrt_append sorted_wrt.simps by blast+
    show ?case
    proof (cases "lt a")
      case True
      then show ?thesis using T.IH(1)[OF p(1), of "InL c a r # fs"] by (simp add: stop_at)
    next
      case False
      then have "\<forall>b\<in>set (addrs l). \<not> lt b"
        using T.prems unfolding addrs.simps sorted_wrt_append list.set by blast
      then show ?thesis using False T.IH(2)[OF p(2), of "InR c l a # fs"] by (simp add: takeWhile_append2 dropWhile_append2)
    qed
  qed simp
  then show "cl (ins_ctx lt t fs) = cl fs @ takeWhile (\<lambda>a. \<not> lt a) (addrs t)"
    "cr (ins_ctx lt t fs) = dropWhile (\<lambda>a. \<not> lt a) (addrs t) @ cr fs" by simp_all
qed

lemma rb_add_refines:
  assumes "holds s t" "red_black t" "x \<noteq> NULL" "aligned x" "x \<notin> set (addrs t)"
    and "sorted_wrt (\<lambda>a b. lt x a \<longrightarrow> lt x b) (addrs t)"
  shows "\<exists>s' t'. rb_add lt x s = Some (Inr s') \<and> holds s' t' \<and> red_black t' \<and>
    addrs t' = takeWhile (\<lambda>a. \<not> lt x a) (addrs t) @ x # dropWhile (\<lambda>a. \<not> lt x a) (addrs t)"
proof -
  let ?fs = "ins_ctx (lt x) t []"
  have pt: "ptree (rbn s) NULL t" "rb_root s = root_of t" using assms(1) by (auto simp: holds_def zok_def)
  have z: "zok s ?fs E" using assms(1) by (simp add: zok_plug plug_ins_ctx)
  have "x \<notin> set (caddrs ?fs)"
    using assms(5) ins_ctx_split[OF assms(6), of "[]"] by (auto simp: set_caddrs dest: set_takeWhileD set_dropWhileD)
  then have z': "zok (write_link (parent_of ?fs) (link_of ?fs) x (rb_link_node x (parent_of ?fs) s)) ?fs (T Red E x E)" (is "zok ?s _ _")
    using link_ok[OF z assms(3,4)] by simp
  have "cok ?fs 0" using assms(2) by (intro ins_ctx_cok) (auto simp: red_black_def)
  then obtain t' where t': "insert_fix ?fs (T Red E x E) = Some t'" "red_black t'" using insert_fix_inv[of ?fs "T Red E x E"] by auto
  obtain s' where s': "rb_insert_loop dummy_rotate x (parent_of ?fs) ?s = Some (Inr s')" "holds s' t'"
    using insert_loop_refines[OF z' t'(1)] by auto
  have "rb_red_parent ?s x = parent_of ?fs" using zok_facts(1)[OF z'] by (simp add: rb_red_parent_def)
  then have "rb_add lt x s = Some (Inr s')"
    using add_descend_eq[OF pt(1), of lt x "[]"] pt(2) s'(1) assms(3)
    by (simp add: rb_add_def rb_insert_color_def rb_insert_augmented_def)
  moreover have "addrs t' = takeWhile (\<lambda>a. \<not> lt x a) (addrs t) @ x # dropWhile (\<lambda>a. \<not> lt x a) (addrs t)"
    using insert_fix_addrs[OF t'(1)] ins_ctx_split[OF assms(6), of "[]"] by (simp add: addrs_plug_split)
  ultimately show ?thesis using s'(2) t'(2) by blast
qed

section \<open>Searching\<close>

lemma find_loop_eq:
  assumes "ptree (rbn s) p t" "sorted_wrt (\<lambda>a b. cmp a \<ge> cmp b) (addrs t)"
  shows "\<exists>a. find_loop cmp s (root_of t) = Some a \<and> (if \<exists>b\<in>set (addrs t). cmp b = 0 then a \<in> set (addrs t) \<and> cmp a = 0 else a = NULL)"
  using assms
proof (induction t arbitrary: p)
  case E
  then show ?case by (simp add: find_loop.simps)
next
  case (T c l a r)
  consider "cmp a < 0" | "cmp a > 0" | "cmp a = 0" by linarith
  then show ?case
  proof cases
    case 1
    then have "\<forall>b\<in>set (addrs r). cmp b \<noteq> 0" using T.prems(2) by (fastforce simp: sorted_wrt_append)
    then show ?thesis using 1 T.IH(1)[of a] T.prems by (subst find_loop.simps) (auto simp: sorted_wrt_append split: if_splits)
  next
    case 2
    then have "\<forall>b\<in>set (addrs l). cmp b \<noteq> 0" using T.prems(2) by (fastforce simp: sorted_wrt_append)
    then show ?thesis using 2 T.IH(2)[of a] T.prems by (subst find_loop.simps) (auto simp: sorted_wrt_append split: if_splits)
  next
    case 3
    then show ?thesis using T.prems by (subst find_loop.simps) auto
  qed
qed

section \<open>Traversal\<close>

lemma leftmost_eq: "ptree (rbn s) p t \<Longrightarrow> t \<noteq> E \<Longrightarrow> leftmost s (root_of t) = Some (hd (addrs t))"
proof (induction t arbitrary: p)
  case (T c l a r)
  then show ?case using T.IH(1)[of a] ptree_root[of "rbn s" a l] by (cases l) (subst leftmost.simps; simp add: hd_append)+
qed simp

lemma climb_right_eq:
  assumes "zok s fs t" "t \<noteq> E"
  shows "climb_right s (root_of t) = Some (if cr fs = [] then NULL else hd (cr fs))"
  using assms
proof (induction fs arbitrary: t rule: caddrs.induct)
  case 1
  then show ?case by (subst climb_right.simps) (cases t; simp add: zok_def rb_parent_def)
next
  case (2 c a r fs)
  then have "root_of t \<noteq> root_of r" "rb_parent s (root_of t) = a" "a \<noteq> NULL" "rb_right (rbn s a) = root_of r"
    using root_mem[of r] by (cases t; auto simp: zok_def rb_parent_def)+
  then show ?case by (subst climb_right.simps) simp
next
  case (3 c l a fs)
  then have "rb_parent s (root_of t) = a" "a \<noteq> NULL" "rb_right (rbn s a) = root_of t"
    by (cases t; auto simp: zok_def rb_parent_def)+
  moreover have "zok s fs (T c l a t)" using 3(2) by (simp add: zok_plug)
  ultimately show ?case using "3.IH"[of "T c l a t"] by (subst climb_right.simps) simp
qed

lemma rb_next_eq:
  assumes "zok s fs (T c l a r)"
  shows "rb_next s a = Some (if addrs r @ cr fs = [] then NULL else hd (addrs r @ cr fs))"
proof -
  note z = zok_facts[OF assms]
  have "parent_of fs \<noteq> a" using z(1,3) parent_of_mem[of fs] by (cases fs) auto
  then have "enc (parent_of fs) c \<noteq> a" using pc_parent_enc[OF z(4), of c] z(1) by auto
  then have ne: "\<not> RB_EMPTY_NODE s a" using z(1) by (simp add: RB_EMPTY_NODE_def)
  show ?thesis
  proof (cases "r = E")
    case True
    then show ?thesis using ne z(1) climb_right_eq[OF assms] by (simp add: rb_next_def)
  next
    case False
    then have "root_of r \<noteq> NULL" "addrs r \<noteq> []" using z(1) ptree_root[of "rbn s" a r] by (auto elim: addrs.elims)
    then show ?thesis using ne z(1) leftmost_eq[of s a r] False by (simp add: rb_next_def)
  qed
qed

lemma focus: "a \<in> set (addrs t) \<Longrightarrow> \<exists>fs c l r. plug (T c l a r) fs = plug t gs"
proof (induction t arbitrary: gs)
  case (T c l b r)
  then show ?case using T.IH(1)[of "InL c b r # gs"] T.IH(2)[of "InR c l b # gs"] by auto
qed simp

lemma rb_next_nth:
  assumes "holds s t" "i < length (addrs t)"
  shows "rb_next s (addrs t ! i) = Some (if Suc i < length (addrs t) then addrs t ! Suc i else NULL)"
proof -
  obtain fs c l r where p: "plug (T c l (addrs t ! i) r) fs = t" using focus[of "addrs t ! i" t "[]"] assms(2) by auto
  then have z: "zok s fs (T c l (addrs t ! i) r)" using assms(1) by (simp add: zok_plug)
  have e: "addrs t = (cl fs @ addrs l) @ addrs t ! i # (addrs r @ cr fs)" using addrs_plug_split[of "T c l (addrs t ! i) r" fs] p by simp
  define xs ys where "xs = cl fs @ addrs l" "ys = addrs r @ cr fs"
  then have e': "addrs t = xs @ addrs t ! i # ys" using e by simp
  then have "length (addrs t) = length xs + Suc (length ys)" by (metis length_append length_Cons)
  moreover have "addrs t ! length xs = addrs t ! i" using e' by (metis nth_append_length)
  moreover have "distinct (addrs t)" using assms(1) by (simp add: holds_def zok_def)
  ultimately have k: "i = length xs" using assms(2) nth_eq_iff_index_eq[of "addrs t" i "length xs"] by simp
  have "drop (Suc (length xs)) (xs @ addrs t ! i # ys) = ys" by simp
  then have d: "drop (Suc i) (addrs t) = addrs r @ cr fs" using e' k xs_ys_def(2) by metis
  show ?thesis
  proof (cases "Suc i < length (addrs t)")
    case True
    then show ?thesis using rb_next_eq[OF z] d hd_drop_conv_nth[OF True] by auto
  next
    case False
    then show ?thesis using rb_next_eq[OF z] d by auto
  qed
qed

lemma rb_first_eq: "holds s t \<Longrightarrow> rb_first s = Some (if t = E then NULL else hd (addrs t))"
  using leftmost_eq[of s NULL t] ptree_root[of "rbn s" NULL t] by (auto simp: holds_def zok_def rb_first_def)

section \<open>Height\<close>

fun height :: "rb \<Rightarrow> nat" where
  "height E = 0"
| "height (T c l a r) = Suc (max (height l) (height r))"

lemma bh_size: "invh t \<Longrightarrow> 2 ^ bh t \<le> Suc (length (addrs t))"
  by (induction t) auto

lemma height_bh: "invc t \<Longrightarrow> invh t \<Longrightarrow> height t \<le> 2 * bh t + (if isred t then 1 else 0)"
  by (induction t) (auto split: if_splits)

section \<open>An index of nodes by key\<close>

text \<open>The contract of a searchable container: \<open>rep s xs\<close> says that the state holds the nodes \<open>xs\<close>. A lookup returns (it is not
  \<open>None\<close>), and what it returns is a node or none.\<close>

fun add_all :: "('n \<Rightarrow> 's \<Rightarrow> 's option) \<Rightarrow> 'n list \<Rightarrow> 's \<Rightarrow> 's option" where
  "add_all add [] s = Some s"
| "add_all add (x # xs) s = Option.bind (add x s) (add_all add xs)"

locale search_index =
  fixes rep :: "'s \<Rightarrow> 'n list \<Rightarrow> bool"
    and usable :: "'n \<Rightarrow> bool"
    and key :: "'n \<Rightarrow> int"
    and add :: "'n \<Rightarrow> 's \<Rightarrow> 's option"
    and lookup :: "int \<Rightarrow> 's \<Rightarrow> 'n option option"
  assumes add_rep: "rep s xs \<Longrightarrow> usable x \<Longrightarrow> x \<notin> set xs \<Longrightarrow> \<exists>s' ys. add x s = Some s' \<and> rep s' ys \<and> set ys = insert x (set xs)"
    and lookup_returns: "rep s xs \<Longrightarrow> \<exists>r. lookup k s = Some r"
    and lookup_some: "rep s xs \<Longrightarrow> lookup k s = Some (Some x) \<Longrightarrow> x \<in> set xs \<and> key x = k"
    and lookup_none: "rep s xs \<Longrightarrow> lookup k s = Some None \<Longrightarrow> \<forall>x\<in>set xs. key x \<noteq> k"
begin

lemma add_all_rep:
  "rep s xs \<Longrightarrow> distinct ns \<Longrightarrow> \<forall>n\<in>set ns. usable n \<Longrightarrow> set ns \<inter> set xs = {} \<Longrightarrow>
     \<exists>s' ys. add_all add ns s = Some s' \<and> rep s' ys \<and> set ys = set xs \<union> set ns"
proof (induction ns arbitrary: s xs)
  case (Cons n ns)
  then obtain s1 ys where "add n s = Some s1" "rep s1 ys" "set ys = insert n (set xs)"
    using add_rep[of s xs n] by auto
  then show ?case using Cons.IH[of s1 ys] Cons.prems by auto
qed auto

lemma lookup_after_adds:
  assumes "rep s []" "distinct ns" "\<forall>n\<in>set ns. usable n"
  shows "\<exists>s'. add_all add ns s = Some s' \<and>
    (\<forall>k. \<exists>r. lookup k s' = Some r \<and> (case r of None \<Rightarrow> \<forall>n\<in>set ns. key n \<noteq> k | Some n \<Rightarrow> n \<in> set ns \<and> key n = k))"
proof -
  obtain s' ys where s': "add_all add ns s = Some s'" "rep s' ys" "set ys = set ns"
    using add_all_rep[OF assms] by auto
  have "\<exists>r. lookup k s' = Some r \<and> (case r of None \<Rightarrow> \<forall>n\<in>set ns. key n \<noteq> k | Some n \<Rightarrow> n \<in> set ns \<and> key n = k)" for k
  proof -
    obtain r where "lookup k s' = Some r" using lookup_returns[OF s'(2)] by blast
    then show ?thesis using lookup_some[OF s'(2), of k] lookup_none[OF s'(2), of k] s'(3) by (auto split: option.split)
  qed
  then show ?thesis using s'(1) by blast
qed

end

definition index_rep :: "(addr \<Rightarrow> int) \<Rightarrow> rb_tree \<Rightarrow> addr list \<Rightarrow> bool" where
  "index_rep key s xs \<longleftrightarrow> (\<exists>t. holds s t \<and> red_black t \<and> addrs t = xs) \<and> sorted (map key xs)"

text \<open>The comparison of nodes by key that a client passes, and that of a key with a node.\<close>

definition key_less :: "(addr \<Rightarrow> int) \<Rightarrow> addr \<Rightarrow> addr \<Rightarrow> bool" where
  "key_less key a b \<longleftrightarrow> key a < key b"

definition key_cmp :: "(addr \<Rightarrow> int) \<Rightarrow> int \<Rightarrow> addr \<Rightarrow> int" where
  "key_cmp key k a = k - key a"

definition index_add :: "(addr \<Rightarrow> int) \<Rightarrow> addr \<Rightarrow> rb_tree \<Rightarrow> rb_tree option" where
  "index_add key x s = (case rb_add (key_less key) x s of Some (Inr s') \<Rightarrow> Some s' | _ \<Rightarrow> None)"

text \<open>\<open>None\<close> is a search that does not return, \<open>Some None\<close> the result \<open>NULL\<close>.\<close>

definition index_find :: "(addr \<Rightarrow> int) \<Rightarrow> int \<Rightarrow> rb_tree \<Rightarrow> addr option option" where
  "index_find key k s = map_option (\<lambda>a. if a = NULL then None else Some a) (rb_find (key_cmp key k) s)"

lemma sorted_insert_at:
  fixes key :: "addr \<Rightarrow> int"
  assumes "sorted (map key xs)"
  shows "sorted (map key (takeWhile (\<lambda>a. \<not> key x < key a) xs @ x # dropWhile (\<lambda>a. \<not> key x < key a) xs))"
  using assms
proof (induction xs)
  case (Cons a xs)
  have "y \<in> insert x (set xs)" if "y \<in> set (takeWhile (\<lambda>a. \<not> key x < key a) xs @ x # dropWhile (\<lambda>a. \<not> key x < key a) xs)" for y
    using that by (auto dest: set_takeWhileD set_dropWhileD)
  then have "key a \<le> key y" if "\<not> key x < key a" "y \<in> set (takeWhile (\<lambda>a. \<not> key x < key a) xs @ x # dropWhile (\<lambda>a. \<not> key x < key a) xs)" for y
    using that Cons.prems by fastforce
  then show ?case using Cons by fastforce
qed simp

lemma rb_add_sorted:
  assumes "holds s t" "red_black t" "x \<noteq> NULL" "aligned x" "x \<notin> set (addrs t)" "sorted (map key (addrs t))"
  shows "\<exists>s' t'. rb_add (key_less key) x s = Some (Inr s') \<and> holds s' t' \<and> red_black t' \<and> sorted (map key (addrs t')) \<and>
    addrs t' = takeWhile (\<lambda>a. \<not> key x < key a) (addrs t) @ x # dropWhile (\<lambda>a. \<not> key x < key a) (addrs t)"
proof -
  have "sorted_wrt (\<lambda>a b. key_less key x a \<longrightarrow> key_less key x b) (addrs t)"
    using assms(6) unfolding sorted_map by (rule sorted_wrt_mono_rel[rotated]) (auto simp: key_less_def)
  then obtain s' t' where r: "rb_add (key_less key) x s = Some (Inr s')" "holds s' t'" "red_black t'"
    "addrs t' = takeWhile (\<lambda>a. \<not> key x < key a) (addrs t) @ x # dropWhile (\<lambda>a. \<not> key x < key a) (addrs t)"
    using rb_add_refines[where lt = "key_less key", OF assms(1-5)] unfolding key_less_def by blast
  then show ?thesis using sorted_insert_at[OF assms(6), of x] by metis
qed

interpretation rb_index: search_index "index_rep key" "\<lambda>a. a \<noteq> NULL \<and> aligned a" key "index_add key" "index_find key" for key
proof unfold_locales
  fix s xs x assume "index_rep key s xs" "x \<noteq> NULL \<and> aligned x" "x \<notin> set xs"
  then obtain t where t: "holds s t" "red_black t" "addrs t = xs" "sorted (map key (addrs t))" "x \<notin> set (addrs t)" "x \<noteq> NULL" "aligned x"
    by (auto simp: index_rep_def)
  let ?w = "\<lambda>a. \<not> key x < key a"
  obtain s' t' where r: "rb_add (key_less key) x s = Some (Inr s')" "holds s' t'" "red_black t'" "sorted (map key (addrs t'))"
    "addrs t' = takeWhile ?w xs @ x # dropWhile ?w xs"
    using rb_add_sorted[OF t(1,2,6,7,5,4)] t(3) by blast
  have "set (takeWhile ?w xs) \<union> set (dropWhile ?w xs) = set xs" by (metis set_append takeWhile_dropWhile_id)
  then have "set (addrs t') = insert x (set xs)" using r(5) by auto
  then show "\<exists>s' ys. index_add key x s = Some s' \<and> index_rep key s' ys \<and> set ys = insert x (set xs)"
    using r(1-4) by (intro exI[of _ s'] exI[of _ "addrs t'"]) (auto simp: index_add_def index_rep_def)
next
  fix s xs k
  assume r: "index_rep key s xs"
  then obtain t where t: "ptree (rbn s) NULL t" "rb_root s = root_of t" "addrs t = xs" "sorted (map key (addrs t))"
    by (auto simp: index_rep_def holds_def zok_def)
  have "sorted_wrt (\<lambda>a b. key_cmp key k a \<ge> key_cmp key k b) (addrs t)"
    using t(4) unfolding sorted_map by (rule sorted_wrt_mono_rel[rotated]) (auto simp: key_cmp_def)
  from find_loop_eq[OF t(1) this] obtain a where a: "rb_find (key_cmp key k) s = Some a"
    "if \<exists>b\<in>set xs. key_cmp key k b = 0 then a \<in> set xs \<and> key_cmp key k a = 0 else a = NULL"
    using t by (auto simp: rb_find_def)
  have nn: "NULL \<notin> set xs" using ptree_nonnull[OF t(1)] t(3) by simp
  show "\<exists>r. index_find key k s = Some r" using a(1) by (simp add: index_find_def)
  show "x \<in> set xs \<and> key x = k" if "index_find key k s = Some (Some x)" for x
    using that a nn by (auto simp: index_find_def key_cmp_def split: if_splits)
  show "\<forall>x\<in>set xs. key x \<noteq> k" if "index_find key k s = Some None"
    using that a nn by (auto simp: index_find_def key_cmp_def split: if_splits)
qed

section \<open>Properties\<close>

text \<open>
  C19: \<^verbatim>\<open>rb_add\<close> of a new node to a red-black tree sorted by a key terminates without a fault and
  leaves a red-black tree (no red node has a red child, every path has the same number of black nodes, the root is
  black; all parent pointers, colours and child pointers of the store agree with it) whose nodes in order are the
  old ones with the new one behind those of smaller or equal key.\<close>

theorem rb_add_keeps_red_black:
  assumes "holds s t" "red_black t" "sorted (map key (addrs t))" "x \<noteq> NULL" "aligned x" "x \<notin> set (addrs t)"
  shows "\<exists>s' t'. rb_add (key_less key) x s = Some (Inr s') \<and> holds s' t' \<and> red_black t' \<and> sorted (map key (addrs t')) \<and>
    addrs t' = takeWhile (\<lambda>a. \<not> key x < key a) (addrs t) @ x # dropWhile (\<lambda>a. \<not> key x < key a) (addrs t)"
  using rb_add_sorted[OF assms(1,2,4,5,6,3)] .

definition empty_store :: rb_tree where
  "empty_store = \<lparr>rbn = \<lambda>_. \<lparr>rb_parent_color = 0, rb_right = NULL, rb_left = NULL\<rparr>, rb_root = NULL\<rparr>"

lemma empty_holds: "holds empty_store E" "red_black E" "index_rep key empty_store []"
proof -
  show "holds empty_store E" "red_black E" by (simp_all add: holds_def zok_def empty_store_def red_black_def)
  then show "index_rep key empty_store []" unfolding index_rep_def by (auto intro!: exI[of _ E])
qed

theorem rb_add_keeps_red_black_witness:
  "\<exists>s t. rb_add (key_less uint) 16 empty_store = Some (Inr s) \<and> holds s t \<and> red_black t \<and> addrs t = [16]"
  using rb_add_keeps_red_black[OF empty_holds(1,2), of uint 16] by (auto simp: aligned_def)

text \<open>
  C20: After any sequence of \<^verbatim>\<open>rb_add\<close> of distinct nodes (at aligned addresses, none \<open>NULL\<close>) to the empty tree, every insertion has
  succeeded, and \<^verbatim>\<open>rb_find\<close> terminates for every key: it returns a node with that key if one was added, and \<open>NULL\<close> if
  none was.\<close>

theorem rb_find_after_adds:
  assumes "distinct ns" "\<forall>n\<in>set ns. n \<noteq> NULL \<and> aligned n"
  shows "\<exists>s. add_all (index_add key) ns empty_store = Some s \<and>
    (\<forall>k. \<exists>a. rb_find (key_cmp key k) s = Some a \<and>
       (if a = NULL then \<forall>n\<in>set ns. key n \<noteq> k else a \<in> set ns \<and> key a = k))"
proof -
  obtain s where s: "add_all (index_add key) ns empty_store = Some s"
    and f: "\<And>k. \<exists>r. index_find key k s = Some r \<and> (case r of None \<Rightarrow> \<forall>n\<in>set ns. key n \<noteq> k | Some n \<Rightarrow> n \<in> set ns \<and> key n = k)"
    using rb_index.lookup_after_adds[OF empty_holds(3) assms] by blast
  have "\<exists>a. rb_find (key_cmp key k) s = Some a \<and> (if a = NULL then \<forall>n\<in>set ns. key n \<noteq> k else a \<in> set ns \<and> key a = k)" for k
    using f[of k] by (auto simp: index_find_def split: if_splits)
  then show ?thesis using s by blast
qed

theorem rb_find_after_adds_witness:
  "\<exists>s. add_all (index_add uint) [32, 16, 64, 48] empty_store = Some s \<and> rb_find (key_cmp uint 16) s = Some 16 \<and>
     rb_find (key_cmp uint 17) s = Some NULL"
proof -
  obtain s where s: "add_all (index_add uint) [32, 16, 64, 48] empty_store = Some s"
    "\<forall>k. \<exists>a. rb_find (key_cmp uint k) s = Some a \<and>
       (if a = NULL then \<forall>n\<in>set [32 :: addr, 16, 64, 48]. uint n \<noteq> k else a \<in> set [32, 16, 64, 48] \<and> uint a = k)"
  proof -
    have "distinct [32, 16, 64, 48 :: addr]" "\<forall>n\<in>set [32, 16, 64, 48]. n \<noteq> NULL \<and> aligned n" by (simp_all add: aligned_def)
    from rb_find_after_adds[OF this, of uint] show ?thesis using that by blast
  qed
  show ?thesis using s(1) s(2)[rule_format, of 16] s(2)[rule_format, of 17] by (auto split: if_splits)
qed

text \<open>
  C21: On a well-formed tree \<^verbatim>\<open>rb_first\<close> and \<^verbatim>\<open>rb_next\<close> terminate and enumerate the nodes in order:
  the first one, then from each node the one behind it, and \<open>NULL\<close> after the last.\<close>

theorem rb_next_enumerates:
  assumes "holds s t"
  shows "rb_first s = Some (if addrs t = [] then NULL else hd (addrs t)) \<and>
    (\<forall>i < length (addrs t). rb_next s (addrs t ! i) = Some (if Suc i < length (addrs t) then addrs t ! Suc i else NULL))"
proof -
  have "t = E \<longleftrightarrow> addrs t = []" by (cases t) auto
  then show ?thesis using rb_first_eq[OF assms] rb_next_nth[OF assms] by simp
qed

theorem rb_next_enumerates_witness:
  "\<exists>s t. holds s t \<and> length (addrs t) = 1 \<and> rb_first s = Some 16 \<and> rb_next s 16 = Some NULL"
proof -
  obtain s t where t: "holds s t" "addrs t = [16]"
    using rb_add_sorted[OF empty_holds(1,2), of 16 uint] by (auto simp: aligned_def)
  then have "rb_first s = Some 16" "rb_next s 16 = Some NULL" using rb_next_enumerates[OF t(1)] by auto
  then show ?thesis using t by (intro exI[of _ s] exI[of _ t]) simp
qed


end
