(* ===== verification/Sort.thy ===== *)
theory Sort
  imports Prelude "HOL-Library.Multiset"
begin

text \<open>
  \<^verbatim>\<open>quicksort\<close> of \<^verbatim>\<open>kernel/src/stdlib/qsort.c\<close> and \<^verbatim>\<open>bsearch\<close> of \<^verbatim>\<open>bsearch.c\<close>. The array is a
  list of elements; a pointer into it is the index of an element, so \<^verbatim>\<open>ptr += size\<close> is \<open>i + 1\<close> and a
  difference of pointers in units of \<^verbatim>\<open>size\<close> a difference of indices (the size of the array in bytes fits
  \<^verbatim>\<open>size_t\<close>). The byte loops of \<^verbatim>\<open>SWAP\<close> and of the shift in the insertion pass move whole elements.
  A comparison through a pointer outside the array is the fault \<open>OutOfBounds\<close>.
\<close>

section \<open>Definitions\<close>

definition inside :: "'a list \<Rightarrow> int \<Rightarrow> bool" where
  "inside xs i \<longleftrightarrow> 0 \<le> i \<and> i < int (length xs)"

definition el :: "'a list \<Rightarrow> int \<Rightarrow> 'a" where
  "el xs i = xs ! nat i"

definition SWAP :: "int \<Rightarrow> int \<Rightarrow> 'a list \<Rightarrow> 'a list" where
  "SWAP a b xs = xs[nat a := el xs b, nat b := el xs a]"

definition MAX_THRESH :: int where "MAX_THRESH = 4"

text \<open>\<^verbatim>\<open>CHAR_BIT * sizeof (size_t)\<close>\<close>

definition STACK_SIZE :: nat where "STACK_SIZE = 32"

text \<open>The inner loops of the partition.\<close>

function scan_up :: "('a \<Rightarrow> 'a \<Rightarrow> int) \<Rightarrow> 'a list \<Rightarrow> int \<Rightarrow> int \<Rightarrow> int result" where
  "scan_up cmp xs mid left =
     (if \<not> inside xs left \<or> \<not> inside xs mid then Inl OutOfBounds
      else if cmp (el xs left) (el xs mid) < 0 then scan_up cmp xs mid (left + 1) else Inr left)"
  by pat_completeness auto
termination by (relation "measure (\<lambda>(cmp, xs, mid, left). nat (int (length xs) - left))") (auto simp: inside_def)

function scan_down :: "('a \<Rightarrow> 'a \<Rightarrow> int) \<Rightarrow> 'a list \<Rightarrow> int \<Rightarrow> int \<Rightarrow> int result" where
  "scan_down cmp xs mid right =
     (if \<not> inside xs right \<or> \<not> inside xs mid then Inl OutOfBounds
      else if cmp (el xs mid) (el xs right) < 0 then scan_down cmp xs mid (right - 1) else Inr right)"
  by pat_completeness auto
termination by (relation "measure (\<lambda>(cmp, xs, mid, right). nat (right + 1))") (auto simp: inside_def)

declare scan_up.simps [simp del] scan_down.simps [simp del]

lemma scan_up_ge: "scan_up cmp xs mid left = Inr i \<Longrightarrow> left \<le> i"
  by (induction cmp xs mid left rule: scan_up.induct) (subst (asm) scan_up.simps, force split: if_splits)

lemma scan_down_le: "scan_down cmp xs mid right = Inr i \<Longrightarrow> i \<le> right"
  by (induction cmp xs mid right rule: scan_down.induct) (subst (asm) scan_down.simps, force split: if_splits)

text \<open>The loop \<^verbatim>\<open>do ... while (left_ptr <= right_ptr)\<close>: the array and the two pointers at its end.\<close>

function collapse :: "('a \<Rightarrow> 'a \<Rightarrow> int) \<Rightarrow> int \<Rightarrow> int \<Rightarrow> int \<Rightarrow> 'a list \<Rightarrow> ('a list \<times> int \<times> int) result" where
  "collapse cmp mid left right xs =
     (case scan_up cmp xs mid left of
        Inl e \<Rightarrow> Inl e
      | Inr l \<Rightarrow>
          (case scan_down cmp xs mid right of
             Inl e \<Rightarrow> Inl e
           | Inr r \<Rightarrow>
               if l < r then
                 (let xs = SWAP l r xs;
                      mid = (if mid = l then r else if mid = r then l else mid)
                  in if l + 1 \<le> r - 1 then collapse cmp mid (l + 1) (r - 1) xs else Inr (xs, l + 1, r - 1))
               else if l = r then Inr (xs, l + 1, r - 1)
               else Inr (xs, l, r)))"
  by pat_completeness auto
termination
  by (relation "measure (\<lambda>(cmp, mid, left, right, xs). nat (right - left + 1))") (auto dest!: scan_up_ge scan_down_le)

declare collapse.simps [simp del]

text \<open>The median of three.\<close>

definition median :: "('a \<Rightarrow> 'a \<Rightarrow> int) \<Rightarrow> int \<Rightarrow> int \<Rightarrow> int \<Rightarrow> 'a list \<Rightarrow> 'a list" where
  "median cmp lo mid hi xs =
     (let xs = (if cmp (el xs mid) (el xs lo) < 0 then SWAP mid lo xs else xs)
      in if cmp (el xs hi) (el xs mid) < 0 then
           (let xs = SWAP mid hi xs
            in if cmp (el xs mid) (el xs lo) < 0 then SWAP mid lo xs else xs)
         else xs)"

definition qpartition :: "('a \<Rightarrow> 'a \<Rightarrow> int) \<Rightarrow> int \<Rightarrow> int \<Rightarrow> 'a list \<Rightarrow> ('a list \<times> int \<times> int) result" where
  "qpartition cmp lo hi xs =
     (if \<not> inside xs lo \<or> \<not> inside xs hi then Inl OutOfBounds
      else
        (let mid = lo + (hi - lo) div 2
         in collapse cmp mid (lo + 1) (hi - 1) (median cmp lo mid hi xs)))"

text \<open>The stack has the innermost pair at the head; the pair of \<open>NULL\<close>s at its bottom is the end of the list:
  the loop ends when it is popped. A push needs room on the stack.\<close>

definition PUSH :: "int \<times> int \<Rightarrow> (int \<times> int) list \<Rightarrow> (int \<times> int) list result" where
  "PUSH p st = (if length st + 1 < STACK_SIZE then Inr (p # st) else Inl OutOfBounds)"

text \<open>The choice of the next segment after a partition: a segment is left to the insertion pass when it spans
  at most \<open>MAX_THRESH\<close> (compared unsigned). The result is the next segment (\<open>None\<close>: the last pair was popped) and the stack.\<close>

definition short_span :: "int \<Rightarrow> bool" where
  "short_span d \<longleftrightarrow> 0 \<le> d \<and> d \<le> MAX_THRESH"

definition next_segment ::
  "int \<Rightarrow> int \<Rightarrow> int \<Rightarrow> int \<Rightarrow> (int \<times> int) list \<Rightarrow> ((int \<times> int) option \<times> (int \<times> int) list) result" where
  "next_segment lo hi left right st =
     (if short_span (right - lo) then
        (if short_span (hi - left) then
           (case st of [] \<Rightarrow> Inr (None, []) | p # st \<Rightarrow> Inr (Some p, st))
         else Inr (Some (left, hi), st))
      else if short_span (hi - left) then Inr (Some (lo, right), st)
      else if right - lo > hi - left then
        (case PUSH (lo, right) st of Inl e \<Rightarrow> Inl e | Inr st \<Rightarrow> Inr (Some (left, hi), st))
      else
        (case PUSH (left, hi) st of Inl e \<Rightarrow> Inl e | Inr st \<Rightarrow> Inr (Some (lo, right), st)))"

partial_function (option) sort_loop ::
  "('a \<Rightarrow> 'a \<Rightarrow> int) \<Rightarrow> int \<times> int \<Rightarrow> (int \<times> int) list \<Rightarrow> 'a list \<Rightarrow> 'a list result option" where
  "sort_loop cmp seg st xs =
     (case qpartition cmp (fst seg) (snd seg) xs of
        Inl e \<Rightarrow> Some (Inl e)
      | Inr p \<Rightarrow>
          (case next_segment (fst seg) (snd seg) (fst (snd p)) (snd (snd p)) st of
             Inl e \<Rightarrow> Some (Inl e)
           | Inr n \<Rightarrow>
               (case fst n of
                  None \<Rightarrow> Some (Inr (fst p))
                | Some s \<Rightarrow> sort_loop cmp s (snd n) (fst p))))"

text \<open>The insertion pass: the smallest of the first elements goes to the front, where it stops the searches.\<close>

definition min_index :: "('a \<Rightarrow> 'a \<Rightarrow> int) \<Rightarrow> 'a list \<Rightarrow> int \<Rightarrow> int" where
  "min_index cmp xs thresh = fold (\<lambda>run tmp. if cmp (el xs run) (el xs tmp) < 0 then run else tmp) [1..thresh] 0"

function insert_search :: "('a \<Rightarrow> 'a \<Rightarrow> int) \<Rightarrow> 'a list \<Rightarrow> int \<Rightarrow> int \<Rightarrow> int result" where
  "insert_search cmp xs run tmp =
     (if \<not> inside xs tmp \<or> \<not> inside xs run then Inl OutOfBounds
      else if cmp (el xs run) (el xs tmp) < 0 then insert_search cmp xs run (tmp - 1) else Inr tmp)"
  by pat_completeness auto
termination by (relation "measure (\<lambda>(cmp, xs, run, tmp). nat (tmp + 1))") (auto simp: inside_def)

declare insert_search.simps [simp del]

text \<open>The element at \<open>run\<close> moves to \<open>tmp\<close>, those from \<open>tmp\<close> on one place up.\<close>

definition shift_elem :: "int \<Rightarrow> int \<Rightarrow> 'a list \<Rightarrow> 'a list" where
  "shift_elem tmp run xs = take (nat tmp) xs @ el xs run # drop (nat tmp) (take (nat run) xs) @ drop (nat run + 1) xs"

function insertion_loop :: "('a \<Rightarrow> 'a \<Rightarrow> int) \<Rightarrow> int \<Rightarrow> int \<Rightarrow> 'a list \<Rightarrow> 'a list result" where
  "insertion_loop cmp end run xs =
     (if run \<le> end then
        (case insert_search cmp xs run (run - 1) of
           Inl e \<Rightarrow> Inl e
         | Inr t \<Rightarrow> insertion_loop cmp end (run + 1) (if t + 1 \<noteq> run then shift_elem (t + 1) run xs else xs))
      else Inr xs)"
  by pat_completeness auto
termination by (relation "measure (\<lambda>(cmp, end, run, xs). nat (end + 1 - run))") auto

declare insertion_loop.simps [simp del]

definition insertion_pass :: "('a \<Rightarrow> 'a \<Rightarrow> int) \<Rightarrow> 'a list \<Rightarrow> 'a list result" where
  "insertion_pass cmp xs =
     (let end = int (length xs) - 1;
          thresh = min end MAX_THRESH;
          tmp = min_index cmp xs thresh;
          xs = (if tmp \<noteq> 0 then SWAP tmp 0 xs else xs)
      in insertion_loop cmp end 2 xs)"

definition quicksort :: "('a \<Rightarrow> 'a \<Rightarrow> int) \<Rightarrow> 'a list \<Rightarrow> 'a list result option" where
  "quicksort cmp xs =
     (if length xs = 0 then Some (Inr xs)
      else
        Option.bind
          (if int (length xs) > MAX_THRESH then sort_loop cmp (0, int (length xs) - 1) [] xs else Some (Inr xs))
          (\<lambda>r. case r of Inl e \<Rightarrow> Some (Inl e) | Inr xs \<Rightarrow> Some (insertion_pass cmp xs)))"

text \<open>\<^verbatim>\<open>bsearch\<close>: the index of a match. The bounds are \<^verbatim>\<open>size_t\<close>, so their sum may wrap.\<close>

partial_function (option) bsearch_loop ::
  "('k \<Rightarrow> 'a \<Rightarrow> int) \<Rightarrow> 'k \<Rightarrow> 'a list \<Rightarrow> u32 \<Rightarrow> u32 \<Rightarrow> nat option result option" where
  "bsearch_loop compar k xs l u =
     (if l < u then
        (let idx = (l + u) div 2
         in if \<not> unat idx < length xs then Some (Inl OutOfBounds)
            else if compar k (xs ! unat idx) < 0 then bsearch_loop compar k xs l idx
            else if compar k (xs ! unat idx) > 0 then bsearch_loop compar k xs (idx + 1) u
            else Some (Inr (Some (unat idx))))
      else Some (Inr None))"

definition bsearch :: "('k \<Rightarrow> 'a \<Rightarrow> int) \<Rightarrow> 'k \<Rightarrow> 'a list \<Rightarrow> u32 \<Rightarrow> nat option result option" where
  "bsearch compar k xs nmemb = bsearch_loop compar k xs 0 nmemb"

declare sort_loop.simps [code] bsearch_loop.simps [code]

end
