(* ===== verification/Sort_Spec.thy ===== *)
theory Sort_Spec
  imports Sort
begin

text \<open>
  Correctness of \<open>quicksort\<close> and \<open>bsearch\<close> for every comparison function that keeps the laws of the locale
  \<open>comparator\<close>: \<open>quicksort\<close> returns, never compares outside the array, never overflows its stack of
  \<open>STACK_SIZE\<close> pairs (\<open>depth_ok\<close>: the pending segments halve), and leaves a sorted permutation. The invariant of
  the loop over the segments is \<open>front\<close>: the least elements stay in the segment that starts the array, so that
  the sentinel the insertion pass picks from the first five places is the least of all.
\<close>

section \<open>Elements and permutations\<close>

lemma length_SWAP [simp]: "length (SWAP a b xs) = length xs" by (simp add: SWAP_def)

lemma inside_SWAP [simp]: "inside (SWAP a b xs) i = inside xs i" by (simp add: inside_def)

lemma el_SWAP:
  "inside xs a \<Longrightarrow> inside xs b \<Longrightarrow> inside xs i \<Longrightarrow> el (SWAP a b xs) i = (if i = b then el xs a else if i = a then el xs b else el xs i)"
  by (auto simp: SWAP_def el_def inside_def nth_list_update)

lemma mset_SWAP [simp]: "inside xs a \<Longrightarrow> inside xs b \<Longrightarrow> mset (SWAP a b xs) = mset xs"
  by (simp add: SWAP_def el_def inside_def mset_swap nat_less_iff)

text \<open>\<open>within lo hi xs ys\<close>: \<open>ys\<close> is \<open>xs\<close> with the elements from \<open>lo\<close> to \<open>hi\<close> permuted.\<close>

definition within :: "int \<Rightarrow> int \<Rightarrow> 'a list \<Rightarrow> 'a list \<Rightarrow> bool" where
  "within lo hi xs ys \<longleftrightarrow> length ys = length xs \<and> (\<forall>i. i < lo \<or> i > hi \<longrightarrow> inside xs i \<longrightarrow> el ys i = el xs i) \<and>
     el ys ` {lo..hi} = el xs ` {lo..hi} \<and> mset ys = mset xs"

lemma within_refl [simp]: "within lo hi xs xs" by (simp add: within_def)

lemma within_trans: "within lo hi xs ys \<Longrightarrow> within lo hi ys zs \<Longrightarrow> within lo hi xs zs"
  by (auto simp: within_def inside_def)

lemma within_SWAP:
  assumes "inside xs a" "inside xs b" "lo \<le> a" "a \<le> hi" "lo \<le> b" "b \<le> hi" "inside xs lo" "inside xs hi"
  shows "within lo hi xs (SWAP a b xs)"
proof -
  have in_seg: "inside xs i" if "i \<in> {lo..hi}" for i using that assms(7,8) by (auto simp: inside_def)
  have "el (SWAP a b xs) ` {lo..hi} = el xs ` {lo..hi}"
  proof
    show "el (SWAP a b xs) ` {lo..hi} \<subseteq> el xs ` {lo..hi}"
      using assms in_seg by (auto simp: el_SWAP)
    show "el xs ` {lo..hi} \<subseteq> el (SWAP a b xs) ` {lo..hi}"
    proof
      fix y assume "y \<in> el xs ` {lo..hi}"
      then obtain i where i: "i \<in> {lo..hi}" "y = el xs i" by auto
      let ?j = "if i = a then b else if i = b then a else i"
      have "y = el (SWAP a b xs) ?j" "?j \<in> {lo..hi}" using i assms in_seg by (auto simp: el_SWAP)
      then show "y \<in> el (SWAP a b xs) ` {lo..hi}" by blast
    qed
  qed
  then show ?thesis using assms by (auto simp: within_def el_SWAP)
qed

locale comparator =
  fixes ok :: "'a \<Rightarrow> bool" and cmp :: "'a \<Rightarrow> 'a \<Rightarrow> int"
  assumes asym: "ok x \<Longrightarrow> ok y \<Longrightarrow> cmp x y < 0 \<Longrightarrow> \<not> cmp y x < 0"
    and trans: "ok x \<Longrightarrow> ok y \<Longrightarrow> ok z \<Longrightarrow> \<not> cmp y x < 0 \<Longrightarrow> \<not> cmp z y < 0 \<Longrightarrow> \<not> cmp z x < 0"
begin

definition le :: "'a \<Rightarrow> 'a \<Rightarrow> bool" where "le x y \<longleftrightarrow> \<not> cmp y x < 0"

definition oks :: "'a list \<Rightarrow> bool" where "oks xs \<longleftrightarrow> (\<forall>x\<in>set xs. ok x)"

lemma le_refl: "ok x \<Longrightarrow> le x x" using asym le_def by blast
lemma le_lin: "ok x \<Longrightarrow> ok y \<Longrightarrow> le x y \<or> le y x" using asym le_def by blast
lemma le_trans: "ok x \<Longrightarrow> ok y \<Longrightarrow> ok z \<Longrightarrow> le x y \<Longrightarrow> le y z \<Longrightarrow> le x z" using trans le_def by blast
lemma lt_le: "ok x \<Longrightarrow> ok y \<Longrightarrow> cmp x y < 0 \<Longrightarrow> le x y" using asym le_def by blast
lemma not_lt: "\<not> cmp x y < 0 \<longleftrightarrow> le y x" by (simp add: le_def)

lemma ok_el: "oks xs \<Longrightarrow> inside xs i \<Longrightarrow> ok (el xs i)"
  by (simp add: oks_def inside_def el_def nat_less_iff)

lemma oks_mset: "mset ys = mset xs \<Longrightarrow> oks xs \<Longrightarrow> oks ys"
  unfolding oks_def by (metis mset_eq_setD)

section \<open>The partition\<close>

lemma scan_up_ok:
  assumes "oks xs" "inside xs mid" "left \<le> stop" "inside xs stop" "0 \<le> left" "le (el xs mid) (el xs stop)"
  shows "\<exists>l. scan_up cmp xs mid left = Inr l \<and> left \<le> l \<and> l \<le> stop \<and> le (el xs mid) (el xs l) \<and> (\<forall>i. left \<le> i \<and> i < l \<longrightarrow> le (el xs i) (el xs mid))"
  using assms(3,5)
proof (induction "nat (stop - left)" arbitrary: left)
  case 0
  then have "left = stop" by simp
  then show ?case using assms by (subst scan_up.simps) (auto simp: le_def)
next
  case (Suc n)
  have i: "inside xs left" using Suc assms(4) by (auto simp: inside_def)
  show ?case
  proof (cases "cmp (el xs left) (el xs mid) < 0")
    case True
    then have ne: "left \<noteq> stop" using assms(6) by (auto simp: le_def)
    have "le (el xs left) (el xs mid)" using True lt_le ok_el[OF assms(1)] i assms(2) by blast
    moreover obtain l where "scan_up cmp xs mid (left + 1) = Inr l" "left + 1 \<le> l" "l \<le> stop" "le (el xs mid) (el xs l)"
      "\<forall>i. left + 1 \<le> i \<and> i < l \<longrightarrow> le (el xs i) (el xs mid)"
    proof -
      have "n = nat (stop - (left + 1))" "left + 1 \<le> stop" "0 \<le> left + 1" using Suc.hyps(2) Suc.prems ne by auto
      then show ?thesis using Suc.hyps(1)[of "left + 1"] that by blast
    qed
    ultimately show ?thesis
      using True i assms(2) by (subst scan_up.simps) (auto, metis add1_zle_eq order_le_less)
  next
    case False
    then show ?thesis using i assms(2) Suc(3) by (subst scan_up.simps) (auto simp: le_def)
  qed
qed

lemma scan_down_ok:
  assumes "oks xs" "inside xs mid" "stop \<le> right" "inside xs stop" "right < int (length xs)" "le (el xs stop) (el xs mid)"
  shows "\<exists>r. scan_down cmp xs mid right = Inr r \<and> stop \<le> r \<and> r \<le> right \<and> le (el xs r) (el xs mid) \<and> (\<forall>i. r < i \<and> i \<le> right \<longrightarrow> le (el xs mid) (el xs i))"
  using assms(3,5)
proof (induction "nat (right - stop)" arbitrary: right)
  case 0
  then have "right = stop" by simp
  then show ?case using assms by (subst scan_down.simps) (auto simp: le_def)
next
  case (Suc n)
  have i: "inside xs right" using Suc assms(4) by (auto simp: inside_def)
  show ?case
  proof (cases "cmp (el xs mid) (el xs right) < 0")
    case True
    then have ne: "right \<noteq> stop" using assms(6) by (auto simp: le_def)
    have "le (el xs mid) (el xs right)" using True lt_le ok_el[OF assms(1)] i assms(2) by blast
    moreover obtain r where "scan_down cmp xs mid (right - 1) = Inr r" "stop \<le> r" "r \<le> right - 1" "le (el xs r) (el xs mid)"
      "\<forall>i. r < i \<and> i \<le> right - 1 \<longrightarrow> le (el xs mid) (el xs i)"
    proof -
      have "n = nat (right - 1 - stop)" "stop \<le> right - 1" "right - 1 < int (length xs)" using Suc.hyps(2) Suc.prems ne by auto
      then show ?thesis using Suc.hyps(1)[of "right - 1"] that by blast
    qed
    ultimately show ?thesis
      using True i assms(2) by (subst scan_down.simps) (auto, metis order_le_less zle_diff1_eq)
  next
    case False
    then show ?thesis using i assms(2) Suc(3) by (subst scan_down.simps) (auto simp: le_def)
  qed
qed

text \<open>The state of the partition loop around the pivot \<open>v\<close>.\<close>

definition split_at :: "int \<Rightarrow> int \<Rightarrow> 'a \<Rightarrow> int \<Rightarrow> int \<Rightarrow> 'a list \<Rightarrow> bool" where
  "split_at lo hi v l r xs \<longleftrightarrow> (\<forall>i. lo \<le> i \<and> i < l \<longrightarrow> le (el xs i) v) \<and> (\<forall>i. r < i \<and> i \<le> hi \<longrightarrow> le v (el xs i))"

lemma split_at_extend:
  assumes "split_at lo hi v left right xs" "\<forall>i. left \<le> i \<and> i < l \<longrightarrow> le (el xs i) v" "\<forall>i. r < i \<and> i \<le> right \<longrightarrow> le v (el xs i)"
  shows "split_at lo hi v l r xs"
  unfolding split_at_def
proof (intro conjI allI impI)
  fix i assume "lo \<le> i \<and> i < l"
  then show "le (el xs i) v" using assms(1,2) unfolding split_at_def by (cases "i < left") auto
next
  fix i assume "r < i \<and> i \<le> hi"
  then show "le v (el xs i)" using assms(1,3) unfolding split_at_def by (cases "right < i") auto
qed

lemma collapse_ok:
  assumes "oks xs" "inside xs lo" "inside xs hi" "lo < left" "right < hi" "left \<le> right + 1" "lo \<le> mid" "mid \<le> hi"
    "el xs mid = v" "split_at lo hi v left right xs"
  shows "\<exists>ys l r. collapse cmp mid left right xs = Inr (ys, l, r) \<and> within lo hi xs ys \<and> split_at lo hi v l r ys \<and>
    r < l \<and> lo \<le> r \<and> l \<le> hi"
  using assms
proof (induction "nat (right - left + 1)" arbitrary: mid left right xs rule: less_induct)
  case less
  have im: "inside xs mid" using less.prems(2,3,7,8) by (auto simp: inside_def)
  have v: "ok v" using ok_el[OF less.prems(1) im] less.prems(9) by simp
  obtain l where l: "scan_up cmp xs mid left = Inr l" "left \<le> l" "l \<le> right + 1" "le v (el xs l)" "\<forall>i. left \<le> i \<and> i < l \<longrightarrow> le (el xs i) v"
    using scan_up_ok[OF less.prems(1) im, of left "right + 1"] less.prems by (auto simp: split_at_def inside_def)
  obtain r where r: "scan_down cmp xs mid right = Inr r" "left - 1 \<le> r" "r \<le> right" "le (el xs r) v" "\<forall>i. r < i \<and> i \<le> right \<longrightarrow> le v (el xs i)"
    using scan_down_ok[OF less.prems(1) im, of "left - 1" right] less.prems by (auto simp: split_at_def inside_def)
  have il: "inside xs l" "inside xs r" "lo < l" "r < hi" using l r less.prems(2-5) by (auto simp: inside_def)
  show ?case
  proof (cases "l < r")
    case True
    let ?xs = "SWAP l r xs" and ?mid = "if mid = l then r else if mid = r then l else mid"
    have w: "within lo hi xs ?xs" using il less.prems(2,3) True by (intro within_SWAP) auto
    have ok': "oks ?xs" using w less.prems(1) oks_mset by (auto simp: within_def)
    have m: "el ?xs ?mid = v" using less.prems(9) il im by (auto simp: el_SWAP)
    have seg: "inside xs i" if "lo \<le> i" "i \<le> hi" for i using that less.prems(2,3) by (auto simp: inside_def)
    have sp: "split_at lo hi v (l + 1) (r - 1) ?xs"
      unfolding split_at_def
    proof (intro conjI allI impI)
      fix i assume i: "lo \<le> i \<and> i < l + 1"
      show "le (el ?xs i) v"
      proof (cases "i = l")
        case True
        then show ?thesis using r(4) il \<open>l < r\<close> by (simp add: el_SWAP)
      next
        case False
        then have "el ?xs i = el xs i" using i il seg[of i] \<open>l < r\<close> by (simp add: el_SWAP)
        then show ?thesis using i False split_at_extend[OF less.prems(10) l(5) r(5)] unfolding split_at_def by auto
      qed
    next
      fix i assume i: "r - 1 < i \<and> i \<le> hi"
      show "le v (el ?xs i)"
      proof (cases "i = r")
        case True
        then show ?thesis using l(4) il \<open>l < r\<close> by (simp add: el_SWAP)
      next
        case False
        then have "el ?xs i = el xs i" using i il seg[of i] \<open>l < r\<close> by (simp add: el_SWAP)
        then show ?thesis using i False split_at_extend[OF less.prems(10) l(5) r(5)] unfolding split_at_def by auto
      qed
    qed
    have step: "collapse cmp mid left right xs =
        (if l + 1 \<le> r - 1 then collapse cmp ?mid (l + 1) (r - 1) ?xs else Inr (?xs, l + 1, r - 1))"
      using l(1) r(1) True by (subst collapse.simps) (simp add: Let_def)
    show ?thesis
    proof (cases "l + 1 \<le> r - 1")
      case again: True
      have "\<exists>ys l' r'. collapse cmp ?mid (l + 1) (r - 1) ?xs = Inr (ys, l', r') \<and> within lo hi ?xs ys \<and> split_at lo hi v l' r' ys \<and>
          r' < l' \<and> lo \<le> r' \<and> l' \<le> hi"
        using again l r il less.prems(2,3,7,8) by (intro less.hyps ok' m sp) auto
      then show ?thesis using step again within_trans[OF w] by auto
    next
      case False
      then show ?thesis using step w sp True il by auto
    qed
  next
    case False
    have sp: "split_at lo hi v l r xs" "r \<le> l" using split_at_extend[OF less.prems(10) l(5) r(5)] False by simp_all
    show ?thesis
    proof (cases "l = r")
      case True
      then have "split_at lo hi v (l + 1) (r - 1) xs" using l(4) r(4) by (intro split_at_extend[OF sp(1)]) (auto simp: order_le_less)
      then show ?thesis using True l(1) r(1) il by (subst collapse.simps) auto
    next
      case ne: False
      then show ?thesis using False sp l(1,3) r(1,2) less.prems(4,5) by (subst collapse.simps) auto
    qed
  qed
qed

lemma median_ok:
  assumes "oks xs" "inside xs lo" "inside xs hi" "lo \<le> mid" "mid \<le> hi"
  shows "within lo hi xs (median cmp lo mid hi xs)"
    "le (el (median cmp lo mid hi xs) lo) (el (median cmp lo mid hi xs) mid)"
    "le (el (median cmp lo mid hi xs) mid) (el (median cmp lo mid hi xs) hi)"
proof -
  have im: "inside xs mid" using assms(2-5) by (auto simp: inside_def)
  note ins = assms(2,3) im
  have ord: "ok (el ys lo) \<and> ok (el ys mid) \<and> ok (el ys hi)" if "within lo hi xs ys" for ys
    using that oks_mset[of ys xs] assms(1) ok_el[of ys] ins by (auto simp: within_def inside_def)
  have sw: "within lo hi xs (SWAP a b ys)" if "within lo hi xs ys" "a \<in> {lo, mid, hi}" "b \<in> {lo, mid, hi}" for a b ys
    using that ins assms(4,5) by (intro within_trans[OF that(1)] within_SWAP) (auto simp: within_def inside_def)
  have elS: "el (SWAP a b ys) i = (if i = b then el ys a else if i = a then el ys b else el ys i)"
    if "within lo hi xs ys" "a \<in> {lo, mid, hi}" "b \<in> {lo, mid, hi}" "i \<in> {lo, mid, hi}" for a b i ys
    using that ins by (intro el_SWAP) (auto simp: within_def inside_def)
  define x1 where "x1 = (if cmp (el xs mid) (el xs lo) < 0 then SWAP mid lo xs else xs)"
  have w1: "within lo hi xs x1" using sw[OF within_refl] by (simp add: x1_def)
  have l1: "le (el x1 lo) (el x1 mid)"
    using elS[OF within_refl, of mid lo] ord[OF within_refl] lt_le by (auto simp: x1_def not_lt)
  have eq: "median cmp lo mid hi xs = (if cmp (el x1 hi) (el x1 mid) < 0 then
      (let x2 = SWAP mid hi x1 in if cmp (el x2 mid) (el x2 lo) < 0 then SWAP mid lo x2 else x2) else x1)"
    by (simp add: median_def x1_def)
  have "within lo hi xs (median cmp lo mid hi xs) \<and> le (el (median cmp lo mid hi xs) lo) (el (median cmp lo mid hi xs) mid) \<and>
    le (el (median cmp lo mid hi xs) mid) (el (median cmp lo mid hi xs) hi)"
  proof (cases "cmp (el x1 hi) (el x1 mid) < 0")
    case False
    then show ?thesis using eq w1 l1 by (simp add: le_def)
  next
    case True
    define x2 where "x2 = SWAP mid hi x1"
    have w2: "within lo hi xs x2" using sw[OF w1] by (simp add: x2_def)
    have ne: "mid \<noteq> hi" using True ord[OF w1] asym by auto
    have h: "le (el x2 mid) (el x2 hi)" "le (el x2 lo) (el x2 hi)"
      using elS[OF w1, of mid hi] ne l1 True lt_le ord[OF w1] assms(4,5) by (auto simp: x2_def)
    show ?thesis
    proof (cases "cmp (el x2 mid) (el x2 lo) < 0")
      case False
      then show ?thesis using eq True w2 h by (simp add: x2_def[symmetric] le_def Let_def)
    next
      case t: True
      have "el (SWAP mid lo x2) lo = el x2 mid" "el (SWAP mid lo x2) mid = el x2 lo" "el (SWAP mid lo x2) hi = el x2 hi \<or> hi = lo"
        using elS[OF w2, of mid lo] ne by auto
      moreover have "hi \<noteq> lo" using ne assms(4,5) by auto
      ultimately show ?thesis
        using eq True t sw[OF w2, of mid lo] h lt_le ord[OF w2] by (simp add: x2_def[symmetric] Let_def)
    qed
  qed
  then show "within lo hi xs (median cmp lo mid hi xs)"
    "le (el (median cmp lo mid hi xs) lo) (el (median cmp lo mid hi xs) mid)"
    "le (el (median cmp lo mid hi xs) mid) (el (median cmp lo mid hi xs) hi)" by auto
qed

lemma qpartition_ok:
  assumes "oks xs" "inside xs lo" "inside xs hi" "lo < hi"
  shows "\<exists>ys l r. qpartition cmp lo hi xs = Inr (ys, l, r) \<and> within lo hi xs ys \<and> r < l \<and> lo \<le> r \<and> l \<le> hi \<and>
    (\<forall>i j. lo \<le> i \<and> i \<le> r \<and> r < j \<and> j \<le> hi \<longrightarrow> le (el ys i) (el ys j))"
proof -
  let ?mid = "lo + (hi - lo) div 2"
  have m: "lo \<le> ?mid" "?mid \<le> hi" using assms(4) by auto
  define zs where "zs = median cmp lo ?mid hi xs"
  have zs: "within lo hi xs zs" "le (el zs lo) (el zs ?mid)" "le (el zs ?mid) (el zs hi)"
    unfolding zs_def using median_ok[OF assms(1-3) m] by auto
  have ozs: "oks zs" "inside zs lo" "inside zs hi" "inside zs ?mid"
    using zs(1) assms m oks_mset[of zs xs] by (auto simp: within_def inside_def)
  have "split_at lo hi (el zs ?mid) (lo + 1) (hi - 1) zs"
    using zs(2,3) unfolding split_at_def by (auto simp: order_le_less)
  then obtain ys l r where c: "collapse cmp ?mid (lo + 1) (hi - 1) zs = Inr (ys, l, r)" "within lo hi zs ys"
    "split_at lo hi (el zs ?mid) l r ys" "r < l" "lo \<le> r" "l \<le> hi"
    using collapse_ok[OF ozs(1-3), of "lo + 1" "hi - 1" ?mid "el zs ?mid"] m assms(4) by auto
  have "le (el ys i) (el ys j)" if "lo \<le> i \<and> i \<le> r \<and> r < j \<and> j \<le> hi" for i j
  proof -
    have "inside ys i" "inside ys j" "oks ys"
      using that c(2,4,5,6) ozs oks_mset[of ys zs] by (auto simp: within_def inside_def)
    moreover have "le (el ys i) (el zs ?mid)" "le (el zs ?mid) (el ys j)" using that c(3,4) unfolding split_at_def by auto
    ultimately show ?thesis using le_trans[of "el ys i" "el zs ?mid" "el ys j"] ok_el ozs(1,4) by auto
  qed
  then show ?thesis
    using c assms(2,3) within_trans[OF zs(1)] unfolding qpartition_def by (auto simp: zs_def[symmetric] Let_def)
qed

section \<open>The loop over the segments\<close>

definition cut :: "'a list \<Rightarrow> int \<Rightarrow> bool" where
  "cut xs k \<longleftrightarrow> 0 \<le> k \<and> (\<forall>i j. 0 \<le> i \<and> i \<le> k \<and> k < j \<and> j < int (length xs) \<longrightarrow> le (el xs i) (el xs j))"

text \<open>What the insertion pass needs: the smallest elements stand in front, in a segment that is still to be
  partitioned or in the first five places.\<close>

definition front :: "'a list \<Rightarrow> (int \<times> int) multiset \<Rightarrow> bool" where
  "front xs M \<longleftrightarrow> (\<exists>k. cut xs k \<and> (k \<le> MAX_THRESH \<and> (\<forall>s\<in>#M. k < fst s) \<or>
     (\<exists>M'. M = add_mset (0, k) M' \<and> (\<forall>s\<in>#M'. k < fst s))))"

lemma cut_within:
  assumes "cut xs k" "within lo hi xs ys" "k < lo" "inside xs hi"
  shows "cut ys k"
  unfolding cut_def
proof (intro conjI allI impI)
  show "0 \<le> k" using assms(1) by (simp add: cut_def)
  fix i j assume ij: "0 \<le> i \<and> i \<le> k \<and> k < j \<and> j < int (length ys)"
  have i: "el ys i = el xs i" using ij assms(2,3) by (auto simp: within_def inside_def)
  obtain j' where j': "el ys j = el xs j'" "k < j'" "j' < int (length xs)"
  proof (cases "j \<in> {lo..hi}")
    case True
    then have "el ys j \<in> el xs ` {lo..hi}" using assms(2) by (auto simp: within_def)
    then show ?thesis using that assms(3,4) by (auto simp: inside_def)
  next
    case False
    then have "el ys j = el xs j" using ij assms(1,2) by (auto simp: within_def inside_def cut_def)
    then show ?thesis using that[of j] ij assms(2) by (auto simp: within_def)
  qed
  then show "le (el ys i) (el ys j)" using assms(1) i ij by (auto simp: cut_def)
qed

lemma front_step:
  assumes "front xs (add_mset (lo, hi) M)" "within lo hi xs ys" "inside xs lo" "inside xs hi" "r < l" "lo \<le> r" "l \<le> hi"
    "\<forall>i j. lo \<le> i \<and> i \<le> r \<and> r < j \<and> j \<le> hi \<longrightarrow> le (el ys i) (el ys j)"
    "A \<subseteq># {#(lo, r), (l, hi)#}" "(lo, r) \<notin># A \<longrightarrow> r - lo \<le> MAX_THRESH"
  shows "front ys (A + M)"
proof -
  have A: "s = (lo, r) \<or> s = (l, hi)" if "s \<in># A" for s using mset_subset_eqD[OF assms(9) that] by auto
  obtain k where k: "cut xs k" "k \<le> MAX_THRESH \<and> (\<forall>s\<in>#add_mset (lo, hi) M. k < fst s) \<or>
     (\<exists>M'. add_mset (lo, hi) M = add_mset (0, k) M' \<and> (\<forall>s\<in>#M'. k < fst s))"
    using assms(1) by (auto simp: front_def)
  show ?thesis
  proof (cases "k < lo")
    case True
    then have c: "cut ys k" using cut_within[OF k(1) assms(2) True assms(4)] by simp
    have Ak: "\<forall>s\<in>#A. k < fst s" using A True assms(5,6) by fastforce
    from k(2) show ?thesis
    proof
      assume "k \<le> MAX_THRESH \<and> (\<forall>s\<in>#add_mset (lo, hi) M. k < fst s)"
      then show ?thesis unfolding front_def using c Ak by (intro exI[of _ k]) auto
    next
      assume "\<exists>M'. add_mset (lo, hi) M = add_mset (0, k) M' \<and> (\<forall>s\<in>#M'. k < fst s)"
      then obtain M' where M': "add_mset (lo, hi) M = add_mset (0, k) M'" "\<forall>s\<in>#M'. k < fst s" by blast
      have "(lo, hi) \<noteq> (0, k)" using True k(1) by (auto simp: cut_def)
      then obtain M'' where M'': "M = add_mset (0, k) M''" "M' = add_mset (lo, hi) M''"
        using M'(1) by (auto simp: add_eq_conv_ex)
      then show ?thesis unfolding front_def using c Ak M'(2) by (intro exI[of _ k]) auto
    qed
  next
    case False
    then obtain M' where M': "add_mset (lo, hi) M = add_mset (0, k) M'" "\<forall>s\<in>#M'. k < fst s" using k(2) by auto
    have eq: "lo = 0" "hi = k" "M = M'" using M' False by (auto simp: add_eq_conv_ex)
    have c: "cut ys r"
      unfolding cut_def
    proof (intro conjI allI impI)
      show "0 \<le> r" using assms(6) eq by simp
      fix i j assume ij: "0 \<le> i \<and> i \<le> r \<and> r < j \<and> j < int (length ys)"
      show "le (el ys i) (el ys j)"
      proof (cases "j \<le> hi")
        case True
        then show ?thesis using assms(8) ij eq by auto
      next
        case False
        have "i \<in> {lo..hi}" using ij eq assms(5,7) by auto
        then have "el ys i \<in> el xs ` {lo..hi}" using assms(2) by (auto simp: within_def)
        moreover have "el ys j = el xs j" using False ij assms(2) by (auto simp: within_def inside_def)
        ultimately show ?thesis using k(1) eq False ij assms(2) by (auto simp: cut_def within_def)
      qed
    qed
    have Mr: "\<forall>s\<in>#M. r < fst s" using M'(2) eq assms(5,7) by auto
    show ?thesis
    proof (cases "(lo, r) \<in># A")
      case True
      then obtain A' where A': "A = add_mset (lo, r) A'" by (meson mset_add)
      have "s = (l, hi)" if "s \<in># A'" for s
      proof -
        have "A' \<subseteq># {#(l, hi)#}" using assms(9) A' by simp
        then have "s \<in># {#(l, hi)#}" using that by (rule mset_subset_eqD)
        then show ?thesis by simp
      qed
      then have "\<forall>s\<in>#A' + M. r < fst s" using Mr assms(5) by auto
      then show ?thesis unfolding front_def using c A' eq by (intro exI[of _ r] conjI disjI2 exI[of _ "A' + M"]) auto
    next
      case False
      then have "\<forall>s\<in>#A + M. r < fst s" using A Mr assms(5) by fastforce
      then show ?thesis unfolding front_def using c assms(10) False eq by (intro exI[of _ r]) auto
    qed
  qed
qed

text \<open>The sizes on the stack at least halve from each pair to the next, which bounds its depth.\<close>

fun depth_ok :: "int \<Rightarrow> (int \<times> int) list \<Rightarrow> bool" where
  "depth_ok n [] \<longleftrightarrow> True"
| "depth_ok n ((l, h) # st) \<longleftrightarrow> (h - l + 1) * 2 ^ length st \<le> n \<and> depth_ok n st"

definition segs_ok :: "'a list \<Rightarrow> (int \<times> int) list \<Rightarrow> bool" where
  "segs_ok xs st \<longleftrightarrow> (\<forall>(l, h)\<in>set st. 0 \<le> l \<and> l < h \<and> h < int (length xs)) \<and> depth_ok (int (length xs)) st"

definition weight :: "(int \<times> int) list \<Rightarrow> nat" where
  "weight st = (\<Sum>(l, h)\<leftarrow>st. nat (2 * (h - l) + 1))"

lemma next_segment_ok:
  assumes "segs_ok xs ((lo, hi) # st)" "r < l" "lo \<le> r" "l \<le> hi" "length xs < 2 ^ 32"
  shows "\<exists>A n. next_segment lo hi l r st = Inr n \<and> A \<subseteq># {#(lo, r), (l, hi)#} \<and> ((lo, r) \<notin># A \<longrightarrow> r - lo \<le> MAX_THRESH) \<and>
    (case fst n of None \<Rightarrow> A + mset st = {#} | Some p \<Rightarrow>
       mset (p # snd n) = A + mset st \<and> segs_ok xs (p # snd n) \<and> weight (p # snd n) < weight ((lo, hi) # st))"
proof -
  let ?n = "int (length xs)"
  have s: "0 \<le> lo" "lo < hi" "hi < ?n" "(hi - lo + 1) * 2 ^ length st \<le> ?n" "segs_ok xs st"
    using assms(1) by (auto simp: segs_ok_def)
  have sh: "short_span (r - lo) \<longleftrightarrow> r - lo \<le> MAX_THRESH" "short_span (hi - l) \<longleftrightarrow> hi - l \<le> MAX_THRESH"
    using assms(3,4) by (simp_all add: short_span_def)
  have half: "d * 2 ^ length st \<le> ?n" if "d \<le> hi - lo + 1" for d
    using order_trans[OF mult_right_mono[OF that] s(4)] by simp
  have halve: "d * 2 ^ Suc (length st) \<le> ?n" if "2 * d \<le> hi - lo + 1" for d
    using half[OF that] by (simp add: mult.assoc mult.left_commute)
  show ?thesis
  proof (cases "r - lo \<le> MAX_THRESH"; cases "hi - l \<le> MAX_THRESH")
    assume "r - lo \<le> MAX_THRESH" "hi - l \<le> MAX_THRESH"
    then show ?thesis
      using s(2,5) by (intro exI[of _ "{#}"]) (cases st; auto simp: next_segment_def sh segs_ok_def weight_def)
  next
    assume "r - lo \<le> MAX_THRESH" "\<not> hi - l \<le> MAX_THRESH"
    then show ?thesis
      using s half[of "hi - l + 1"] assms(2,3)
      by (intro exI[of _ "{#(l, hi)#}"]) (auto simp: next_segment_def sh segs_ok_def weight_def MAX_THRESH_def)
  next
    assume "\<not> r - lo \<le> MAX_THRESH" "hi - l \<le> MAX_THRESH"
    then show ?thesis
      using s half[of "r - lo + 1"] assms(2,4)
      by (intro exI[of _ "{#(lo, r)#}"]) (auto simp: next_segment_def sh segs_ok_def weight_def MAX_THRESH_def)
  next
    assume big: "\<not> r - lo \<le> MAX_THRESH" "\<not> hi - l \<le> MAX_THRESH"
    have room: "length st + 1 < STACK_SIZE"
    proof (rule ccontr)
      assume "\<not> length st + 1 < STACK_SIZE"
      then have "(2 :: int) ^ 31 \<le> 2 ^ length st" by (intro power_increasing) (auto simp: STACK_SIZE_def)
      moreover have "2 * 2 ^ length st \<le> ?n" using half[of 2] s(2) by simp
      ultimately have "(2 :: int) ^ 32 \<le> ?n" by simp
      then show False using assms(5) by simp
    qed
    show ?thesis
    proof (cases "r - lo > hi - l")
      case True
      then show ?thesis
        using big room s half[of "r - lo + 1"] halve[of "hi - l + 1"] assms(2,3,4)
        by (intro exI[of _ "{#(lo, r), (l, hi)#}"]) (auto simp: next_segment_def sh PUSH_def segs_ok_def weight_def MAX_THRESH_def)
    next
      case False
      then show ?thesis
        using big room s half[of "hi - l + 1"] halve[of "r - lo + 1"] assms(2,3,4)
        by (intro exI[of _ "{#(lo, r), (l, hi)#}"]) (auto simp: next_segment_def sh PUSH_def segs_ok_def weight_def MAX_THRESH_def add_mset_commute)
    qed
  qed
qed

lemma sort_loop_ok:
  assumes "oks xs" "segs_ok xs (seg # st)" "front xs (mset (seg # st))" "length xs < 2 ^ 32"
  shows "\<exists>ys. sort_loop cmp seg st xs = Some (Inr ys) \<and> mset ys = mset xs \<and> (\<exists>k \<le> MAX_THRESH. cut ys k)"
  using assms
proof (induction "weight (seg # st)" arbitrary: seg st xs rule: less_induct)
  case less
  obtain lo hi where seg: "seg = (lo, hi)" by (cases seg)
  have in': "inside xs lo" "inside xs hi" "lo < hi" using less.prems(2) by (auto simp: segs_ok_def inside_def seg)
  obtain ys l r where p: "qpartition cmp lo hi xs = Inr (ys, l, r)" "within lo hi xs ys" "r < l" "lo \<le> r" "l \<le> hi"
    "\<forall>i j. lo \<le> i \<and> i \<le> r \<and> r < j \<and> j \<le> hi \<longrightarrow> le (el ys i) (el ys j)"
    using qpartition_ok[OF less.prems(1) in'] by blast
  obtain A n where n: "next_segment lo hi l r st = Inr n" "A \<subseteq># {#(lo, r), (l, hi)#}" "(lo, r) \<notin># A \<longrightarrow> r - lo \<le> MAX_THRESH"
    "case fst n of None \<Rightarrow> A + mset st = {#} | Some p \<Rightarrow>
       mset (p # snd n) = A + mset st \<and> segs_ok xs (p # snd n) \<and> weight (p # snd n) < weight ((lo, hi) # st)"
    using next_segment_ok[OF less.prems(2)[unfolded seg] p(3-5) less.prems(4)] by blast
  have m: "mset ys = mset xs" "length ys = length xs" using p(2) by (auto simp: within_def)
  have f: "front ys (A + mset st)"
    using front_step[OF _ p(2) in'(1,2) p(3-6) n(2,3), of "mset st"] less.prems(3) by (simp add: seg)
  show ?case
  proof (cases "fst n")
    case None
    then have "front ys {#}" using f n(4) by simp
    then show ?thesis using p(1) n(1) None m(1) by (subst sort_loop.simps) (auto simp: seg front_def)
  next
    case (Some q)
    then have q: "mset (q # snd n) = A + mset st" "segs_ok xs (q # snd n)" "weight (q # snd n) < weight (seg # st)"
      using n(4) by (auto simp: seg)
    have "\<exists>zs. sort_loop cmp q (snd n) ys = Some (Inr zs) \<and> mset zs = mset ys \<and> (\<exists>k \<le> MAX_THRESH. cut zs k)"
      using f q m less.prems(1,4) oks_mset[OF m(1)] by (intro less.hyps) (auto simp: segs_ok_def)
    then show ?thesis using p(1) n(1) Some m(1) by (subst sort_loop.simps) (auto simp: seg)
  qed
qed

section \<open>The insertion pass\<close>

lemma min_index_ok:
  assumes "oks xs" "0 \<le> thresh" "thresh < int (length xs)"
  shows "0 \<le> min_index cmp xs thresh \<and> min_index cmp xs thresh \<le> thresh \<and> (\<forall>i. 0 \<le> i \<and> i \<le> thresh \<longrightarrow> le (el xs (min_index cmp xs thresh)) (el xs i))"
  using assms(2,3)
proof (induction "nat thresh" arbitrary: thresh)
  case 0
  then show ?case using le_refl ok_el[OF assms(1), of 0] by (auto simp: min_index_def inside_def)
next
  case (Suc n)
  let ?m = "min_index cmp xs (thresh - 1)"
  have IH: "0 \<le> ?m" "?m \<le> thresh - 1" "\<forall>i. 0 \<le> i \<and> i \<le> thresh - 1 \<longrightarrow> le (el xs ?m) (el xs i)"
    using Suc.hyps(1)[of "thresh - 1"] Suc.hyps(2) Suc.prems by auto
  have "[1..thresh] = [1..thresh - 1] @ [thresh]" using Suc.hyps(2) by (intro upto_rec2) auto
  then have m: "min_index cmp xs thresh = (if cmp (el xs thresh) (el xs ?m) < 0 then thresh else ?m)"
    by (simp add: min_index_def)
  have ok: "ok (el xs i)" if "0 \<le> i" "i \<le> thresh" for i using that ok_el[OF assms(1)] Suc.prems by (auto simp: inside_def)
  have "le (el xs (min_index cmp xs thresh)) (el xs i)" if i: "0 \<le> i" "i \<le> thresh" for i
  proof (cases "i = thresh")
    case True
    then show ?thesis using m le_refl ok[of thresh] Suc.prems by (auto simp: le_def)
  next
    case False
    then have "le (el xs ?m) (el xs i)" using IH(3) i by auto
    moreover have "ok (el xs ?m)" "ok (el xs thresh)" "ok (el xs i)" using ok IH i Suc.prems by auto
    ultimately show ?thesis
      using m lt_le[of "el xs thresh" "el xs ?m"] le_trans[of "el xs thresh" "el xs ?m" "el xs i"] by simp
  qed
  then show ?case using IH m Suc.prems by auto
qed

lemma insert_search_ok:
  assumes "oks xs" "inside xs run" "0 \<le> t" "t < run" "le (el xs 0) (el xs run)"
  shows "\<exists>i. insert_search cmp xs run t = Inr i \<and> 0 \<le> i \<and> i \<le> t \<and> le (el xs i) (el xs run) \<and> (\<forall>j. i < j \<and> j \<le> t \<longrightarrow> le (el xs run) (el xs j))"
  using assms(3,4)
proof (induction "nat t" arbitrary: t)
  case 0
  then have "t = 0" by simp
  then show ?case using assms by (subst insert_search.simps) (auto simp: inside_def le_def)
next
  case (Suc n)
  have it: "inside xs t" using Suc.prems assms(2) by (auto simp: inside_def)
  show ?case
  proof (cases "cmp (el xs run) (el xs t) < 0")
    case True
    have "n = nat (t - 1)" "0 \<le> t - 1" "t - 1 < run" using Suc.hyps(2) Suc.prems by auto
    then obtain i where i: "insert_search cmp xs run (t - 1) = Inr i" "0 \<le> i" "i \<le> t - 1" "le (el xs i) (el xs run)"
        "\<forall>j. i < j \<and> j \<le> t - 1 \<longrightarrow> le (el xs run) (el xs j)"
      using Suc.hyps(1)[of "t - 1"] by blast
    have "le (el xs run) (el xs t)" using True lt_le ok_el[OF assms(1)] it assms(2) by blast
    then have "\<forall>j. i < j \<and> j \<le> t \<longrightarrow> le (el xs run) (el xs j)" using i(5) by (metis order_le_less zle_diff1_eq)
    then show ?thesis using i True it assms(2) by (subst insert_search.simps) auto
  next
    case False
    then show ?thesis using it assms(2) Suc.prems by (subst insert_search.simps) (auto simp: le_def)
  qed
qed

lemma shift_elem_ok:
  assumes "oks xs" "inside xs run" "0 \<le> t" "t < run" "sorted_wrt le (take (nat run) xs)" "le (el xs t) (el xs run)"
    "\<forall>j. t < j \<and> j \<le> run - 1 \<longrightarrow> le (el xs run) (el xs j)"
  shows "mset (shift_elem (t + 1) run xs) = mset xs" "sorted_wrt le (take (nat (run + 1)) (shift_elem (t + 1) run xs))"
    "el (shift_elem (t + 1) run xs) 0 = el xs 0"
proof -
  define P x R where "P = take (nat run) xs" and "x = el xs run" and "R = drop (nat run + 1) xs"
  define a where "a = nat (t + 1)"
  have run: "nat run < length xs" "a \<le> nat run" "length P = nat run" "0 < a" using assms(2-4) by (auto simp: inside_def a_def P_def)
  have xs: "xs = P @ x # R" unfolding P_def x_def R_def el_def using id_take_nth_drop[OF run(1)] by simp
  have take_a: "take a xs = take a P" using run(2) by (simp add: P_def min_absorb1)
  have sh: "shift_elem (t + 1) run xs = take a P @ x # drop a P @ R"
    unfolding R_def by (simp add: shift_elem_def a_def[symmetric] take_a x_def[symmetric] P_def[symmetric])
  show "mset (shift_elem (t + 1) run xs) = mset xs"
  proof -
    have "mset (take a P) + mset (drop a P) = mset P" by (metis append_take_drop_id mset_append)
    then have "mset (take a P @ x # drop a P @ R) = mset (P @ x # R)" by (simp add: add.assoc[symmetric])
    then show ?thesis using sh xs by simp
  qed
  have Pi: "P ! i = el xs (int i)" if "i < nat run" for i using that by (simp add: P_def el_def)
  have okP: "ok (P ! i)" if "i < nat run" for i using Pi[OF that] ok_el[OF assms(1), of "int i"] that run(1) by (simp add: inside_def)
  have okx: "ok x" using ok_el[OF assms(1,2)] by (simp add: x_def)
  have lo: "le y x" if y: "y \<in> set (take a P)" for y
  proof -
    obtain i where "i < length (take a P)" "y = take a P ! i" using y by (auto simp: in_set_conv_nth simp del: length_take length_drop nth_take nth_drop)
    then have i: "y = P ! i" "i < a" by simp_all
    have t: "P ! nat t = el xs t" "nat t < nat run" using Pi[of "nat t"] assms(3,4) by auto
    have "le (P ! i) (P ! nat t)"
    proof (cases "i = nat t")
      case True
      then show ?thesis using okP[of i] t(2) le_refl by simp
    next
      case False
      then have "i < nat t" using i(2) assms(3) by (auto simp: a_def)
      then show ?thesis using sorted_wrt_nth_less[OF assms(5)[folded P_def]] t(2) run(3) by simp
    qed
    moreover have "ok (P ! i)" "ok (P ! nat t)" using i(2) run(2) okP t(2) by simp_all
    ultimately show ?thesis using i(1) t(1) assms(6) le_trans[of "P ! i" "P ! nat t" x] okx by (simp add: x_def)
  qed
  have hi: "le x y" if y: "y \<in> set (drop a P)" for y
  proof -
    obtain j where "j < length (drop a P)" "y = drop a P ! j" using y by (auto simp: in_set_conv_nth simp del: length_take length_drop nth_take nth_drop)
    then have i: "y = P ! (a + j)" "a + j < nat run" using run(2,3) by auto
    have "t < int (a + j)" "int (a + j) \<le> run - 1" using i(2) assms(3,4) by (auto simp: a_def)
    then have "le x (el xs (int (a + j)))" unfolding x_def using assms(7) by blast
    then show ?thesis using Pi[OF i(2)] i(1) by simp
  qed
  have "sorted_wrt le (take a P @ x # drop a P)"
  proof -
    have "sorted_wrt le (take a P @ drop a P)" using assms(5)[folded P_def] by simp
    then show ?thesis using lo hi unfolding sorted_wrt_append by (intro conjI ballI) auto
  qed
  moreover have "take (nat (run + 1)) (shift_elem (t + 1) run xs) = take a P @ x # drop a P"
  proof -
    have "length (take a P @ x # drop a P) = nat (run + 1)" using run assms(3,4) by (simp add: nat_add_distrib)
    moreover have "take a P @ x # drop a P @ R = (take a P @ x # drop a P) @ R" by simp
    ultimately show ?thesis unfolding sh by (metis append_eq_conv_conj)
  qed
  ultimately show "sorted_wrt le (take (nat (run + 1)) (shift_elem (t + 1) run xs))" by simp
  show "el (shift_elem (t + 1) run xs) 0 = el xs 0"
  proof -
    have "(take a P @ x # drop a P @ R) ! 0 = take a P ! 0" using run by (simp only: nth_append) simp
    also have "... = xs ! 0" using take_a run(4) by (metis nth_take)
    finally show ?thesis unfolding sh by (simp add: el_def)
  qed
qed

lemma min_stays:
  assumes "mset ys = mset xs" "\<forall>x\<in>set xs. le m x"
  shows "\<forall>x\<in>set ys. le m x"
  using assms by (metis mset_eq_setD)

lemma insertion_loop_ok:
  assumes "oks xs" "2 \<le> run" "run \<le> int (length xs)" "sorted_wrt le (take (nat run) xs)" "\<forall>x\<in>set xs. le (el xs 0) x"
  shows "\<exists>ys. insertion_loop cmp (int (length xs) - 1) run xs = Inr ys \<and> mset ys = mset xs \<and> sorted_wrt le ys"
  using assms
proof (induction "nat (int (length xs) - run)" arbitrary: run xs)
  case 0
  then show ?case by (subst insertion_loop.simps) auto
next
  case (Suc n)
  have r: "inside xs run" "run \<le> int (length xs) - 1" using Suc.hyps(2) Suc.prems(2) by (auto simp: inside_def)
  have "el xs run \<in> set xs" using r(1) by (simp add: el_def inside_def nat_less_iff)
  then obtain t where t: "insert_search cmp xs run (run - 1) = Inr t" "0 \<le> t" "t \<le> run - 1" "le (el xs t) (el xs run)"
      "\<forall>j. t < j \<and> j \<le> run - 1 \<longrightarrow> le (el xs run) (el xs j)"
    using insert_search_ok[OF Suc.prems(1) r(1), of "run - 1"] Suc.prems(2,5) by auto
  note sh = shift_elem_ok[OF Suc.prems(1) r(1) t(2) _ Suc.prems(4) t(4,5)]
  define ys where "ys = (if t + 1 \<noteq> run then shift_elem (t + 1) run xs else xs)"
  have same: "shift_elem (t + 1) run xs = xs" if "t + 1 = run"
    using that r(1) by (simp add: shift_elem_def el_def inside_def nat_less_iff Cons_nth_drop_Suc)
  have ys: "mset ys = mset xs" "sorted_wrt le (take (nat (run + 1)) ys)" "el ys 0 = el xs 0"
    using sh t(3) same by (auto simp: ys_def)
  have len: "length ys = length xs" using ys(1) by (rule mset_eq_length)
  have "\<exists>zs. insertion_loop cmp (int (length ys) - 1) (run + 1) ys = Inr zs \<and> mset zs = mset ys \<and> sorted_wrt le zs"
  proof (rule Suc.hyps(1))
    show "n = nat (int (length ys) - (run + 1))" using Suc.hyps(2) len by simp
    show "oks ys" using oks_mset[OF ys(1) Suc.prems(1)] .
    show "\<forall>x\<in>set ys. le (el ys 0) x" using min_stays[OF ys(1)] Suc.prems(5) ys(3) by simp
  qed (use ys len r Suc.prems(2) in auto)
  then show ?case using t(1) r(2) ys(1) len by (subst insertion_loop.simps) (auto simp: ys_def)
qed

lemma insertion_pass_ok:
  assumes "oks xs" "xs \<noteq> []" "\<exists>k. (k \<le> MAX_THRESH \<or> int (length xs) \<le> MAX_THRESH + 1) \<and> cut xs k"
  shows "\<exists>ys. insertion_pass cmp xs = Inr ys \<and> mset ys = mset xs \<and> sorted_wrt le ys"
proof -
  let ?th = "min (int (length xs) - 1) MAX_THRESH" 
  let ?m = "min_index cmp xs ?th"
  have n: "0 < int (length xs)" using assms(2) by simp
  have m: "0 \<le> ?m" "?m \<le> ?th" "\<forall>i. 0 \<le> i \<and> i \<le> ?th \<longrightarrow> le (el xs ?m) (el xs i)"
    using min_index_ok[OF assms(1), of ?th] n by (auto simp: MAX_THRESH_def)
  have ins: "inside xs ?m" "inside xs 0" using m(1,2) n by (auto simp: inside_def)
  have least: "le (el xs ?m) (el xs j)" if "inside xs j" for j
  proof (cases "j \<le> ?th")
    case True
    then show ?thesis using m(3) that by (auto simp: inside_def)
  next
    case False
    then have "j > MAX_THRESH" "int (length xs) > MAX_THRESH + 1" using that by (auto simp: inside_def)
    moreover from this obtain k where "k \<le> MAX_THRESH" "cut xs k" using assms(3) by auto
    ultimately have "le (el xs 0) (el xs j)" using that by (auto simp: cut_def inside_def)
    moreover have "le (el xs ?m) (el xs 0)" using m(3)[rule_format, of 0] n by (simp add: MAX_THRESH_def)
    ultimately show ?thesis using le_trans[of "el xs ?m" "el xs 0" "el xs j"] ok_el[OF assms(1)] ins that by blast
  qed
  define ys where "ys = (if ?m \<noteq> 0 then SWAP ?m 0 xs else xs)"
  have ys: "mset ys = mset xs" "el ys 0 = el xs ?m" using ins by (auto simp: ys_def el_SWAP)
  have len: "length ys = length xs" using ys(1) by (rule mset_eq_length)
  have all: "\<forall>x\<in>set xs. le (el xs ?m) x"
  proof
    fix x assume "x \<in> set xs"
    then obtain i where "i < length xs" "x = el xs (int i)" by (auto simp: in_set_conv_nth el_def)
    then show "le (el xs ?m) x" using least[of "int i"] by (simp add: inside_def)
  qed
  have min: "\<forall>x\<in>set ys. le (el ys 0) x" using min_stays[OF ys(1) all] ys(2) by simp
  have eq: "insertion_pass cmp xs = insertion_loop cmp (int (length ys) - 1) 2 ys"
    by (simp add: insertion_pass_def Let_def ys_def)
  show ?thesis
  proof (cases "2 \<le> length ys")
    case True
    then obtain a b zs where c: "ys = a # b # zs" by (cases ys; cases "tl ys") auto
    have "sorted_wrt le (take (nat 2) ys)" using min by (simp add: c el_def)
    then show ?thesis using insertion_loop_ok[of ys 2] oks_mset[OF ys(1) assms(1)] min True eq ys(1) by auto
  next
    case False
    then have "sorted_wrt le ys" by (cases ys; cases "tl ys") auto
    then show ?thesis using False eq ys(1) by (subst (asm) insertion_loop.simps) auto
  qed
qed

section \<open>Sorting and searching\<close>

theorem quicksort_ok:
  assumes "\<forall>x\<in>set xs. ok x" "length xs < 2 ^ 32"
  shows "\<exists>ys. quicksort cmp xs = Some (Inr ys) \<and> mset ys = mset xs \<and> sorted_wrt le ys"
proof -
  have oks: "oks xs" using assms(1) by (simp add: oks_def)
  let ?n = "int (length xs)"
  have all: "cut xs (?n - 1)" if "xs \<noteq> []" using that by (auto simp: cut_def)
  consider "xs = []" | "xs \<noteq> []" "?n \<le> MAX_THRESH" | "?n > MAX_THRESH" by linarith
  then show ?thesis
  proof cases
    case 1
    then show ?thesis by (simp add: quicksort_def)
  next
    case 2
    then show ?thesis using insertion_pass_ok[OF oks 2(1)] all by (auto simp: quicksort_def)
  next
    case 3
    then have "xs \<noteq> []" by (auto simp: MAX_THRESH_def)
    then have c: "cut xs (?n - 1)" by (rule all)
    have "segs_ok xs [(0, ?n - 1)]" using 3 by (auto simp: segs_ok_def MAX_THRESH_def)
    moreover have "front xs (mset [(0, ?n - 1)])" unfolding front_def using c by (intro exI[of _ "?n - 1"]) simp
    ultimately obtain ys where ys: "sort_loop cmp (0, ?n - 1) [] xs = Some (Inr ys)" "mset ys = mset xs" "\<exists>k \<le> MAX_THRESH. cut ys k"
      using sort_loop_ok[OF oks _ _ assms(2), of "(0, ?n - 1)" "[]"] by blast
    have "ys \<noteq> []" using ys(2) 3 by (auto simp: MAX_THRESH_def)
    then obtain zs where "insertion_pass cmp ys = Inr zs" "mset zs = mset ys" "sorted_wrt le zs"
      using insertion_pass_ok[OF oks_mset[OF ys(2) oks]] ys(3) by blast
    then show ?thesis using 3 ys by (auto simp: quicksort_def MAX_THRESH_def)
  qed
qed

end

locale comparator_sign = comparator +
  assumes sign: "ok x \<Longrightarrow> ok y \<Longrightarrow> 0 < cmp x y \<longleftrightarrow> cmp y x < 0"
begin

lemma bsearch_loop_ok:
  assumes "\<forall>x\<in>set xs. ok x" "ok k" "sorted_wrt le xs" "length xs < 2 ^ 31" "unat u \<le> length xs"
    "\<forall>i < length xs. i < unat l \<longrightarrow> cmp (xs ! i) k < 0" "\<forall>i < length xs. unat u \<le> i \<longrightarrow> cmp k (xs ! i) < 0"
  shows "\<exists>r. bsearch_loop cmp k xs l u = Some (Inr r) \<and>
    (case r of None \<Rightarrow> \<forall>x\<in>set xs. cmp k x \<noteq> 0 | Some i \<Rightarrow> i < length xs \<and> cmp k (xs ! i) = 0)"
  using assms(5-7)
proof (induction "unat u - unat l" arbitrary: l u rule: less_induct)
  case less
  have ok: "ok (xs ! i)" if "i < length xs" for i using that assms(1) by simp
  have ord: "le (xs ! i) (xs ! j)" if "i < j" "j < length xs" for i j by (rule sorted_wrt_nth_less[OF assms(3) that])
  show ?case
  proof (cases "l < u")
    case False
    then have ul: "unat u \<le> unat l" by (simp add: word_less_nat_alt)
    have "cmp k (xs ! i) \<noteq> 0" if i: "i < length xs" for i
    proof (cases "i < unat l")
      case True
      then show ?thesis using less.prems(2) i sign[OF assms(2) ok[OF i]] by force
    next
      case False
      then show ?thesis using less.prems(3) i ul by force
    qed
    then have "\<forall>x\<in>set xs. cmp k x \<noteq> 0" by (auto simp: in_set_conv_nth)
    then show ?thesis using False by (subst bsearch_loop.simps) simp
  next
    case True
    define idx where "idx = (l + u) div 2"
    have lu: "unat l < unat u" using True by (simp add: word_less_nat_alt)
    have "unat l + unat u < 2 ^ 32" using lu less.prems(1) assms(4) by simp
    then have idx: "unat idx = (unat l + unat u) div 2"
      by (simp add: idx_def unat_div unat_add_lem[THEN iffD1])
    then have b: "unat l \<le> unat idx" "unat idx < unat u" "unat idx < length xs" using lu less.prems(1) by auto
    have s: "unat (idx + 1) = unat idx + 1" using b(2) unat_u32_lt[of u] by (simp add: unat_add_lem[THEN iffD1])
    have step: "bsearch_loop cmp k xs l u = (if cmp k (xs ! unat idx) < 0 then bsearch_loop cmp k xs l idx
        else if cmp k (xs ! unat idx) > 0 then bsearch_loop cmp k xs (idx + 1) u else Some (Inr (Some (unat idx))))"
      using True b(3) by (subst bsearch_loop.simps) (simp add: Let_def idx_def[symmetric])
    consider "cmp k (xs ! unat idx) < 0" | "cmp k (xs ! unat idx) > 0" | "cmp k (xs ! unat idx) = 0" by linarith
    then show ?thesis
    proof cases
      case 1
      have "cmp k (xs ! i) < 0" if i: "i < length xs" "unat idx \<le> i" for i
      proof (rule ccontr)
        assume "\<not> cmp k (xs ! i) < 0"
        then have "le (xs ! i) k" by (simp add: le_def)
        moreover have "le (xs ! unat idx) (xs ! i)" using i ord[of "unat idx" i] le_refl ok by (cases "i = unat idx") auto
        ultimately have "le (xs ! unat idx) k" using le_trans ok[OF b(3)] ok[OF i(1)] assms(2) by blast
        then show False using 1 by (simp add: le_def)
      qed
      then show ?thesis using less.hyps[of idx l] b less.prems 1 step by simp
    next
      case 2
      then have lt: "cmp (xs ! unat idx) k < 0" using sign[OF assms(2) ok[OF b(3)]] by simp
      have "cmp (xs ! i) k < 0" if i: "i < length xs" "i < unat idx + 1" for i
      proof (rule ccontr)
        assume "\<not> cmp (xs ! i) k < 0"
        then have "le k (xs ! i)" by (simp add: le_def)
        moreover have "le (xs ! i) (xs ! unat idx)" using i b(3) ord[of i "unat idx"] le_refl ok by (cases "i = unat idx") auto
        ultimately have "le k (xs ! unat idx)" using le_trans ok[OF b(3)] ok[OF i(1)] assms(2) by blast
        then show False using lt by (simp add: le_def)
      qed
      then show ?thesis using less.hyps[of u "idx + 1"] b s less.prems 2 step by simp
    next
      case 3
      then show ?thesis using step b(3) by simp
    qed
  qed
qed

lemma bsearch_ok:
  assumes "\<forall>x\<in>set xs. ok x" "ok k" "sorted_wrt le xs" "length xs < 2 ^ 31"
  shows "\<exists>r. bsearch cmp k xs (of_nat (length xs)) = Some (Inr r) \<and>
    (case r of None \<Rightarrow> \<forall>x\<in>set xs. cmp k x \<noteq> 0 | Some i \<Rightarrow> i < length xs \<and> cmp k (xs ! i) = 0)"
proof -
  have "unat (of_nat (length xs) :: u32) = length xs" using assms(4) by (simp add: unat_of_nat take_bit_nat_eq_self)
  then show ?thesis unfolding bsearch_def using assms by (intro bsearch_loop_ok) auto
qed

end

section \<open>Properties\<close>

text \<open>
  C23: For every comparison that is an order on the elements of an array of less than \<open>2 ^ 32\<close> elements,
  \<open>quicksort\<close> returns without comparing outside the array or overflowing its stack, and leaves a sorted
  permutation of the array.\<close>

theorem quicksort_sorts:
  assumes "\<forall>x\<in>set xs. \<forall>y\<in>set xs. cmp x y < 0 \<longrightarrow> \<not> cmp y x < 0"
    and "\<forall>x\<in>set xs. \<forall>y\<in>set xs. \<forall>z\<in>set xs. \<not> cmp y x < 0 \<and> \<not> cmp z y < 0 \<longrightarrow> \<not> cmp z x < 0"
    and "length xs < 2 ^ 32"
  shows "\<exists>ys. quicksort cmp xs = Some (Inr ys) \<and> mset ys = mset xs \<and> sorted_wrt (\<lambda>x y. \<not> cmp y x < 0) ys"
proof -
  have c: "comparator (\<lambda>x. x \<in> set xs) cmp" using assms(1,2) by unfold_locales blast+
  show ?thesis using comparator.quicksort_ok[OF c _ assms(3)] unfolding comparator.le_def[OF c] by simp
qed

theorem quicksort_sorts_witness:
  "\<exists>ys. quicksort (-) [7, 2, 9, 4, 4, 1, 8 :: int] = Some (Inr ys) \<and> mset ys = mset [7, 2, 9, 4, 4, 1, 8] \<and>
     sorted_wrt (\<lambda>x y. \<not> y - x < 0) ys"
  by (rule quicksort_sorts) auto

text \<open>
  On a sorted array of less than \<open>2 ^ 31\<close> elements \<open>bsearch\<close> returns, reads only elements of the array,
  and finds an element that compares equal to the key exactly when there is one.\<close>

theorem bsearch_finds:
  assumes "\<forall>x\<in>A. \<forall>y\<in>A. 0 < cmp x y \<longleftrightarrow> cmp y x < 0"
    and "\<forall>x\<in>A. \<forall>y\<in>A. \<forall>z\<in>A. \<not> cmp y x < 0 \<and> \<not> cmp z y < 0 \<longrightarrow> \<not> cmp z x < 0"
    and "set xs \<subseteq> A" "k \<in> A" "sorted_wrt (\<lambda>x y. \<not> cmp y x < 0) xs" "length xs < 2 ^ 31"
  shows "\<exists>r. bsearch cmp k xs (of_nat (length xs)) = Some (Inr r) \<and>
    (case r of None \<Rightarrow> \<forall>x\<in>set xs. cmp k x \<noteq> 0 | Some i \<Rightarrow> i < length xs \<and> cmp k (xs ! i) = 0)"
proof -
  have "comparator (\<lambda>x. x \<in> A) cmp" using assms(1,2) by unfold_locales (metis less_asym, blast)
  then have c: "comparator_sign (\<lambda>x. x \<in> A) cmp" "comparator (\<lambda>x. x \<in> A) cmp"
    using assms(1) by (auto intro!: comparator_sign.intro comparator_sign_axioms.intro)
  show ?thesis
    using comparator_sign.bsearch_ok[OF c(1), of xs k] assms(3-6) unfolding comparator.le_def[OF c(2), abs_def] by auto
qed

theorem bsearch_finds_witness:
  "\<exists>r. bsearch (-) (4 :: int) [1, 2, 4, 7] (of_nat (length [1, 2, 4, 7 :: int])) = Some (Inr r) \<and>
    (case r of None \<Rightarrow> \<forall>x\<in>set [1, 2, 4, 7 :: int]. 4 - x \<noteq> 0
     | Some i \<Rightarrow> i < length [1, 2, 4, 7 :: int] \<and> (4 :: int) - [1, 2, 4, 7] ! i = 0)"
  by (rule bsearch_finds[where A = UNIV]) auto

end
