(* ===== verification/Perf.thy ===== *)
theory Perf
  imports Sort_Spec
begin

text \<open>
  The table of performance events (\<^verbatim>\<open>kernel/src/perf/events.c\<close>), its initialisation \<^verbatim>\<open>init_events\<close> of
  \<^verbatim>\<open>perf.c\<close> and the lookup of \<^verbatim>\<open>perf.h\<close>: the client of \<open>quicksort\<close> and \<open>bsearch\<close>. A name is a
  string without its terminator; the loop of \<^verbatim>\<open>perf_hash\<close> also stops at a zero character inside it.
\<close>

section \<open>Definitions\<close>

record perf_event =
  name :: string
  event_number :: u16
  hash :: u32

fun perf_hash_loop :: "u64 \<Rightarrow> string \<Rightarrow> u64" where
  "perf_hash_loop val [] = val"
| "perf_hash_loop val (c # s) =
     (if c = CHR 0x00 then val else perf_hash_loop ((push_bit 5 val + val) + of_char c) s)"

text \<open>\<^verbatim>\<open>val % __INT_MAX__\<close>, cast to \<^verbatim>\<open>uint32_t\<close>\<close>

definition perf_hash :: "string \<Rightarrow> u32" where
  "perf_hash s = ucast (perf_hash_loop 5381 s mod 0x7FFFFFFF)"

definition perf_cmp :: "perf_event \<Rightarrow> perf_event \<Rightarrow> int" where
  "perf_cmp a b = sint (hash a - hash b)"

definition perf_lookup :: "string \<Rightarrow> perf_event list \<Rightarrow> u32 \<Rightarrow> nat option result option" where
  "perf_lookup s user_table n =
     bsearch perf_cmp \<lparr>name = ''None'', event_number = 0, hash = perf_hash s\<rparr> user_table n"

definition hashed :: "perf_event \<Rightarrow> perf_event" where
  "hashed e = e\<lparr>hash := perf_hash (name e)\<rparr>"

text \<open>\<^verbatim>\<open>init_events\<close> on a table: every event gets its hash, then the table is sorted.\<close>

definition init_events :: "perf_event list \<Rightarrow> perf_event list result option" where
  "init_events tab = quicksort perf_cmp (map hashed tab)"

text \<open>An entry of the static table; the hash is \<^verbatim>\<open>-1\<close> until \<^verbatim>\<open>init_events\<close>.\<close>

definition event :: "string \<Rightarrow> u16 \<Rightarrow> perf_event" where
  "event s n = \<lparr>name = s, event_number = n, hash = - 1\<rparr>"

definition perf_events :: "perf_event list" where
  "perf_events =
    [event ''SW_INC'' 0x0000,
     event ''L1I_Cache_Refill'' 0x0001,
     event ''L1I_TLB_Refill'' 0x0002,
     event ''L1D_Cache_Refill'' 0x0003,
     event ''L1D_Cache_Access'' 0x0004,
     event ''L1D_TLB_Refill'' 0x0005,
     event ''Load'' 0x0006,
     event ''Store'' 0x0007,
     event ''Instruction'' 0x0008,
     event ''Exception_Taken'' 0x0009,
     event ''Exception_Return'' 0x000A,
     event ''Write_Context'' 0x000B,
     event ''SW_PC'' 0x000C,
     event ''Immed_Branch_Taken'' 0x000D,
     event ''Branch_Taken'' 0x000E,
     event ''Unalign_Load_or_Store'' 0x000F,
     event ''Branch_Miss_ornot_taken'' 0x0010,
     event ''Cycle'' 0x0011,
     event ''Branch_Spec'' 0x0012,
     event ''Mem_Access'' 0x0013,
     event ''L1I_Cache_Access'' 0x0014,
     event ''L1D_Cache_WB'' 0x0015,
     event ''L2D_Cache_Access'' 0x0016,
     event ''L2D_Cache_Refill'' 0x0017,
     event ''L2D_Cache_WB'' 0x0018,
     event ''Bus_Access'' 0x0019,
     event ''Memory_Error'' 0x001A,
     event ''Spec_Exec'' 0x001B,
     event ''TTBR'' 0x001C,
     event ''Bus_Cycle'' 0x001D,
     event ''Chain'' 0x001E,
     event ''L1D_Cache_Alloc_WO_Refill'' 0x001F,
     event ''L2D_Cache_Alloc_WO_Refill'' 0x0020,
     event ''Branch'' 0x0021,
     event ''Branch_Miss'' 0x0022,
     event ''NOP_frontend'' 0x0023,
     event ''NOP_backend'' 0x0024,
     event ''L1DTLB_Access'' 0x0025,
     event ''L1I_TLB_Acess'' 0x0026,
     event ''L2I_Cache_Access'' 0x0027,
     event ''L2I_Cache_Refill'' 0x0028,
     event ''L3D_Cache_Alloc_WO_Refill'' 0x0029,
     event ''L3D_Cache_Refill'' 0x002A,
     event ''L3D_Cache_Access'' 0x002B,
     event ''L3D_Cache_WB'' 0x002C,
     event ''L2D_TLB_Refill'' 0x002D,
     event ''L2I_TLB_Refill'' 0x002E,
     event ''L2D_TLB_Access'' 0x002F,
     event ''L2I_TLB_Access'' 0x0030,
     event ''Remote_Access'' 0x0031,
     event ''LL_Cache_Access'' 0x0032,
     event ''LL_Cache_Miss'' 0x0033,
     event ''DTLB_Walk'' 0x0034,
     event ''ITLB_Walk'' 0x0035,
     event ''LL_Cache_RD'' 0x0036,
     event ''LL_Cache_RD_Miss'' 0x0037,
     event ''Remote_Access_RD'' 0x0038,
     event ''L1D_Cache_Long_Miss'' 0x0039,
     event ''OP_Arch_Exec'' 0x003A,
     event ''OP_Spec_Exec'' 0x003B,
     event ''Stall'' 0x003C,
     event ''Stall_Slot_Frontend'' 0x003D,
     event ''Stall_Slot_Backend'' 0x003E,
     event ''Stall_Slot'' 0x003F,
     event ''L1D_Cache_RD'' 0x0040,
     event ''L1D_Cache_WR'' 0x0041,
     event ''L1D_Cache_Refill_RD'' 0x0042,
     event ''L1D_Cache_Refill_WR'' 0x0043,
     event ''L1D_Cache_Refill_Inner'' 0x0044,
     event ''L1D_Cache_Refill_Outer'' 0x0045,
     event ''L1D_Cache_WB_V'' 0x0046,
     event ''L1D_Cache_WB_C'' 0x0047,
     event ''L1D_Cache_INV'' 0x0048,
     event ''L1D_TLB_Refill_RD'' 0x004C,
     event ''L1D_TLB_Refill_WR'' 0x004D,
     event ''L1D_TLB_Access_RD'' 0x004E,
     event ''L1D_TLB_Access_WR'' 0x004F,
     event ''L2D_Cache_Access_RD'' 0x0050,
     event ''L2D_Cache_Access_WR'' 0x0051,
     event ''L2D_Cache_Refill_RD'' 0x0052,
     event ''L2D_Cache_Refill_WR'' 0x0053,
     event ''L2D_Cache_WB_V'' 0x0056,
     event ''L2D_Cache_WB_C'' 0x0057,
     event ''L2D_Cache_WB_INV'' 0x0058,
     event ''L2D_TLB_Refill_RD'' 0x005C,
     event ''L2D_TLB_Refill_WR'' 0x005D,
     event ''L2D_TLB_Access_RD'' 0x005E,
     event ''L2D_TLB_Acess_WR'' 0x005F,
     event ''Bus_Access_RD'' 0x0060,
     event ''Bus_Access_WR'' 0x0061,
     event ''Bus_Access_Shared'' 0x0062,
     event ''Bus_Access_NotShared'' 0x0063,
     event ''Bus_Access_Normal'' 0x0064,
     event ''Bus_Access_Periph'' 0x0065,
     event ''Mem_Access_RD'' 0x0066,
     event ''Mem_Access_WR'' 0x0067,
     event ''Load_Spec'' 0x0070,
     event ''Store_Spec'' 0x0071,
     event ''Load_Store_Spec'' 0x0072,
     event ''Int_Proc_Spec'' 0x0073,
     event ''SW_PC_Spec'' 0x0076,
     event ''Immed_Branch_Spec'' 0x0078,
     event ''Proc_Ret_Spec'' 0x0079,
     event ''Ind_Branch_Spec'' 0x007A,
     event ''ISB_Spec'' 0x007C,
     event ''DSB_Spec'' 0x007D,
     event ''DMB_Spec'' 0x007E,
     event ''Exception_Other'' 0x0081,
     event ''Exception_SVC'' 0x0082,
     event ''Exception_I_Abort'' 0x0083,
     event ''Exception_D_Abort'' 0x0084,
     event ''Exception_IRQ'' 0x0086,
     event ''Exception_FIQ'' 0x0087,
     event ''Exception_SMC'' 0x0088,
     event ''Exception_HVC'' 0x008A,
     event ''Exception_I_Trap'' 0x008B,
     event ''Exception_D_Abort'' 0x008C,
     event ''Exception_Other_Trap'' 0x008D,
     event ''Exception_Trap_IRQ'' 0x008E,
     event ''Exception_Trap_FIQ'' 0x008F,
     event ''L3D_Cache_Access_RD'' 0x00A0,
     event ''L3D_Cache_Access_WR'' 0x00A1,
     event ''L3D_Cache_Refill_RD'' 0x00A2,
     event ''L3D_Cache_Refill_WR'' 0x00A3,
     event ''L3D_Cache_WB_V'' 0x00A6,
     event ''L3D_Cache_WB_C'' 0x00A7,
     event ''L3D_Cache_INV'' 0x00A8,
     event ''Constant_Freq_Cycle'' 0x4004,
     event ''Mem_Stall_Cycle'' 0x4005,
     event ''L1I_Access_Long_Miss'' 0x4006,
     event ''L2D_Cache_Long_Miss_Rd'' 0x4009,
     event ''L2I_Cache_Long_Miss'' 0x400A,
     event ''L2D_Cache_Long_Miss_Rd'' 0x400B,
     event ''TRB_Wrap'' 0x400C,
     event ''PMU_OVERFLOW_EL0'' 0x400D,
     event ''TRB_Trig'' 0x400E,
     event ''PMU_OVERFLOW_EL2'' 0x400F,
     event ''Prefetch_Spec'' 0x8087,
     event ''Immed_Branch_Taken'' 0x8108,
     event ''Immed_Branch_not_Taken'' 0x8109,
     event ''Ind_Branch_Taken'' 0x810A,
     event ''Ind_Branch_not_Taken'' 0x810B,
     event ''Ind_Branch_noproc_Taken'' 0x810C,
     event ''Ind_Branch_noproc_not_Taken'' 0x810D,
     event ''Proc_Return_Taken'' 0x810E,
     event ''Proc_Return_not_Taken'' 0x810F,
     event ''Immed_Branch_Pred'' 0x8110,
     event ''Immed_Branch_Miss'' 0x8111,
     event ''Ind_Branch_Pred'' 0x8112,
     event ''Ind_Branch_Miss'' 0x8113,
     event ''Proc_Pred'' 0x8114,
     event ''Proc_Miss'' 0x8115,
     event ''Ind_noproc_Pred'' 0x8116,
     event ''Ind_noproc_Miss'' 0x8117,
     event ''Branch_Pred_Taken'' 0x8118,
     event ''Branch_Miss_Taken'' 0x8119,
     event ''Branch_Pred_not_Taken'' 0x811A,
     event ''Branch_Miss_not_Taken'' 0x811B,
     event ''Branch_Pred'' 0x811C,
     event ''Ind_Branch'' 0x811D,
     event ''Ind_Branch_noproc'' 0x811E,
     event ''BRB_Filtrate'' 0x811F,
     event ''Inst_Fetch_PerCycle'' 0x8120,
     event ''Mem_RD_PerCycle'' 0x8121,
     event ''Inst_Fetch'' 0x8124,
     event ''Ind_Branch_noproc_nolink_Taken'' 0x8179,
     event ''Branch_link_Taken'' 0x817A,
     event ''Branch_nolink_Taken'' 0x817B,
     event ''Ind_Branch_link_Taken'' 0x817C,
     event ''Ind_Branch_nolink_Taken'' 0x817D,
     event ''Dir_Branch_link_Taken'' 0x817E,
     event ''Dir_Branch_nolink_Taken'' 0x817F,
     event ''Uncond_Branch'' 0x8180,
     event ''Cond_Branch'' 0x8181,
     event ''Cond_Branch_Taken'' 0x8182,
     event ''Hint_Cond_Branch'' 0x8183,
     event ''Load_Any'' 0x82A8,
     event ''Store_Any'' 0x82A9,
     event ''Load_or_Store_Any'' 0x82AA,
     event ''DSP'' 0x82AB]"

section \<open>The comparison\<close>

text \<open>The subtraction in \<^verbatim>\<open>perf_cmp\<close> does not wrap, because a hash is less than \<^verbatim>\<open>INT_MAX\<close>.\<close>

definition hash_ok :: "perf_event \<Rightarrow> bool" where
  "hash_ok e \<longleftrightarrow> hash e < 0x7FFFFFFF"

lemma perf_cmp_diff:
  assumes "hash_ok a" "hash_ok b"
  shows "perf_cmp a b = uint (hash a) - uint (hash b)"
proof -
  have p: "(2 :: int) ^ 31 = 2147483648" by simp
  have b: "uint (hash a) < 2147483647" "uint (hash b) < 2147483647"
    using assms by (auto simp: hash_ok_def word_less_def)
  have "hash a - hash b = word_of_int (uint (hash a) - uint (hash b))" by simp
  then have "perf_cmp a b = signed_take_bit 31 (uint (hash a) - uint (hash b))"
    unfolding perf_cmp_def by (simp only: sint_sbintrunc') simp
  also have "... = uint (hash a) - uint (hash b)"
  proof (rule signed_take_bit_int_eq_self)
    show "- (2 ^ 31) \<le> uint (hash a) - uint (hash b)" using b uint_ge_0[of "hash a"] p by linarith
    show "uint (hash a) - uint (hash b) < 2 ^ 31" using b uint_ge_0[of "hash b"] p by linarith
  qed
  finally show ?thesis .
qed

interpretation perf: comparator_sign hash_ok perf_cmp
  by unfold_locales (auto simp: perf_cmp_diff)

section \<open>The hash\<close>

text \<open>The hash as a polynomial over the integers: the reference the word loop is compared with.\<close>

fun djb :: "int \<Rightarrow> string \<Rightarrow> int" where
  "djb v [] = v"
| "djb v (c # s) = djb (v * 33 + of_char c) s"

definition name_hash :: "string \<Rightarrow> int" where
  "name_hash s = djb 5381 s mod 18446744073709551616 mod 2147483647"

lemma djb_mod: "djb (v mod n) s mod n = djb v s mod n"
proof (induction s arbitrary: v)
  case (Cons c s)
  have "djb (v mod n * 33 + of_char c) s mod n = djb ((v mod n * 33 + of_char c) mod n) s mod n" by (simp only: Cons)
  also have "(v mod n * 33 + of_char c) mod n = (v * 33 + of_char c) mod n" by (intro mod_add_cong mod_mult_cong refl) simp
  also have "djb ((v * 33 + of_char c) mod n) s mod n = djb (v * 33 + of_char c) s mod n" by (simp only: Cons)
  finally show ?case by simp
qed simp

lemma of_int_uint_mod: "uint (of_int k :: u64) = k mod 18446744073709551616"
  by (simp add: uint_word_of_int)

lemma word_of_char: "of_char c = (word_of_int (of_char c) :: u64)"
  by (simp only: of_int_of_char)

lemma perf_hash_loop_djb:
  "CHR 0x00 \<notin> set s \<Longrightarrow> uint (perf_hash_loop v s) = djb (uint v) s mod 18446744073709551616"
proof (induction s arbitrary: v)
  case Nil
  then show ?case using uint_lt2p[of v] by simp
next
  case (Cons c s)
  have "push_bit 5 v + v + of_char c = (of_int (uint v * 33 + of_char c) :: u64)"
    by (simp add: push_bit_eq_mult word_of_char)
  then have "uint (push_bit 5 v + v + of_char c) = (uint v * 33 + of_char c) mod 18446744073709551616"
    by (simp only: of_int_uint_mod)
  then show ?case using Cons djb_mod by auto
qed

lemma uint_perf_hash: "uint (perf_hash s) = uint (perf_hash_loop 5381 s) mod 2147483647"
proof -
  have "uint (perf_hash_loop 5381 s mod 0x7FFFFFFF) = uint (perf_hash_loop 5381 s) mod 2147483647"
    by (simp add: uint_mod)
  moreover have "... < 2147483647" by simp
  ultimately show ?thesis unfolding perf_hash_def by (simp add: unsigned_ucast_eq take_bit_int_eq_self)
qed

lemma perf_hash_name: "CHR 0x00 \<notin> set s \<Longrightarrow> uint (perf_hash s) = name_hash s"
  by (simp add: uint_perf_hash perf_hash_loop_djb name_hash_def)

lemma hash_ok_perf_hash: "perf_hash s < 0x7FFFFFFF"
  by (simp add: word_less_def uint_perf_hash)

lemma hashed_ok [simp]: "hash_ok (hashed e)"
  by (simp add: hash_ok_def hashed_def hash_ok_perf_hash)


section \<open>The names of the table\<close>

text \<open>A key has one value: checked by splitting at the first key.\<close>

fun functional_keys :: "(int \<times> 'b) list \<Rightarrow> bool" where
  "functional_keys [] \<longleftrightarrow> True"
| "functional_keys (p # ps) \<longleftrightarrow> list_all (\<lambda>q. fst q = fst p \<longrightarrow> snd q = snd p) ps \<and>
     functional_keys (filter (\<lambda>q. fst q < fst p) ps) \<and> functional_keys (filter (\<lambda>q. fst p < fst q) ps)"

lemma functional_keys_eq:
  assumes "functional_keys ps" "(k, v) \<in> set ps" "(k, v') \<in> set ps"
  shows "v = v'"
  using assms
proof (induction ps rule: functional_keys.induct)
  case (2 p ps)
  consider "k < fst p" | "k = fst p" | "fst p < k" by linarith
  then show ?case
  proof cases
    case 2
    have "\<forall>q\<in>set (p # ps). fst q = fst p \<longrightarrow> snd q = snd p" using "2.prems"(1) by (simp add: list_all_iff)
    then have "v = snd p" "v' = snd p" using 2 "2.prems"(2,3) by (metis fst_conv snd_conv)+
    then show ?thesis by simp
  qed (use "2.prems" "2.IH" in auto)
qed simp

text \<open>No two names of the table collide.\<close>

lemma perf_names_checked: "functional_keys (map (\<lambda>e. (name_hash (name e), name e)) perf_events)"
  by code_simp

lemma perf_names_unique:
  assumes "e \<in> set perf_events" "f \<in> set perf_events" "name_hash (name e) = name_hash (name f)"
  shows "name e = name f"
proof (rule functional_keys_eq[OF perf_names_checked])
  show "(name_hash (name e), name e) \<in> set (map (\<lambda>e. (name_hash (name e), name e)) perf_events)"
    using assms(1) by simp
  show "(name_hash (name e), name f) \<in> set (map (\<lambda>e. (name_hash (name e), name e)) perf_events)"
    using assms(2,3) by simp
qed

lemma perf_names_terminated: "e \<in> set perf_events \<Longrightarrow> CHR 0x00 \<notin> set (name e)"
proof -
  have "list_all (\<lambda>e. CHR 0x00 \<notin> set (name e)) perf_events" by (simp add: perf_events_def event_def)
  then show "e \<in> set perf_events \<Longrightarrow> CHR 0x00 \<notin> set (name e)" by (auto simp: list_all_iff)
qed

lemma length_perf_events: "length perf_events = 180" by (simp add: perf_events_def)


section \<open>Initialisation and lookup\<close>

lemma perf_le: "hash_ok a \<Longrightarrow> hash_ok b \<Longrightarrow> perf.le a b \<longleftrightarrow> hash a \<le> hash b"
  by (simp add: perf.le_def perf_cmp_diff word_le_def not_less)

lemma init_events_ok:
  assumes "length tab < 2 ^ 32"
  obtains t where "init_events tab = Some (Inr t)" "mset t = mset (map hashed tab)" "sorted_wrt perf.le t" "\<forall>e\<in>set t. hash_ok e"
proof -
  obtain t where t: "init_events tab = Some (Inr t)" "mset t = mset (map hashed tab)" "sorted_wrt perf.le t"
    using perf.quicksort_ok[of "map hashed tab"] assms by (auto simp: init_events_def)
  have "set t = hashed ` set tab" using mset_eq_setD[OF t(2)] by simp
  then show ?thesis using that t by auto
qed

lemma perf_lookup_ok:
  assumes "sorted_wrt perf.le t" "\<forall>e\<in>set t. hash_ok e" "length t < 2 ^ 31"
  obtains r where "perf_lookup s t (of_nat (length t)) = Some (Inr r)"
    "case r of None \<Rightarrow> \<forall>e\<in>set t. hash e \<noteq> perf_hash s | Some i \<Rightarrow> i < length t \<and> hash (t ! i) = perf_hash s"
proof -
  let ?k = "\<lparr>name = ''None'', event_number = 0, hash = perf_hash s\<rparr>"
  have k: "hash_ok ?k" by (simp add: hash_ok_def hash_ok_perf_hash)
  have zero: "perf_cmp ?k e = 0 \<longleftrightarrow> hash e = perf_hash s" if "hash_ok e" for e
    using perf_cmp_diff[OF k that] by (auto simp: word_uint_eq_iff)
  obtain r where r: "bsearch perf_cmp ?k t (of_nat (length t)) = Some (Inr r)"
    "case r of None \<Rightarrow> \<forall>x\<in>set t. perf_cmp ?k x \<noteq> 0 | Some i \<Rightarrow> i < length t \<and> perf_cmp ?k (t ! i) = 0"
    using perf.bsearch_ok[OF assms(2) k assms(1,3)] by blast
  show ?thesis
  proof (rule that)
    show "perf_lookup s t (of_nat (length t)) = Some (Inr r)" using r(1) by (simp add: perf_lookup_def)
    show "case r of None \<Rightarrow> \<forall>e\<in>set t. hash e \<noteq> perf_hash s | Some i \<Rightarrow> i < length t \<and> hash (t ! i) = perf_hash s"
      using r(2) zero assms(2) by (auto split: option.splits)
  qed
qed

text \<open>
  C22: \<^verbatim>\<open>init_events\<close> returns: the 180 events of \<^verbatim>\<open>events.c\<close> with their hashes, sorted by hash. Afterwards
  \<^verbatim>\<open>perf_lookup\<close> finds every name of the table: it returns the index of the event of that name.\<close>

theorem perf_lookup_finds_every_name:
  "\<exists>t. init_events perf_events = Some (Inr t) \<and> mset t = mset (map hashed perf_events) \<and> sorted (map hash t) \<and>
     (\<forall>e\<in>set perf_events. \<exists>i<180. perf_lookup (name e) t 180 = Some (Inr (Some i)) \<and> name (t ! i) = name e)"
proof -
  obtain t where t: "init_events perf_events = Some (Inr t)" "mset t = mset (map hashed perf_events)"
      "sorted_wrt perf.le t" "\<forall>e\<in>set t. hash_ok e"
    using init_events_ok[of perf_events] by (auto simp: length_perf_events)
  have len: "length t = 180" using mset_eq_length[OF t(2)] by (simp add: length_perf_events)
  have set: "set t = hashed ` set perf_events" using mset_eq_setD[OF t(2)] by simp
  have "\<exists>i<180. perf_lookup (name e) t 180 = Some (Inr (Some i)) \<and> name (t ! i) = name e" if e: "e \<in> set perf_events" for e
  proof -
    obtain r where r: "perf_lookup (name e) t 180 = Some (Inr r)"
      "case r of None \<Rightarrow> \<forall>f\<in>set t. hash f \<noteq> perf_hash (name e) | Some i \<Rightarrow> i < length t \<and> hash (t ! i) = perf_hash (name e)"
      using perf_lookup_ok[OF t(3,4), of "name e"] len by auto
    have "hashed e \<in> set t" "hash (hashed e) = perf_hash (name e)" using set e by (auto simp: hashed_def)
    then obtain i where i: "r = Some i" "i < 180" "hash (t ! i) = perf_hash (name e)" using r(2) len by (cases r) auto
    then obtain f where f: "t ! i = hashed f" "f \<in> set perf_events" using set len by (metis imageE nth_mem)
    then have "name_hash (name f) = name_hash (name e)"
      using i(3) perf_names_terminated e by (simp add: hashed_def flip: perf_hash_name)
    then have "name (t ! i) = name e" using perf_names_unique[OF f(2) e] f(1) by (simp add: hashed_def)
    then show ?thesis using r(1) i by blast
  qed
  moreover have "sorted (map hash t)"
    unfolding sorted_map using t(3) by (rule sorted_wrt_mono_rel[rotated]) (use t(4) in \<open>auto simp: perf.le_def perf_cmp_diff word_le_def\<close>)
  ultimately show ?thesis using t(1,2) by blast
qed

theorem perf_lookup_finds_every_name_witness:
  "\<exists>t. init_events perf_events = Some (Inr t) \<and>
     (\<exists>i<180. perf_lookup ''Cycle'' t 180 = Some (Inr (Some i)) \<and> name (t ! i) = ''Cycle'')"
proof -
  have e: "event ''Cycle'' 0x11 \<in> set perf_events" by (simp add: perf_events_def)
  have "name (event ''Cycle'' 0x11) = ''Cycle''" by (simp add: event_def)
  then show ?thesis using perf_lookup_finds_every_name e by metis
qed

end
