(* ===== verification/MMU.thy ===== *)
theory MMU
  imports Mailbox
begin

unbundle bit_operations_syntax

text \<open>
  The translation tables of \<^verbatim>\<open>kernel/src/memory/mmu.c\<close>. A descriptor is its 64-bit word; the bit fields of
  \<^verbatim>\<open>VMSAv8_64_DESCRIPTOR\<close> that the code sets are \<open>EntryType\<close> (bits 0 and 1), \<open>MemAttr\<close> (2 to 5), \<open>SH\<close>
  (8 and 9), \<open>AF\<close> (10) and \<open>Address\<close> (12 to 47). The tables are arrays; the addresses at which the linker
  places them are part of the state. A write behind the end of a table is the fault \<open>OutOfBounds\<close>.

  What the tables mean is the translation of the architecture, \<open>translate\<close>: 4 KB granule and 39-bit
  addresses, with the limits that \<^verbatim>\<open>mmu.S\<close> puts into \<^verbatim>\<open>TCR_EL1\<close> (\<open>T0SZ = T1SZ = 25\<close>, \<open>IPS = 0\<close>: physical addresses of
  32 bits; an output address beyond that is a fault).
\<close>

section \<open>Definitions\<close>

definition PT_SIZE :: nat where "PT_SIZE = 2 ^ 21"
definition MT_DEVICE_NGNRNE :: u64 where "MT_DEVICE_NGNRNE = 0"
definition MT_NORMAL_NC :: u64 where "MT_NORMAL_NC = 3"
definition MT_NORMAL :: u64 where "MT_NORMAL = 4"
definition STAGE2_SH_INNER_SHAREABLE :: u64 where "STAGE2_SH_INNER_SHAREABLE = 3"

text \<open>A bit field keeps the low bits of the value assigned to it.\<close>

definition field :: "nat \<Rightarrow> nat \<Rightarrow> u64 \<Rightarrow> u64" where
  "field pos width v = push_bit pos (take_bit width v)"

definition descriptor :: "u64 \<Rightarrow> u64 \<Rightarrow> u64 \<Rightarrow> u64 \<Rightarrow> u64 \<Rightarrow> u64" where
  "descriptor Address AF SH MemAttr EntryType =
     field 0 2 EntryType OR field 2 4 MemAttr OR field 8 2 SH OR field 10 1 AF OR field 12 36 Address"

record tables =
  PT_identity1 :: "nat \<Rightarrow> u64"
  PT_virtual1 :: "nat \<Rightarrow> u64"
  PT_virtual2 :: "nat \<Rightarrow> u64"
  PT_identity2 :: "nat \<Rightarrow> u64"
  PT_virtual3 :: "nat \<Rightarrow> u64"
  at_identity1 :: addr
  at_virtual1 :: addr
  at_virtual2 :: addr
  at_identity2 :: addr
  at_virtual3 :: addr

text \<open>A descriptor of \<open>PT_identity2\<close> for the 2 MB block number \<open>b\<close>.\<close>

definition block_descriptor :: "nat \<Rightarrow> u64 \<Rightarrow> u64 \<Rightarrow> u64" where
  "block_descriptor b sh attr = descriptor (push_bit (21 - 12) (of_nat b)) 1 sh attr 1"

text \<open>The loops \<^verbatim>\<open>for (...; base < n; base++) PT_identity2[base] = ...\<close> from the value \<open>base\<close> on.\<close>

definition fill :: "(nat \<Rightarrow> u64) \<Rightarrow> nat \<Rightarrow> nat \<Rightarrow> (nat \<Rightarrow> u64) \<Rightarrow> (nat \<Rightarrow> u64) result" where
  "fill d base n pt =
     (if base < n \<and> 4096 < n then Inl OutOfBounds else Inr (fold (\<lambda>b pt. pt(b := d b)) [base..<n] pt))"

definition put_entry :: "nat \<Rightarrow> u64 \<Rightarrow> (nat \<Rightarrow> u64) \<Rightarrow> (nat \<Rightarrow> u64) result" where
  "put_entry i d pt = (if i < 4096 then Inr (pt(i := d)) else Inl OutOfBounds)"

text \<open>The entries for the blocks up to the frame buffer window, with \<open>v = vc_val - 1\<close> (of type \<^verbatim>\<open>uint32_t\<close>).\<close>

definition fill_identity :: "u32 \<Rightarrow> (nat \<Rightarrow> u64) \<Rightarrow> (nat \<Rightarrow> u64) result" where
  "fill_identity v pt =
     (let base = unat v;
          dev = \<lambda>b. block_descriptor b 0 MT_DEVICE_NGNRNE
      in bindR (fill (\<lambda>b. block_descriptor b STAGE2_SH_INNER_SHAREABLE MT_NORMAL_NC) 0 base pt)
           (\<lambda>pt. bindR (put_entry base (dev base) pt)
           (\<lambda>pt. bindR (fill (\<lambda>b. block_descriptor b 0 MT_NORMAL_NC) base (2048 - 16) pt)
           (\<lambda>pt. bindR (fill dev (max base (2048 - 16)) 2048 pt)
           (fill (\<lambda>b. block_descriptor b 0 MT_NORMAL) (max base 2048) 4096)))))"

text \<open>The window for the frame buffer: \<open>n\<close> blocks at \<open>map_start\<close> that map to the blocks from \<open>fb_start\<close> on.\<close>

definition fill_window :: "u32 \<Rightarrow> u32 \<Rightarrow> u32 \<Rightarrow> (nat \<Rightarrow> u64) \<Rightarrow> (nat \<Rightarrow> u64) result" where
  "fill_window map_start fb_start n pt =
     fold (\<lambda>i r. bindR r (put_entry (unat (map_start + of_nat i)) (block_descriptor (unat (fb_start + of_nat i)) 0 MT_DEVICE_NGNRNE)))
       [0..<unat n] (Inr pt)"

definition table_descriptor :: "addr \<Rightarrow> u64" where
  "table_descriptor a = 0x8000000000000000 OR a OR 3"

definition link_tables :: "tables \<Rightarrow> tables" where
  "link_tables t =
     (let sub = \<lambda>i. table_descriptor (at_identity2 t + 8 * of_nat (512 * i))
      in t\<lparr>PT_identity1 := (PT_identity1 t)(0 := sub 0, 1 := sub 1, 2 := sub 2, 3 := sub 3, 4 := sub 4, 5 := sub 5, 6 := sub 6, 7 := sub 7),
           PT_virtual2 := (PT_virtual2 t)(511 := table_descriptor (at_virtual3 t)),
           PT_virtual1 := (PT_virtual1 t)(511 := table_descriptor (at_virtual2 t))\<rparr>)"

definition identity_map :: "'d mailbox_dev \<Rightarrow> 'd machine \<Rightarrow> tables \<Rightarrow> ('d machine \<times> tables) result option" where
  "identity_map D s t =
     Option.bind (get_vc_address D s)
       (\<lambda>s. let vc_val = vc_base_address s div of_nat PT_SIZE;
                buf = ucast (fb_buf (fb s)) :: u32;
                n_fb_pages = buf_size (fb s) div of_nat PT_SIZE + 1;
                fb_start = buf div of_nat PT_SIZE;
                map_start = (vc_val - 1) - n_fb_pages;
                offset = buf mod of_nat PT_SIZE
            in Some (bindR (fill_identity (vc_val - 1) (PT_identity2 t))
                 (\<lambda>pt. bindR (fill_window map_start fb_start n_fb_pages pt)
                 (\<lambda>pt. Inr (s\<lparr>mbox := ucast (push_bit 21 (vc_val - 1)),
                               fb := (fb s)\<lparr>fb_buf := ucast (push_bit 21 map_start + offset)\<rparr>\<rparr>,
                             link_tables (t\<lparr>PT_identity2 := pt\<rparr>))))))"

text \<open>\<^verbatim>\<open>virtualmap\<close>: the first free entry of \<open>PT_virtual3\<close> is taken; 0 when there is none.\<close>

fun virtualmap_from :: "nat \<Rightarrow> nat \<Rightarrow> u64 \<Rightarrow> u8 \<Rightarrow> tables \<Rightarrow> u64 \<times> tables" where
  "virtualmap_from i 0 phys_addr memattrs t = (0, t)"
| "virtualmap_from i (Suc n) phys_addr memattrs t =
     (if PT_virtual3 t i = 0 then
        (0xFFFFFFFFFFFFFFFF - of_nat ((512 - i) * 4096 - 1),
         t\<lparr>PT_virtual3 := (PT_virtual3 t)(i := descriptor (push_bit (21 - 12) phys_addr) 1 0 (ucast memattrs) 3)\<rparr>)
      else virtualmap_from (i + 1) n phys_addr memattrs t)"

definition virtualmap :: "u64 \<Rightarrow> u8 \<Rightarrow> tables \<Rightarrow> u64 \<times> tables" where
  "virtualmap phys_addr memattrs t = virtualmap_from 0 512 phys_addr memattrs t"

section \<open>The translation of the architecture\<close>

text \<open>What the table walk reads at an address: the entry of the table that lies there.\<close>

definition entry_at :: "addr \<Rightarrow> nat \<Rightarrow> (nat \<Rightarrow> u64) \<Rightarrow> addr \<Rightarrow> u64 option" where
  "entry_at base n pt a =
     (let i = unat (a - base) div 8 in if unat (a - base) mod 8 = 0 \<and> i < n then Some (pt i) else None)"

fun first_some :: "'a option list \<Rightarrow> 'a option" where
  "first_some [] = None"
| "first_some (Some x # xs) = Some x"
| "first_some (None # xs) = first_some xs"

definition table_read :: "tables \<Rightarrow> addr \<Rightarrow> u64 option" where
  "table_read t a = first_some
     [entry_at (at_identity1 t) 512 (PT_identity1 t) a, entry_at (at_virtual1 t) 512 (PT_virtual1 t) a,
      entry_at (at_virtual2 t) 512 (PT_virtual2 t) a, entry_at (at_identity2 t) 4096 (PT_identity2 t) a,
      entry_at (at_virtual3 t) 512 (PT_virtual3 t) a]"

definition next_table :: "u64 \<Rightarrow> addr" where
  "next_table e = e AND 0x0000FFFFFFFFF000"

text \<open>The output address of a block or page that covers the low \<open>k\<close> bits of the address.\<close>

definition output_address :: "nat \<Rightarrow> u64 \<Rightarrow> addr \<Rightarrow> addr option" where
  "output_address k e va =
     (let a = push_bit k (drop_bit k (take_bit 48 e)) OR take_bit k va
      in if \<not> bit e 10 \<or> unat a \<ge> 2 ^ 32 then None else Some a)"

fun walk :: "tables \<Rightarrow> nat \<Rightarrow> addr \<Rightarrow> addr \<Rightarrow> addr option" where
  "walk t 0 base va =
     Option.bind (table_read t (base + 8 * take_bit 9 (drop_bit 12 va)))
       (\<lambda>e. if e AND 3 = 3 then output_address 12 e va else None)"
| "walk t (Suc l) base va =
     Option.bind (table_read t (base + 8 * take_bit 9 (drop_bit (12 + 9 * Suc l) va)))
       (\<lambda>e. if e AND 3 = 3 then walk t l (next_table e) va
            else if e AND 3 = 1 then output_address (12 + 9 * Suc l) e va
            else None)"

definition translate :: "tables \<Rightarrow> addr \<Rightarrow> addr option" where
  "translate t va =
     (if unat va < 2 ^ 39 then walk t 2 (at_identity1 t) va
      else if unat va \<ge> 2 ^ 64 - 2 ^ 39 then walk t 2 (at_virtual1 t) va
      else None)"

end
