(* ===== verification/MMU_Spec.thy ===== *)
theory MMU_Spec
  imports MMU
begin

unbundle bit_operations_syntax

text \<open>
  What the tables of \<open>MMU\<close> translate to. The descriptors are taken apart bit by bit, the reads of the table
  walk are located in the arrays (\<open>tables_placed\<close>: the linker puts the tables page-aligned and disjoint), and
  \<open>identity_map\<close> is shown to establish the identity below 4 GB with the window for the frame buffer. The
  mailbox block does not keep its device attribute (\<open>mailbox_block_not_device\<close>), and \<open>virtualmap\<close> enters a wrong
  page number.
\<close>

section \<open>Descriptors\<close>

lemma bit_field: "bit (field pos w v) n \<longleftrightarrow> pos \<le> n \<and> n < 64 \<and> n - pos < w \<and> bit v (n - pos)"
  by (auto simp: field_def bit_push_bit_iff bit_take_bit_iff dest: bit_imp_le_length)

lemma bit_descriptor:
  "bit (descriptor a af sh attr ty) n \<longleftrightarrow> n < 64 \<and>
     (n < 2 \<and> bit ty n \<or> 2 \<le> n \<and> n < 6 \<and> bit attr (n - 2) \<or> 8 \<le> n \<and> n < 10 \<and> bit sh (n - 8) \<or>
      n = 10 \<and> bit af 0 \<or> 12 \<le> n \<and> n < 48 \<and> bit a (n - 12))"
  unfolding descriptor_def bit_or_iff bit_field by auto

lemma bit_three: "bit (3 :: u64) n \<longleftrightarrow> n < 2"
proof -
  have "(3 :: u64) = mask 2" by (simp add: mask_eq_exp_minus_1)
  then show ?thesis by (simp only: bit_mask_iff) auto
qed

lemma descriptor_type: "descriptor a af sh attr ty AND 3 = ty AND 3"
proof (rule bit_word_eqI)
  fix n assume "n < LENGTH(64)"
  then show "bit (descriptor a af sh attr ty AND 3) n = bit (ty AND 3) n"
    unfolding bit_and_iff bit_descriptor bit_three by auto
qed

lemma descriptor_AF: "bit (descriptor a af sh attr ty) 10 \<longleftrightarrow> bit af 0"
  by (simp add: bit_descriptor)

lemma block_output:
  assumes "b < 2 ^ 12"
  shows "push_bit 21 (drop_bit 21 (take_bit 48 (block_descriptor b sh attr))) = push_bit 21 (of_nat b)"
proof (rule bit_word_eqI)
  fix n assume n: "n < LENGTH(64)"
  have "\<not> bit (of_nat b :: u64) k" if "k \<ge> 12" for k
  proof -
    have "b < 2 ^ k" using assms that by (meson one_le_numeral order_less_le_trans power_increasing)
    then have "\<not> bit b k" by (simp add: bit_iff_odd)
    then show ?thesis by (simp add: bit_of_nat_iff)
  qed
  then have small: "k < 12" if "bit (of_nat b :: u64) k" for k using that by (meson not_le)
  show "bit (push_bit 21 (drop_bit 21 (take_bit 48 (block_descriptor b sh attr)))) n = bit (push_bit 21 (of_nat b :: u64)) n"
    using n by (auto simp: block_descriptor_def bit_push_bit_iff bit_drop_bit_eq bit_take_bit_iff bit_descriptor dest: small)
qed

lemma table_descriptor_type: "table_descriptor a AND 3 = 3"
  by (rule bit_word_eqI) (simp only: table_descriptor_def bit_and_iff bit_or_iff bit_three, blast)

lemma next_table_descriptor:
  assumes "take_bit 12 a = 0" "unat a < 2 ^ 48"
  shows "next_table (table_descriptor a) = a"
proof (rule bit_word_eqI)
  fix n assume n: "n < LENGTH(64)"
  have lo: "\<not> bit a n" if "n < 12" using assms(1) that by (metis bit_0_eq bit_take_bit_iff bot_apply bot_bool_def)
  have hi: "\<not> bit a n" if "n \<ge> 48"
  proof -
    have "take_bit 48 (unat a) = unat a" using assms(2) by (rule take_bit_nat_eq_self)
    then have "take_bit 48 a = a" by (metis unsigned_take_bit_eq word_unat_eq_iff)
    then show ?thesis using that by (metis bit_take_bit_iff not_le)
  qed
  have m: "bit (0x0000FFFFFFFFF000 :: u64) n \<longleftrightarrow> 12 \<le> n \<and> n < 48"
  proof -
    have "(0x0000FFFFFFFFF000 :: u64) = push_bit 12 (mask 36)" by (simp add: mask_eq_exp_minus_1)
    then show ?thesis using n by (simp only: bit_push_bit_iff bit_mask_iff) auto
  qed
  have t: "bit (0x8000000000000000 :: u64) n \<longleftrightarrow> n = 63"
  proof -
    have "(0x8000000000000000 :: u64) = push_bit 63 1" by simp
    then show ?thesis using n by (simp only: bit_push_bit_iff bit_1_iff) auto
  qed
  have "n < 12 \<or> 12 \<le> n \<and> n < 48 \<or> 48 \<le> n" by linarith
  then show "bit (next_table (table_descriptor a)) n = bit a n"
  proof (elim disjE)
    assume "12 \<le> n \<and> n < 48"
    then show ?thesis unfolding next_table_def table_descriptor_def bit_and_iff bit_or_iff m t bit_three by auto
  next
    assume "n < 12"
    then show ?thesis using lo unfolding next_table_def bit_and_iff m by simp
  next
    assume "48 \<le> n"
    then show ?thesis using hi unfolding next_table_def bit_and_iff m by simp
  qed
qed

section \<open>Reading the tables\<close>

definition in_table :: "addr \<Rightarrow> nat \<Rightarrow> addr \<Rightarrow> bool" where
  "in_table base n a \<longleftrightarrow> unat base \<le> unat a \<and> unat a < unat base + 8 * n"

lemma entry_at_in:
  assumes "i < n" "unat base + 8 * n \<le> 2 ^ 64"
  shows "entry_at base n pt (base + 8 * of_nat i) = Some (pt i)"
proof -
  have "unat (8 * of_nat i :: addr) = 8 * i" using assms by (simp add: unat_word_ariths(2) unat_of_nat)
  then show ?thesis using assms(1) by (simp add: entry_at_def)
qed

lemma entry_at_out:
  assumes "\<not> in_table base n a" "unat base + 8 * n \<le> 2 ^ 64"
  shows "entry_at base n pt a = None"
proof -
  have "8 * n \<le> unat (a - base)"
  proof (cases "base \<le> a")
    case True
    then have "unat (a - base) = unat a - unat base" by (simp add: unat_sub word_le_nat_alt)
    then show ?thesis using assms True by (auto simp: in_table_def word_le_nat_alt)
  next
    case False
    then have "unat a < unat base" by (simp add: word_le_nat_alt)
    then have "unat (a - base) = 2 ^ 64 + unat a - unat base"
      by (simp add: unat_sub_if' word_le_nat_alt)
    then show ?thesis using assms(2) by simp
  qed
  then have "\<not> unat (a - base) div 8 < n" by linarith
  then show ?thesis by (simp only: entry_at_def Let_def) simp
qed

definition placed :: "(addr \<times> nat) list \<Rightarrow> bool" where
  "placed ts \<longleftrightarrow> sorted_wrt (\<lambda>(a, n) (b, k). unat a + 8 * n \<le> unat b \<or> unat b + 8 * k \<le> unat a) ts \<and>
     (\<forall>(a, n)\<in>set ts. take_bit 12 a = 0 \<and> unat a + 8 * n \<le> 2 ^ 48)"

definition tables_placed :: "tables \<Rightarrow> bool" where
  "tables_placed t \<longleftrightarrow> placed [(at_identity1 t, 512), (at_virtual1 t, 512), (at_virtual2 t, 512), (at_identity2 t, 4096), (at_virtual3 t, 512)]"

lemma unat_entry:
  assumes "unat (base :: addr) + 8 * n \<le> 2 ^ 48" "i < n"
  shows "unat (base + 8 * of_nat i :: addr) = unat base + 8 * i"
proof -
  have "unat (8 * of_nat i :: addr) = 8 * i" using assms by (simp add: unat_word_ariths(2) unat_of_nat)
  then show ?thesis using assms by (simp add: unat_word_ariths(1))
qed

lemma not_in_table:
  assumes "unat a + 8 * n \<le> unat b \<or> unat b + 8 * k \<le> unat a" "unat b + 8 * k \<le> 2 ^ 48" "i < k"
  shows "\<not> in_table a n (b + 8 * of_nat i)"
  using assms(1,3) unfolding in_table_def unat_entry[OF assms(2,3)] by linarith

lemma table_read_entries:
  assumes "tables_placed t"
  shows "i < 512 \<Longrightarrow> table_read t (at_identity1 t + 8 * of_nat i) = Some (PT_identity1 t i)"
    and "i < 512 \<Longrightarrow> table_read t (at_virtual1 t + 8 * of_nat i) = Some (PT_virtual1 t i)"
    and "i < 512 \<Longrightarrow> table_read t (at_virtual2 t + 8 * of_nat i) = Some (PT_virtual2 t i)"
    and "i < 4096 \<Longrightarrow> table_read t (at_identity2 t + 8 * of_nat i) = Some (PT_identity2 t i)"
    and "i < 512 \<Longrightarrow> table_read t (at_virtual3 t + 8 * of_nat i) = Some (PT_virtual3 t i)"
proof -
  note P = assms[unfolded tables_placed_def placed_def sorted_wrt.simps list.set ball_simps prod.case]
  have lt: "unat a + 8 * n \<le> 2 ^ 48 \<Longrightarrow> unat a + 8 * n \<le> 2 ^ 64" for a :: addr and n by simp
  note ins = entry_at_in[OF _ lt]
  have out: "unat a + 8 * n \<le> unat b \<or> unat b + 8 * k \<le> unat a \<Longrightarrow> unat b + 8 * k \<le> 2 ^ 48 \<Longrightarrow> i < k \<Longrightarrow> unat a + 8 * n \<le> 2 ^ 48 \<Longrightarrow>
      entry_at a n pt (b + 8 * of_nat i) = None" for a b n k pt by (rule entry_at_out[OF not_in_table lt])
  show "i < 512 \<Longrightarrow> table_read t (at_identity1 t + 8 * of_nat i) = Some (PT_identity1 t i)"
    unfolding table_read_def using P by (simp only: ins first_some.simps)
  show "i < 512 \<Longrightarrow> table_read t (at_virtual1 t + 8 * of_nat i) = Some (PT_virtual1 t i)"
    unfolding table_read_def using P by (simp only: ins out[where k = 512] first_some.simps)
  show "i < 512 \<Longrightarrow> table_read t (at_virtual2 t + 8 * of_nat i) = Some (PT_virtual2 t i)"
    unfolding table_read_def using P by (simp only: ins out[where k = 512] first_some.simps)
  show "i < 4096 \<Longrightarrow> table_read t (at_identity2 t + 8 * of_nat i) = Some (PT_identity2 t i)"
    unfolding table_read_def using P by (simp only: ins out[where k = 4096] first_some.simps)
  show "i < 512 \<Longrightarrow> table_read t (at_virtual3 t + 8 * of_nat i) = Some (PT_virtual3 t i)"
    unfolding table_read_def using P by (simp only: ins out[where k = 512] first_some.simps)
qed

section \<open>The entries of the identity map\<close>

lemma fold_put: "fold (\<lambda>b pt. pt(b := d b)) [a..<n] pt i = (if a \<le> i \<and> i < n then d i else pt i)"
  by (induction n arbitrary: pt) (auto simp: less_Suc_eq)

lemma fill_ok: "n \<le> 4096 \<Longrightarrow> fill d a n pt = Inr (\<lambda>i. if a \<le> i \<and> i < n then d i else pt i)"
  by (auto simp: fill_def fold_put fun_eq_iff)

text \<open>An entry that maps the block \<open>b\<close>.\<close>

definition maps_block :: "nat \<Rightarrow> u64 \<Rightarrow> bool" where
  "maps_block b e \<longleftrightarrow> (\<exists>sh attr. e = block_descriptor b sh attr)"

lemma maps_block_descriptor [simp]: "maps_block b (block_descriptor b sh attr)"
  by (auto simp: maps_block_def)

lemma fill_identity_ok:
  assumes "unat v < 2048 - 16"
  shows "\<exists>pt'. fill_identity v pt = Inr pt' \<and> (\<forall>i<4096. maps_block i (pt' i)) \<and>
    pt' (unat v) = block_descriptor (unat v) 0 MT_NORMAL_NC"
  using assms unfolding fill_identity_def Let_def
  by (simp add: fill_ok put_entry_def bindR_def max_absorb2)

lemma fill_window_ok:
  assumes "unat m + unat n \<le> 4096" "unat f + unat n \<le> 4096"
  shows "\<exists>pt'. fill_window m f n pt = Inr pt' \<and>
    (\<forall>i. pt' i = (if unat m \<le> i \<and> i < unat m + unat n
                    then block_descriptor (unat f + (i - unat m)) 0 MT_DEVICE_NGNRNE else pt i))"
proof -
  define G where "G = (\<lambda>i r. bindR r (put_entry (unat (m + of_nat i)) (block_descriptor (unat (f + of_nat i)) 0 MT_DEVICE_NGNRNE)))"
  have "\<exists>pt'. fold G [0..<k] (Inr pt) = Inr pt' \<and>
    (\<forall>i. pt' i = (if unat m \<le> i \<and> i < unat m + k then block_descriptor (unat f + (i - unat m)) 0 MT_DEVICE_NGNRNE else pt i))"
    if "k \<le> unat n" for k
    using that
  proof (induction k)
    case (Suc k)
    have u: "unat (m + of_nat k) = unat m + k" "unat (f + of_nat k) = unat f + k"
      using assms Suc.prems by (simp_all add: unat_word_ariths(1) unat_of_nat)
    have G: "G k (Inr p) = Inr (p(unat m + k := block_descriptor (unat f + k) 0 MT_DEVICE_NGNRNE))" for p
      using assms(1) Suc.prems by (simp add: G_def bindR_def put_entry_def u)
    obtain pt' where "fold G [0..<k] (Inr pt) = Inr pt'"
      "\<forall>i. pt' i = (if unat m \<le> i \<and> i < unat m + k then block_descriptor (unat f + (i - unat m)) 0 MT_DEVICE_NGNRNE else pt i)"
      using Suc by auto
    then show ?case using G by auto
  qed auto
  then show ?thesis unfolding fill_window_def G_def by blast
qed

section \<open>Walks through the tables\<close>

lemma word_of_unat_eq: "unat (w :: u64) = n \<Longrightarrow> w = of_nat n" by auto

lemma unat_index: "unat (take_bit n (drop_bit k va) :: u64) = (unat va div 2 ^ k) mod 2 ^ n"
proof -
  have "take_bit LENGTH(64) (unat va) = unat va" by (rule take_bit_nat_eq_self) (rule unsigned_less)
  then show ?thesis by (simp only: unsigned_take_bit_eq unsigned_drop_bit_eq) (simp add: take_bit_eq_mod drop_bit_eq_div)
qed

lemma entry_address: "(8 :: u64) * w = 8 * of_nat (unat w)" by simp

lemma block_address:
  assumes "b < 2 ^ 12"
  shows "unat (push_bit 21 (of_nat b) OR take_bit 21 (va :: u64)) = b * 2 ^ 21 + unat va mod 2 ^ 21"
proof -
  have "push_bit 21 (of_nat b) OR take_bit 21 va = push_bit 21 (of_nat b) + take_bit 21 (va :: u64)"
    by (rule disjunctive_add [symmetric]) (auto simp: bit_push_bit_iff bit_take_bit_iff)
  moreover have "unat (push_bit 21 (of_nat b) :: u64) = b * 2 ^ 21"
    using assms by (simp add: push_bit_eq_mult unat_word_ariths(2) unat_of_nat)
  moreover have "unat (take_bit 21 va) = unat va mod 2 ^ 21" by (simp only: unsigned_take_bit_eq) (simp add: take_bit_eq_mod)
  moreover have "b * 2 ^ 21 + unat va mod 2 ^ 21 < 2 ^ 64"
  proof -
    have "b * 2 ^ 21 < 2 ^ 12 * 2 ^ 21" using assms by simp
    then show ?thesis using mod_less_divisor[of "2 ^ 21" "unat va"] by simp
  qed
  ultimately show ?thesis by (simp add: unat_word_ariths(1))
qed

lemma block_translation:
  assumes "maps_block b e" "b < 2 ^ 11"
  shows "output_address 21 e va = Some (of_nat (b * 2 ^ 21 + unat va mod 2 ^ 21))"
proof -
  obtain sh attr where e: "e = block_descriptor b sh attr" using assms(1) by (auto simp: maps_block_def)
  have a: "push_bit 21 (drop_bit 21 (take_bit 48 e)) = push_bit 21 (of_nat b)" using block_output[of b] assms(2) e by simp
  have u: "unat (push_bit 21 (of_nat b) OR take_bit 21 va) = b * 2 ^ 21 + unat va mod 2 ^ 21" using block_address[of b] assms(2) by simp
  have "b * 2 ^ 21 \<le> (2 ^ 11 - 1) * 2 ^ 21" using assms(2) by (intro mult_right_mono) auto
  then have lt: "b * 2 ^ 21 + unat va mod 2 ^ 21 < 2 ^ 32" using mod_less_divisor[of "2 ^ 21" "unat va"] by simp
  have "bit e 10" using e by (simp add: block_descriptor_def descriptor_AF)
  then have "output_address 21 e va = Some (push_bit 21 (of_nat b) OR take_bit 21 va)"
    unfolding output_address_def a Let_def u using lt by simp
  then show ?thesis unfolding u[symmetric] by simp
qed

definition linked :: "tables \<Rightarrow> bool" where
  "linked t \<longleftrightarrow> tables_placed t \<and> (\<forall>i<8. PT_identity1 t i = table_descriptor (at_identity2 t + 8 * of_nat (512 * i)))"

lemma aligned_sub_table:
  assumes "tables_placed t" "i < 8"
  shows "next_table (table_descriptor (at_identity2 t + 8 * of_nat (512 * i))) = at_identity2 t + 8 * of_nat (512 * i)"
proof (rule next_table_descriptor)
  have P: "take_bit 12 (at_identity2 t) = 0" "unat (at_identity2 t) + 8 * 4096 \<le> 2 ^ 48"
    using assms(1) by (simp_all add: tables_placed_def placed_def)
  have u: "unat (at_identity2 t + 8 * of_nat (512 * i)) = unat (at_identity2 t) + 8 * (512 * i)"
    using unat_entry[OF P(2), of "512 * i"] assms(2) by simp
  show "unat (at_identity2 t + 8 * of_nat (512 * i)) < 2 ^ 48" unfolding u using P(2) assms(2) by simp
  have "unat (at_identity2 t) mod 4096 = 0"
    using arg_cong[OF P(1), of unat] by (simp only: unsigned_take_bit_eq) (simp add: take_bit_eq_mod)
  then have "unat (take_bit 12 (at_identity2 t + 8 * of_nat (512 * i))) = 0"
    by (simp only: unsigned_take_bit_eq u) (simp add: take_bit_eq_mod mod_add_left_eq)
  then show "take_bit 12 (at_identity2 t + 8 * of_nat (512 * i)) = 0" by (simp only: unat_eq_0)
qed

lemma translate_low:
  assumes "linked t" "unat va < 2 ^ 33" "maps_block b (PT_identity2 t (unat va div 2 ^ 21))" "b < 2 ^ 11"
  shows "translate t va = Some (of_nat (b * 2 ^ 21 + unat va mod 2 ^ 21))"
proof -
  define i j where "i = unat va div 2 ^ 30" and "j = (unat va div 2 ^ 21) mod 2 ^ 9"
  have P: "tables_placed t" and L: "\<forall>i<8. PT_identity1 t i = table_descriptor (at_identity2 t + 8 * of_nat (512 * i))"
    using assms(1) by (simp_all add: linked_def)
  have i: "i < 8" using assms(2) by (simp add: i_def)
  have ij: "512 * i + j = unat va div 2 ^ 21"
  proof -
    have "i = unat va div 2 ^ 21 div 2 ^ 9" by (simp add: i_def flip: div_mult2_eq)
    then show ?thesis unfolding j_def by simp
  qed
  have x: "take_bit 9 (drop_bit 30 va) = of_nat i" "take_bit 9 (drop_bit 21 va) = of_nat j"
  proof -
    have "unat (take_bit 9 (drop_bit 30 va)) = i" unfolding unat_index using i by (simp add: i_def)
    then show "take_bit 9 (drop_bit 30 va) = of_nat i" by (simp add: word_of_unat_eq)
    have "unat (take_bit 9 (drop_bit 21 va)) = j" unfolding unat_index by (simp add: j_def)
    then show "take_bit 9 (drop_bit 21 va) = of_nat j" by (simp add: word_of_unat_eq)
  qed
  have j: "j < 512" by (simp add: j_def)
  define B where "B = at_identity2 t + 8 * of_nat (512 * i)"
  have nt: "next_table (table_descriptor B) = B" unfolding B_def by (rule aligned_sub_table[OF P i])
  have e1: "table_read t (at_identity1 t + 8 * of_nat i) = Some (table_descriptor B)"
    using table_read_entries(1)[OF P, of i] L i by (simp add: B_def)
  have shift: "B + 8 * of_nat j = at_identity2 t + 8 * of_nat (512 * i + j)" by (simp add: B_def algebra_simps)
  have e2: "table_read t (B + 8 * of_nat j) = Some (PT_identity2 t (512 * i + j))"
    unfolding shift by (rule table_read_entries(4)[OF P]) (use i j in simp)
  have ty: "PT_identity2 t (512 * i + j) AND 3 = 1"
    using assms(3) unfolding ij maps_block_def block_descriptor_def by (auto simp: descriptor_type)
  have "walk t 2 (at_identity1 t) va = output_address 21 (PT_identity2 t (512 * i + j)) va"
    by (simp add: numeral_2_eq_2 x e1 e2 ty nt table_descriptor_type)
  also have "... = Some (of_nat (b * 2 ^ 21 + unat va mod 2 ^ 21))"
    unfolding ij by (rule block_translation[OF assms(3,4)])
  finally show ?thesis using assms(2) by (simp add: translate_def)
qed

section \<open>The properties\<close>

lemma unat_widen: "unat (ucast (w :: u32) :: addr) = unat w"
proof -
  have "unat w < 2 ^ 64" using unat_u32_lt[of w] by simp
  then show ?thesis by (simp add: unsigned_ucast_eq take_bit_nat_eq_self)
qed

lemma unat_shift21: "unat (w :: u32) < 2 ^ 11 \<Longrightarrow> unat (push_bit 21 w) = unat w * 2 ^ 21"
  by (simp add: push_bit_eq_mult unat_word_ariths(2))

lemma unat_u32_div: "unat (w div of_nat PT_SIZE :: u32) = unat w div 2 ^ 21"
  by (simp add: PT_SIZE_def unat_div)

lemma link_tables_linked: "tables_placed t \<Longrightarrow> linked (link_tables t)"
  unfolding linked_def link_tables_def Let_def
  by (simp add: tables_placed_def numeral_eq_Suc less_Suc_eq all_conj_distrib imp_disjL)

text \<open>What \<open>identity_map\<close> leaves, with \<open>v\<close> the block of the mailbox and \<open>n\<close> the blocks of the frame buffer.\<close>

lemma identity_map_tables:
  assumes "get_vc_address D s = Some s1"
    and v: "unat (vc_base_address s1) div 2 ^ 21 = v + 1" "v < 2048 - 16"
    and n: "n = unat (buf_size (fb s1)) div 2 ^ 21 + 1" "n \<le> v"
    and f: "f = unat (fb_buf (fb s1)) div 2 ^ 21" "f + n \<le> 2048"
  shows "\<exists>pt. identity_map D s t = Some (Inr
      (s1\<lparr>mbox := of_nat (v * 2 ^ 21), fb := (fb s1)\<lparr>fb_buf := of_nat ((v - n) * 2 ^ 21 + unat (fb_buf (fb s1)) mod 2 ^ 21)\<rparr>\<rparr>,
       link_tables (t\<lparr>PT_identity2 := pt\<rparr>))) \<and>
    (\<forall>i<4096. maps_block (if v - n \<le> i \<and> i < v then f + (i - (v - n)) else i) (pt i)) \<and>
    pt v = block_descriptor v 0 MT_NORMAL_NC"
proof -
  let ?vc = "vc_base_address s1 div of_nat PT_SIZE :: u32" and ?b = "ucast (fb_buf (fb s1)) :: u32"
  let ?n = "buf_size (fb s1) div of_nat PT_SIZE + 1 :: u32"
  have lt: "unat (fb_buf (fb s1)) < 2 ^ 32"
  proof -
    have "unat (fb_buf (fb s1)) div 2 ^ 21 < 2048" using f n(1) by linarith
    then show ?thesis by (simp add: div_less_iff_less_mult)
  qed
  have b: "unat ?b = unat (fb_buf (fb s1))" using take_bit_nat_eq_self[OF lt] by (simp add: unsigned_ucast_eq)
  have uv: "unat (?vc - 1) = v" using v(1) by (subst unat_sub) (auto simp: word_le_nat_alt unat_u32_div)
  have un: "unat ?n = n" using n v(2) by (simp add: unat_word_ariths(1) unat_u32_div)
  have um: "unat (?vc - 1 - ?n) = v - n" using n(2) uv un by (subst unat_sub) (auto simp: word_le_nat_alt)
  have uf: "unat (?b div of_nat PT_SIZE) = f" by (simp add: unat_u32_div b f)
  obtain p1 where p1: "fill_identity (?vc - 1) (PT_identity2 t) = Inr p1" "\<forall>i<4096. maps_block i (p1 i)" "p1 v = block_descriptor v 0 MT_NORMAL_NC"
    using fill_identity_ok[of "?vc - 1"] v(2) unfolding uv by blast
  obtain p2 where p2: "fill_window (?vc - 1 - ?n) (?b div of_nat PT_SIZE) ?n p1 = Inr p2"
    "\<forall>i. p2 i = (if v - n \<le> i \<and> i < v - n + n then block_descriptor (f + (i - (v - n))) 0 MT_DEVICE_NGNRNE else p1 i)"
    using fill_window_ok[of "?vc - 1 - ?n" ?n "?b div of_nat PT_SIZE" p1] n(2) v(2) f(2) unfolding um un uf by auto
  have mb: "ucast (push_bit 21 (?vc - 1)) = (of_nat (v * 2 ^ 21) :: addr)"
    by (rule word_of_unat_eq) (use unat_shift21[of "?vc - 1"] uv v(2) in \<open>simp add: unat_widen\<close>)
  have fbb: "ucast (push_bit 21 (?vc - 1 - ?n) + ?b mod of_nat PT_SIZE) = (of_nat ((v - n) * 2 ^ 21 + unat (fb_buf (fb s1)) mod 2 ^ 21) :: addr)"
  proof (rule word_of_unat_eq)
    have "unat (push_bit 21 (?vc - 1 - ?n)) = (v - n) * 2 ^ 21"
      using unat_shift21[of "?vc - 1 - ?n"] um v(2) by simp
    moreover have "unat (?b mod of_nat PT_SIZE) = unat (fb_buf (fb s1)) mod 2 ^ 21" using b by (simp add: unat_mod PT_SIZE_def)
    moreover have "(v - n) * 2 ^ 21 \<le> 2031 * 2 ^ 21" using v(2) by (intro mult_right_mono) auto
    ultimately show "unat (ucast (push_bit 21 (?vc - 1 - ?n) + ?b mod of_nat PT_SIZE) :: addr) = (v - n) * 2 ^ 21 + unat (fb_buf (fb s1)) mod 2 ^ 21"
      using mod_less_divisor[of "2 ^ 21" "unat (fb_buf (fb s1))"] by (simp add: unat_widen unat_word_ariths(1))
  qed
  have "identity_map D s t = Some (Inr
      (s1\<lparr>mbox := of_nat (v * 2 ^ 21), fb := (fb s1)\<lparr>fb_buf := of_nat ((v - n) * 2 ^ 21 + unat (fb_buf (fb s1)) mod 2 ^ 21)\<rparr>\<rparr>,
       link_tables (t\<lparr>PT_identity2 := p2\<rparr>)))"
    unfolding identity_map_def assms(1) Let_def by (simp only: bind.simps p1(1) p2(1) bindR_def sum.case mb fbb)
  moreover have "\<forall>i<4096. maps_block (if v - n \<le> i \<and> i < v then f + (i - (v - n)) else i) (p2 i)"
    using p2(2) p1(2) n(2) by simp
  moreover have "p2 v = block_descriptor v 0 MT_NORMAL_NC" using p2(2) p1(3) n(2) by simp
  ultimately show ?thesis by blast
qed

lemma mailbox_block_not_device:
  assumes "get_vc_address D s = Some s1"
    and "unat (vc_base_address s1) div 2 ^ 21 = v + 1" "v < 2048 - 16"
    and "n = unat (buf_size (fb s1)) div 2 ^ 21 + 1" "n \<le> v"
    and "unat (fb_buf (fb s1)) div 2 ^ 21 + n \<le> 2048"
  shows "\<exists>s2 t2. identity_map D s t = Some (Inr (s2, t2)) \<and> mbox s2 = of_nat (v * 2 ^ 21) \<and>
    PT_identity2 t2 v = block_descriptor v 0 MT_NORMAL_NC"
  using identity_map_tables[OF assms(1-5) refl assms(6), of t] by (auto simp: link_tables_def Let_def)

text \<open>
  C24: After \<open>identity_map\<close>, with \<open>v\<close> the 2 MB block of the mailbox buffer and \<open>n\<close> the blocks of the frame buffer,
  every address below 4 GB outside the window of \<open>n\<close> blocks below \<open>v\<close> translates to itself, and the frame
  buffer pointer that it leaves reaches the bytes of the physical frame buffer in its block and the \<open>n - 1\<close> blocks
  behind it.\<close>

theorem identity_map_translates:
  assumes "tables_placed t" "get_vc_address D s = Some s1"
    and "unat (vc_base_address s1) div 2 ^ 21 = v + 1" "v < 2048 - 16"
    and "n = unat (buf_size (fb s1)) div 2 ^ 21 + 1" "n \<le> v"
    and "unat (fb_buf (fb s1)) div 2 ^ 21 + n \<le> 2048"
  shows "\<exists>s2 t2. identity_map D s t = Some (Inr (s2, t2)) \<and>
    (\<forall>va. unat va < 2 ^ 32 \<and> \<not> ((v - n) * 2 ^ 21 \<le> unat va \<and> unat va < v * 2 ^ 21) \<longrightarrow> translate t2 va = Some va) \<and>
    (\<forall>k. unat (fb_buf (fb s1)) mod 2 ^ 21 + k < n * 2 ^ 21 \<longrightarrow>
       translate t2 (fb_buf (fb s2) + of_nat k) = Some (fb_buf (fb s1) + of_nat k))"
proof -
  define f where "f = unat (fb_buf (fb s1)) div 2 ^ 21"
  let ?o = "unat (fb_buf (fb s1)) mod 2 ^ 21"
  obtain pt where pt: "identity_map D s t = Some (Inr
      (s1\<lparr>mbox := of_nat (v * 2 ^ 21), fb := (fb s1)\<lparr>fb_buf := of_nat ((v - n) * 2 ^ 21 + ?o)\<rparr>\<rparr>,
       link_tables (t\<lparr>PT_identity2 := pt\<rparr>)))"
    "\<forall>i<4096. maps_block (if v - n \<le> i \<and> i < v then f + (i - (v - n)) else i) (pt i)"
    using identity_map_tables[OF assms(2-6) f_def] assms(7) f_def by blast
  define t2 where "t2 = link_tables (t\<lparr>PT_identity2 := pt\<rparr>)"
  have l: "linked t2" unfolding t2_def by (rule link_tables_linked) (use assms(1) in \<open>simp add: tables_placed_def\<close>)
  have pt2: "PT_identity2 t2 = pt" by (simp add: t2_def link_tables_def Let_def)
  have id: "translate t2 va = Some va" if va: "unat va < 2 ^ 32" "\<not> ((v - n) * 2 ^ 21 \<le> unat va \<and> unat va < v * 2 ^ 21)" for va
  proof -
    have b: "unat va div 2 ^ 21 < 2 ^ 11" using va(1) by simp
    have "\<not> (v - n \<le> unat va div 2 ^ 21 \<and> unat va div 2 ^ 21 < v)"
      using va(2) by (auto simp: less_eq_div_iff_mult_less_eq div_less_iff_less_mult)
    then have "maps_block (unat va div 2 ^ 21) (PT_identity2 t2 (unat va div 2 ^ 21))" using pt(2)[rule_format, of "unat va div 2 ^ 21"] b pt2 by auto
    from translate_low[OF l _ this b] va(1) show ?thesis by simp
  qed
  have win: "translate t2 (of_nat ((v - n) * 2 ^ 21 + ?o) + of_nat k) = Some (fb_buf (fb s1) + of_nat k)" if k: "?o + k < n * 2 ^ 21" for k
  proof -
    define c where "c = (?o + k) div 2 ^ 21"
    have c: "c < n" using k by (simp add: c_def div_less_iff_less_mult)
    define w where "w = (v - n) * 2 ^ 21 + (?o + k)"
    have wd: "w div 2 ^ 21 = v - n + c" "w mod 2 ^ 21 = (?o + k) mod 2 ^ 21" by (simp_all add: w_def c_def)
    have b: "v - n + c < 4096" "f + c < 2 ^ 11" using c assms(4,6,7) by (simp_all add: f_def)
    then have "w div 2 ^ 21 < 2 ^ 12" using wd(1) by simp
    then have wlt: "w < 2 ^ 33" by (simp add: div_less_iff_less_mult)
    then have u: "unat (of_nat w :: addr) = w" by (simp add: unat_of_nat)
    have "v - n + c < v" "v - n + c - (v - n) = c" using c assms(6) by linarith+
    then have "maps_block (f + c) (PT_identity2 t2 (unat (of_nat w :: addr) div 2 ^ 21))"
      unfolding u wd(1) pt2 using pt(2)[rule_format, OF b(1)] by (simp only: le_add1 simp_thms if_True)
    from translate_low[OF l _ this b(2)] wlt
    have "translate t2 (of_nat w) = Some (of_nat ((f + c) * 2 ^ 21 + w mod 2 ^ 21))" unfolding u by simp
    also have "(f + c) * 2 ^ 21 + w mod 2 ^ 21 = unat (fb_buf (fb s1)) + k"
    proof -
      have "c * 2 ^ 21 + (?o + k) mod 2 ^ 21 = ?o + k" unfolding c_def by (rule div_mult_mod_eq)
      moreover have "f * 2 ^ 21 + ?o = unat (fb_buf (fb s1))" unfolding f_def by (rule div_mult_mod_eq)
      ultimately show ?thesis unfolding wd(2) by (simp add: algebra_simps)
    qed
    finally show ?thesis by (simp add: w_def algebra_simps)
  qed
  show ?thesis using pt(1) id win unfolding t2_def[symmetric] by auto
qed

section \<open>Device mappings\<close>

lemma virtualmap_first:
  assumes "i < 512" "PT_virtual3 t i = 0" "\<forall>j<i. PT_virtual3 t j \<noteq> 0"
  shows "virtualmap p m t = (- of_nat ((512 - i) * 4096),
     t\<lparr>PT_virtual3 := (PT_virtual3 t)(i := descriptor (push_bit 9 p) 1 0 (ucast m) 3)\<rparr>)"
proof -
  have "virtualmap_from (i - k) (512 - (i - k)) p m t = (- of_nat ((512 - i) * 4096),
     t\<lparr>PT_virtual3 := (PT_virtual3 t)(i := descriptor (push_bit 9 p) 1 0 (ucast m) 3)\<rparr>)" if "k \<le> i" for k
    using that
  proof (induction k)
    case 0
    have a: "0xFFFFFFFFFFFFFFFF - (of_nat ((512 - i) * 4096 - 1) :: u64) = - of_nat ((512 - i) * 4096)"
      using assms(1) by (subst of_nat_diff) auto
    have "512 - i = Suc (511 - i)" using assms(1) by simp
    then show ?case using assms(2) a by (simp add: fun_upd_def del: of_nat_mult of_nat_diff)
  next
    case (Suc k)
    then have "512 - (i - Suc k) = Suc (512 - (i - k))" "i - Suc k + 1 = i - k" "i - Suc k < i" using assms(1) by linarith+
    then show ?case using Suc assms(3) by simp
  qed
  from this[of i] show ?thesis by (simp add: virtualmap_def)
qed

lemma unat_virtual:
  assumes "i < 512"
  shows "unat (- of_nat ((512 - i) * 4096) :: u64) = (2 ^ 43 - 1) * 2 ^ 21 + i * 4096"
proof -
  have "(- of_nat ((512 - i) * 4096) :: u64) = of_nat ((2 ^ 43 - 1) * 2 ^ 21 + i * 4096)"
  proof -
    have "of_nat ((2 ^ 43 - 1) * 2 ^ 21 + i * 4096) + of_nat ((512 - i) * 4096) = (of_nat ((2 ^ 43 - 1) * 2 ^ 21 + i * 4096 + (512 - i) * 4096) :: u64)"
      by (simp only: of_nat_add)
    also have "(2 ^ 43 - 1) * 2 ^ 21 + i * 4096 + (512 - i) * 4096 = (2 ^ 64 :: nat)" using assms by (simp add: diff_mult_distrib)
    also have "(of_nat (2 ^ 64) :: u64) = 0" by simp
    finally show ?thesis by (metis add.inverse_unique add.commute)
  qed
  moreover have "(2 ^ 43 - 1) * 2 ^ 21 + i * 4096 < (2 ^ 64 :: nat)" using assms by simp
  moreover have "unat (of_nat N :: u64) = N" if "N < 2 ^ 64" for N using that by (simp add: unat_of_nat take_bit_nat_eq_self)
  ultimately show ?thesis by (simp only:)
qed

lemma virtual_indices:
  assumes "i < 512" "va = - of_nat ((512 - i) * 4096)"
  shows "take_bit 9 (drop_bit 30 va) = of_nat 511" "take_bit 9 (drop_bit 21 va) = of_nat 511" "take_bit 9 (drop_bit 12 va) = (of_nat i :: u64)"
    "take_bit 12 va = 0" "unat va \<ge> 2 ^ 64 - 2 ^ 39"
proof -
  have u: "unat va = (2 ^ 43 - 1) * 2 ^ 21 + i * 4096" unfolding assms(2) by (rule unat_virtual[OF assms(1)])
  have d21: "unat va div 2 ^ 21 = 2 ^ 43 - 1" unfolding u using assms(1) by simp
  have "unat va div 2 ^ 30 = unat va div 2 ^ 21 div 2 ^ 9" by (simp flip: div_mult2_eq)
  then have d30: "unat va div 2 ^ 30 = 2 ^ 34 - 1" unfolding d21 by simp
  have "unat va = ((2 ^ 43 - 1) * 512 + i) * 4096" unfolding u by simp
  then have d12: "unat va div 2 ^ 12 = (2 ^ 43 - 1) * 512 + i" "unat va mod 2 ^ 12 = 0" by simp_all
  have "((2 ^ 43 - 1) * 512 + i) mod 512 = i" using assms(1) by (simp only: mod_mult_self3) simp
  then have m: "((2 ^ 43 - 1) * 512 + i) mod 2 ^ 9 = i" by simp
  show "take_bit 9 (drop_bit 30 va) = of_nat 511" by (rule word_of_unat_eq) (simp only: unat_index d30, simp)
  show "take_bit 9 (drop_bit 21 va) = of_nat 511" by (rule word_of_unat_eq) (simp only: unat_index d21, simp)
  show "take_bit 9 (drop_bit 12 va) = of_nat i" by (rule word_of_unat_eq) (simp only: unat_index d12 m)
  have "unat (take_bit 12 va) = 0" by (simp only: unsigned_take_bit_eq) (use d12(2) in \<open>simp add: take_bit_eq_mod\<close>)
  then show "take_bit 12 va = 0" by (simp only: unat_eq_0)
  show "unat va \<ge> 2 ^ 64 - 2 ^ 39" unfolding u by simp
qed

lemma page_output:
  assumes "take_bit 12 va = 0" "2 ^ 11 \<le> unat p mod 2 ^ 27"
  shows "output_address 12 (descriptor (push_bit 9 p) 1 sh attr 3) va = None"
proof -
  let ?e = "descriptor (push_bit 9 p) 1 sh attr 3"
  have "push_bit 12 (drop_bit 12 (take_bit 48 ?e)) OR take_bit 12 va = push_bit 21 (take_bit 27 p)"
    unfolding assms(1) or.right_neutral
  proof (rule bit_word_eqI)
    fix n assume "n < LENGTH(64)"
    then show "bit (push_bit 12 (drop_bit 12 (take_bit 48 ?e))) n = bit (push_bit 21 (take_bit 27 p)) n"
      by (auto simp: bit_push_bit_iff bit_drop_bit_eq bit_take_bit_iff bit_descriptor)
  qed
  moreover have "unat (push_bit 21 (take_bit 27 p)) = (unat p mod 2 ^ 27) * 2 ^ 21"
  proof -
    have t: "unat (take_bit 27 p) = unat p mod 2 ^ 27" by (simp only: unsigned_take_bit_eq) (simp add: take_bit_eq_mod)
    have "unat p mod 2 ^ 27 < 2 ^ 27" by simp
    then have "(unat p mod 2 ^ 27) * 2 ^ 21 < 2 ^ 64" by simp
    then show ?thesis by (simp only: push_bit_eq_mult unat_word_ariths(2) t) simp
  qed
  ultimately show ?thesis using assms(2) by (simp add: output_address_def)
qed

text \<open>
  \<open>virtualmap\<close> takes the first free entry and returns its address, but the entry does not map the physical
  address: the field for the page number gets the address shifted to the left by 9. For every physical page
  but those at multiples of 128 MB an access through the returned address is a fault.\<close>

theorem virtualmap_faults:
  assumes "linked t" "PT_virtual1 t 511 = table_descriptor (at_virtual2 t)" "PT_virtual2 t 511 = table_descriptor (at_virtual3 t)"
    and "i < 512" "PT_virtual3 t i = 0" "\<forall>j<i. PT_virtual3 t j \<noteq> 0" "2 ^ 11 \<le> unat p mod 2 ^ 27"
  shows "fst (virtualmap p m t) = - of_nat ((512 - i) * 4096) \<and> translate (snd (virtualmap p m t)) (fst (virtualmap p m t)) = None"
proof -
  define va :: u64 where "va = - of_nat ((512 - i) * 4096)"
  define e where "e = descriptor (push_bit 9 p) 1 0 (ucast m) 3"
  define t2 where "t2 = t\<lparr>PT_virtual3 := (PT_virtual3 t)(i := e)\<rparr>"
  have vm: "virtualmap p m t = (va, t2)" unfolding va_def t2_def e_def by (rule virtualmap_first[OF assms(4-6)])
  note x = virtual_indices[OF assms(4) va_def]
  have P: "tables_placed t2" using assms(1) by (simp add: linked_def tables_placed_def t2_def)
  have al: "take_bit 12 (at_virtual2 t) = 0" "unat (at_virtual2 t) < 2 ^ 48" "take_bit 12 (at_virtual3 t) = 0" "unat (at_virtual3 t) < 2 ^ 48"
    using assms(1) by (simp_all add: linked_def tables_placed_def placed_def)
  have e1: "table_read t2 (at_virtual1 t + 8 * of_nat 511) = Some (table_descriptor (at_virtual2 t))"
    using table_read_entries(2)[OF P, of 511] assms(2) by (simp add: t2_def)
  have e2: "table_read t2 (at_virtual2 t + 8 * of_nat 511) = Some (table_descriptor (at_virtual3 t))"
    using table_read_entries(3)[OF P, of 511] assms(3) by (simp add: t2_def)
  have e3: "table_read t2 (at_virtual3 t + 8 * of_nat i) = Some e"
    using table_read_entries(5)[OF P assms(4)] by (simp add: t2_def)
  have "walk t2 2 (at_virtual1 t) va = output_address 12 e va"
    using e1 e2 e3 al by (simp add: numeral_2_eq_2 x table_descriptor_type next_table_descriptor e_def descriptor_type)
  then have "translate t2 va = None"
    using x(4,5) page_output[OF x(4) assms(7)] by (simp add: translate_def t2_def e_def)
  then show ?thesis using vm by (simp add: va_def)
qed

text \<open>A machine and tables for the witnesses.\<close>

definition mmu_machine :: "demo_dev machine" where
  "mmu_machine = \<lparr>words = \<lambda>_. 0, early_mbox = 0x80000, mbox = 0x80000, arm_base_address = 0, arm_size = 0,
     vc_base_address = 0, vc_size = 0,
     fb = \<lparr>fb_width = 640, fb_height = 480, fb_depth = 32, virtWidth = 640, virtHeight = 480, pixel_order = 1,
           palette = 0, fb_buf = 0x3C100000, buf_size = 0x12C000, fb_pitch = 2560\<rparr>, dev = Idle\<rparr>"

definition empty_tables :: tables where
  "empty_tables = \<lparr>PT_identity1 = \<lambda>_. 0, PT_virtual1 = \<lambda>_. 0, PT_virtual2 = \<lambda>_. 0, PT_identity2 = \<lambda>_. 0, PT_virtual3 = \<lambda>_. 0,
     at_identity1 = 0x90000, at_virtual1 = 0x91000, at_virtual2 = 0x92000, at_identity2 = 0x93000, at_virtual3 = 0x9B000\<rparr>"

lemma empty_tables_placed: "tables_placed empty_tables"
  by (simp add: tables_placed_def placed_def empty_tables_def take_bit_eq_mod)

lemma mmu_machine_vc:
  "\<exists>s1. get_vc_address demo_mailbox mmu_machine = Some s1 \<and> vc_base_address s1 = 0x800000 \<and> fb s1 = fb mmu_machine"
proof -
  have "buffer_addr (early_mbox mmu_machine)" by (simp add: buffer_addr_def mmu_machine_def)
  then obtain d where "mail_call demo_mailbox (early_mbox mmu_machine) [4 * 8, 0, VC_MEMORY, 8, 8, 0, 0, 0] mmu_machine =
      Some (mmu_machine\<lparr>dev := d, words := demo_answer (mail_word (early_mbox mmu_machine))
        (put_words (early_mbox mmu_machine) [4 * 8, 0, VC_MEMORY, 8, 8, 0, 0, 0] (words mmu_machine))\<rparr>)"
    using mail_call_returns[OF demo_mailbox_protocol, of mmu_machine "early_mbox mmu_machine"] by (auto simp: mmu_machine_def)
  then show ?thesis
    by (simp add: get_vc_address_def mb_def demo_answer_def) (simp add: mmu_machine_def word_buffer_def mail_word_def)
qed

theorem identity_map_translates_witness:
  "\<exists>s2 t2. identity_map demo_mailbox mmu_machine empty_tables = Some (Inr (s2, t2)) \<and>
     translate t2 0x80000 = Some 0x80000 \<and> translate t2 0xFE200000 = Some 0xFE200000 \<and>
     translate t2 (fb_buf (fb s2) + of_nat 100) = Some (0x3C100000 + of_nat 100)"
proof -
  obtain s1 where s1: "get_vc_address demo_mailbox mmu_machine = Some s1" "vc_base_address s1 = 0x800000" "fb s1 = fb mmu_machine"
    using mmu_machine_vc by blast
  have f: "fb_buf (fb s1) = 0x3C100000" "buf_size (fb s1) = 0x12C000" by (simp_all add: s1(3) mmu_machine_def)
  obtain s2 t2 where "identity_map demo_mailbox mmu_machine empty_tables = Some (Inr (s2, t2))"
    "\<forall>va. unat va < 2 ^ 32 \<and> \<not> ((3 - 1) * 2 ^ 21 \<le> unat va \<and> unat va < 3 * 2 ^ 21) \<longrightarrow> translate t2 va = Some va"
    "\<forall>k. unat (fb_buf (fb s1)) mod 2 ^ 21 + k < 1 * 2 ^ 21 \<longrightarrow>
       translate t2 (fb_buf (fb s2) + of_nat k) = Some (fb_buf (fb s1) + of_nat k)"
    using identity_map_translates[OF empty_tables_placed s1(1), of 3 1] by (auto simp: s1(2) f)
  moreover from this(2)[rule_format, of "0x80000"] have "translate t2 0x80000 = Some 0x80000" by simp
  moreover from calculation(2)[rule_format, of "0xFE200000"] have "translate t2 0xFE200000 = Some 0xFE200000" by simp
  moreover from calculation(3)[rule_format, of 100] have "translate t2 (fb_buf (fb s2) + of_nat 100) = Some (0x3C100000 + of_nat 100)"
    by (simp add: f)
  ultimately show ?thesis by blast
qed

theorem virtualmap_faults_witness:
  "fst (virtualmap 0xFE200000 0 (link_tables empty_tables)) = - of_nat ((512 - 0) * 4096) \<and>
   translate (snd (virtualmap 0xFE200000 0 (link_tables empty_tables))) (fst (virtualmap 0xFE200000 0 (link_tables empty_tables))) = None"
proof -
  let ?t = "link_tables empty_tables"
  have "PT_virtual1 ?t 511 = table_descriptor (at_virtual2 ?t)" "PT_virtual2 ?t 511 = table_descriptor (at_virtual3 ?t)" "PT_virtual3 ?t 0 = 0"
    by (simp_all add: link_tables_def empty_tables_def Let_def)
  then show ?thesis by (intro virtualmap_faults link_tables_linked empty_tables_placed) simp_all
qed

end
