(* ===== verification/Serial.thy ===== *)
theory Serial
  imports Prelude
begin

unbundle bit_operations_syntax

text \<open>
  The serial line of \<^verbatim>\<open>kernel/src/stdlib/serial.c\<close>. The PL011 device is a parameter \<open>D\<close>: what a read of its flag
  register and of its data register gives and does to the state \<open>'d\<close> of the device, and what a write of the data
  register does. The loops that wait for the device are partial functions, \<open>None\<close> is a call that does not return.
\<close>

record 'd uart =
  fr_read :: "'d \<Rightarrow> u32 \<times> 'd"
  dr_read :: "'d \<Rightarrow> u32 \<times> 'd"
  dr_write :: "u32 \<Rightarrow> 'd \<Rightarrow> 'd"

definition UART0_FR_TXFF :: u32 where "UART0_FR_TXFF = push_bit 5 1"
definition UART0_FR_RXFE :: u32 where "UART0_FR_RXFE = push_bit 4 1"

text \<open>\<^verbatim>\<open>while (chip_read(UART0_FR) & flag) {}\<close>\<close>

partial_function (option) uart_wait :: "'d uart \<Rightarrow> u32 \<Rightarrow> 'd \<Rightarrow> 'd option" where
  "uart_wait D flag d = (let (v, d) = fr_read D d in if v AND flag \<noteq> 0 then uart_wait D flag d else Some d)"

definition uart_put :: "'d uart \<Rightarrow> u8 \<Rightarrow> 'd \<Rightarrow> 'd option" where
  "uart_put D byte d = map_option (dr_write D (ucast byte)) (uart_wait D UART0_FR_TXFF d)"

text \<open>The recursive call of \<^verbatim>\<open>uart_putc\<close> is for a carriage return, which ends it.\<close>

definition uart_putc :: "'d uart \<Rightarrow> u8 \<Rightarrow> 'd \<Rightarrow> 'd option" where
  "uart_putc D byte d = Option.bind (uart_put D byte d) (\<lambda>d. if byte = 10 then uart_put D 13 d else Some d)"

definition uart_getc :: "'d uart \<Rightarrow> 'd \<Rightarrow> (u8 \<times> 'd) option" where
  "uart_getc D d = map_option (\<lambda>d. let (v, d) = dr_read D d in (ucast v, d)) (uart_wait D UART0_FR_RXFE d)"

definition uart_getc_noblock :: "'d uart \<Rightarrow> 'd \<Rightarrow> u32 \<times> 'd" where
  "uart_getc_noblock D d =
     (let (f, d) = fr_read D d
      in if f AND UART0_FR_RXFE \<noteq> 0 then (0, d) else (let (v, d) = dr_read D d in (v AND 0xff, d)))"

fun uart_write :: "'d uart \<Rightarrow> u8 list \<Rightarrow> 'd \<Rightarrow> 'd option" where
  "uart_write D [] d = Some d"
| "uart_write D (c # cs) d = Option.bind (uart_putc D c d) (uart_write D cs)"

section \<open>A line that drains\<close>

text \<open>What the driver relies on: reading the flags transmits nothing, and while the transmit buffer is full it comes
  closer to having room (\<open>rank\<close>); a write to the data register appends the byte to what is transmitted (\<open>sent\<close>).\<close>

definition uart_drains :: "'d uart \<Rightarrow> ('d \<Rightarrow> nat) \<Rightarrow> ('d \<Rightarrow> u8 list) \<Rightarrow> bool" where
  "uart_drains D rank sent \<longleftrightarrow>
     (\<forall>d v d'. fr_read D d = (v, d') \<longrightarrow> sent d' = sent d \<and> (v AND UART0_FR_TXFF \<noteq> 0 \<longrightarrow> rank d' < rank d)) \<and>
     (\<forall>w d. sent (dr_write D w d) = sent d @ [ucast w])"

text \<open>What arrives at the other end: a carriage return follows each line feed.\<close>

definition crlf :: "u8 list \<Rightarrow> u8 list" where
  "crlf cs = concat (map (\<lambda>c. if c = 10 then [10, 13] else [c]) cs)"

lemma crlf_simps [simp]: "crlf [] = []" "crlf (c # cs) = (if c = 10 then [10, 13] else [c]) @ crlf cs" "crlf (xs @ ys) = crlf xs @ crlf ys"
  by (simp_all add: crlf_def)

lemma uart_wait_returns:
  assumes "uart_drains D rank sent"
  shows "\<exists>d'. uart_wait D UART0_FR_TXFF d = Some d' \<and> sent d' = sent d"
proof (induction "rank d" arbitrary: d rule: less_induct)
  case less
  obtain v d1 where f: "fr_read D d = (v, d1)" by fastforce
  then have s: "sent d1 = sent d" "v AND UART0_FR_TXFF \<noteq> 0 \<Longrightarrow> rank d1 < rank d" using assms by (auto simp: uart_drains_def)
  show ?case
  proof (cases "v AND UART0_FR_TXFF = 0")
    case True
    then show ?thesis using f s by (subst uart_wait.simps) simp
  next
    case False
    then show ?thesis using less.hyps[OF s(2)[OF False]] f s(1) by (subst uart_wait.simps) simp
  qed
qed

lemma uart_put_returns:
  assumes "uart_drains D rank sent"
  shows "\<exists>d'. uart_put D c d = Some d' \<and> sent d' = sent d @ [c]"
proof -
  obtain d' where "uart_wait D UART0_FR_TXFF d = Some d'" "sent d' = sent d" using uart_wait_returns[OF assms] by blast
  moreover have "ucast (ucast c :: u32) = c" by (rule bit_word_eqI) (simp add: bit_ucast_iff)
  then have "sent (dr_write D (ucast c) d') = sent d' @ [c]" using assms by (simp add: uart_drains_def)
  ultimately show ?thesis by (simp add: uart_put_def)
qed

lemma uart_putc_returns:
  assumes "uart_drains D rank sent"
  shows "\<exists>d'. uart_putc D c d = Some d' \<and> sent d' = sent d @ crlf [c]"
proof -
  obtain d1 where d1: "uart_put D c d = Some d1" "sent d1 = sent d @ [c]" using uart_put_returns[OF assms] by blast
  obtain d2 where "uart_put D 13 d1 = Some d2" "sent d2 = sent d1 @ [13]" using uart_put_returns[OF assms] by blast
  then show ?thesis using d1 by (simp add: uart_putc_def)
qed

lemma uart_write_returns:
  assumes "uart_drains D rank sent"
  shows "\<exists>d'. uart_write D cs d = Some d' \<and> sent d' = sent d @ crlf cs"
proof (induction cs arbitrary: d)
  case (Cons c cs)
  obtain d1 where d1: "uart_putc D c d = Some d1" "sent d1 = sent d @ crlf [c]" using uart_putc_returns[OF assms] by blast
  then show ?case using Cons[of d1] by simp
qed simp

text \<open>A device that holds up to sixteen bytes and transmits one whenever its flags are read.\<close>

definition fifo_uart :: "(nat \<times> u8 list) uart" where
  "fifo_uart = \<lparr>fr_read = (\<lambda>(n, s). (if 16 \<le> n then UART0_FR_TXFF else 0, (n - 1, s))), dr_read = (\<lambda>d. (0, d)),
     dr_write = (\<lambda>w (n, s). (n + 1, s @ [ucast w]))\<rparr>"

lemma fifo_uart_drains: "uart_drains fifo_uart fst snd"
  by (auto simp: uart_drains_def fifo_uart_def)

end
