(* ===== verification/Printk.thy ===== *)
theory Printk
  imports Serial Framebuffer Cstring
begin

unbundle bit_operations_syntax

text \<open>
  Formatted output, \<^verbatim>\<open>kernel/src/stdlib/printk.c\<close>. The file has every function twice, with the same text up to the
  function that puts out a character: \<^verbatim>\<open>simple_outputchar\<close> for \<^verbatim>\<open>printk\<close> and \<^verbatim>\<open>screen_outputchar\<close> for
  \<^verbatim>\<open>print_screen\<close>. The definitions here take that function as the argument \<open>emit\<close>, with the state \<open>'s\<close> it works on.

  A format is the list of its bytes up to the terminator; reading behind the terminator is the fault
  \<open>OutOfBounds\<close>, and so is reading more arguments than there are. The variable arguments are the 64-bit slots they
  are passed in; \<open>str\<close> gives the bytes of the string at an address. The union \<^verbatim>\<open>u\<close> is its eight bytes: an assignment
  to a member replaces the bytes of the member. Counts of characters are natural numbers.
\<close>

section \<open>Putting out characters\<close>

record chr_dat =
  x0 :: int
  y0 :: int
  cx :: int
  cy :: int
  ccolor :: u32

definition screen_outputchar :: "u8 \<Rightarrow> chr_dat \<times> 'd machine \<Rightarrow> chr_dat \<times> 'd machine" where
  "screen_outputchar c = (\<lambda>(dat, s).
     if c = of_char (CHR 0x0D) then (dat\<lparr>cx := x0 dat\<rparr>, s)
     else if c = of_char (CHR 0x0A) then (dat\<lparr>cx := x0 dat, cy := cy dat + int FONT_HEIGHT\<rparr>, s)
     else (dat\<lparr>cx := cx dat + int FONT_WIDTH\<rparr>, draw_char c (cx dat) (cy dat) (ccolor dat) s))"

text \<open>\<^verbatim>\<open>uart_putc\<close> may not return; nothing is put out after that.\<close>

definition simple_outputchar :: "'d uart \<Rightarrow> u8 \<Rightarrow> 'd option \<Rightarrow> 'd option" where
  "simple_outputchar D c d = Option.bind d (uart_putc D c)"

definition PAD_ZERO :: u32 where "PAD_ZERO = 1"
definition PAD_RIGHT :: u32 where "PAD_RIGHT = 2"

text \<open>The loops \<^verbatim>\<open>for ( ; width > 0; --width)\<close> and \<^verbatim>\<open>for ( ; *string ; ++string)\<close>; the count comes first in a result.\<close>

fun pad_loop :: "(u8 \<Rightarrow> 's \<Rightarrow> 's) \<Rightarrow> u8 \<Rightarrow> nat \<Rightarrow> nat \<times> 's \<Rightarrow> nat \<times> 's" where
  "pad_loop emit padchar 0 (pc, s) = (pc, s)"
| "pad_loop emit padchar (Suc w) (pc, s) = pad_loop emit padchar w (pc + 1, emit padchar s)"

fun string_out :: "(u8 \<Rightarrow> 's \<Rightarrow> 's) \<Rightarrow> u8 list \<Rightarrow> nat \<times> 's \<Rightarrow> nat \<times> 's" where
  "string_out emit [] (pc, s) = (pc, s)"
| "string_out emit (c # cs) (pc, s) = string_out emit cs (pc + 1, emit c s)"

definition prints :: "(u8 \<Rightarrow> 's \<Rightarrow> 's) \<Rightarrow> u8 list \<Rightarrow> int \<Rightarrow> u32 \<Rightarrow> 's \<Rightarrow> nat \<times> 's" where
  "prints emit string width flags s =
     (let padchar = (if 0 < width \<and> flags AND PAD_ZERO \<noteq> 0 then of_char (CHR ''0'') else of_char (CHR '' ''));
          len = int (length string);
          width = (if 0 < width then (if len \<ge> width then 0 else width - len) else width)
      in if flags AND PAD_RIGHT = 0
         then string_out emit string (pad_loop emit padchar (nat width) (0, s))
         else pad_loop emit padchar (nat width) (string_out emit string (0, s)))"

text \<open>The digits of \<open>u\<close>, written from the end of the buffer to its front; \<open>room\<close> bytes are left in front of them.\<close>

definition PRINT_BUF_LEN :: nat where "PRINT_BUF_LEN = 64"

definition digit_of :: "u64 \<Rightarrow> u8 \<Rightarrow> u64 \<Rightarrow> u8" where
  "digit_of base letbase u =
     (let t = ucast (u mod base) :: u32;
          t = (if t \<ge> 10 then t + (ucast letbase - of_char (CHR ''0'') - 10) else t)
      in ucast (t + of_char (CHR ''0'')))"

fun digit_loop :: "u64 \<Rightarrow> u8 \<Rightarrow> u64 \<Rightarrow> nat \<Rightarrow> u8 list \<Rightarrow> (u8 list \<times> nat) result" where
  "digit_loop base letbase u room buf =
     (if u = 0 then Inr (buf, room)
      else (case room of 0 \<Rightarrow> Inl OutOfBounds
            | Suc room \<Rightarrow> digit_loop base letbase (u div base) room (digit_of base letbase u # buf)))"

definition outputi :: "(u8 \<Rightarrow> 's \<Rightarrow> 's) \<Rightarrow> u64 \<Rightarrow> u64 \<Rightarrow> bool \<Rightarrow> int \<Rightarrow> u32 \<Rightarrow> u8 \<Rightarrow> 's \<Rightarrow> (nat \<times> 's) result" where
  "outputi emit i base sign width flags letbase s =
     (if i = 0 then Inr (prints emit [of_char (CHR ''0'')] width flags s)
      else
        (let neg = sign \<and> base = 10 \<and> sint i < 0;
             u = (if neg then - i else i)
         in bindR (digit_loop base letbase u (PRINT_BUF_LEN - 1) [])
           (\<lambda>(buf, room).
              if neg then
                (if width \<noteq> 0 \<and> flags AND PAD_ZERO \<noteq> 0
                 then (let (pc, s) = prints emit buf (width - 1) flags (emit (of_char (CHR ''-'')) s) in Inr (1 + pc, s))
                 else if room = 0 then Inl OutOfBounds
                 else Inr (prints emit (of_char (CHR ''-'') # buf) width flags s))
              else Inr (prints emit buf width flags s))))"

section \<open>The directives\<close>

text \<open>The state of the loop over the format: the arguments not yet read, the union, the count and what \<open>emit\<close> changes.\<close>

record 's printer =
  args :: "u64 list"
  un :: u64
  pc :: nat
  sink :: 's

definition va_arg :: "'s printer \<Rightarrow> (u64 \<times> 's printer) result" where
  "va_arg p = (case args p of [] \<Rightarrow> Inl OutOfBounds | a # as \<Rightarrow> Inr (a, p\<lparr>args := as\<rparr>))"

text \<open>An assignment to a member of \<open>n\<close> bits.\<close>

definition set_member :: "nat \<Rightarrow> u64 \<Rightarrow> 's printer \<Rightarrow> 's printer" where
  "set_member n v p = p\<lparr>un := push_bit n (drop_bit n (un p)) OR take_bit n v\<rparr>"

definition count_out :: "'s printer \<Rightarrow> nat \<times> 's \<Rightarrow> 's printer" where
  "count_out p = (\<lambda>(n, s). p\<lparr>pc := pc p + n, sink := s\<rparr>)"

text \<open>One case of the switch: an argument goes to a member of \<open>n\<close> bits, and \<open>get\<close> of the union is put out.\<close>

definition conv_int :: "(u8 \<Rightarrow> 's \<Rightarrow> 's) \<Rightarrow> nat \<Rightarrow> (u64 \<Rightarrow> u64) \<Rightarrow> u64 \<Rightarrow> bool \<Rightarrow> u8 \<Rightarrow> int \<Rightarrow> u32 \<Rightarrow> 's printer \<Rightarrow> 's printer result" where
  "conv_int emit n get base sign letbase width flags p =
     bindR (va_arg p)
       (\<lambda>(a, p). let p = set_member n a p
                 in bindR (outputi emit (get (un p)) base sign width flags letbase (sink p)) (\<lambda>r. Inr (count_out p r)))"

definition as_int :: "u64 \<Rightarrow> u64" where "as_int u = scast (ucast u :: u32)"
definition as_uint :: "u64 \<Rightarrow> u64" where "as_uint u = ucast (ucast u :: u32)"
definition as_short :: "u64 \<Rightarrow> u64" where "as_short u = scast (ucast u :: u16)"
definition as_char :: "u64 \<Rightarrow> u64" where "as_char u = scast (ucast u :: u8)"

text \<open>The functions below get the rest of the format from the character that is looked at, and return the rest from
  the last character read.\<close>

definition peek :: "u8 list \<Rightarrow> u8" where
  "peek f = (case f of [] \<Rightarrow> 0 | c # _ \<Rightarrow> c)"

definition advance :: "u8 list \<Rightarrow> u8 list result" where
  "advance f = (case f of [] \<Rightarrow> Inl OutOfBounds | _ # f \<Rightarrow> Inr f)"

definition conv_ll :: "(u8 \<Rightarrow> 's \<Rightarrow> 's) \<Rightarrow> u8 list \<Rightarrow> int \<Rightarrow> u32 \<Rightarrow> 's printer \<Rightarrow> 's printer result" where
  "conv_ll emit f width flags p =
     (if peek f = of_char (CHR ''d'') then conv_int emit 64 id 10 True (of_char (CHR ''a'')) width flags p
      else if peek f = of_char (CHR ''u'') then conv_int emit 64 id 10 False (of_char (CHR ''a'')) width flags p
      else if peek f = of_char (CHR ''x'') then conv_int emit 64 id 16 False (of_char (CHR ''a'')) width flags p
      else if peek f = of_char (CHR ''X'') then conv_int emit 64 id 16 False (of_char (CHR ''A'')) width flags p
      else Inr p)"

definition conv_l :: "(u8 \<Rightarrow> 's \<Rightarrow> 's) \<Rightarrow> u8 list \<Rightarrow> int \<Rightarrow> u32 \<Rightarrow> 's printer \<Rightarrow> (u8 list \<times> 's printer) result" where
  "conv_l emit f width flags p =
     (if peek f = of_char (CHR ''d'') then bindR (conv_int emit 64 id 10 True (of_char (CHR ''a'')) width flags p) (\<lambda>p. Inr (f, p))
      else if peek f = of_char (CHR ''u'') then bindR (conv_int emit 64 id 10 False (of_char (CHR ''a'')) width flags p) (\<lambda>p. Inr (f, p))
      else if peek f = of_char (CHR ''x'') then bindR (conv_int emit 64 id 16 False (of_char (CHR ''a'')) width flags p) (\<lambda>p. Inr (f, p))
      else if peek f = of_char (CHR ''X'') then bindR (conv_int emit 64 id 16 False (of_char (CHR ''A'')) width flags p) (\<lambda>p. Inr (f, p))
      else if peek f = of_char (CHR ''l'') then
        bindR (advance f) (\<lambda>f. bindR (conv_ll emit f width flags p) (\<lambda>p. Inr (f, p)))
      else Inr (f, p))"

text \<open>The unsigned cases of \<^verbatim>\<open>h\<close> and \<^verbatim>\<open>hh\<close> assign to the short member and print the member \<^verbatim>\<open>lli\<close>.\<close>

definition conv_hh :: "(u8 \<Rightarrow> 's \<Rightarrow> 's) \<Rightarrow> u8 list \<Rightarrow> int \<Rightarrow> u32 \<Rightarrow> 's printer \<Rightarrow> 's printer result" where
  "conv_hh emit f width flags p =
     (if peek f = of_char (CHR ''d'') then conv_int emit 8 as_char 10 True (of_char (CHR ''a'')) width flags p
      else if peek f = of_char (CHR ''u'') then conv_int emit 8 id 10 False (of_char (CHR ''a'')) width flags p
      else if peek f = of_char (CHR ''x'') then conv_int emit 8 id 16 False (of_char (CHR ''a'')) width flags p
      else if peek f = of_char (CHR ''X'') then conv_int emit 8 id 16 False (of_char (CHR ''A'')) width flags p
      else Inr p)"

definition conv_h :: "(u8 \<Rightarrow> 's \<Rightarrow> 's) \<Rightarrow> u8 list \<Rightarrow> int \<Rightarrow> u32 \<Rightarrow> 's printer \<Rightarrow> (u8 list \<times> 's printer) result" where
  "conv_h emit f width flags p =
     (if peek f = of_char (CHR ''d'') then bindR (conv_int emit 16 as_short 10 True (of_char (CHR ''a'')) width flags p) (\<lambda>p. Inr (f, p))
      else if peek f = of_char (CHR ''u'') then bindR (conv_int emit 16 id 10 False (of_char (CHR ''a'')) width flags p) (\<lambda>p. Inr (f, p))
      else if peek f = of_char (CHR ''x'') then bindR (conv_int emit 16 id 16 False (of_char (CHR ''a'')) width flags p) (\<lambda>p. Inr (f, p))
      else if peek f = of_char (CHR ''X'') then bindR (conv_int emit 16 id 16 False (of_char (CHR ''A'')) width flags p) (\<lambda>p. Inr (f, p))
      else if peek f = of_char (CHR ''h'') then
        bindR (advance f) (\<lambda>f. bindR (conv_hh emit f width flags p) (\<lambda>p. Inr (f, p)))
      else Inr (f, p))"

definition null_text :: "u8 list" where "null_text = map of_char ''(null)''"

definition conv_char :: "(u8 \<Rightarrow> 's \<Rightarrow> 's) \<Rightarrow> int \<Rightarrow> u32 \<Rightarrow> 's printer \<Rightarrow> 's printer result" where
  "conv_char emit width flags p =
     bindR (va_arg p)
       (\<lambda>(a, p). let p = set_member 8 a p;
                     c = ucast (un p) :: u8
                 in Inr (count_out p (prints emit (if c = 0 then [] else [c]) width flags (sink p))))"

definition conv_string :: "(u8 \<Rightarrow> 's \<Rightarrow> 's) \<Rightarrow> (addr \<Rightarrow> u8 list) \<Rightarrow> int \<Rightarrow> u32 \<Rightarrow> 's printer \<Rightarrow> 's printer result" where
  "conv_string emit str width flags p =
     bindR (va_arg p)
       (\<lambda>(a, p). let p = set_member 64 a p
                 in Inr (count_out p (prints emit (if un p \<noteq> NULL then str (un p) else null_text) width flags (sink p))))"

definition directive :: "(u8 \<Rightarrow> 's \<Rightarrow> 's) \<Rightarrow> (addr \<Rightarrow> u8 list) \<Rightarrow> u8 list \<Rightarrow> int \<Rightarrow> u32 \<Rightarrow> 's printer \<Rightarrow> (u8 list \<times> 's printer) result" where
  "directive emit str f width flags p =
     (if peek f = of_char (CHR ''d'') then bindR (conv_int emit 32 as_int 10 True (of_char (CHR ''a'')) width flags p) (\<lambda>p. Inr (f, p))
      else if peek f = of_char (CHR ''u'') then bindR (conv_int emit 32 as_uint 10 False (of_char (CHR ''a'')) width flags p) (\<lambda>p. Inr (f, p))
      else if peek f = of_char (CHR ''x'') then bindR (conv_int emit 32 as_uint 16 False (of_char (CHR ''a'')) width flags p) (\<lambda>p. Inr (f, p))
      else if peek f = of_char (CHR ''X'') then bindR (conv_int emit 32 as_uint 16 False (of_char (CHR ''A'')) width flags p) (\<lambda>p. Inr (f, p))
      else if peek f = of_char (CHR ''c'') then bindR (conv_char emit width flags p) (\<lambda>p. Inr (f, p))
      else if peek f = of_char (CHR ''s'') then bindR (conv_string emit str width flags p) (\<lambda>p. Inr (f, p))
      else if peek f = of_char (CHR ''l'') then bindR (advance f) (\<lambda>f. conv_l emit f width flags p)
      else if peek f = of_char (CHR ''h'') then bindR (advance f) (\<lambda>f. conv_h emit f width flags p)
      else Inr (f, p))"

section \<open>The loop over the format\<close>

fun skip_zeros :: "u8 list \<Rightarrow> u32 \<Rightarrow> u8 list \<times> u32" where
  "skip_zeros [] flags = ([], flags)"
| "skip_zeros (c # f) flags = (if c = of_char (CHR ''0'') then skip_zeros f (flags OR PAD_ZERO) else (c # f, flags))"

definition parse_flags :: "u8 list \<Rightarrow> u8 list \<times> u32" where
  "parse_flags f = (if peek f = of_char (CHR ''-'') then skip_zeros (tl f) PAD_RIGHT else skip_zeros f 0)"

fun number :: "u8 list \<Rightarrow> int \<Rightarrow> u8 list \<times> int" where
  "number [] width = ([], width)"
| "number (c # f) width =
     (if of_char (CHR ''0'') \<le> c \<and> c \<le> of_char (CHR ''9'')
      then number f (int32 (int32 (width * 10) + (uint c - of_char (CHR ''0'')))) else (c # f, width))"

definition parse_width :: "u8 list \<Rightarrow> 's printer \<Rightarrow> (u8 list \<times> int \<times> 's printer) result" where
  "parse_width f p =
     (if peek f = of_char (CHR ''*'') then bindR (va_arg p) (\<lambda>(a, p). Inr (tl f, sint (ucast a :: u32), p))
      else (let (f, width) = number f 0 in Inr (f, width, p)))"

definition out_char :: "(u8 \<Rightarrow> 's \<Rightarrow> 's) \<Rightarrow> u8 \<Rightarrow> 's printer \<Rightarrow> 's printer" where
  "out_char emit c p = p\<lparr>pc := pc p + 1, sink := emit c (sink p)\<rparr>"

lemma length_skip_zeros: "length (fst (skip_zeros f n)) \<le> length f"
  by (induction f n rule: skip_zeros.induct) auto

lemma length_parse_flags: "length (fst (parse_flags f)) \<le> length f"
  using length_skip_zeros[of f 0] length_skip_zeros[of "tl f" PAD_RIGHT] by (auto simp: parse_flags_def split: if_splits)

lemma length_number: "length (fst (number f w)) \<le> length f"
  by (induction f w rule: number.induct) auto

lemma length_parse_width: "parse_width f p = Inr (g, w, p') \<Longrightarrow> length g \<le> length f"
  using length_number[of f 0] by (auto simp: parse_width_def bindR_eq_Inr split: if_splits prod.splits)

lemma length_parse: "parse_width (fst (parse_flags f)) p = Inr (g, w, p') \<Longrightarrow> length g \<le> length f"
  using length_parse_width length_parse_flags le_trans by blast

lemma length_advance: "advance f = Inr g \<Longrightarrow> length f = Suc (length g)"
  by (auto simp: advance_def split: list.splits)

lemma length_directive: "directive emit str f w n p = Inr (g, p') \<Longrightarrow> length g \<le> length f"
  unfolding directive_def conv_l_def conv_h_def
  by (auto simp: bindR_eq_Inr dest!: length_advance split: if_splits)

lemma bindR_cong [fundef_cong]: "r = r' \<Longrightarrow> (\<And>x. r' = Inr x \<Longrightarrow> f x = g x) \<Longrightarrow> bindR r f = bindR r' g"
  by (cases r') simp_all

function vprint :: "(u8 \<Rightarrow> 's \<Rightarrow> 's) \<Rightarrow> (addr \<Rightarrow> u8 list) \<Rightarrow> u8 list \<Rightarrow> 's printer \<Rightarrow> 's printer result" where
  "vprint emit str [] p = Inr p"
| "vprint emit str (c # f) p =
     (if c \<noteq> of_char (CHR ''%'') then vprint emit str f (out_char emit c p)
      else if f = [] then Inr p
      else if hd f = of_char (CHR ''%'') then vprint emit str (tl f) (out_char emit (hd f) p)
      else
        bindR (parse_width (fst (parse_flags f)) p)
          (\<lambda>(g, width, p). bindR (directive emit str g width (snd (parse_flags f)) p)
          (\<lambda>(g, p). bindR (advance g) (\<lambda>g. vprint emit str g p))))"
  by pat_completeness auto
termination
  by (relation "measure (\<lambda>(emit, str, f, p). length f)")
    (auto dest!: length_parse length_directive length_advance simp: neq_Nil_conv)

text \<open>The two functions. The union is not initialised: \<open>u0\<close> is what it holds. \<^verbatim>\<open>print_screen\<close> changes the cursor.\<close>

definition printk :: "'d uart \<Rightarrow> (addr \<Rightarrow> u8 list) \<Rightarrow> u8 list \<Rightarrow> u64 list \<Rightarrow> u64 \<Rightarrow> 'd \<Rightarrow> (nat \<times> 'd option) result" where
  "printk D str format as u0 d =
     bindR (vprint (simple_outputchar D) str format \<lparr>args = as, un = u0, pc = 0, sink = Some d\<rparr>) (\<lambda>p. Inr (pc p, sink p))"

definition print_screen ::
  "(addr \<Rightarrow> u8 list) \<Rightarrow> u8 list \<Rightarrow> u64 list \<Rightarrow> u64 \<Rightarrow> chr_dat \<times> 'd machine \<Rightarrow> (nat \<times> chr_dat \<times> 'd machine) result" where
  "print_screen str format as u0 s =
     bindR (vprint screen_outputchar str format \<lparr>args = as, un = u0, pc = 0, sink = s\<rparr>) (\<lambda>p. Inr (pc p, sink p))"

end
