(* ===== verification/Printk_Spec.thy ===== *)
theory Printk_Spec
  imports Printk
begin

unbundle bit_operations_syntax

text \<open>
  Properties of \<^verbatim>\<open>printk\<close> and \<^verbatim>\<open>print_screen\<close>. What a call puts out is the same wherever it goes: \<open>vprint\<close> is related
  to its run with \<open>collect\<close>, which gathers the characters (\<open>text_of\<close>). The fields of numbers are those of the reference
  \<open>int_field\<close>, built from the decimal digits of \<^verbatim>\<open>string.c\<close>.
\<close>

section \<open>Text of a field\<close>

lemma pad_loop_fold: "pad_loop emit c w (n, s) = (n + w, fold emit (replicate w c) s)"
  by (induction w arbitrary: n s) auto

lemma string_out_fold: "string_out emit cs (n, s) = (n + length cs, fold emit cs s)"
  by (induction cs arbitrary: n s) auto

definition padded :: "u8 list \<Rightarrow> int \<Rightarrow> u32 \<Rightarrow> u8 list" where
  "padded cs width flags =
     (let pad = replicate (nat (width - int (length cs))) (if flags AND PAD_ZERO \<noteq> 0 then 48 else 32)
      in if flags AND PAD_RIGHT = 0 then pad @ cs else cs @ pad)"

lemma prints_padded: "prints emit cs width flags s = (length (padded cs width flags), fold emit (padded cs width flags) s)"
  by (auto simp: prints_def padded_def Let_def pad_loop_fold string_out_fold)

fun digs :: "nat \<Rightarrow> nat \<Rightarrow> nat list" where
  "digs b n = (if n < b \<or> b < 2 then [n] else n mod b # digs b (n div b))"

declare digs.simps [simp del]

definition num_char :: "u8 \<Rightarrow> nat \<Rightarrow> u8" where
  "num_char letbase d = (if d < 10 then of_nat (48 + d) else letbase + of_nat (d - 10))"

definition num_text :: "nat \<Rightarrow> u8 \<Rightarrow> nat \<Rightarrow> u8 list" where
  "num_text b letbase n = map (num_char letbase) (rev (digs b n))"

lemma num_text_rec: "2 \<le> b \<Longrightarrow> num_text b l n = (if n < b then [num_char l n] else num_text b l (n div b) @ [num_char l (n mod b)])"
  by (simp add: num_text_def digs.simps[of b n])

lemma length_num_text: "2 \<le> b \<Longrightarrow> n < b ^ k \<Longrightarrow> 0 < k \<Longrightarrow> length (num_text b l n) \<le> k"
proof (induction k arbitrary: n)
  case (Suc k)
  show ?case
  proof (cases "n < b")
    case False
    then have "n div b < b ^ k" "0 < k" using Suc.prems by (auto simp: div_less_iff_less_mult mult.commute intro!: gr0I)
    then show ?thesis using Suc.IH[of "n div b"] Suc.prems False by (simp add: num_text_rec[of b l n])
  qed (use Suc.prems in \<open>simp add: num_text_rec\<close>)
qed simp

lemma take8_hom:
  fixes x y :: int
  shows "take_bit 8 (take_bit 32 x + take_bit 32 y) = take_bit 8 (x + y)" "take_bit 8 (take_bit 32 x - take_bit 32 y) = take_bit 8 (x - y)"
  using take_bit_add[of 8 "take_bit 32 x" "take_bit 32 y"] take_bit_add[of 8 x y]
    take_bit_diff[of 8 "take_bit 32 x" "take_bit 32 y"] take_bit_diff[of 8 x y] by (simp_all add: take_bit_take_bit)

lemma ucast8_hom:
  fixes x y :: u32
  shows "(ucast (x + y) :: u8) = ucast x + ucast y" "(ucast (x - y) :: u8) = ucast x - ucast y"
    and "(ucast (ucast c :: u32) :: u8) = c" "(ucast (of_nat n :: u32) :: u8) = of_nat n"
proof -
  show "(ucast (x + y) :: u8) = ucast x + ucast y" "(ucast (x - y) :: u8) = ucast x - ucast y"
    by (transfer; simp add: take8_hom)+
  show "(ucast (ucast c :: u32) :: u8) = c" by (rule bit_word_eqI) (simp add: bit_ucast_iff)
  show "(ucast (of_nat n :: u32) :: u8) = of_nat n" by (transfer; simp add: take_bit_take_bit)
qed

lemma digit_of_char:
  assumes "base = 10 \<or> base = 16"
  shows "digit_of base letbase u = num_char letbase (unat u mod unat base)"
proof -
  define d where "d = unat u mod unat base"
  have d: "d < 16" "d < unat base" using assms by (auto simp: d_def)
  have "unat (u mod base) = d" by (simp add: unat_mod d_def)
  then have m: "u mod base = of_nat d" using d(1) by (simp add: word_unat_eq_iff unat_of_nat)
  have t: "(ucast (of_nat d :: u64) :: u32) = of_nat d"
    using d by (simp add: word_unat_eq_iff unsigned_ucast_eq unat_of_nat take_bit_nat_eq_self)
  have u: "unat (of_nat d :: u32) = d" using d by (simp add: unat_of_nat)
  have ge: "(of_nat d :: u32) \<ge> 10 \<longleftrightarrow> 10 \<le> d" using u by (simp add: word_le_nat_alt)
  show ?thesis unfolding digit_of_def Let_def m t ge d_def[symmetric]
    by (auto simp: num_char_def ucast8_hom of_nat_diff)
qed

declare digit_loop.simps [simp del]

lemma digit_loop_digits:
  assumes "base = 10 \<or> base = 16"
  shows "unat u < unat base ^ room \<Longrightarrow> u \<noteq> 0 \<Longrightarrow>
    digit_loop base l u room buf = Inr (num_text (unat base) l (unat u) @ buf, room - length (num_text (unat base) l (unat u)))"
proof (induction room arbitrary: u buf)
  case 0
  then show ?case by (simp add: unat_eq_zero)
next
  case (Suc room)
  have b: "2 \<le> unat base" using assms by auto
  have q: "unat (u div base) = unat u div unat base" by (simp add: unat_div)
  have step: "digit_loop base l u (Suc room) buf = digit_loop base l (u div base) room (num_char l (unat u mod unat base) # buf)"
    using Suc.prems(2) by (simp add: digit_loop.simps[of base l u] digit_of_char[OF assms])
  show ?case
  proof (cases "unat u < unat base")
    case True
    then have "u div base = 0" using q by (simp add: unat_eq_zero)
    then show ?thesis using True step b by (simp add: digit_loop.simps[of base l 0] num_text_rec)
  next
    case False
    have "unat u div unat base < unat base ^ room"
      using Suc.prems(1) b by (simp add: div_less_iff_less_mult mult.commute)
    moreover have "u div base \<noteq> 0"
    proof
      assume "u div base = 0"
      then have "unat u div unat base = 0" using q by simp
      then show False using False b by (simp add: div_eq_0_iff)
    qed
    ultimately show ?thesis using step Suc.IH[of "u div base"] q False b by (simp add: num_text_rec[of "unat base" l "unat u"])
  qed
qed

text \<open>The field of a number: a sign in front of leading zeros, otherwise padding around sign and digits.\<close>

definition field_text :: "nat \<Rightarrow> u8 \<Rightarrow> int \<Rightarrow> int \<Rightarrow> u32 \<Rightarrow> u8 list" where
  "field_text b letbase v width flags =
     (let ds = num_text b letbase (nat \<bar>v\<bar>)
      in if v < 0 then (if width \<noteq> 0 \<and> flags AND PAD_ZERO \<noteq> 0 then 45 # padded ds (width - 1) flags else padded (45 # ds) width flags)
         else padded ds width flags)"

lemma unat_neg: "sint i < 0 \<Longrightarrow> unat (- i) = nat \<bar>sint i\<bar>" for i :: u64
proof -
  assume n: "sint i < 0"
  have b: "- (2 ^ 63) \<le> sint i" using sint_ge[of i] by simp
  have "- i = word_of_int (- sint i)" by simp
  then have "uint (- i) = take_bit 64 (- sint i)" by (simp only: uint_word_of_int_eq) simp
  also have "... = - sint i" using n b by (intro take_bit_int_eq_self) auto
  finally show ?thesis using n by (simp add: unat_eq_nat_uint)
qed

lemma outputi_text:
  assumes "base = 10 \<or> base = 16"
  shows "outputi emit i base sign width flags letbase s =
    (let t = field_text (unat base) letbase (if sign \<and> base = 10 then sint i else uint i) width flags in Inr (length t, fold emit t s))"
proof (cases "i = 0")
  case True
  have "num_text (unat base) letbase 0 = [48]" using assms by (auto simp: num_text_rec num_char_def)
  then show ?thesis using True by (simp add: outputi_def field_text_def prints_padded Let_def)
next
  case False
  define neg where "neg \<longleftrightarrow> sign \<and> base = 10 \<and> sint i < 0"
  define u where "u = (if neg then - i else i)"
  define v where "v = (if sign \<and> base = 10 then sint i else uint i)"
  have v: "nat \<bar>v\<bar> = unat u" "v < 0 \<longleftrightarrow> neg"
  proof -
    show "v < 0 \<longleftrightarrow> neg" by (auto simp: v_def neg_def)
    have "sint i = int (unat i)" if "\<not> sint i < 0"
    proof -
      have "take_bit 64 (sint i) = sint i" using that sint_less[of i] by (intro take_bit_int_eq_self) auto
      moreover have "uint i = take_bit 64 (sint i)" by (simp add: uint_sint)
      ultimately show ?thesis by simp
    qed
    then show "nat \<bar>v\<bar> = unat u" using unat_neg[of i] by (auto simp: v_def u_def neg_def)
  qed
  have u0: "u \<noteq> 0" using False by (simp add: u_def)
  let ?t = "num_text (unat base) letbase (unat u)"
  have bb: "unat u < unat base ^ 20"
    using unsigned_less[of u, where 'a = nat] assms by auto
  then have len: "length ?t \<le> 20" using assms by (intro length_num_text) auto
  have "unat base ^ 20 \<le> unat base ^ 63" using assms by (intro power_increasing) auto
  then have "digit_loop base letbase u 63 [] = Inr (?t, 63 - length ?t)"
    using digit_loop_digits[OF assms _ u0, of 63] bb by simp
  then show ?thesis
    using False len v
    by (auto simp: outputi_def field_text_def prints_padded PRINT_BUF_LEN_def Let_def u_def[symmetric] neg_def[symmetric] v_def[symmetric])
qed

section \<open>The output does not depend on where it goes\<close>

definition collect :: "u8 \<Rightarrow> u8 list \<Rightarrow> u8 list" where "collect c out = out @ [c]"

lemma fold_collect: "fold collect t out = out @ t"
  by (induction t arbitrary: out) (auto simp: collect_def)

definition same_out :: "(u8 \<Rightarrow> 's \<Rightarrow> 's) \<Rightarrow> 's \<Rightarrow> 's printer \<Rightarrow> u8 list printer \<Rightarrow> bool" where
  "same_out emit s p q \<longleftrightarrow> args p = args q \<and> un p = un q \<and> pc p = length (sink q) \<and> pc q = length (sink q) \<and> sink p = fold emit (sink q) s"

abbreviation related :: "('a \<Rightarrow> 'b \<Rightarrow> bool) \<Rightarrow> 'a result \<Rightarrow> 'b result \<Rightarrow> bool" where
  "related R \<equiv> rel_sum (=) R"

lemma bindR_related: "related R r r' \<Longrightarrow> (\<And>x y. r = Inr x \<Longrightarrow> R x y \<Longrightarrow> related S (f x) (g y)) \<Longrightarrow> related S (bindR r f) (bindR r' g)"
  by (auto elim: rel_sum.cases)

lemma va_arg_related: "same_out emit s p q \<Longrightarrow> related (rel_prod (=) (same_out emit s)) (va_arg p) (va_arg q)"
  by (auto simp: va_arg_def same_out_def split: list.splits)

lemma set_member_same: "same_out emit s p q \<Longrightarrow> same_out emit s (set_member n v p) (set_member n v q)"
  by (simp add: same_out_def set_member_def)

lemma count_out_same: "same_out emit s p q \<Longrightarrow>
    same_out emit s (count_out p (length t, fold emit t (sink p))) (count_out q (length t, fold collect t (sink q)))"
  by (simp add: same_out_def count_out_def fold_collect)

lemma same_un: "same_out emit s p q \<Longrightarrow> un p = un q" by (simp add: same_out_def)

text \<open>Every directive that puts out an argument has this form.\<close>

definition field_out :: "(u8 \<Rightarrow> 's \<Rightarrow> 's) \<Rightarrow> nat \<Rightarrow> (u64 \<Rightarrow> u8 list) \<Rightarrow> 's printer \<Rightarrow> 's printer result" where
  "field_out emit n T p =
     bindR (va_arg p)
       (\<lambda>(a, p). let p = set_member n a p; t = T (un p) in Inr (count_out p (length t, fold emit t (sink p))))"

lemma conv_field_out:
  "base = 10 \<or> base = 16 \<Longrightarrow> conv_int emit n get base sign l w fl p =
     field_out emit n (\<lambda>u. field_text (unat base) l (if sign \<and> base = 10 then sint (get u) else uint (get u)) w fl) p"
  "conv_char emit w fl p = field_out emit 8 (\<lambda>u. padded (if (ucast u :: u8) = 0 then [] else [ucast u]) w fl) p"
  "conv_string emit str w fl p = field_out emit 64 (\<lambda>u. padded (if u \<noteq> NULL then str u else null_text) w fl) p"
  by (simp_all add: conv_int_def conv_char_def conv_string_def field_out_def outputi_text prints_padded Let_def)

lemma field_out_related:
  assumes "same_out emit s p q"
  shows "related (same_out emit s) (field_out emit n T p) (field_out collect n T q)"
  unfolding field_out_def
proof (rule bindR_related[OF va_arg_related[OF assms]])
  fix x :: "u64 \<times> 'a printer" and y assume "rel_prod (=) (same_out emit s) x y"
  then obtain a p1 q1 where x: "x = (a, p1)" "y = (a, q1)" "same_out emit s p1 q1" by (cases x, cases y) auto
  then have m: "same_out emit s (set_member n a p1) (set_member n a q1)" by (intro set_member_same)
  show "related (same_out emit s)
     (case x of (a, p) \<Rightarrow> let p = set_member n a p; t = T (un p) in Inr (count_out p (length t, fold emit t (sink p))))
     (case y of (a, p) \<Rightarrow> let p = set_member n a p; t = T (un p) in Inr (count_out p (length t, fold collect t (sink p))))"
    using count_out_same[OF m] same_un[OF m] x(1,2) by (simp add: Let_def)
qed

lemma related_pair:
  "related R r r' \<Longrightarrow> related (rel_prod (=) R) (bindR r (\<lambda>p. Inr (f, p))) (bindR r' (\<lambda>p. Inr (f, p)))"
  by (erule bindR_related) simp

lemma related_if: "(c \<Longrightarrow> related R a a') \<Longrightarrow> (\<not> c \<Longrightarrow> related R b b') \<Longrightarrow> related R (if c then a else b) (if c then a' else b')"
  by simp

lemma related_advance:
  "(\<And>g. related R (k g) (k' g)) \<Longrightarrow> related R (bindR (advance f) k) (bindR (advance f) k')"
  by (cases "advance f") simp_all

lemmas directive_related_rules = related_if related_pair related_advance field_out_related

lemma conv_related:
  assumes "same_out emit s p q"
  shows "related (same_out emit s) (conv_ll emit f w n p) (conv_ll collect f w n q)"
    and "related (same_out emit s) (conv_hh emit f w n p) (conv_hh collect f w n q)"
    and "related (rel_prod (=) (same_out emit s)) (conv_l emit f w n p) (conv_l collect f w n q)"
    and "related (rel_prod (=) (same_out emit s)) (conv_h emit f w n p) (conv_h collect f w n q)"
proof -
  show 1: "related (same_out emit s) (conv_ll emit f w n p) (conv_ll collect f w n q)" for f
    unfolding conv_ll_def by (intro directive_related_rules) (simp_all add: conv_field_out field_out_related assms)
  show 2: "related (same_out emit s) (conv_hh emit f w n p) (conv_hh collect f w n q)" for f
    unfolding conv_hh_def by (intro directive_related_rules) (simp_all add: conv_field_out field_out_related assms)
  show "related (rel_prod (=) (same_out emit s)) (conv_l emit f w n p) (conv_l collect f w n q)"
    unfolding conv_l_def by (intro directive_related_rules) (simp_all add: conv_field_out field_out_related assms 1)
  show "related (rel_prod (=) (same_out emit s)) (conv_h emit f w n p) (conv_h collect f w n q)"
    unfolding conv_h_def by (intro directive_related_rules) (simp_all add: conv_field_out field_out_related assms 2)
qed

lemma directive_related:
  assumes "same_out emit s p q"
  shows "related (rel_prod (=) (same_out emit s)) (directive emit str f w n p) (directive collect str f w n q)"
  unfolding directive_def by (intro directive_related_rules) (simp_all add: conv_field_out field_out_related assms conv_related)

lemma parse_width_related:
  assumes "same_out emit s p q"
  shows "related (rel_prod (=) (rel_prod (=) (same_out emit s))) (parse_width f p) (parse_width f q)"
  unfolding parse_width_def
  by (intro related_if bindR_related[OF va_arg_related[OF assms]]) (auto simp: assms split: prod.splits)

lemma out_char_same: "same_out emit s p q \<Longrightarrow> same_out emit s (out_char emit c p) (out_char collect c q)"
  by (simp add: same_out_def out_char_def collect_def)

lemma vprint_related:
  "same_out emit s p q \<Longrightarrow> related (same_out emit s) (vprint emit str f p) (vprint collect str f q)"
proof (induction emit str f p arbitrary: q rule: vprint.induct)
  case (1 emit str p)
  then show ?case by simp
next
  case (2 emit str c f p)
  show ?case
  proof (cases "c \<noteq> of_char (CHR ''%'') \<or> f = [] \<or> hd f = of_char (CHR ''%'')")
    case True
    then show ?thesis using 2 by (auto simp: out_char_same)
  next
    case False
    then have n: "\<not> c \<noteq> of_char (CHR ''%'')" "f \<noteq> []" "hd f \<noteq> of_char (CHR ''%'')" by auto
    have "related (same_out emit s)
        (bindR (parse_width (fst (parse_flags f)) p) (\<lambda>(g, width, p). bindR (directive emit str g width (snd (parse_flags f)) p)
          (\<lambda>(g, p). bindR (advance g) (\<lambda>g. vprint emit str g p))))
        (bindR (parse_width (fst (parse_flags f)) q) (\<lambda>(g, width, p). bindR (directive collect str g width (snd (parse_flags f)) p)
          (\<lambda>(g, p). bindR (advance g) (\<lambda>g. vprint collect str g p))))"
    proof (rule bindR_related[OF parse_width_related[OF "2.prems"]], clarsimp simp del: vprint.simps)
      fix g w p1 q1
      assume w: "parse_width (fst (parse_flags f)) p = Inr (g, w, p1)" and s1: "same_out emit s p1 q1"
      show "related (same_out emit s)
         (bindR (directive emit str g w (snd (parse_flags f)) p1) (\<lambda>(g, p). bindR (advance g) (\<lambda>g. vprint emit str g p)))
         (bindR (directive collect str g w (snd (parse_flags f)) q1) (\<lambda>(g, p). bindR (advance g) (\<lambda>g. vprint collect str g p)))"
      proof (rule bindR_related[OF directive_related[OF s1]], clarsimp simp del: vprint.simps)
        fix h p2 q2
        assume d: "directive emit str g w (snd (parse_flags f)) p1 = Inr (h, p2)" and s2: "same_out emit s p2 q2"
        have "related (same_out emit s) (vprint emit str k p2) (vprint collect str k q2)" if "advance h = Inr k" for k
          using "2.IH"(3)[OF n(1,2,3) w refl refl d refl that s2] .
        then show "related (same_out emit s) (bindR (advance h) (\<lambda>g. vprint emit str g p2)) (bindR (advance h) (\<lambda>g. vprint collect str g q2))"
          by (cases "advance h") simp_all
      qed
    qed
    then show ?thesis using n by simp
  qed
qed


section \<open>Over the serial line\<close>

lemma fold_simple_outputchar:
  assumes "uart_drains D rank sent"
  shows "\<exists>d'. fold (simple_outputchar D) out (Some d) = Some d' \<and> sent d' = sent d @ crlf out"
proof (induction out arbitrary: d)
  case (Cons c out)
  obtain d1 where "uart_putc D c d = Some d1" "sent d1 = sent d @ crlf [c]" using uart_putc_returns[OF assms] by blast
  then show ?case using Cons[of d1] by (simp add: simple_outputchar_def)
qed simp

abbreviation fresh :: "u64 list \<Rightarrow> u64 \<Rightarrow> 's \<Rightarrow> 's printer" where
  "fresh as u0 s \<equiv> \<lparr>args = as, un = u0, pc = 0, sink = s\<rparr>"

lemma vprint_emit:
  "vprint emit str f (fresh as u0 s) =
    (case vprint collect str f (fresh as u0 []) of Inl e \<Rightarrow> Inl e
     | Inr q \<Rightarrow> Inr \<lparr>args = args q, un = un q, pc = length (sink q), sink = fold emit (sink q) s\<rparr>)"
proof -
  have "related (same_out emit s) (vprint emit str f (fresh as u0 s)) (vprint collect str f (fresh as u0 []))"
    by (rule vprint_related) (simp add: same_out_def)
  then show ?thesis by (cases rule: rel_sum.cases) (auto simp: same_out_def)
qed

text \<open>The text that a call puts out.\<close>

definition text_of :: "(addr \<Rightarrow> u8 list) \<Rightarrow> u8 list \<Rightarrow> u64 list \<Rightarrow> u64 \<Rightarrow> u8 list result" where
  "text_of str f as u0 = bindR (vprint collect str f (fresh as u0 [])) (\<lambda>q. Inr (sink q))"

lemma printk_text:
  "printk D str f as u0 d = bindR (text_of str f as u0) (\<lambda>out. Inr (length out, fold (simple_outputchar D) out (Some d)))"
  "print_screen str f as u0 s = bindR (text_of str f as u0) (\<lambda>out. Inr (length out, fold screen_outputchar out s))"
  by (simp_all add: printk_def print_screen_def text_of_def vprint_emit[of _ _ _ _ _ "Some d"] vprint_emit[of _ _ _ _ _ s] split: sum.split)

lemma printk_sends:
  assumes "uart_drains D rank sent" "text_of str f as u0 = Inr out"
  shows "\<exists>d'. printk D str f as u0 d = Inr (length out, Some d') \<and> sent d' = sent d @ crlf out"
  using fold_simple_outputchar[OF assms(1), of out d] by (auto simp: printk_text assms(2))

section \<open>Fields\<close>

lemma digs_digits: "digs 10 n = digits n"
proof (induction n rule: digits.induct)
  case (1 n)
  then show ?case by (simp add: digs.simps[of 10 n] digits.simps[of n])
qed

lemma num_text_decimal: "num_text 10 97 n = decimal n"
proof -
  have "num_char 97 d = digit_char d" if "d < 10" for d using that by (simp add: num_char_def digit_char_def add.commute)
  then show ?thesis using digits_lt by (auto simp: num_text_def decimal_def digs_digits rev_map)
qed

definition int_field :: "int \<Rightarrow> nat \<Rightarrow> bool \<Rightarrow> bool \<Rightarrow> u8 list" where
  "int_field v w zero right =
     (let sign = (if v < 0 then [45] else []);
          ds = decimal (nat \<bar>v\<bar>);
          gap = w - length (sign @ ds)
      in if right then sign @ ds @ replicate gap (if zero then 48 else 32)
         else if zero then sign @ replicate gap 48 @ ds
         else replicate gap 32 @ sign @ ds)"

definition flag_word :: "bool \<Rightarrow> bool \<Rightarrow> u32" where
  "flag_word zero right = (if right then PAD_RIGHT else 0) OR (if zero then PAD_ZERO else 0)"

lemma flag_word_bits: "flag_word z r AND PAD_ZERO = 0 \<longleftrightarrow> \<not> z" "flag_word z r AND PAD_RIGHT = 0 \<longleftrightarrow> \<not> r"
  by (simp_all add: flag_word_def PAD_ZERO_def PAD_RIGHT_def)

lemma field_text_int: "field_text 10 97 v (int w) (flag_word zero right) = int_field v w zero right"
proof -
  have n: "nat (int a - int b) = a - b" "nat (int w - 1 - int b) = w - (b + 1)" for a b by linarith+
  show ?thesis
    by (auto simp: field_text_def int_field_def padded_def num_text_decimal flag_word_bits n Let_def)
qed

lemma vprint_plain:
  "\<forall>c\<in>set pre. c \<noteq> 37 \<Longrightarrow> vprint collect str (pre @ f) p = vprint collect str f (p\<lparr>pc := pc p + length pre, sink := sink p @ pre\<rparr>)"
  by (induction pre arbitrary: p) (simp_all add: out_char_def collect_def)

lemma digit_char_range: "d < 10 \<Longrightarrow> 48 \<le> digit_char d \<and> digit_char d \<le> 57 \<and> uint (digit_char d) = int (d + 48)"
  by (simp add: digit_char_def uint_of_nat_small word_le_nat_alt unat_of_nat del: of_nat_add)

lemma number_digits:
  assumes "\<forall>d\<in>set ds. d < 10" "foldl (\<lambda>r d. 10 * r + d) r ds < 2 ^ 31" "f = [] \<or> \<not> (48 \<le> hd f \<and> hd f \<le> 57)"
  shows "number (map digit_char ds @ f) (int r) = (f, int (foldl (\<lambda>r d. 10 * r + d) r ds))"
  using assms(1,2)
proof (induction ds arbitrary: r)
  case Nil
  then show ?case using assms(3) by (cases f) auto
next
  case (Cons d ds)
  have mono: "r \<le> foldl (\<lambda>r d. 10 * r + d) r xs" for r :: nat and xs :: "nat list"
  proof (induction xs arbitrary: r)
    case (Cons a xs)
    from Cons[of "10 * r + a"] show ?case by simp
  qed simp
  have "10 * r + d < 2 ^ 31" using Cons.prems(2) mono[of "10 * r + d" ds] by simp
  then have "int32 (int32 (int r * 10) + (uint (digit_char d) - 48)) = int (10 * r + d)"
    using digit_char_range[of d] Cons.prems(1) by simp
  then show ?case using Cons.IH[of "10 * r + d"] Cons.prems digit_char_range[of d] by simp
qed


definition width_text :: "nat \<Rightarrow> u8 list" where
  "width_text w = (if w = 0 then [] else decimal w)"

lemma last_digits: "0 < n \<Longrightarrow> last (digits n) \<noteq> 0"
proof (induction n rule: digits.induct)
  case (1 n)
  then show ?case by (auto simp: digits.simps[of n])
qed

lemma width_head:
  obtains c g where "width_text w @ 100 # post = c # g" "c \<noteq> 48" "48 \<le> c"
proof (cases "w = 0")
  case True
  then show ?thesis using that by (simp add: width_text_def)
next
  case False
  obtain d ds where r: "rev (digits w) = d # ds" by (cases "rev (digits w)") auto
  then have "d = last (digits w)" by (metis hd_rev list.sel(1))
  then have d: "d \<noteq> 0" "d < 10" using last_digits[of w] False digits_lt[of d w] by (auto simp: last_in_set)
  then have "digit_char d \<noteq> 48" using digit_char_range[OF d(2)] by auto
  moreover have "width_text w @ 100 # post = digit_char d # map digit_char ds @ 100 # post"
    using False r by (simp add: width_text_def decimal_def rev_map)
  ultimately show ?thesis using that digit_char_range[OF d(2)] by blast
qed

lemma parse_flags_text:
  "parse_flags ((if right then [45] else []) @ (if zero then [48] else []) @ width_text w @ 100 # post) =
    (width_text w @ 100 # post, flag_word zero right)"
proof -
  obtain c g where c: "width_text w @ 100 # post = c # g" "c \<noteq> 48" "48 \<le> c" by (rule width_head)
  then have "c \<noteq> 45" by auto
  with c show ?thesis unfolding c(1) by (simp add: parse_flags_def peek_def flag_word_def)
qed

lemma parse_width_text:
  assumes "w < 2 ^ 31"
  shows "parse_width (width_text w @ 100 # post) p = Inr (100 # post, int w, p)"
proof -
  have v: "foldl (\<lambda>r d. 10 * r + d) 0 (rev (digits w)) = w"
    using digits_value[of w] by (simp add: foldr_conv_foldl)
  have "number (width_text w @ 100 # post) 0 = (100 # post, int w)"
  proof (cases "w = 0")
    case False
    have "\<forall>d\<in>set (rev (digits w)). d < 10" using digits_lt by auto
    from number_digits[OF this, of 0 "100 # post"] show ?thesis
      using False v assms by (simp add: width_text_def decimal_def rev_map)
  qed (simp add: width_text_def)
  moreover have "peek (width_text w @ 100 # post) \<noteq> 42"
  proof -
    obtain c g where "width_text w @ 100 # post = c # g" "48 \<le> c" by (rule width_head)
    then show ?thesis by (auto simp: peek_def)
  qed
  ultimately show ?thesis by (simp add: parse_width_def)
qed

lemma as_int_sint: "sint (as_int u) = sint (ucast u :: u32)"
  by (simp add: as_int_def signed_scast_eq signed_take_bit_int_eq_self_iff) (use sint_ge[of "ucast u :: u32"] sint_less[of "ucast u :: u32"] in simp)

lemma ucast_set_member: "(ucast (push_bit 32 (drop_bit 32 u) OR take_bit 32 v :: u64) :: u32) = ucast v"
  by (rule bit_word_eqI) (auto simp: bit_ucast_iff bit_or_iff bit_push_bit_iff bit_take_bit_iff)

lemma directive_d:
  "directive emit str (100 # post) w n p = bindR (field_out emit 32 (\<lambda>u. field_text 10 97 (sint (ucast u :: u32)) w n) p) (\<lambda>p. Inr (100 # post, p))"
proof -
  have "conv_int emit 32 as_int 10 True 97 w n p = field_out emit 32 (\<lambda>u. field_text 10 97 (sint (ucast u :: u32)) w n) p"
    by (subst conv_field_out(1)) (simp_all add: as_int_sint)
  then show ?thesis by (simp add: directive_def peek_def)
qed

lemma field_out_collect:
  assumes "args p = v # as"
  shows "field_out collect n T p = Inr (let u = un (set_member n v p); t = T u in p\<lparr>args := as, un := u, pc := pc p + length t, sink := sink p @ t\<rparr>)"
  using assms by (simp add: field_out_def va_arg_def set_member_def count_out_def fold_collect Let_def)

lemma un_set_member: "(ucast (un (set_member 32 v p)) :: u32) = ucast v"
  by (simp add: set_member_def ucast_set_member)

lemma text_of_int_field:
  assumes "\<forall>c\<in>set pre. c \<noteq> 37" "\<forall>c\<in>set post. c \<noteq> 37" "w < 2 ^ 31"
  shows "text_of str (pre @ 37 # (if right then [45] else []) @ (if zero then [48] else []) @ width_text w @ 100 # post) [v] u0 =
    Inr (pre @ int_field (sint (ucast v :: u32)) w zero right @ post)"
proof -
  define f where "f = (if right then [45] else []) @ (if zero then [48] else []) @ width_text w @ 100 # post"
  obtain c g where c: "width_text w @ 100 # post = c # g" "48 \<le> c" by (rule width_head)
  then have "c \<noteq> 37" by auto
  then have ne: "f \<noteq> []" "hd f \<noteq> 37" unfolding f_def c(1) by auto
  have pf: "parse_flags f = (width_text w @ 100 # post, flag_word zero right)" unfolding f_def by (rule parse_flags_text)
  have step: "vprint collect str (37 # f) p = vprint collect str post
      (p\<lparr>args := [], un := un (set_member 32 v p), pc := pc p + length (int_field (sint (ucast v :: u32)) w zero right),
         sink := sink p @ int_field (sint (ucast v :: u32)) w zero right\<rparr>)" if "args p = [v]" for p
    using ne by (simp add: pf parse_width_text[OF assms(3)] directive_d field_out_collect[OF that] un_set_member field_text_int advance_def Let_def)
  have "vprint collect str post q = Inr (q\<lparr>pc := pc q + length post, sink := sink q @ post\<rparr>)" for q
    using vprint_plain[OF assms(2), of str "[]" q] by simp
  then show ?thesis unfolding text_of_def f_def[symmetric] using vprint_plain[OF assms(1), of str "37 # f"]
    by (simp del: vprint.simps add: step)
qed


section \<open>Formats that end in a directive\<close>

lemma skip_zeros_digits: "\<forall>c\<in>set f. 48 \<le> c \<and> c \<le> 57 \<Longrightarrow> \<forall>c\<in>set (fst (skip_zeros f n)). 48 \<le> c \<and> c \<le> 57"
  by (induction f n rule: skip_zeros.induct) auto

lemma number_all_digits: "\<forall>c\<in>set f. 48 \<le> c \<and> c \<le> 57 \<Longrightarrow> fst (number f w) = []"
  by (induction f w rule: number.induct) auto

lemma vprint_ends_in_directive:
  assumes "g \<noteq> []" "\<forall>c\<in>set g. 48 \<le> c \<and> c \<le> 57"
  shows "vprint emit str (37 # g) p = Inl OutOfBounds"
proof -
  have h: "hd g \<noteq> 37" "peek g \<noteq> 45" using assms by (cases g; force simp: peek_def)+
  define f n where "f = fst (skip_zeros g 0)" and "n = snd (skip_zeros g 0)"
  have pf: "parse_flags g = (f, n)" using h(2) by (simp add: parse_flags_def f_def n_def)
  have dg: "\<forall>c\<in>set f. 48 \<le> c \<and> c \<le> 57" using skip_zeros_digits[OF assms(2)] by (simp add: f_def)
  then have "peek f \<noteq> 42" by (cases f) (auto simp: peek_def)
  then obtain w where pw: "parse_width f p = Inr ([], w, p)"
    using number_all_digits[OF dg, of 0] by (cases "number f 0") (simp add: parse_width_def)
  have "directive emit str [] w n p = Inr ([], p)" by (simp add: directive_def peek_def)
  then show ?thesis using assms(1) h(1) pf pw by (simp add: advance_def)
qed

section \<open>Members of the union\<close>

lemma unat_set_member: "unat (push_bit 16 (drop_bit 16 w) OR take_bit 16 v) = unat (ucast v :: u16) + 65536 * unat (drop_bit 16 w)" for w v :: u64
proof -
  have w: "unat w < 2 ^ 64" using unsigned_less[of w, where 'a = nat] by simp
  have a: "unat (take_bit 16 v) = unat (ucast v :: u16)" by (simp only: unsigned_take_bit_eq unsigned_ucast_eq) simp
  have "push_bit 16 (drop_bit 16 (unat w)) \<le> unat w" by (simp add: push_bit_eq_mult drop_bit_eq_div)
  then have "take_bit 64 (push_bit 16 (drop_bit 16 (unat w))) = push_bit 16 (drop_bit 16 (unat w))"
    using w by (intro take_bit_nat_eq_self) linarith
  moreover have dw: "unat (drop_bit 16 w) = drop_bit 16 (unat w)"
    using w by (simp only: unsigned_drop_bit_eq) (simp add: take_bit_nat_eq_self)
  ultimately have b: "unat (push_bit 16 (drop_bit 16 w)) = push_bit 16 (drop_bit 16 (unat w))"
    by (simp only: unsigned_push_bit_eq dw) simp
  have "unat (push_bit 16 (drop_bit 16 w) OR take_bit 16 v) = push_bit 16 (drop_bit 16 (unat w)) OR take_bit 16 (unat v)"
    by (simp only: unsigned_or_eq b unsigned_take_bit_eq)
  also have "... = push_bit 16 (drop_bit 16 (unat w)) + take_bit 16 (unat v)"
    by (rule disjunctive_add[symmetric]) (simp add: bit_push_bit_iff bit_take_bit_iff)
  also have "... = unat (ucast v :: u16) + 65536 * unat (drop_bit 16 w)"
    using a dw by (simp only: unsigned_take_bit_eq push_bit_eq_mult) simp
  finally show ?thesis .
qed

section \<open>The properties\<close>

text \<open>C30: A format with one directive for a signed number, \<^verbatim>\<open>%d\<close> with the flags \<^verbatim>\<open>-\<close> and \<^verbatim>\<open>0\<close> and a width in any
  combination, between texts without directives. Over a line that drains \<^verbatim>\<open>printk\<close> returns and sends the first text,
  the field of the number (sign and decimal digits, padded to the width with blanks or zeros, on the right for \<^verbatim>\<open>-\<close>,
  zeros on the left behind the sign) and the second text, and returns the number of characters.\<close>

theorem printk_int_field:
  assumes "uart_drains D rank sent" "\<forall>c\<in>set pre. c \<noteq> 37" "\<forall>c\<in>set post. c \<noteq> 37" "w < 2 ^ 31"
    and "out = pre @ int_field (sint (ucast v :: u32)) w zero right @ post"
  shows "\<exists>d'. printk D str (pre @ 37 # (if right then [45] else []) @ (if zero then [48] else []) @ width_text w @ 100 # post) [v] u0 d =
      Inr (length out, Some d') \<and> sent d' = sent d @ crlf out"
  using printk_sends[OF assms(1) text_of_int_field[OF assms(2-4)], of str right zero v u0 d] by (simp add: assms(5))

theorem printk_int_field_witness:
  "\<exists>d'. printk fifo_uart (\<lambda>_. []) ([120] @ 37 # [] @ [48] @ width_text 5 @ 100 # [10]) [- 42] 0 (0, []) =
      Inr (7, Some d') \<and> snd d' = [] @ crlf ([120] @ int_field (- 42) 5 True False @ [10])"
proof -
  have v: "sint (ucast (- 42 :: u64) :: u32) = - 42" by simp
  have "length ([120] @ int_field (- 42) 5 True False @ [10]) = 7"
    by (simp add: int_field_def decimal_def digits.simps)
  then show ?thesis
    using printk_int_field[OF fifo_uart_drains, where pre = "[120]" and post = "[10]" and w = 5 and v = "- 42" and zero = True
        and right = False and str = "\<lambda>_. []" and ?u0.0 = 0 and d = "(0, [])", OF _ _ _ refl]
    by (simp add: v)
qed

text \<open>A format that ends inside a directive, behind the width, is read past its terminator: the switch ignores the
  terminator and the loop steps over it. This happens for every device and all arguments, whatever comes before.\<close>

theorem printk_reads_past_format:
  assumes "\<forall>c\<in>set pre. c \<noteq> 37" "g \<noteq> []" "\<forall>c\<in>set g. 48 \<le> c \<and> c \<le> 57"
  shows "printk D str (pre @ 37 # g) as u0 d = Inl OutOfBounds"
proof -
  have "vprint collect str (pre @ 37 # g) (fresh as u0 []) = Inl OutOfBounds"
    unfolding vprint_plain[OF assms(1)] by (rule vprint_ends_in_directive[OF assms(2,3)])
  then show ?thesis by (simp add: printk_text text_of_def)
qed

theorem printk_reads_past_format_witness:
  "printk fifo_uart (\<lambda>_. []) ([49, 48, 48] @ 37 # [53]) [] 0 (0, []) = Inl OutOfBounds"
  by (rule printk_reads_past_format) simp_all

text \<open>\<^verbatim>\<open>%hu\<close> does not print its argument. The argument is stored in the 16-bit member of the union and the 64-bit
  member is printed: the upper 48 bits are those the uninitialised union held before.\<close>

theorem printk_hu_prints_stale_bits:
  assumes "uart_drains D rank sent"
    and "out = decimal (unat (ucast v :: u16) + 65536 * unat (drop_bit 16 u0))"
  shows "\<exists>d'. printk D str [37, 104, 117] [v] u0 d = Inr (length out, Some d') \<and> sent d' = sent d @ crlf out"
proof -
  define u where "u = un (set_member 16 v (fresh [v] u0 ([] :: u8 list)))"
  define n where "n = unat (ucast v :: u16) + 65536 * unat (drop_bit 16 u0)"
  have "uint u = int n" unfolding u_def n_def set_member_def printer.simps uint_nat unat_set_member ..
  then have f: "field_text 10 97 (uint u) 0 0 = out"
    using field_text_int[of "int n" 0 False False] by (simp add: assms(2) n_def[symmetric] flag_word_def int_field_def del: of_nat_add)
  have "directive collect str [104, 117] 0 0 (fresh [v] u0 []) = bindR (field_out collect 16 (\<lambda>u. field_text 10 97 (uint u) 0 0) (fresh [v] u0 [])) (\<lambda>p. Inr ([117], p))"
    by (simp add: directive_def conv_h_def peek_def advance_def conv_field_out)
  then have "vprint collect str [37, 104, 117] (fresh [v] u0 []) = Inr \<lparr>args = [], un = u, pc = length out, sink = out\<rparr>"
    using f by (simp add: parse_flags_def parse_width_def peek_def advance_def field_out_collect u_def[symmetric] Let_def)
  then have t: "text_of str [37, 104, 117] [v] u0 = Inr out" by (simp add: text_of_def)
  show ?thesis by (rule printk_sends[OF assms(1) t])
qed

theorem printk_hu_prints_stale_bits_witness:
  "\<exists>d'. printk fifo_uart (\<lambda>_. []) [37, 104, 117] [5] 0x10000 (0, []) = Inr (5, Some d') \<and> snd d' = [] @ crlf (decimal 65541)"
  using printk_hu_prints_stale_bits[OF fifo_uart_drains refl, of "\<lambda>_. []" 5 "0x10000" "(0, [])"]
proof -
  have "length (decimal 65541) = 5" by (simp add: decimal_def digits.simps)
  moreover have "unat (ucast (5 :: u64) :: u16) + 65536 * unat (drop_bit 16 (0x10000 :: u64)) = 65541" by simp
  ultimately show ?thesis
    using printk_hu_prints_stale_bits[OF fifo_uart_drains refl, of "\<lambda>_. []" 5 "0x10000" "(0, [])"] by (simp only: snd_conv)
qed

end
